(* ===== verification/Faas_Prelude.thy ===== *)
theory Faas_Prelude
  imports Complex_Main "HOL-Library.Sublist" "HOL-Library.List_Lexorder" "HOL-Library.Char_ord"
begin

text \<open>
  Shared vocabulary of the development: the Go integers and durations with their
  wrap-around, the parts of Go's \<open>strings\<close> and \<open>strconv\<close> packages that the
  program uses, reading of integer settings from the environment, and list lemmas
  that several components need.

  Go's \<open>string\<close> is a byte sequence, here the HOL type \<open>string\<close> (a list of 8-bit
  characters). Go's \<open>int\<close> and \<open>int64\<close> are HOL integers; an operation that can leave
  the 64-bit range is written with \<open>wrap64\<close>, a conversion to \<open>int32\<close> with
  \<open>wrap32\<close>.
\<close>

named_theorems go_arith \<open>facts on wrapped integers and durations\<close>
named_theorems go_str \<open>evaluation and case facts for the string operations\<close>

section \<open>Machine integers\<close>

type_synonym go_int = int

definition wrap64 :: "int \<Rightarrow> int" where
  "wrap64 x = (x + 2 ^ 63) mod 2 ^ 64 - 2 ^ 63"

definition wrap32 :: "int \<Rightarrow> int" where
  "wrap32 x = (x + 2 ^ 31) mod 2 ^ 32 - 2 ^ 31"

definition in_int64 :: "int \<Rightarrow> bool" where
  "in_int64 x \<longleftrightarrow> - (2 ^ 63) \<le> x \<and> x < 2 ^ 63"

definition in_int32 :: "int \<Rightarrow> bool" where
  "in_int32 x \<longleftrightarrow> - (2 ^ 31) \<le> x \<and> x < 2 ^ 31"

lemma wrap64_id [go_arith]: "in_int64 x \<Longrightarrow> wrap64 x = x"
  by (simp add: wrap64_def in_int64_def)

lemma wrap64_range: "in_int64 (wrap64 x)"
  by (simp add: wrap64_def in_int64_def)

lemma wrap32_id [go_arith]: "in_int32 x \<Longrightarrow> wrap32 x = x"
  by (simp add: wrap32_def in_int32_def)

lemma wrap32_range: "in_int32 (wrap32 x)"
  by (simp add: wrap32_def in_int32_def)

lemma wrap64_wrap [go_arith]: "wrap64 (wrap64 a + b) = wrap64 (a + b)"
proof -
  have "(wrap64 a + b + 2 ^ 63) mod 2 ^ 64 = ((a + 2 ^ 63) mod 2 ^ 64 + b) mod 2 ^ 64"
    by (simp add: wrap64_def algebra_simps)
  also have "\<dots> = (a + b + 2 ^ 63) mod 2 ^ 64" by (simp add: mod_simps algebra_simps)
  finally show ?thesis by (simp add: wrap64_def)
qed

text \<open>The counter increment \<open>n++\<close> on an \<open>int64\<close>.\<close>

definition incr :: "int \<Rightarrow> int" where
  "incr n = wrap64 (n + 1)"

text \<open>Go's integer division truncates towards zero.\<close>

definition go_div :: "int \<Rightarrow> int \<Rightarrow> int" where
  "go_div a b = sgn a * sgn b * (\<bar>a\<bar> div \<bar>b\<bar>)"

lemma go_div_nonneg [go_arith]: "0 \<le> a \<Longrightarrow> 0 < b \<Longrightarrow> go_div a b = a div b"
  by (cases "a = 0") (simp_all add: go_div_def)

section \<open>Time and durations\<close>

text \<open>
  An instant is a number of nanoseconds and a \<open>time.Duration\<close> an \<open>int64\<close> of
  nanoseconds. \<open>Time.Sub\<close> (hence \<open>time.Since\<close>) saturates at the ends of the
  duration range; multiplying a number of seconds by \<open>time.Second\<close> wraps around.
\<close>

type_synonym time = int
type_synonym duration = int

definition second :: duration where
  "second = 1000000000"

definition minute :: duration where
  "minute = 60 * second"

definition dur_seconds :: "int \<Rightarrow> duration" where
  "dur_seconds n = wrap64 (n * second)"

definition dur_add :: "duration \<Rightarrow> duration \<Rightarrow> duration" where
  "dur_add a b = wrap64 (a + b)"

definition time_sub :: "time \<Rightarrow> time \<Rightarrow> duration" where
  "time_sub t u = max (- (2 ^ 63)) (min (2 ^ 63 - 1) (t - u))"

lemma time_sub_gt [go_arith]:
  "- (2 ^ 63) \<le> d \<Longrightarrow> d < 2 ^ 63 - 1 \<Longrightarrow> time_sub t u > d \<longleftrightarrow> t - u > d"
  by (auto simp: time_sub_def)

lemma time_sub_lt [go_arith]:
  "- (2 ^ 63) < d \<Longrightarrow> d < 2 ^ 63 \<Longrightarrow> time_sub t u < d \<longleftrightarrow> t - u < d"
  by (auto simp: time_sub_def)

lemma dur_seconds_exact [go_arith]:
  "0 \<le> n \<Longrightarrow> n \<le> 9000000000 \<Longrightarrow> dur_seconds n = n * second"
  by (simp add: dur_seconds_def second_def in_int64_def wrap64_id)

section \<open>Strings\<close>

abbreviation has_prefix :: "string \<Rightarrow> string \<Rightarrow> bool" where
  "has_prefix s p \<equiv> prefix p s"

abbreviation has_suffix :: "string \<Rightarrow> string \<Rightarrow> bool" where
  "has_suffix s p \<equiv> suffix p s"

definition trim_prefix :: "string \<Rightarrow> string \<Rightarrow> string" where
  "trim_prefix s p = (if has_prefix s p then drop (length p) s else s)"

definition trim_suffix :: "string \<Rightarrow> string \<Rightarrow> string" where
  "trim_suffix s p = (if has_suffix s p then take (length s - length p) s else s)"

definition cut_suffix :: "string \<Rightarrow> string \<Rightarrow> string \<times> bool" where
  "cut_suffix s p = (if has_suffix s p then (take (length s - length p) s, True) else (s, False))"

definition is_digit :: "char \<Rightarrow> bool" where
  "is_digit c \<longleftrightarrow> (48::nat) \<le> of_char c \<and> of_char c \<le> (57::nat)"

definition is_lower :: "char \<Rightarrow> bool" where
  "is_lower c \<longleftrightarrow> (97::nat) \<le> of_char c \<and> of_char c \<le> (122::nat)"

definition is_upper :: "char \<Rightarrow> bool" where
  "is_upper c \<longleftrightarrow> (65::nat) \<le> of_char c \<and> of_char c \<le> (90::nat)"

definition lower_char :: "char \<Rightarrow> char" where
  "lower_char c = (if is_upper c then char_of (of_char c + (32::nat)) else c)"

text \<open>
  \<open>strings.ToLower\<close> works on code points. Two non-ASCII letters have an ASCII lower
  case (the Kelvin sign U+212A, in UTF-8 E2 84 AA, and the dotted capital I U+0130, C4 B0);
  all others keep a non-ASCII lower case, which every caller in this program treats alike,
  so those bytes are left as they are.
\<close>

definition kelvin_sign :: string where
  "kelvin_sign = [CHR 0xE2, CHR 0x84, CHR 0xAA]"

definition dotted_cap_i :: string where
  "dotted_cap_i = [CHR 0xC4, CHR 0xB0]"

function to_lower :: "string \<Rightarrow> string" where
  "to_lower [] = []"
| "to_lower (c # cs) =
     (if has_prefix (c # cs) kelvin_sign then CHR ''k'' # to_lower (drop 2 cs)
      else if has_prefix (c # cs) dotted_cap_i then CHR ''i'' # to_lower (drop 1 cs)
      else lower_char c # to_lower cs)"
  by pat_completeness auto
termination
  by (relation "measure length") auto

lemma lower_char_id: "\<not> is_upper c \<Longrightarrow> lower_char c = c"
  by (simp add: lower_char_def)

text \<open>\<open>strings.Trim\<close> and \<open>strings.TrimRight\<close> for a one-character cutset.\<close>

definition trim_right_char :: "char \<Rightarrow> string \<Rightarrow> string" where
  "trim_right_char c s = rev (dropWhile ((=) c) (rev s))"

definition trim_char :: "char \<Rightarrow> string \<Rightarrow> string" where
  "trim_char c s = trim_right_char c (dropWhile ((=) c) s)"

lemma trim_right_char_split: "s = trim_right_char c s @ rev (takeWhile ((=) c) (rev s))"
  by (metis rev_append rev_rev_ident takeWhile_dropWhile_id trim_right_char_def)

lemma trim_right_char_prefix: "prefix (trim_right_char c s) s"
  by (metis prefixI trim_right_char_split)

lemma trim_right_char_last: "trim_right_char c s \<noteq> [] \<Longrightarrow> last (trim_right_char c s) \<noteq> c"
  by (metis (full_types) hd_dropWhile last_rev rev_is_Nil_conv trim_right_char_def)

lemma trim_right_char_nonempty: "s \<noteq> [] \<Longrightarrow> hd s \<noteq> c \<Longrightarrow> trim_right_char c s \<noteq> []"
  by (auto simp: trim_right_char_def dest!: list.set_sel(1)[of s])

lemma trim_right_char_hd: "trim_right_char c s \<noteq> [] \<Longrightarrow> hd (trim_right_char c s) = hd s"
  by (metis hd_append2 trim_right_char_split)

lemma trim_right_char_set: "set (trim_right_char c s) \<subseteq> set s"
  by (metis set_mono_prefix trim_right_char_prefix)

lemma trim_right_char_length: "length (trim_right_char c s) \<le> length s"
  by (simp add: prefix_length_le trim_right_char_prefix)

lemma trim_right_char_id: "s = [] \<or> last s \<noteq> c \<Longrightarrow> trim_right_char c s = s"
  by (cases s rule: rev_cases) (auto simp: trim_right_char_def)

lemma trim_char_set: "set (trim_char c s) \<subseteq> set s"
  using trim_right_char_set set_dropWhileD by (fastforce simp: trim_char_def)

lemma trim_char_last: "trim_char c s \<noteq> [] \<Longrightarrow> last (trim_char c s) \<noteq> c"
  by (simp add: trim_char_def trim_right_char_last)

lemma trim_char_hd: "trim_char c s \<noteq> [] \<Longrightarrow> hd (trim_char c s) \<noteq> c"
  unfolding trim_char_def
  by (metis (full_types) hd_dropWhile trim_right_char_hd trim_right_char_id)

lemma trim_char_length: "length (trim_char c s) \<le> length s"
  unfolding trim_char_def using trim_right_char_length length_dropWhile_le le_trans by blast

lemma trim_char_id: "s = [] \<or> (hd s \<noteq> c \<and> last s \<noteq> c) \<Longrightarrow> trim_char c s = s"
  by (cases s) (auto simp: trim_char_def intro!: trim_right_char_id)

text \<open>\<open>strings.TrimSpace\<close> on ASCII text, \<open>strings.SplitN\<close> into two parts at a character, and
  \<open>strings.Index\<close>.\<close>

definition is_space :: "char \<Rightarrow> bool" where
  "is_space c \<longleftrightarrow> c \<in> set [CHR 0x09, CHR 0x0A, CHR 0x0B, CHR 0x0C, CHR 0x0D, CHR '' '']"

definition trim_space :: "string \<Rightarrow> string" where
  "trim_space s = rev (dropWhile is_space (rev (dropWhile is_space s)))"

fun split_first :: "char \<Rightarrow> string \<Rightarrow> (string \<times> string) option" where
  "split_first c [] = None"
| "split_first c (x # xs) =
     (if x = c then Some ([], xs) else map_option (\<lambda>(a, b). (x # a, b)) (split_first c xs))"

fun index_of :: "string \<Rightarrow> string \<Rightarrow> nat option" where
  "index_of [] p = (if p = [] then Some 0 else None)"
| "index_of (c # cs) p = (if has_prefix (c # cs) p then Some 0 else map_option Suc (index_of cs p))"

lemma split_first_Some: "split_first c s = Some (a, b) \<Longrightarrow> s = a @ c # b \<and> c \<notin> set a"
  by (induction s arbitrary: a) (auto split: if_splits)

lemma split_first_at: "c \<notin> set a \<Longrightarrow> split_first c (a @ c # b) = Some (a, b)"
  by (induction a) auto

lemma index_of_bound: "index_of s p = Some i \<Longrightarrow> has_prefix (drop i s) p"
  by (induction s p arbitrary: i rule: index_of.induct) (auto split: if_splits)

lemma index_of_first: "index_of s p = Some i \<Longrightarrow> j < i \<Longrightarrow> \<not> has_prefix (drop j s) p"
proof (induction s p arbitrary: i j rule: index_of.induct)
  case (2 c cs p)
  then show ?case by (cases j) (auto split: if_splits)
qed (auto split: if_splits)

section \<open>Integers in decimal\<close>

datatype num_error = ErrSyntax | ErrRange

definition digit_val :: "char \<Rightarrow> int" where
  "digit_val c = int (of_char c) - 48"

text \<open>The digit loop of \<open>strconv.ParseUint\<close> in base 10 for 64 bits: it stops at the first
  byte that is no digit or that leaves the range.\<close>

fun parse_uint :: "int \<Rightarrow> string \<Rightarrow> int \<times> num_error option" where
  "parse_uint n [] = (n, None)"
| "parse_uint n (c # cs) =
     (if \<not> is_digit c then (0, Some ErrSyntax)
      else if n * 10 + digit_val c > 2 ^ 64 - 1 then (2 ^ 64 - 1, Some ErrRange)
      else parse_uint (n * 10 + digit_val c) cs)"

text \<open>
  \<open>strconv.Atoi\<close>: the value and the error. On a range error the value is the nearest
  64-bit integer, on a syntax error it is 0.
\<close>

definition atoi :: "string \<Rightarrow> int \<times> num_error option" where
  "atoi s =
     (case s of
        [] \<Rightarrow> (0, Some ErrSyntax)
      | c # cs \<Rightarrow>
          (let neg = (c = CHR ''-''); body = (if c = CHR ''-'' \<or> c = CHR ''+'' then cs else s) in
           if body = [] then (0, Some ErrSyntax)
           else (case parse_uint 0 body of
                   (_, Some ErrSyntax) \<Rightarrow> (0, Some ErrSyntax)
                 | (un, _) \<Rightarrow>
                     if \<not> neg \<and> un \<ge> 2 ^ 63 then (2 ^ 63 - 1, Some ErrRange)
                     else if neg \<and> un > 2 ^ 63 then (- (2 ^ 63), Some ErrRange)
                     else (if neg then - un else un, None))))"

text \<open>Formatting with \<open>%d\<close>.\<close>

fun nat_digits :: "nat \<Rightarrow> string" where
  "nat_digits n = (if n < 10 then [char_of (48 + n)] else nat_digits (n div 10) @ [char_of (48 + n mod 10)])"

declare nat_digits.simps [simp del]

definition itoa :: "int \<Rightarrow> string" where
  "itoa n = (if n < 0 then CHR ''-'' # nat_digits (nat (- n)) else nat_digits (nat n))"

lemma digit_char [go_str]:
  "d < 10 \<Longrightarrow> is_digit (char_of (48 + d :: nat))"
  "d < 10 \<Longrightarrow> digit_val (char_of (48 + d :: nat)) = int d"
  by (simp_all add: is_digit_def digit_val_def of_char_of)

lemma nat_digits_digit: "c \<in> set (nat_digits n) \<Longrightarrow> is_digit c"
proof (induction n rule: nat_digits.induct)
  case (1 n)
  then show ?case
    by (subst (asm) (2) nat_digits.simps) (auto split: if_splits intro: digit_char)
qed

lemma nat_digits_value: "foldl (\<lambda>a c. 10 * a + digit_val c) 0 (nat_digits n) = int n"
proof (induction n rule: nat_digits.induct)
  case (1 n)
  have "10 * int (n div 10) + int (n mod 10) = int n" by presburger
  then show ?case
    using 1 by (subst nat_digits.simps) (simp add: digit_char)
qed

lemma nat_digits_inj: "nat_digits m = nat_digits n \<Longrightarrow> m = n"
  by (metis nat_digits_value of_nat_eq_iff)

lemma itoa_inj: "itoa a = itoa b \<Longrightarrow> a = b"
proof -
  have "nat_digits k \<noteq> CHR ''-'' # s" for k s
    using nat_digits_digit [of "CHR ''-''" k] by (auto simp: is_digit_def)
  moreover have "CHR ''-'' # s \<noteq> nat_digits k" for k s
    using nat_digits_digit [of "CHR ''-''" k] by (metis calculation)
  ultimately show "itoa a = itoa b \<Longrightarrow> a = b"
    using nat_digits_inj by (fastforce simp: itoa_def split: if_splits)
qed

lemma nat_digits_nonempty: "nat_digits n \<noteq> []"
  by (subst nat_digits.simps) simp

lemma parse_uint_append:
  "parse_uint a xs = (m, None) \<Longrightarrow> parse_uint a (xs @ ys) = parse_uint m ys"
  by (induction a xs rule: parse_uint.induct) (auto split: if_splits)

lemma parse_uint_digits:
  "int n \<le> 2 ^ 64 - 1 \<Longrightarrow> parse_uint 0 (nat_digits n) = (int n, None)"
proof (induction n rule: nat_digits.induct)
  case (1 n)
  show ?case
  proof (cases "n < 10")
    case True
    then show ?thesis by (subst nat_digits.simps) (simp add: digit_char)
  next
    case False
    with 1 have "parse_uint 0 (nat_digits (n div 10)) = (int (n div 10), None)" by simp
    moreover have "int (n div 10) * 10 + int (n mod 10) = int n" by presburger
    ultimately show ?thesis
      using parse_uint_append [of 0 _ "int (n div 10)" "[char_of (48 + n mod 10)]"] False 1(2)
      by (subst nat_digits.simps) (simp add: digit_char)
  qed
qed

lemma atoi_itoa: "in_int64 n \<Longrightarrow> atoi (itoa n) = (n, None)"
proof -
  assume n: "in_int64 n"
  obtain d ds where ds: "nat_digits (nat n) = d # ds"
    by (meson nat_digits_nonempty neq_Nil_conv)
  have "is_digit d" using nat_digits_digit [of d "nat n"] ds by simp
  then have "d \<noteq> CHR ''-'' \<and> d \<noteq> CHR ''+''" by (auto simp: is_digit_def)
  moreover have "0 \<le> n \<Longrightarrow> parse_uint 0 (nat_digits (nat n)) = (n, None)"
    using parse_uint_digits [of "nat n"] n by (simp add: in_int64_def)
  moreover have "n < 0 \<Longrightarrow> parse_uint 0 (nat_digits (nat (- n))) = (- n, None)"
    using parse_uint_digits [of "nat (- n)"] n by (simp add: in_int64_def)
  ultimately show ?thesis
    using n ds nat_digits_nonempty [of "nat (- n)"]
    by (auto simp: atoi_def itoa_def in_int64_def)
qed

text \<open>
  \<open>os.Getenv\<close> yields the empty string for an unset variable; \<open>envInt\<close> falls back to
  the default when the value is empty or no integer.
\<close>

type_synonym env = "string \<Rightarrow> string"

definition env_int :: "env \<Rightarrow> string \<Rightarrow> int \<Rightarrow> int" where
  "env_int env key def =
     (let v = env key in
      if v \<noteq> [] then (case atoi v of (n, None) \<Rightarrow> n | (_, Some _) \<Rightarrow> def) else def)"

section \<open>Lists and maps\<close>

text \<open>Counting the elements with a property, and how an update of one element changes the
  count: the shape of every "number of requests in this phase" argument.\<close>

definition count_if :: "('a \<Rightarrow> bool) \<Rightarrow> 'a list \<Rightarrow> nat" where
  "count_if P xs = length (filter P xs)"

lemma count_if_simps [simp]:
  "count_if P [] = 0"
  "count_if P (x # xs) = (if P x then Suc (count_if P xs) else count_if P xs)"
  "count_if P (xs @ ys) = count_if P xs + count_if P ys"
  by (simp_all add: count_if_def)

lemma count_if_update:
  "i < length xs \<Longrightarrow>
   count_if P (xs[i := y]) + (if P (xs ! i) then 1 else 0) = count_if P xs + (if P y then 1 else 0)"
proof (induction xs arbitrary: i)
  case (Cons x xs)
  then show ?case by (cases i) auto
qed simp

lemma count_if_pos: "i < length xs \<Longrightarrow> P (xs ! i) \<Longrightarrow> 0 < count_if P xs"
  by (auto simp: count_if_def filter_empty_conv intro: nth_mem)

lemma count_if_le: "count_if P xs \<le> length xs"
  by (simp add: count_if_def)

text \<open>Replacing one element by a lighter one makes the sum of the weights smaller: the
  measure of every "each request makes progress" argument.\<close>

lemma sum_update_less:
  "i < length xs \<Longrightarrow> f y < f (xs ! i) \<Longrightarrow> sum_list (map f (xs[i := y])) < sum_list (map f xs)"
  for f :: "'a \<Rightarrow> nat"
proof (induction xs arbitrary: i)
  case (Cons x xs)
  then show ?case by (cases i) auto
qed simp

text \<open>The last \<open>n\<close> elements of a list.\<close>

definition take_last :: "nat \<Rightarrow> 'a list \<Rightarrow> 'a list" where
  "take_last n xs = drop (length xs - n) xs"

lemma take_last_length [simp]: "length (take_last n xs) = min n (length xs)"
  by (simp add: take_last_def)

lemma take_last_all: "length xs \<le> n \<Longrightarrow> take_last n xs = xs"
  by (simp add: take_last_def)

lemma take_last_snoc: "0 < n \<Longrightarrow> take_last n (take_last n xs @ [x]) = take_last n (xs @ [x])"
  by (cases "length xs \<le> n") (auto simp: take_last_def Suc_diff_le)

lemma take_last_take_last: "m \<le> n \<Longrightarrow> take_last m (take_last n xs) = take_last m xs"
  by (cases "length xs \<le> n") (auto simp: take_last_def)

text \<open>A Go map read with the zero value for a missing key, for slice-valued maps.\<close>

definition get_list :: "('k \<rightharpoonup> 'a list) \<Rightarrow> 'k \<Rightarrow> 'a list" where
  "get_list m k = (case m k of None \<Rightarrow> [] | Some xs \<Rightarrow> xs)"

lemma get_list_simps [simp]:
  "get_list (m(k \<mapsto> xs)) k = xs"
  "j \<noteq> k \<Longrightarrow> get_list (m(k \<mapsto> xs)) j = get_list m j"
  "get_list (m(k := None)) k = []"
  "j \<noteq> k \<Longrightarrow> get_list (m(k := None)) j = get_list m j"
  "get_list Map.empty j = []"
  by (simp_all add: get_list_def)

text \<open>The order in which a Go \<open>range\<close> loop visits a map is unspecified; a list \<open>ks\<close>
  stands for one such order: every key once.\<close>

definition range_order :: "('k \<rightharpoonup> 'v) \<Rightarrow> 'k list \<Rightarrow> bool" where
  "range_order m ks \<longleftrightarrow> distinct ks \<and> set ks = dom m"

end
