(* ===== verification/Paths.thy ===== *)
theory Paths
  imports Faas_Prelude
begin

text \<open>
  Slash-separated paths as the program uses them: splitting and joining, and the cleaning
  of an absolute path (\<open>filepath.Clean\<close>, \<open>filepath.Join\<close>, \<open>filepath.Abs\<close> on Unix and
  \<open>path.Clean\<close> in \<open>http.ServeMux\<close>). A clean path is a list of components.
\<close>

fun split_on :: "char \<Rightarrow> string \<Rightarrow> string list" where
  "split_on c [] = [[]]"
| "split_on c (x # xs) =
     (if x = c then [] # split_on c xs
      else (case split_on c xs of [] \<Rightarrow> [[x]] | w # ws \<Rightarrow> (x # w) # ws))"

fun join_with :: "char \<Rightarrow> string list \<Rightarrow> string" where
  "join_with c [] = []"
| "join_with c [w] = w"
| "join_with c (w # v # ws) = w @ c # join_with c (v # ws)"

lemma split_on_nonempty: "split_on c s \<noteq> []"
  by (induction s) (auto split: list.split)

lemma split_on_nochar [simp]: "c \<notin> set s \<Longrightarrow> split_on c s = [s]"
  by (induction s) auto

lemma split_on_append: "c \<notin> set w \<Longrightarrow> split_on c (w @ c # s) = w # split_on c s"
  by (induction w) auto

lemma split_on_sep: "split_on c (s @ c # t) = split_on c s @ split_on c t"
proof (induction s)
  case (Cons x s)
  then show ?case using split_on_nonempty [of c s] by (auto split: list.split)
qed simp

lemma split_on_no_sep: "w \<in> set (split_on c s) \<Longrightarrow> c \<notin> set w"
proof (induction s arbitrary: w)
  case (Cons x s)
  then show ?case by (auto split: list.splits if_splits)
qed simp

lemma split_join: "ws \<noteq> [] \<Longrightarrow> \<forall>w \<in> set ws. c \<notin> set w \<Longrightarrow> split_on c (join_with c ws) = ws"
  by (induction c ws rule: join_with.induct) (auto simp: split_on_append)

lemma join_split: "join_with c (split_on c s) = s"
proof (induction s)
  case (Cons x s)
  then show ?case
    using split_on_nonempty [of c s] by (cases "split_on c s"; cases "tl (split_on c s)") auto
qed simp

lemma join_append:
  "us \<noteq> [] \<Longrightarrow> vs \<noteq> [] \<Longrightarrow> join_with c (us @ vs) = join_with c us @ c # join_with c vs"
proof (induction c us rule: join_with.induct)
  case (2 c w)
  then show ?case by (cases vs) auto
qed auto

section \<open>Cleaning\<close>

text \<open>A component that cleaning keeps.\<close>

definition comp_ok :: "string \<Rightarrow> bool" where
  "comp_ok w \<longleftrightarrow> w \<noteq> [] \<and> w \<noteq> ''.'' \<and> w \<noteq> ''..'' \<and> CHR ''/'' \<notin> set w"

fun clean_comps :: "string list \<Rightarrow> string list \<Rightarrow> string list" where
  "clean_comps acc [] = acc"
| "clean_comps acc (w # ws) =
     (if w = [] \<or> w = ''.'' then clean_comps acc ws
      else if w = ''..'' then clean_comps (butlast acc) ws
      else clean_comps (acc @ [w]) ws)"

definition render :: "string list \<Rightarrow> string" where
  "render ws = CHR ''/'' # join_with CHR ''/'' ws"

definition abs_clean :: "string \<Rightarrow> string" where
  "abs_clean p = render (clean_comps [] (split_on CHR ''/'' p))"

lemma clean_comps_ok:
  "list_all comp_ok acc \<Longrightarrow> \<forall>w \<in> set ws. CHR ''/'' \<notin> set w \<Longrightarrow> list_all comp_ok (clean_comps acc ws)"
proof (induction acc ws rule: clean_comps.induct)
  case (2 acc w ws)
  have "list_all comp_ok (butlast acc)"
    using 2(4) by (metis append_butlast_last_id butlast.simps(1) list_all_append)
  moreover have "w \<noteq> [] \<Longrightarrow> w \<noteq> ''.'' \<Longrightarrow> w \<noteq> ''..'' \<Longrightarrow> comp_ok w"
    using 2(5) by (simp add: comp_ok_def)
  ultimately show ?case using 2 by simp
qed simp

lemma clean_comps_fix: "list_all comp_ok ws \<Longrightarrow> clean_comps acc ws = acc @ ws"
  by (induction acc ws rule: clean_comps.induct) (auto simp: comp_ok_def)

lemma clean_comps_append: "clean_comps acc (us @ vs) = clean_comps (clean_comps acc us) vs"
  by (induction acc us rule: clean_comps.induct) auto

lemma split_render: "list_all comp_ok ws \<Longrightarrow> ws \<noteq> [] \<Longrightarrow> split_on CHR ''/'' (render ws) = [] # ws"
  by (simp add: render_def split_join list_all_iff comp_ok_def)

lemma clean_render: "list_all comp_ok ws \<Longrightarrow> clean_comps [] (split_on CHR ''/'' (render ws)) = ws"
  by (cases "ws = []") (simp_all add: split_render clean_comps_fix, simp add: render_def)

lemma abs_clean_render: "list_all comp_ok ws \<Longrightarrow> abs_clean (render ws) = render ws"
  by (simp add: abs_clean_def clean_render)

lemma render_inj: "list_all comp_ok us \<Longrightarrow> list_all comp_ok vs \<Longrightarrow> render us = render vs \<longleftrightarrow> us = vs"
  using clean_render by metis

text \<open>On clean paths the textual prefix test with a closing slash is the component-wise one.\<close>

lemma prefix_render:
  assumes "list_all comp_ok us" "us \<noteq> []" "list_all comp_ok vs"
  shows "prefix (render us @ ''/'') (render vs) \<longleftrightarrow> strict_prefix us vs"
proof
  assume "prefix (render us @ ''/'') (render vs)"
  then obtain t where t: "render vs = render us @ CHR ''/'' # t" by (auto simp: prefix_def)
  then have "vs \<noteq> []" using assms(2) by (cases vs; cases us) (auto simp: render_def)
  then have "[] # vs = split_on CHR ''/'' (render us @ CHR ''/'' # t)"
    using split_render [OF assms(3)] t by simp
  also have "\<dots> = ([] # us) @ split_on CHR ''/'' t"
    using split_render [OF assms(1,2)] by (simp add: split_on_sep)
  finally show "strict_prefix us vs"
    using split_on_nonempty [of "CHR ''/''" t] by (auto simp: strict_prefix_def prefix_def)
next
  assume "strict_prefix us vs"
  then obtain ws where "vs = us @ ws" "ws \<noteq> []" by (auto simp: strict_prefix_def prefix_def)
  then show "prefix (render us @ ''/'') (render vs)"
    using assms(2) by (simp add: render_def join_append)
qed

end
