(* ===== verification/Labels.thy ===== *)
theory Labels
  imports Faas_Prelude
begin

text \<open>
  The two label normalisers of the program: \<open>dnsLabel\<close> of the gateway scheduler
  (gateway/scheduler/k8s_backend.go), which every function name and trigger id goes
  through, and \<open>dnsLabel\<close>/\<open>isDNSLabel\<close> of mqsvc (mqsvc/config.go). Both promise the
  same contract, the locale \<open>label_normaliser\<close>: the image is well-formed and well-formed
  strings are fixed points. Its client lemmas (a valid name is its own label, holds no path
  separator, is bounded) are proved once and interpreted for both.
\<close>

definition dns_char :: "char \<Rightarrow> bool" where
  "dns_char c \<longleftrightarrow> is_lower c \<or> is_digit c \<or> c = CHR ''-''"

text \<open>\<open>label_ok n s\<close>: a non-empty string of at most \<open>n\<close> label characters that neither
  starts nor ends with a dash.\<close>

definition label_ok :: "nat \<Rightarrow> string \<Rightarrow> bool" where
  "label_ok n s \<longleftrightarrow> s \<noteq> [] \<and> length s \<le> n \<and> list_all dns_char s \<and> hd s \<noteq> CHR ''-'' \<and> last s \<noteq> CHR ''-''"

section \<open>The gateway's normaliser\<close>

text \<open>Replacing every run matched by \<open>[^a-z0-9-]+\<close> with one dash; the flag says that
  the previous character belongs to the run.\<close>

fun replace_runs :: "bool \<Rightarrow> string \<Rightarrow> string" where
  "replace_runs r [] = []"
| "replace_runs r (c # cs) =
     (if dns_char c then c # replace_runs False cs
      else if r then replace_runs True cs
      else CHR ''-'' # replace_runs True cs)"

definition dnsLabel :: "string \<Rightarrow> string" where
  "dnsLabel s =
     (let s = to_lower s; s = replace_runs False s; s = trim_char CHR ''-'' s in
      if s = [] then ''fn''
      else if length s > 40 then trim_char CHR ''-'' (take 40 s)
      else s)"

definition isValidFunctionName :: "string \<Rightarrow> bool" where
  "isValidFunctionName name \<longleftrightarrow> name = dnsLabel name"

section \<open>The normaliser and the check of mqsvc\<close>

text \<open>The loop over the runes with the string built so far and the \<open>lastDash\<close> flag.\<close>

fun mq_label_loop :: "string \<Rightarrow> bool \<Rightarrow> string \<Rightarrow> string" where
  "mq_label_loop b last_dash [] = b"
| "mq_label_loop b last_dash (c # cs) =
     (if is_lower c \<or> is_digit c then mq_label_loop (b @ [c]) False cs
      else if c = CHR ''-'' \<and> b \<noteq> [] \<and> \<not> last_dash then mq_label_loop (b @ [CHR ''-'']) True cs
      else mq_label_loop b last_dash cs)"

definition mq_dnsLabel :: "string \<Rightarrow> string" where
  "mq_dnsLabel s =
     (let out = trim_char CHR ''-'' (mq_label_loop [] False (to_lower s)) in
      if length out > 63 then trim_right_char CHR ''-'' (take 63 out) else out)"

definition isDNSLabel :: "string \<Rightarrow> bool" where
  "isDNSLabel s =
     (if s = [] \<or> length s > 63 \<or> has_prefix s ''-'' \<or> has_suffix s ''-'' then False
      else list_all (\<lambda>c. is_lower c \<or> is_digit c \<or> c = CHR ''-'') s)"

section \<open>The common contract\<close>

locale label_normaliser =
  fixes label :: "string \<Rightarrow> string" and ok :: "string \<Rightarrow> bool" and bound :: nat
  assumes label_image: "ok (label s)"
    and label_fix: "ok s \<Longrightarrow> label s = s"
    and ok_chars: "ok s \<Longrightarrow> list_all dns_char s"
    and ok_bound: "ok s \<Longrightarrow> length s \<le> bound"
begin

lemma normalise_idem: "label (label s) = label s"
  by (rule label_fix [OF label_image])

lemma fixed_iff_ok: "s = label s \<longleftrightarrow> ok s"
  using label_image label_fix by metis

lemma fixed_no_char: "s = label s \<Longrightarrow> \<not> dns_char c \<Longrightarrow> c \<notin> set s"
  using ok_chars unfolding fixed_iff_ok by (auto simp: list_all_iff)

lemma image_no_char: "\<not> dns_char c \<Longrightarrow> c \<notin> set (label s)"
  using ok_chars [OF label_image] by (auto simp: list_all_iff)

lemma image_bound: "length (label s) \<le> bound"
  by (rule ok_bound [OF label_image])

end

section \<open>Character facts\<close>

lemma dns_char_lower [simp]: "dns_char c \<Longrightarrow> \<not> is_upper c"
  by (auto simp: dns_char_def is_lower_def is_upper_def is_digit_def)

lemma dns_char_ascii: "dns_char c \<Longrightarrow> (of_char c :: nat) < 128"
  by (auto simp: dns_char_def is_lower_def is_digit_def)

lemma not_dns_char [simp]:
  "\<not> dns_char CHR ''/''" "\<not> dns_char CHR ''.''" "\<not> dns_char CHR '':''" "\<not> dns_char CHR 0x27"
  by (simp_all add: dns_char_def is_lower_def is_digit_def)

lemma dns_char_dash [simp]: "dns_char CHR ''-''"
  by (simp add: dns_char_def)

lemma to_lower_dns: "list_all dns_char s \<Longrightarrow> to_lower s = s"
proof (induction s)
  case (Cons c cs)
  then have "(of_char c :: nat) < 128" by (simp add: dns_char_ascii)
  then have "c \<noteq> CHR 0xE2 \<and> c \<noteq> CHR 0xC4" by auto
  with Cons show ?case by (auto simp: kelvin_sign_def dotted_cap_i_def lower_char_id)
qed simp

lemma replace_runs_chars: "list_all dns_char (replace_runs r s)"
  by (induction r s rule: replace_runs.induct) auto

lemma replace_runs_id: "list_all dns_char s \<Longrightarrow> replace_runs r s = s"
  by (induction r s rule: replace_runs.induct) auto

text \<open>The mqsvc loop: what it appends, and strings it leaves alone.\<close>

fun no_double_dash :: "string \<Rightarrow> bool" where
  "no_double_dash (a # b # cs) \<longleftrightarrow> \<not> (a = CHR ''-'' \<and> b = CHR ''-'') \<and> no_double_dash (b # cs)"
| "no_double_dash _ \<longleftrightarrow> True"

lemma list_all_subset: "set ys \<subseteq> set xs \<Longrightarrow> list_all P xs \<Longrightarrow> list_all P ys"
  by (auto simp: list_all_iff)

lemma label_ok_take:
  assumes "s \<noteq> []" "hd s \<noteq> CHR ''-''" "list_all dns_char s"
  shows "label_ok n (trim_right_char CHR ''-'' (take (Suc m) s)) \<longleftrightarrow>
         length (trim_right_char CHR ''-'' (take (Suc m) s)) \<le> n"
proof -
  let ?t = "trim_right_char CHR ''-'' (take (Suc m) s)"
  from assms have "take (Suc m) s \<noteq> []" "hd (take (Suc m) s) \<noteq> CHR ''-''" by simp_all
  then have "?t \<noteq> []" "hd ?t \<noteq> CHR ''-''"
    by (simp_all add: trim_right_char_nonempty trim_right_char_hd)
  moreover have "set ?t \<subseteq> set s"
    using trim_right_char_set set_take_subset by fastforce
  ultimately show ?thesis
    using assms(3) list_all_subset [of ?t s] by (auto simp: label_ok_def trim_right_char_last)
qed

lemma dnsLabel_ok: "label_ok 40 (dnsLabel s)"
proof -
  let ?r = "replace_runs False (to_lower s)"
  let ?t = "trim_char CHR ''-'' ?r"
  have chars: "list_all dns_char ?t"
    by (rule list_all_subset [OF trim_char_set replace_runs_chars])
  have take: "?t \<noteq> [] \<Longrightarrow> trim_char CHR ''-'' (take 40 ?t) = trim_right_char CHR ''-'' (take 40 ?t)"
    using trim_char_hd [of "CHR ''-''" ?r] by (cases ?t) (auto simp: trim_char_def)
  have len: "length (trim_right_char CHR ''-'' (take 40 ?t)) \<le> 40"
    using trim_right_char_length [of _ "take 40 ?t"] by simp
  show ?thesis
    using chars label_ok_take [of ?t 40 39] trim_char_hd [of "CHR ''-''" ?r]
      trim_char_last [of "CHR ''-''" ?r] take len
    by (auto simp: dnsLabel_def Let_def label_ok_def dns_char_def is_lower_def)
qed

lemma dnsLabel_fix: "label_ok 40 s \<Longrightarrow> dnsLabel s = s"
  by (simp add: label_ok_def dnsLabel_def to_lower_dns replace_runs_id trim_char_id)

interpretation gw_label: label_normaliser dnsLabel "label_ok 40" 40
  by unfold_locales (auto simp: dnsLabel_ok dnsLabel_fix, auto simp: label_ok_def)

section \<open>mqsvc's normaliser meets the contract\<close>

definition mq_label_ok :: "string \<Rightarrow> bool" where
  "mq_label_ok s \<longleftrightarrow> s = [] \<or> (label_ok 63 s \<and> no_double_dash s)"

lemma no_double_dash_append:
  "no_double_dash (xs @ ys) \<longleftrightarrow> no_double_dash xs \<and> no_double_dash ys \<and>
     \<not> (xs \<noteq> [] \<and> ys \<noteq> [] \<and> last xs = CHR ''-'' \<and> hd ys = CHR ''-'')"
  by (induction xs rule: no_double_dash.induct; cases ys) auto

lemma no_double_dash_trim: "no_double_dash s \<Longrightarrow> no_double_dash (trim_right_char c s)"
  by (metis no_double_dash_append trim_right_char_split)

lemma no_double_dash_trim_char: "no_double_dash s \<Longrightarrow> no_double_dash (trim_char c s)"
  unfolding trim_char_def
  by (metis no_double_dash_append no_double_dash_trim takeWhile_dropWhile_id)

lemma mq_label_loop_inv:
  "list_all dns_char b \<Longrightarrow> no_double_dash b \<Longrightarrow> last_dash = (b \<noteq> [] \<and> last b = CHR ''-'') \<Longrightarrow>
   list_all dns_char (mq_label_loop b last_dash s) \<and> no_double_dash (mq_label_loop b last_dash s)"
proof (induction b last_dash s rule: mq_label_loop.induct)
  case (2 b last_dash c cs)
  have "is_lower c \<or> is_digit c \<Longrightarrow> dns_char c \<and> c \<noteq> CHR ''-''"
    by (auto simp: dns_char_def is_lower_def is_digit_def)
  with 2 show ?case by (auto simp: no_double_dash_append)
qed simp

lemma mq_label_loop_id:
  "list_all dns_char s \<Longrightarrow> no_double_dash s \<Longrightarrow>
   (b = [] \<or> last_dash \<Longrightarrow> s = [] \<or> hd s \<noteq> CHR ''-'') \<Longrightarrow> mq_label_loop b last_dash s = b @ s"
proof (induction b last_dash s rule: mq_label_loop.induct)
  case (2 b last_dash c cs)
  from 2(4,5) have cs: "list_all dns_char cs" "no_double_dash cs" and c: "dns_char c"
    and next_dash: "c = CHR ''-'' \<Longrightarrow> cs = [] \<or> hd cs \<noteq> CHR ''-''"
    by (auto simp: no_double_dash_append [of "[c]" cs, simplified] neq_Nil_conv)
  show ?case
  proof (cases "c = CHR ''-''")
    case True
    then show ?thesis using 2(2) 2(6) cs next_dash by (auto simp: is_lower_def is_digit_def)
  next
    case False
    with c have "is_lower c \<or> is_digit c" by (simp add: dns_char_def)
    with 2(1) cs show ?thesis by simp
  qed
qed simp

lemma mq_dnsLabel_ok: "mq_label_ok (mq_dnsLabel s)"
proof -
  let ?l = "mq_label_loop [] False (to_lower s)"
  let ?t = "trim_char CHR ''-'' ?l"
  have loop: "list_all dns_char ?l" "no_double_dash ?l"
    using mq_label_loop_inv [of "[]" False] by simp_all
  then have t: "list_all dns_char ?t" "no_double_dash ?t"
    using list_all_subset [OF trim_char_set] no_double_dash_trim_char by blast+
  then have tk: "no_double_dash (trim_right_char CHR ''-'' (take 63 ?t))"
    by (metis append_take_drop_id no_double_dash_append no_double_dash_trim)
  have len: "length (trim_right_char CHR ''-'' (take 63 ?t)) \<le> 63"
    using trim_right_char_length [of _ "take 63 ?t"] by simp
  have short: "label_ok 63 ?t" if "?t \<noteq> []" "\<not> length ?t > 63"
    using that t trim_char_hd trim_char_last by (auto simp: label_ok_def)
  have long: "label_ok 63 (trim_right_char CHR ''-'' (take 63 ?t))" if "length ?t > 63"
  proof -
    from that have "?t \<noteq> []" by auto
    with t len label_ok_take [of ?t 63 62] trim_char_hd [of "CHR ''-''" ?l] show ?thesis by simp
  qed
  show ?thesis
    unfolding mq_dnsLabel_def Let_def mq_label_ok_def using t tk short long by (auto split: if_splits)
qed

lemma mq_dnsLabel_fix: "mq_label_ok s \<Longrightarrow> mq_dnsLabel s = s"
proof -
  assume ok: "mq_label_ok s"
  then have "mq_label_loop [] False (to_lower s) = s"
    using mq_label_loop_id [of s "[]" False] by (auto simp: mq_label_ok_def label_ok_def to_lower_dns)
  with ok show ?thesis
    by (auto simp: mq_dnsLabel_def mq_label_ok_def label_ok_def trim_char_id)
qed

interpretation mq_label: label_normaliser mq_dnsLabel mq_label_ok 63
  by unfold_locales
    (auto simp: mq_dnsLabel_ok mq_dnsLabel_fix, auto simp: mq_label_ok_def label_ok_def)

lemma isDNSLabel_label_ok: "isDNSLabel s = label_ok 63 s"
proof -
  have "s \<noteq> [] \<Longrightarrow> has_suffix s ''-'' \<longleftrightarrow> last s = CHR ''-''"
    by (cases s rule: rev_cases) (auto simp: suffix_def)
  then show ?thesis
    by (cases s) (auto simp: isDNSLabel_def label_ok_def dns_char_def list_all_iff)
qed

section \<open>Properties\<close>

text \<open>A function name is accepted exactly when it is a label of at most 40 characters of
  \<open>[a-z0-9-]\<close> without a dash at either end. Normalising any string gives an accepted
  name, which holds no slash, dot or colon: the directory \<open>/tmp/faas/<label>\<close>, the
  container name and the pod name built from it cannot be steered elsewhere.\<close>

theorem valid_name_iff_label:
  "(isValidFunctionName name \<longleftrightarrow> label_ok 40 name) \<and> isValidFunctionName (dnsLabel s) \<and>
   CHR ''/'' \<notin> set (dnsLabel s) \<and> CHR ''.'' \<notin> set (dnsLabel s) \<and> CHR '':'' \<notin> set (dnsLabel s)"
  using gw_label.fixed_iff_ok gw_label.normalise_idem gw_label.image_no_char
  by (auto simp: isValidFunctionName_def)

text \<open>The two services agree on function names but not on trigger ids: every name the
  gateway registers passes mqsvc's \<open>isDNSLabel\<close>, while a label the gateway accepts as a
  trigger id is accepted by mqsvc's configuration check exactly when it has no two
  consecutive dashes (\<open>a--b\<close> is registered by one and refused by the other).\<close>

theorem gateway_label_in_mqsvc:
  assumes "isValidFunctionName s"
  shows "isDNSLabel s \<and> (s = mq_dnsLabel s \<longleftrightarrow> no_double_dash s)"
proof -
  from assms have ok: "label_ok 40 s" using gw_label.fixed_iff_ok by (simp add: isValidFunctionName_def)
  then have "label_ok 63 s" by (auto simp: label_ok_def)
  with ok show ?thesis
    using mq_label.fixed_iff_ok [of s] by (auto simp: isDNSLabel_label_ok mq_label_ok_def label_ok_def)
qed

theorem gateway_label_in_mqsvc_witness:
  "isValidFunctionName ''a--b'' \<and> isDNSLabel ''a--b'' \<and> ''a--b'' \<noteq> mq_dnsLabel ''a--b''"
proof -
  have v: "isValidFunctionName ''a--b''" by code_simp
  moreover have "\<not> no_double_dash ''a--b''" by simp
  ultimately show ?thesis using gateway_label_in_mqsvc [OF v] by blast
qed

end
