(* ===== verification/Registry.thy ===== *)
theory Registry
  imports Labels
begin

text \<open>
  The data of a registered function (gateway/scheduler/scheduler.go: \<open>FunctionConfig\<close>,
  \<open>TriggerConfig\<close>, \<open>MQTrigger\<close>), the validation of its triggers and the part of
  \<open>Scheduler.Register\<close> that runs before the lock is taken: defaults and checks, in the
  order of the code. Error values are constructors in place of the formatted messages.
\<close>

record trigger_config =
  tc_id :: string
  tc_type :: string
  tc_enabled :: bool
  tc_mq_id :: string
  tc_queue :: string
  tc_max_concurrency :: int
  tc_prefetch :: int
  tc_max_attempts :: int
  tc_retry_backoff_ms :: int
  tc_dlq :: string

record function_config =
  fc_name :: string
  fc_image :: string
  fc_runtime :: string
  fc_timeout :: int
  fc_memory :: int
  fc_handler :: string
  fc_triggers :: "trigger_config list"
  fc_code_dir :: string
  fc_code_key :: string
  fc_code_url :: string
  fc_port :: int

record mq_trigger =
  mt_id :: string
  mt_type :: string
  mt_enabled :: bool
  mt_mq_id :: string
  mt_queue :: string
  mt_function :: string
  mt_max_concurrency :: int
  mt_prefetch :: int
  mt_max_attempts :: int
  mt_retry_backoff_ms :: int
  mt_dlq :: string

datatype trigger_error =
    TriggerIdRequired
  | InvalidTriggerId string
  | DuplicateTriggerId string
  | UnsupportedTriggerType string
  | NegativeMaxConcurrency string
  | NegativePrefetch string
  | NegativeMaxAttempts string
  | NegativeRetryBackoff string
  | TriggerRequiresMQID string
  | TriggerRequiresQueue string

datatype register_error =
    InvalidFunctionName string
  | UnsupportedRuntime string
  | BadTrigger trigger_error
  | AlreadyRegistered
  | SaveMetadataFailed

section \<open>Triggers\<close>

text \<open>The loop body: \<open>None\<close> goes on to the next trigger.\<close>

definition validate_trigger :: "string list \<Rightarrow> trigger_config \<Rightarrow> trigger_error option" where
  "validate_trigger seen t =
     (if tc_id t = [] then Some TriggerIdRequired
      else if tc_id t \<noteq> dnsLabel (tc_id t) then Some (InvalidTriggerId (tc_id t))
      else if tc_id t \<in> set seen then Some (DuplicateTriggerId (tc_id t))
      else if tc_type t \<noteq> ''mq'' then Some (UnsupportedTriggerType (tc_type t))
      else if tc_max_concurrency t < 0 then Some (NegativeMaxConcurrency (tc_id t))
      else if tc_prefetch t < 0 then Some (NegativePrefetch (tc_id t))
      else if tc_max_attempts t < 0 then Some (NegativeMaxAttempts (tc_id t))
      else if tc_retry_backoff_ms t < 0 then Some (NegativeRetryBackoff (tc_id t))
      else if \<not> tc_enabled t then None
      else if tc_mq_id t = [] then Some (TriggerRequiresMQID (tc_id t))
      else if tc_queue t = [] then Some (TriggerRequiresQueue (tc_id t))
      else None)"

fun validate_triggers_loop :: "string list \<Rightarrow> trigger_config list \<Rightarrow> trigger_error option" where
  "validate_triggers_loop seen [] = None"
| "validate_triggers_loop seen (t # ts) =
     (case validate_trigger seen t of
        Some e \<Rightarrow> Some e
      | None \<Rightarrow> validate_triggers_loop (tc_id t # seen) ts)"

definition validateTriggers :: "trigger_config list \<Rightarrow> trigger_error option" where
  "validateTriggers ts = validate_triggers_loop [] ts"

text \<open>What an accepted trigger is, without the order of the checks.\<close>

definition trigger_ok :: "trigger_config \<Rightarrow> bool" where
  "trigger_ok t \<longleftrightarrow> label_ok 40 (tc_id t) \<and> tc_type t = ''mq'' \<and>
     0 \<le> tc_max_concurrency t \<and> 0 \<le> tc_prefetch t \<and> 0 \<le> tc_max_attempts t \<and>
     0 \<le> tc_retry_backoff_ms t \<and> (tc_enabled t \<longrightarrow> tc_mq_id t \<noteq> [] \<and> tc_queue t \<noteq> [])"

definition triggers_ok :: "trigger_config list \<Rightarrow> bool" where
  "triggers_ok ts \<longleftrightarrow> distinct (map tc_id ts) \<and> list_all trigger_ok ts"

lemma validate_trigger_None:
  "validate_trigger seen t = None \<longleftrightarrow> trigger_ok t \<and> tc_id t \<notin> set seen"
proof -
  have "tc_id t = dnsLabel (tc_id t) \<longleftrightarrow> label_ok 40 (tc_id t)"
    by (rule gw_label.fixed_iff_ok)
  moreover have "label_ok 40 [] = False" by (simp add: label_ok_def)
  ultimately show ?thesis by (auto simp: validate_trigger_def trigger_ok_def)
qed

lemma validate_triggers_loop_None:
  "validate_triggers_loop seen ts = None \<longleftrightarrow>
   triggers_ok ts \<and> set (map tc_id ts) \<inter> set seen = {}"
proof (induction seen ts rule: validate_triggers_loop.induct)
  case (2 seen t ts)
  then show ?case
    using validate_trigger_None [of seen t] by (auto simp: triggers_ok_def split: option.splits)
qed (simp add: triggers_ok_def)

section \<open>Defaults and checks of a registration\<close>

definition isSupportedRuntime :: "string \<Rightarrow> bool" where
  "isSupportedRuntime runtime \<longleftrightarrow> runtime \<in> set [''python3'', ''go'', ''nodejs'', ''java'']"

lemma isSupportedRuntime_simps [simp]:
  "\<not> isSupportedRuntime []" "isSupportedRuntime ''python3''"
  by (simp_all add: isSupportedRuntime_def)

text \<open>\<open>if v == "" { v = d }\<close> and \<open>if v == 0 { v = d }\<close>.\<close>

definition str_default :: "string \<Rightarrow> string \<Rightarrow> string" where
  "str_default d v = (if v = [] then d else v)"

definition int_default :: "int \<Rightarrow> int \<Rightarrow> int" where
  "int_default d v = (if v = 0 then d else v)"

definition register_prepare :: "function_config \<Rightarrow> register_error + function_config" where
  "register_prepare cfg =
     (if \<not> isValidFunctionName (fc_name cfg) then Inl (InvalidFunctionName (fc_name cfg))
      else
        let cfg = fc_image_update (str_default ''faas-runtime:latest'') cfg;
            cfg = fc_timeout_update (int_default 30) cfg;
            cfg = fc_runtime_update (str_default ''python3'') cfg
        in if \<not> isSupportedRuntime (fc_runtime cfg) then Inl (UnsupportedRuntime (fc_runtime cfg))
        else
          let cfg = fc_memory_update (int_default 128) cfg;
              cfg = fc_handler_update (str_default ''handler.handler'') cfg
          in case validateTriggers (fc_triggers cfg) of
               Some e \<Rightarrow> Inl (BadTrigger e)
             | None \<Rightarrow> Inr cfg)"

text \<open>The type invariant of a registered configuration.\<close>

definition config_ok :: "function_config \<Rightarrow> bool" where
  "config_ok cfg \<longleftrightarrow> label_ok 40 (fc_name cfg) \<and> fc_image cfg \<noteq> [] \<and> fc_timeout cfg \<noteq> 0 \<and>
     isSupportedRuntime (fc_runtime cfg) \<and> fc_memory cfg \<noteq> 0 \<and> fc_handler cfg \<noteq> [] \<and>
     triggers_ok (fc_triggers cfg)"

lemma valid_name_label: "isValidFunctionName s \<longleftrightarrow> label_ok 40 s"
  using gw_label.fixed_iff_ok by (simp add: isValidFunctionName_def)

lemma validateTriggers_None: "validateTriggers ts = None \<longleftrightarrow> triggers_ok ts"
  by (simp add: validateTriggers_def validate_triggers_loop_None)

text \<open>The defaults as one record update; preparation is two checks, then the trigger
  validation, then this update.\<close>

definition with_defaults :: "function_config \<Rightarrow> function_config" where
  "with_defaults cfg = cfg\<lparr>
     fc_image := str_default ''faas-runtime:latest'' (fc_image cfg),
     fc_timeout := int_default 30 (fc_timeout cfg),
     fc_runtime := str_default ''python3'' (fc_runtime cfg),
     fc_memory := int_default 128 (fc_memory cfg),
     fc_handler := str_default ''handler.handler'' (fc_handler cfg)\<rparr>"

lemma with_defaults_simps [simp]:
  "fc_name (with_defaults cfg) = fc_name cfg"
  "fc_triggers (with_defaults cfg) = fc_triggers cfg"
  "fc_runtime (with_defaults cfg) = str_default ''python3'' (fc_runtime cfg)"
  by (simp_all add: with_defaults_def)

lemma register_prepare_eq:
  "register_prepare cfg =
     (if \<not> isValidFunctionName (fc_name cfg) then Inl (InvalidFunctionName (fc_name cfg))
      else if \<not> isSupportedRuntime (fc_runtime (with_defaults cfg))
      then Inl (UnsupportedRuntime (fc_runtime (with_defaults cfg)))
      else case validateTriggers (fc_triggers cfg) of
             Some e \<Rightarrow> Inl (BadTrigger e) | None \<Rightarrow> Inr (with_defaults cfg))"
  by (cases cfg) (auto simp: register_prepare_def with_defaults_def split: option.split)

lemma register_prepare_Inr:
  "register_prepare cfg = Inr cfg' \<longleftrightarrow>
     label_ok 40 (fc_name cfg) \<and> isSupportedRuntime (fc_runtime (with_defaults cfg)) \<and>
     triggers_ok (fc_triggers cfg) \<and> cfg' = with_defaults cfg"
  unfolding register_prepare_eq using validateTriggers_None [of "fc_triggers cfg"]
  by (auto simp: valid_name_label split: option.splits if_splits)

lemma register_prepare_ok: "register_prepare cfg = Inr cfg' \<Longrightarrow> config_ok cfg'"
  by (auto simp: register_prepare_Inr config_ok_def with_defaults_def str_default_def int_default_def)

lemma register_prepare_name: "register_prepare cfg = Inr cfg' \<Longrightarrow> fc_name cfg' = fc_name cfg"
  by (auto simp: register_prepare_Inr)

lemma register_prepare_fix: "config_ok cfg \<Longrightarrow> register_prepare cfg = Inr cfg"
  by (cases cfg)
    (auto simp: register_prepare_Inr config_ok_def with_defaults_def str_default_def int_default_def)

section \<open>Properties\<close>

text \<open>Trigger validation accepts exactly the trigger lists whose ids are distinct labels,
  whose type is \<open>mq\<close>, whose tuning numbers are non-negative and whose enabled entries name
  a broker and a queue, and appending triggers to a refused list does not change the error.\<close>

theorem validateTriggers_spec:
  "(validateTriggers ts = None \<longleftrightarrow> triggers_ok ts) \<and>
   validateTriggers (ts @ us) = (case validateTriggers ts of Some e \<Rightarrow> Some e
                                 | None \<Rightarrow> validate_triggers_loop (rev (map tc_id ts)) us)"
proof -
  have "validate_triggers_loop seen (ts @ us) = (case validate_triggers_loop seen ts of Some e \<Rightarrow> Some e
          | None \<Rightarrow> validate_triggers_loop (rev (map tc_id ts) @ seen) us)" for seen
    by (induction seen ts rule: validate_triggers_loop.induct) (auto split: option.split)
  from this [of "[]"] show ?thesis using validateTriggers_None [of ts] by (auto simp: validateTriggers_def split: option.split)
qed

text \<open>What \<open>Register\<close> stores: preparation succeeds exactly for a label name, a
  supported or empty runtime and valid triggers; the result then has every unset field
  filled with its default and every set field kept (a negative timeout included), satisfies
  the type invariant \<open>config_ok\<close>, and preparing it again changes nothing.\<close>

theorem register_prepare_spec:
  "(\<exists>cfg'. register_prepare cfg = Inr cfg') =
     (label_ok 40 (fc_name cfg) \<and> (fc_runtime cfg = [] \<or> isSupportedRuntime (fc_runtime cfg)) \<and>
      triggers_ok (fc_triggers cfg)) \<and>
   (case register_prepare cfg of
      Inl e \<Rightarrow> e \<noteq> AlreadyRegistered \<and> e \<noteq> SaveMetadataFailed
    | Inr cfg' \<Rightarrow> cfg' = with_defaults cfg \<and> config_ok cfg' \<and> register_prepare cfg' = Inr cfg')"
proof (intro conjI)
  show "(\<exists>cfg'. register_prepare cfg = Inr cfg') =
     (label_ok 40 (fc_name cfg) \<and> (fc_runtime cfg = [] \<or> isSupportedRuntime (fc_runtime cfg)) \<and>
      triggers_ok (fc_triggers cfg))"
    by (auto simp: register_prepare_Inr str_default_def)
  show "case register_prepare cfg of
      Inl e \<Rightarrow> e \<noteq> AlreadyRegistered \<and> e \<noteq> SaveMetadataFailed
    | Inr cfg' \<Rightarrow> cfg' = with_defaults cfg \<and> config_ok cfg' \<and> register_prepare cfg' = Inr cfg'"
  proof (cases "register_prepare cfg")
    case (Inl e)
    then show ?thesis by (auto simp: register_prepare_eq split: if_splits option.splits)
  next
    case (Inr cfg')
    then have "config_ok cfg'" by (rule register_prepare_ok)
    moreover have "cfg' = with_defaults cfg" using Inr register_prepare_Inr by blast
    ultimately show ?thesis using Inr register_prepare_fix [of cfg'] by simp
  qed
qed

end
