(* ===== verification/Scheduler.thy ===== *)
theory Scheduler
  imports Registry
begin

text \<open>
  The scheduler of the gateway (gateway/scheduler/scheduler.go): the function registry,
  the container pool and the operations on them. Containers are shared by pointer (the
  pool, a lease record and the request that was given one all see the same object), so
  they live in an explicit heap and a pointer is an index into it. Every definition is
  one critical section of the code (what runs under \<open>s.mu\<close>) or, where the name is that
  of the method, the whole method run without interference. The clock readings, the
  answers of the backend, of the metadata store and of the id generator are arguments. The
  container ids handed to \<open>go s.stop(id)\<close> are returned as a list.
\<close>

section \<open>State\<close>

datatype container_state = StateIdle | StateBusy | StateStarting

record container =
  c_id :: string
  c_addr :: string
  c_state :: container_state
  c_last_used :: time
  c_func_name :: string
  c_node_name :: string

type_synonym ref = nat

record instance_lease =
  il_lease_id :: string
  il_function :: string
  il_instance_id :: string
  il_address :: string
  il_timeout_seconds :: int
  il_source :: string
  il_mq_id :: string
  il_trigger_id :: string
  il_message_id :: string

record lease_record =
  lr_lease :: instance_lease
  lr_instance :: ref
  lr_deadline :: time
  lr_released :: bool

record scheduler =
  s_functions :: "string \<rightharpoonup> function_config"
  s_pool :: "string \<rightharpoonup> ref list"
  s_next_port :: int
  s_leases :: "string \<rightharpoonup> lease_record"
  s_heap :: "container list"

record runtime_instance =
  ri_id :: string
  ri_addr :: string
  ri_func_name :: string
  ri_node_name :: string

record instance_info =
  ii_id :: string
  ii_func_name :: string
  ii_node_name :: string
  ii_state :: string

datatype sched_error =
    FunctionNotFound string
  | InvalidTrigger
  | LeaseNotFound string
  | InvalidLeaseStatus string
  | ColdStartFailed string

abbreviation deref :: "scheduler \<Rightarrow> ref \<Rightarrow> container" where
  "deref s r \<equiv> s_heap s ! r"

abbreviation pool_of :: "scheduler \<Rightarrow> string \<Rightarrow> ref list" where
  "pool_of s f \<equiv> get_list (s_pool s) f"

definition mark :: "ref \<Rightarrow> container_state \<Rightarrow> time \<Rightarrow> scheduler \<Rightarrow> scheduler" where
  "mark r st now s = s\<lparr>s_heap := (s_heap s)[r := (deref s r)\<lparr>c_state := st, c_last_used := now\<rparr>]\<rparr>"

text \<open>\<open>New\<close>: the loaded configurations, an empty pool, ports from 9100.\<close>

fun load_functions :: "function_config list \<Rightarrow> (string \<rightharpoonup> function_config) \<Rightarrow> (string \<rightharpoonup> function_config)" where
  "load_functions [] m = m"
| "load_functions (cfg # cfgs) m = load_functions cfgs (m(fc_name cfg \<mapsto> cfg))"

definition new_scheduler :: "function_config list \<Rightarrow> scheduler" where
  "new_scheduler cfgs =
     \<lparr>s_functions = load_functions cfgs Map.empty, s_pool = Map.empty, s_next_port = 9100,
      s_leases = Map.empty, s_heap = []\<rparr>"

text \<open>Allocating a container object and appending its pointer to a function's pool.\<close>

definition pool_append :: "string \<Rightarrow> container \<Rightarrow> scheduler \<Rightarrow> ref \<times> scheduler" where
  "pool_append f c s =
     (length (s_heap s),
      s\<lparr>s_heap := s_heap s @ [c],
        s_pool := (s_pool s)(f \<mapsto> get_list (s_pool s) f @ [length (s_heap s)])\<rparr>)"

definition AddIdleTestInstance :: "string \<Rightarrow> string \<Rightarrow> string \<Rightarrow> time \<Rightarrow> scheduler \<Rightarrow> scheduler" where
  "AddIdleTestInstance f cid addr now s =
     snd (pool_append f \<lparr>c_id = cid, c_addr = addr, c_state = StateIdle, c_last_used = now,
       c_func_name = f, c_node_name = []\<rparr> s)"

section \<open>Registry\<close>

text \<open>The locked section that claims the name, and the one that gives it back when the
  metadata cannot be saved.\<close>

definition register_insert :: "function_config \<Rightarrow> scheduler \<Rightarrow> register_error option \<times> scheduler" where
  "register_insert cfg s =
     (case s_functions s (fc_name cfg) of
        Some _ \<Rightarrow> (Some AlreadyRegistered, s)
      | None \<Rightarrow> (None, s\<lparr>s_functions := (s_functions s)(fc_name cfg \<mapsto> cfg)\<rparr>))"

definition delete_function :: "string \<Rightarrow> scheduler \<Rightarrow> scheduler" where
  "delete_function name s = s\<lparr>s_functions := (s_functions s)(name := None)\<rparr>"

definition Register :: "bool \<Rightarrow> function_config \<Rightarrow> scheduler \<Rightarrow> register_error option \<times> scheduler" where
  "Register save_ok cfg s =
     (case register_prepare cfg of
        Inl e \<Rightarrow> (Some e, s)
      | Inr cfg \<Rightarrow>
          (case register_insert cfg s of
             (Some e, s) \<Rightarrow> (Some e, s)
           | (None, s) \<Rightarrow>
               if save_ok then (None, s)
               else (Some SaveMetadataFailed, delete_function (fc_name cfg) s)))"

definition Deregister :: "string \<Rightarrow> scheduler \<Rightarrow> string list \<times> scheduler" where
  "Deregister name s =
     (map (c_id \<circ> deref s) (pool_of s name),
      s\<lparr>s_functions := (s_functions s)(name := None), s_pool := (s_pool s)(name := None)\<rparr>)"

text \<open>The locked section of \<open>UploadCode\<close> once the files are in place: \<open>cfg\<close> is the
  configuration read at the start of the upload.\<close>

definition upload_commit :: "string \<Rightarrow> function_config \<Rightarrow> string \<Rightarrow> scheduler \<Rightarrow> ref list \<times> scheduler" where
  "upload_commit name cfg dir s =
     (pool_of s name,
      s\<lparr>s_functions := (s_functions s)(name \<mapsto> cfg\<lparr>fc_code_dir := dir\<rparr>),
        s_pool := (s_pool s)(name \<mapsto> [])\<rparr>)"

definition Get :: "string \<Rightarrow> scheduler \<Rightarrow> function_config option" where
  "Get name s = s_functions s name"

definition mq_trigger_of :: "function_config \<Rightarrow> trigger_config \<Rightarrow> mq_trigger" where
  "mq_trigger_of cfg t =
     \<lparr>mt_id = tc_id t, mt_type = tc_type t, mt_enabled = tc_enabled t, mt_mq_id = tc_mq_id t,
      mt_queue = tc_queue t, mt_function = fc_name cfg, mt_max_concurrency = tc_max_concurrency t,
      mt_prefetch = tc_prefetch t, mt_max_attempts = tc_max_attempts t,
      mt_retry_backoff_ms = tc_retry_backoff_ms t, mt_dlq = tc_dlq t\<rparr>"

fun trigger_scan :: "function_config \<Rightarrow> trigger_config list \<Rightarrow> mq_trigger list" where
  "trigger_scan cfg [] = []"
| "trigger_scan cfg (t # ts) =
     (if tc_type t \<noteq> ''mq'' \<or> \<not> tc_enabled t then trigger_scan cfg ts
      else mq_trigger_of cfg t # trigger_scan cfg ts)"

text \<open>\<open>MQTriggers\<close> and \<open>FunctionNames\<close> visit the map in the given order.\<close>

fun MQTriggers :: "string list \<Rightarrow> scheduler \<Rightarrow> mq_trigger list" where
  "MQTriggers [] s = []"
| "MQTriggers (k # ks) s =
     (case s_functions s k of
        None \<Rightarrow> MQTriggers ks s
      | Some cfg \<Rightarrow> trigger_scan cfg (fc_triggers cfg) @ MQTriggers ks s)"

definition FunctionNames :: "string list \<Rightarrow> scheduler \<Rightarrow> string list" where
  "FunctionNames order s = filter (\<lambda>k. s_functions s k \<noteq> None) order"

section \<open>Acquiring and releasing a container\<close>

datatype acquired = Reused ref | NeedColdStart function_config int

definition acquire_locked :: "time \<Rightarrow> string \<Rightarrow> scheduler \<Rightarrow> (sched_error + acquired) \<times> scheduler" where
  "acquire_locked now name s =
     (case s_functions s name of
        None \<Rightarrow> (Inl (FunctionNotFound name), s)
      | Some cfg \<Rightarrow>
          (case find (\<lambda>r. c_state (deref s r) = StateIdle) (pool_of s name) of
             Some r \<Rightarrow> (Inr (Reused r), mark r StateBusy now s)
           | None \<Rightarrow> (Inr (NeedColdStart cfg (s_next_port s)), s\<lparr>s_next_port := s_next_port s + 1\<rparr>)))"

text \<open>The backend takes a configuration with its port and answers with an instance or an
  error; \<open>start\<close> wraps the instance in a container of the given state.\<close>

type_synonym backend_start = "function_config \<Rightarrow> string + runtime_instance"

definition container_of :: "runtime_instance \<Rightarrow> container_state \<Rightarrow> time \<Rightarrow> container" where
  "container_of inst st now =
     \<lparr>c_id = ri_id inst, c_addr = ri_addr inst, c_state = st, c_last_used = now,
      c_func_name = ri_func_name inst, c_node_name = ri_node_name inst\<rparr>"

definition start :: "backend_start \<Rightarrow> function_config \<Rightarrow> int \<Rightarrow> container_state \<Rightarrow> time \<Rightarrow> string + container" where
  "start backend cfg port st now =
     (case backend (cfg\<lparr>fc_port := port\<rparr>) of
        Inl e \<Rightarrow> Inl e
      | Inr inst \<Rightarrow> Inr (container_of inst st now))"

definition Acquire :: "backend_start \<Rightarrow> time \<Rightarrow> time \<Rightarrow> string \<Rightarrow> scheduler \<Rightarrow> (sched_error + ref) \<times> scheduler" where
  "Acquire backend now later name s =
     (case acquire_locked now name s of
        (Inl e, s) \<Rightarrow> (Inl e, s)
      | (Inr (Reused r), s) \<Rightarrow> (Inr r, s)
      | (Inr (NeedColdStart cfg port), s) \<Rightarrow>
          (case start backend cfg port StateBusy later of
             Inl e \<Rightarrow> (Inl (ColdStartFailed e), s)
           | Inr c \<Rightarrow> (let (r, s) = pool_append name c s in (Inr r, s))))"

definition Release :: "ref \<Rightarrow> time \<Rightarrow> scheduler \<Rightarrow> scheduler" where
  "Release r now s = mark r StateIdle now s"

section \<open>Removing and reaping\<close>

fun remove_first :: "('a \<Rightarrow> bool) \<Rightarrow> 'a list \<Rightarrow> 'a list" where
  "remove_first P [] = []"
| "remove_first P (x # xs) = (if P x then xs else x # remove_first P xs)"

definition removeInstanceLocked :: "ref \<Rightarrow> scheduler \<Rightarrow> scheduler" where
  "removeInstanceLocked target s =
     (let f = c_func_name (deref s target);
          hit = (\<lambda>r. r = target \<or> c_id (deref s r) = c_id (deref s target)) in
      if \<exists>r \<in> set (pool_of s f). hit r
      then s\<lparr>s_pool := (s_pool s)(f \<mapsto> remove_first hit (pool_of s f))\<rparr>
      else s)"

text \<open>A container idle for more than five minutes.\<close>

definition stale :: "time \<Rightarrow> container \<Rightarrow> bool" where
  "stale now c \<longleftrightarrow> c_state c = StateIdle \<and> time_sub now (c_last_used c) > 5 * minute"

text \<open>The sweep of \<open>reaper\<close> over one function's containers: the survivors and the ids to
  stop.\<close>

fun reap_split :: "time \<Rightarrow> container list \<Rightarrow> ref list \<Rightarrow> ref list \<times> string list" where
  "reap_split now h [] = ([], [])"
| "reap_split now h (r # rs) =
     (let (alive, stops) = reap_split now h rs in
      if stale now (h ! r) then (alive, c_id (h ! r) # stops) else (r # alive, stops))"

fun reap_idle :: "time \<Rightarrow> string list \<Rightarrow> scheduler \<Rightarrow> string list \<times> scheduler" where
  "reap_idle now [] s = ([], s)"
| "reap_idle now (f # fs) s =
     (let (alive, stops) = reap_split now (s_heap s) (pool_of s f);
          (more, s') = reap_idle now fs (s\<lparr>s_pool := (s_pool s)(f \<mapsto> alive)\<rparr>)
      in (stops @ more, s'))"

text \<open>The search for the idle container unused for longest: \<open>i\<close> is the position reached,
  \<open>best\<close> the position found so far (\<open>oldest\<close>, \<open>-1\<close> in the code).\<close>

fun oldest_idle :: "container list \<Rightarrow> ref list \<Rightarrow> nat \<Rightarrow> ref list \<Rightarrow> nat option \<Rightarrow> nat option" where
  "oldest_idle h cs i [] best = best"
| "oldest_idle h cs i (r # rs) best =
     oldest_idle h cs (Suc i) rs
       (if c_state (h ! r) \<noteq> StateIdle then best
        else case best of
               None \<Rightarrow> Some i
             | Some b \<Rightarrow> if c_last_used (h ! r) < c_last_used (h ! (cs ! b)) then Some i else best)"

definition RemoveIdle :: "time \<Rightarrow> string \<Rightarrow> scheduler \<Rightarrow> bool \<times> string list \<times> scheduler" where
  "RemoveIdle now f s =
     (let cs = pool_of s f in
      case oldest_idle (s_heap s) cs 0 cs None of
        None \<Rightarrow> (False, [], s)
      | Some i \<Rightarrow>
          if time_sub now (c_last_used (deref s (cs ! i))) < 2 * minute then (False, [], s)
          else (True, [c_id (deref s (cs ! i))],
                s\<lparr>s_pool := (s_pool s)(f \<mapsto> take i cs @ drop (Suc i) cs)\<rparr>))"

text \<open>\<open>ColdStartOne\<close> returns after its locked section; the goroutine that it starts with the configuration and the
  port found there runs on its own, and adds the container when the backend has started it.\<close>

definition coldstart_begin :: "string \<Rightarrow> scheduler \<Rightarrow> (function_config \<times> int) option \<times> scheduler" where
  "coldstart_begin f s =
     (case s_functions s f of
        None \<Rightarrow> (None, s)
      | Some cfg \<Rightarrow> (Some (cfg, s_next_port s), s\<lparr>s_next_port := s_next_port s + 1\<rparr>))"

definition coldstart_finish :: "backend_start \<Rightarrow> time \<Rightarrow> string \<Rightarrow> function_config \<Rightarrow> int \<Rightarrow> scheduler \<Rightarrow> scheduler" where
  "coldstart_finish backend now f cfg port s =
     (case start backend cfg port StateIdle now of Inl e \<Rightarrow> s | Inr c \<Rightarrow> snd (pool_append f c s))"

section \<open>Observers\<close>

fun stats_loop :: "container list \<Rightarrow> ref list \<Rightarrow> nat \<Rightarrow> nat \<Rightarrow> nat \<times> nat" where
  "stats_loop h [] busy idle = (busy, idle)"
| "stats_loop h (r # rs) busy idle =
     (case c_state (h ! r) of
        StateBusy \<Rightarrow> stats_loop h rs (Suc busy) idle
      | StateIdle \<Rightarrow> stats_loop h rs busy (Suc idle)
      | StateStarting \<Rightarrow> stats_loop h rs busy idle)"

definition Stats :: "string \<Rightarrow> scheduler \<Rightarrow> nat \<times> nat" where
  "Stats f s = stats_loop (s_heap s) (pool_of s f) 0 0"

definition ContainerIDs :: "string \<Rightarrow> scheduler \<Rightarrow> string list" where
  "ContainerIDs f s = map (\<lambda>r. c_id (deref s r)) (pool_of s f)"

fun stateName :: "container_state \<Rightarrow> string" where
  "stateName StateIdle = ''idle''"
| "stateName StateBusy = ''busy''"
| "stateName StateStarting = ''starting''"

definition Instances :: "string \<Rightarrow> scheduler \<Rightarrow> instance_info list" where
  "Instances f s =
     map (\<lambda>r. \<lparr>ii_id = c_id (deref s r), ii_func_name = c_func_name (deref s r),
               ii_node_name = c_node_name (deref s r), ii_state = stateName (c_state (deref s r))\<rparr>)
       (pool_of s f)"

section \<open>Frame facts\<close>

lemma mark_simps [simp]:
  "s_functions (mark r st now s) = s_functions s"
  "s_pool (mark r st now s) = s_pool s"
  "s_leases (mark r st now s) = s_leases s"
  "s_next_port (mark r st now s) = s_next_port s"
  "length (s_heap (mark r st now s)) = length (s_heap s)"
  by (simp_all add: mark_def)

lemma deref_mark:
  "r < length (s_heap s) \<Longrightarrow> deref (mark r st now s) r' =
     (if r' = r then (deref s r)\<lparr>c_state := st, c_last_used := now\<rparr> else deref s r')"
  by (simp add: mark_def nth_list_update)

lemma mark_out_of_range: "\<not> r < length (s_heap s) \<Longrightarrow> mark r st now s = s"
  by (simp add: mark_def list_update_beyond)

lemma mark_id [simp]: "c_id (deref (mark r st now s) r') = c_id (deref s r')"
  by (cases "r < length (s_heap s)") (auto simp: deref_mark mark_out_of_range)

lemma mark_func [simp]: "c_func_name (deref (mark r st now s) r') = c_func_name (deref s r')"
  by (cases "r < length (s_heap s)") (auto simp: deref_mark mark_out_of_range)

lemma map_id_mark [simp]: "map c_id (s_heap (mark r st now s)) = map c_id (s_heap s)"
  by (rule nth_equalityI) auto

lemma pool_append_simps [simp]:
  "fst (pool_append f c s) = length (s_heap s)"
  "s_functions (snd (pool_append f c s)) = s_functions s"
  "s_leases (snd (pool_append f c s)) = s_leases s"
  "s_next_port (snd (pool_append f c s)) = s_next_port s"
  "s_heap (snd (pool_append f c s)) = s_heap s @ [c]"
  "pool_of (snd (pool_append f c s)) g = (if g = f then pool_of s f @ [length (s_heap s)] else pool_of s g)"
  by (simp_all add: pool_append_def)

lemma remove_first_unique:
  "distinct xs \<Longrightarrow> (\<And>x. x \<in> set xs \<Longrightarrow> P x \<longleftrightarrow> x = a) \<Longrightarrow> remove_first P xs = remove1 a xs"
  by (induction xs) auto

lemma stats_loop_count:
  "stats_loop h rs b i =
     (b + count_if (\<lambda>r. c_state (h ! r) = StateBusy) rs, i + count_if (\<lambda>r. c_state (h ! r) = StateIdle) rs)"
  by (induction h rs b i rule: stats_loop.induct) (auto split: container_state.split)

lemma reap_split_eq:
  "reap_split now h rs =
     (filter (\<lambda>r. \<not> stale now (h ! r)) rs, map (\<lambda>r. c_id (h ! r)) (filter (\<lambda>r. stale now (h ! r)) rs))"
  by (induction now h rs rule: reap_split.induct) (auto simp: Let_def)

end
