(* ===== verification/Leases.thy ===== *)
theory Leases
  imports Scheduler
begin

text \<open>
  The lease protocol of the scheduler (gateway/scheduler/scheduler.go,
  \<open>AcquireInstance\<close>, \<open>ReleaseInstance\<close>, \<open>reapExpiredLeases\<close>): mqsvc is given a busy
  container under a lease id and gives it back with a status. The lease id comes from the
  uuid package and is an argument (\<open>lease_id\<close>); \<open>env\<close> is the environment of the gateway.
\<close>

record acquire_request =
  ar_function :: string
  ar_source :: string
  ar_mq_id :: string
  ar_trigger_id :: string
  ar_message_id :: string
  ar_timeout_seconds :: int

section \<open>Checks\<close>

definition isValidLeaseStatus :: "string \<Rightarrow> bool" where
  "isValidLeaseStatus status \<longleftrightarrow> status \<in> set [''success'', ''error'', ''timeout'', ''abandoned'']"

definition clampLeaseTimeout :: "env \<Rightarrow> int \<Rightarrow> int \<Rightarrow> int" where
  "clampLeaseTimeout env requested functionTimeout =
     (let maxTimeout = functionTimeout;
          maxTimeout = (if maxTimeout \<le> 0 then env_int env ''MAX_FUNCTION_TIMEOUT_SECONDS'' 300 else maxTimeout);
          maxTimeout = (if maxTimeout \<le> 0 then 300 else maxTimeout);
          timeout = requested;
          timeout = (if timeout \<le> 0 then functionTimeout else timeout);
          timeout = (if timeout \<le> 0 then 30 else timeout);
          timeout = (if timeout < 1 then 1 else timeout);
          timeout = (if timeout > maxTimeout then maxTimeout else timeout)
      in timeout)"

definition trigger_matches :: "acquire_request \<Rightarrow> trigger_config \<Rightarrow> bool" where
  "trigger_matches req t \<longleftrightarrow>
     tc_id t = ar_trigger_id req \<and> tc_mq_id t = ar_mq_id req \<and> tc_type t = ''mq'' \<and> tc_enabled t"

definition validateAcquireTrigger :: "function_config \<Rightarrow> acquire_request \<Rightarrow> sched_error option" where
  "validateAcquireTrigger cfg req =
     (if ar_source req \<noteq> ''mq'' \<or> ar_mq_id req = [] \<or> ar_trigger_id req = [] then Some InvalidTrigger
      else if list_ex (trigger_matches req) (fc_triggers cfg) then None
      else Some InvalidTrigger)"

section \<open>Acquire under a lease\<close>

text \<open>The last critical section: the record for a container the caller already holds.\<close>

definition lease_of :: "acquire_request \<Rightarrow> string \<Rightarrow> container \<Rightarrow> int \<Rightarrow> instance_lease" where
  "lease_of req lease_id c timeout =
     \<lparr>il_lease_id = lease_id, il_function = ar_function req, il_instance_id = c_id c,
      il_address = c_addr c, il_timeout_seconds = timeout, il_source = ar_source req,
      il_mq_id = ar_mq_id req, il_trigger_id = ar_trigger_id req, il_message_id = ar_message_id req\<rparr>"

definition lease_deadline :: "time \<Rightarrow> int \<Rightarrow> time" where
  "lease_deadline now timeout = now + dur_add (dur_seconds timeout) (5 * second)"

definition lease_insert :: "acquire_request \<Rightarrow> int \<Rightarrow> string \<Rightarrow> ref \<Rightarrow> time \<Rightarrow> scheduler \<Rightarrow> instance_lease \<times> scheduler" where
  "lease_insert req timeout lease_id r now s =
     (let lease = lease_of req lease_id (deref s r) timeout in
      (lease, s\<lparr>s_leases := (s_leases s)(lease_id \<mapsto>
        \<lparr>lr_lease = lease, lr_instance = r, lr_deadline = lease_deadline now timeout, lr_released = False\<rparr>)\<rparr>))"

text \<open>\<open>AcquireInstance\<close> without interference; \<open>t1\<close>, \<open>t2\<close> and \<open>t3\<close> are its clock
  readings.\<close>

definition AcquireInstance ::
  "env \<Rightarrow> backend_start \<Rightarrow> time \<Rightarrow> time \<Rightarrow> time \<Rightarrow> string \<Rightarrow> acquire_request \<Rightarrow> scheduler
   \<Rightarrow> (sched_error + instance_lease) \<times> scheduler" where
  "AcquireInstance env backend t1 t2 t3 lease_id req s =
     (case Get (ar_function req) s of
        None \<Rightarrow> (Inl (FunctionNotFound (ar_function req)), s)
      | Some cfg \<Rightarrow>
          (case validateAcquireTrigger cfg req of
             Some e \<Rightarrow> (Inl e, s)
           | None \<Rightarrow>
               (case Acquire backend t1 t2 (ar_function req) s of
                  (Inl e, s) \<Rightarrow> (Inl e, s)
                | (Inr r, s) \<Rightarrow>
                    (let timeout = clampLeaseTimeout env (ar_timeout_seconds req) (fc_timeout cfg);
                         (lease, s) = lease_insert req timeout lease_id r t3 s
                     in (Inr lease, s)))))"

section \<open>Release\<close>

text \<open>\<open>releaseInstanceLocked\<close>: the error, the id of the container to stop (empty for none)
  and the new state. The flag \<open>released\<close> is set on the record just before the record is
  deleted from the map, so no later step can see it set.\<close>

definition releaseInstanceLocked :: "string \<Rightarrow> string \<Rightarrow> time \<Rightarrow> scheduler \<Rightarrow> sched_error option \<times> string \<times> scheduler" where
  "releaseInstanceLocked lease_id status now s =
     (case s_leases s lease_id of
        None \<Rightarrow> (Some (LeaseNotFound lease_id), [], s)
      | Some record \<Rightarrow>
          if lr_released record then (Some (LeaseNotFound lease_id), [], s)
          else
            let s = s\<lparr>s_leases := (s_leases s)(lease_id := None)\<rparr>; r = lr_instance record in
            if status = ''timeout'' \<or> status = ''abandoned''
            then (None, c_id (deref s r), removeInstanceLocked r s)
            else (None, [], mark r StateIdle now s))"

definition ReleaseInstance :: "string \<Rightarrow> string \<Rightarrow> time \<Rightarrow> scheduler \<Rightarrow> sched_error option \<times> string list \<times> scheduler" where
  "ReleaseInstance lease_id status now s =
     (if \<not> isValidLeaseStatus status then (Some (InvalidLeaseStatus status), [], s)
      else
        case releaseInstanceLocked lease_id status now s of
          (Some e, stop_id, s) \<Rightarrow> (Some e, [], s)
        | (None, stop_id, s) \<Rightarrow> (None, if stop_id \<noteq> [] then [stop_id] else [], s))"

text \<open>\<open>reapExpiredLeases\<close> visits the lease map in the order \<open>ks\<close>.\<close>

fun reapExpiredLeases :: "time \<Rightarrow> string list \<Rightarrow> scheduler \<Rightarrow> string list \<times> scheduler" where
  "reapExpiredLeases now [] s = ([], s)"
| "reapExpiredLeases now (k # ks) s =
     (case s_leases s k of
        None \<Rightarrow> reapExpiredLeases now ks s
      | Some record \<Rightarrow>
          if now > lr_deadline record then
            (let (err, stop_id, s) = releaseInstanceLocked k ''timeout'' now s;
                 (stops, s) = reapExpiredLeases now ks s
             in (if stop_id \<noteq> [] then stop_id # stops else stops, s))
          else reapExpiredLeases now ks s)"

text \<open>One tick of \<open>reaper\<close>: the expired leases first, then the idle containers.\<close>

definition reaper_tick :: "time \<Rightarrow> string list \<Rightarrow> string list \<Rightarrow> scheduler \<Rightarrow> string list \<times> scheduler" where
  "reaper_tick now lease_order pool_order s =
     (let (stops, s) = reapExpiredLeases now lease_order s;
          (more, s) = reap_idle now pool_order s
      in (stops @ more, s))"

section \<open>The lease timeout\<close>

lemma clamp_upper:
  "clampLeaseTimeout env requested fto \<le>
     (if fto > 0 then fto
      else let m = env_int env ''MAX_FUNCTION_TIMEOUT_SECONDS'' 300 in if m > 0 then m else 300)"
  by (simp add: clampLeaseTimeout_def Let_def)

text \<open>The lease timeout is always between one second and the function's timeout (or, for a
  function whose timeout is not positive, the configured maximum): a request may shorten it
  but never extend it, and a request without a timeout gets the function's own.\<close>

theorem clampLeaseTimeout_spec:
  "1 \<le> clampLeaseTimeout env requested fto \<and>
   clampLeaseTimeout env requested fto \<le>
     (if fto > 0 then fto
      else if env_int env ''MAX_FUNCTION_TIMEOUT_SECONDS'' 300 > 0
      then env_int env ''MAX_FUNCTION_TIMEOUT_SECONDS'' 300 else 300) \<and>
   (if 0 < fto then clampLeaseTimeout env requested fto = (if requested \<le> 0 then fto else min requested fto)
    else clampLeaseTimeout env requested fto =
      min (if requested \<le> 0 then 30 else requested)
        (if env_int env ''MAX_FUNCTION_TIMEOUT_SECONDS'' 300 > 0
         then env_int env ''MAX_FUNCTION_TIMEOUT_SECONDS'' 300 else 300))"
  by (auto simp: clampLeaseTimeout_def Let_def)

text \<open>The deadline recorded with a lease lies five seconds after its timeout as long as the
  timeout is below about 292 years; a function registered with a larger timeout gets a
  deadline in the past, because the multiplication with \<open>time.Second\<close> wraps around, and its
  leases expire at once.\<close>

theorem lease_deadline_wraps:
  assumes "0 \<le> n" "n \<le> 9000000000"
  shows "lease_deadline now n = now + n * second + 5 * second \<and>
         lease_deadline now 10000000000 < now"
  using assms
  by (auto simp: lease_deadline_def dur_add_def dur_seconds_exact second_def wrap64_id in_int64_def)
    (simp add: dur_seconds_def wrap64_def second_def)

theorem lease_deadline_wraps_witness:
  "lease_deadline 0 30 = 35000000000 \<and> lease_deadline 0 10000000000 < 0"
  using lease_deadline_wraps [of 30 0] by (simp add: second_def)

end
