(* ===== verification/Scheduler_Inv.thy ===== *)
theory Scheduler_Inv
  imports Leases
begin

text \<open>
  The invariant of the scheduler and its preservation by every critical section.
  \<open>shape\<close>: pools hold pointers into the heap, without duplicates, each to a container of
  that function; container ids are unique; the registry is keyed by name and holds valid
  configurations. \<open>owned H\<close>: \<open>H\<close> lists the containers given out and not under a lease (an
  HTTP invocation or an acquire that has not recorded its lease yet). Nothing is held
  twice, everything held is busy, and a pooled container is busy exactly when held.
\<close>

named_theorems sched_inv \<open>preservation of the scheduler invariant\<close>

definition leased :: "scheduler \<Rightarrow> ref \<Rightarrow> bool" where
  "leased s r \<longleftrightarrow> (\<exists>id lr. s_leases s id = Some lr \<and> lr_instance lr = r)"

definition funcs_ok :: "(string \<rightharpoonup> function_config) \<Rightarrow> bool" where
  "funcs_ok m \<longleftrightarrow> (\<forall>f cfg. m f = Some cfg \<longrightarrow> fc_name cfg = f \<and> config_ok cfg)"

definition shape :: "scheduler \<Rightarrow> bool" where
  "shape s \<longleftrightarrow>
     (\<forall>f. distinct (pool_of s f)) \<and>
     (\<forall>f r. r \<in> set (pool_of s f) \<longrightarrow> r < length (s_heap s) \<and> c_func_name (deref s r) = f) \<and>
     distinct (map c_id (s_heap s)) \<and>
     funcs_ok (s_functions s)"

definition owned :: "ref list \<Rightarrow> scheduler \<Rightarrow> bool" where
  "owned H s \<longleftrightarrow>
     distinct H \<and>
     (\<forall>r \<in> set H. r < length (s_heap s) \<and> c_state (deref s r) = StateBusy) \<and>
     (\<forall>id lr. s_leases s id = Some lr \<longrightarrow>
        \<not> lr_released lr \<and> lr_instance lr < length (s_heap s) \<and>
        c_state (deref s (lr_instance lr)) = StateBusy \<and> lr_instance lr \<notin> set H) \<and>
     (\<forall>id id' lr lr'. s_leases s id = Some lr \<and> s_leases s id' = Some lr' \<and>
        lr_instance lr = lr_instance lr' \<longrightarrow> id = id') \<and>
     (\<forall>f r. r \<in> set (pool_of s f) \<longrightarrow> c_state (deref s r) \<noteq> StateStarting \<and>
        (c_state (deref s r) = StateBusy \<longrightarrow> r \<in> set H \<or> leased s r))"

lemma shape_pool: "shape s \<Longrightarrow> r \<in> set (pool_of s f) \<Longrightarrow> r < length (s_heap s) \<and> c_func_name (deref s r) = f"
  by (simp add: shape_def)

lemma shape_distinct: "shape s \<Longrightarrow> distinct (pool_of s f)"
  by (simp add: shape_def)

lemma shape_id_inj:
  "shape s \<Longrightarrow> r < length (s_heap s) \<Longrightarrow> r' < length (s_heap s) \<Longrightarrow>
   c_id (deref s r) = c_id (deref s r') \<longleftrightarrow> r = r'"
  using nth_eq_iff_index_eq [of "map c_id (s_heap s)" r r'] by (simp add: shape_def)

lemma shape_function: "shape s \<Longrightarrow> s_functions s f = Some cfg \<Longrightarrow> fc_name cfg = f \<and> config_ok cfg"
  unfolding shape_def funcs_ok_def by blast

lemma owned_pool_idle:
  "owned H s \<Longrightarrow> r \<in> set (pool_of s f) \<Longrightarrow> c_state (deref s r) = StateIdle \<longleftrightarrow> r \<notin> set H \<and> \<not> leased s r"
  by (cases "c_state (deref s r)") (auto simp: owned_def leased_def)

lemma owned_not_starting: "owned H s \<Longrightarrow> r \<in> set (pool_of s f) \<Longrightarrow> c_state (deref s r) \<noteq> StateStarting"
  by (simp add: owned_def)

lemma leased_cong: "s_leases s' = s_leases s \<Longrightarrow> leased s' r = leased s r"
  by (simp add: leased_def)

section \<open>Shape\<close>

lemma funcs_ok_upd:
  assumes "funcs_ok m" "config_ok cfg"
  shows "funcs_ok (m(fc_name cfg \<mapsto> cfg))"
  unfolding funcs_ok_def
proof (intro allI impI)
  fix f c
  assume "(m(fc_name cfg \<mapsto> cfg)) f = Some c"
  with assms show "fc_name c = f \<and> config_ok c"
    by (cases "f = fc_name cfg") (auto simp: funcs_ok_def)
qed

lemma funcs_ok_del: "funcs_ok m \<Longrightarrow> funcs_ok (m(f := None))"
  by (simp add: funcs_ok_def)

lemma funcs_ok_load: "list_all config_ok cfgs \<Longrightarrow> funcs_ok m \<Longrightarrow> funcs_ok (load_functions cfgs m)"
  by (induction cfgs m rule: load_functions.induct) (simp_all add: funcs_ok_upd)

lemma shape_new: "list_all config_ok cfgs \<Longrightarrow> shape (new_scheduler cfgs)"
  using funcs_ok_load [of cfgs Map.empty] by (simp add: shape_def new_scheduler_def funcs_ok_def)

lemma get_list_upd: "get_list (m(k := v)) j = (if j = k then case v of None \<Rightarrow> [] | Some xs \<Rightarrow> xs else get_list m j)"
  by (simp add: get_list_def)

lemma shape_functions_upd:
  "shape s \<Longrightarrow> config_ok cfg \<Longrightarrow> shape (s\<lparr>s_functions := (s_functions s)(fc_name cfg \<mapsto> cfg)\<rparr>)"
  by (simp add: shape_def funcs_ok_upd)

lemma shape_pool_subset:
  assumes "shape s" "\<And>g. distinct (pool_of s' g)" "\<And>g. set (pool_of s' g) \<subseteq> set (pool_of s g)"
    "s_heap s' = s_heap s" "s_functions s' = s_functions s"
  shows "shape s'"
  unfolding shape_def assms(4,5) using assms(1,2,3) unfolding shape_def by blast

lemma shape_register [sched_inv]:
  "shape s \<Longrightarrow> config_ok cfg \<Longrightarrow> register_insert cfg s = (None, s') \<Longrightarrow> shape s'"
  by (auto simp: register_insert_def shape_functions_upd split: option.splits)

lemma shape_delete [sched_inv]: "shape s \<Longrightarrow> shape (delete_function name s)"
  by (simp add: shape_def delete_function_def funcs_ok_del)

lemma shape_deregister [sched_inv]: "shape s \<Longrightarrow> Deregister name s = (stops, s') \<Longrightarrow> shape s'"
  by (rule shape_pool_subset [OF shape_delete [of s name]])
    (auto simp: Deregister_def delete_function_def get_list_upd shape_distinct split: if_splits)

lemma shape_upload [sched_inv]:
  assumes "shape s" "config_ok cfg" "fc_name cfg = name" "upload_commit name cfg dir s = (dropped, s')"
  shows "shape s'"
proof -
  let ?cfg = "cfg\<lparr>fc_code_dir := dir\<rparr>"
  have "shape (s\<lparr>s_functions := (s_functions s)(fc_name ?cfg \<mapsto> ?cfg)\<rparr>)"
    using assms(1,2) by (intro shape_functions_upd) (simp_all add: config_ok_def)
  from shape_pool_subset [OF this, of s'] show ?thesis
    using assms by (auto simp: upload_commit_def get_list_upd shape_distinct split: if_splits)
qed

lemma shape_mark [sched_inv]: "shape s \<Longrightarrow> shape (mark r st now s)"
  by (auto simp: shape_def)

lemma shape_append [sched_inv]:
  "shape s \<Longrightarrow> c_func_name c = f \<Longrightarrow> c_id c \<notin> c_id ` set (s_heap s) \<Longrightarrow> shape (snd (pool_append f c s))"
  by (auto simp: shape_def nth_append intro: less_SucI)

lemma shape_port [sched_inv]: "shape s \<Longrightarrow> shape (s\<lparr>s_next_port := p\<rparr>)"
  by (simp add: shape_def)

lemma shape_leases [sched_inv]: "shape s \<Longrightarrow> shape (s\<lparr>s_leases := m\<rparr>)"
  by (simp add: shape_def)

lemma removeInstance_fields [simp]:
  "s_functions (removeInstanceLocked r s) = s_functions s"
  "s_heap (removeInstanceLocked r s) = s_heap s"
  "s_leases (removeInstanceLocked r s) = s_leases s"
  "s_next_port (removeInstanceLocked r s) = s_next_port s"
  by (simp_all add: removeInstanceLocked_def Let_def)

lemma pool_of_removeInstance:
  assumes "shape s" "r < length (s_heap s)"
  shows "pool_of (removeInstanceLocked r s) f = remove1 r (pool_of s f)"
proof -
  let ?g = "c_func_name (deref s r)"
  let ?hit = "\<lambda>x. x = r \<or> c_id (deref s x) = c_id (deref s r)"
  have hit: "x \<in> set (pool_of s f) \<Longrightarrow> ?hit x \<longleftrightarrow> x = r" for x f
    using shape_pool [OF assms(1)] shape_id_inj [OF assms(1) _ assms(2)] by blast
  have elsewhere: "f \<noteq> ?g \<Longrightarrow> r \<notin> set (pool_of s f)"
    using shape_pool [OF assms(1)] by blast
  have "remove_first ?hit (pool_of s ?g) = remove1 r (pool_of s ?g)"
    using hit shape_distinct [OF assms(1)] by (intro remove_first_unique) auto
  moreover have "(\<exists>x \<in> set (pool_of s ?g). ?hit x) \<longleftrightarrow> r \<in> set (pool_of s ?g)"
    using hit by auto
  ultimately show ?thesis
    using elsewhere by (auto simp: removeInstanceLocked_def Let_def get_list_upd remove1_idem)
qed

lemma shape_remove [sched_inv]: "shape s \<Longrightarrow> r < length (s_heap s) \<Longrightarrow> shape (removeInstanceLocked r s)"
  by (rule shape_pool_subset [where s = s])
    (auto simp: pool_of_removeInstance shape_distinct dest: notin_set_remove1 set_remove1_subset [THEN subsetD])

lemma reap_idle_eq:
  assumes "reap_idle now fs s = (stops, s')" "distinct fs"
  shows "s_heap s' = s_heap s \<and> s_functions s' = s_functions s \<and> s_leases s' = s_leases s \<and>
    s_next_port s' = s_next_port s \<and>
    (\<forall>f. pool_of s' f =
      (if f \<in> set fs then filter (\<lambda>r. \<not> stale now (deref s r)) (pool_of s f) else pool_of s f)) \<and>
    stops = concat (map (\<lambda>f. map (\<lambda>r. c_id (deref s r)) (filter (\<lambda>r. stale now (deref s r)) (pool_of s f))) fs)"
  using assms
proof (induction now fs s arbitrary: stops rule: reap_idle.induct)
  case (2 now f fs s)
  let ?ids = "\<lambda>p. map (\<lambda>r. c_id (deref s r)) (filter (\<lambda>r. stale now (deref s r)) p)"
  define s1 where "s1 = s\<lparr>s_pool := (s_pool s)(f \<mapsto> filter (\<lambda>r. \<not> stale now (deref s r)) (pool_of s f))\<rparr>"
  have s1: "s_heap s1 = s_heap s" "s_functions s1 = s_functions s" "s_leases s1 = s_leases s"
    "s_next_port s1 = s_next_port s"
    "\<And>g. pool_of s1 g = (if g = f then filter (\<lambda>r. \<not> stale now (deref s r)) (pool_of s f) else pool_of s g)"
    by (simp_all add: s1_def get_list_upd)
  obtain more where more: "reap_idle now fs s1 = (more, s')" and stops: "stops = ?ids (pool_of s f) @ more"
    using 2(2) by (auto simp: reap_split_eq s1_def split: prod.splits)
  have g: "g \<in> set fs \<Longrightarrow> g \<noteq> f" for g using 2(3) by auto
  then have same: "map (\<lambda>g. ?ids (pool_of s1 g)) fs = map (\<lambda>g. ?ids (pool_of s g)) fs"
    by (intro map_cong) (auto simp: s1)
  have "distinct fs" using 2(3) by simp
  then have IH: "s_heap s' = s_heap s1" "s_functions s' = s_functions s1"
    "s_leases s' = s_leases s1" "s_next_port s' = s_next_port s1"
    "\<And>g. pool_of s' g = (if g \<in> set fs then filter (\<lambda>r. \<not> stale now (deref s r)) (pool_of s1 g) else pool_of s1 g)"
    "more = concat (map (\<lambda>g. ?ids (pool_of s1 g)) fs)"
    using 2(1) [of "(filter (\<lambda>r. \<not> stale now (deref s r)) (pool_of s f), ?ids (pool_of s f))"] more
    by (simp_all add: reap_split_eq s1_def [symmetric] s1(1))
  have pool: "pool_of s' h = (if h \<in> set (f # fs)
       then filter (\<lambda>r. \<not> stale now (deref s r)) (pool_of s h) else pool_of s h)" for h
    using IH(5) [of h] g [of h] by (auto simp: s1)
  have "stops = concat (map (\<lambda>g. ?ids (pool_of s g)) (f # fs))"
    using IH(6) same stops by simp
  with pool show ?case using IH(1-4) s1(1-4) by auto
qed simp

section \<open>Ownership\<close>

lemma ownedI:
  assumes "distinct H"
    and "\<And>r. r \<in> set H \<Longrightarrow> r < length (s_heap s) \<and> c_state (deref s r) = StateBusy"
    and "\<And>id lr. s_leases s id = Some lr \<Longrightarrow>
        \<not> lr_released lr \<and> lr_instance lr < length (s_heap s) \<and>
        c_state (deref s (lr_instance lr)) = StateBusy \<and> lr_instance lr \<notin> set H"
    and "\<And>id id' lr lr'. s_leases s id = Some lr \<Longrightarrow> s_leases s id' = Some lr' \<Longrightarrow>
        lr_instance lr = lr_instance lr' \<Longrightarrow> id = id'"
    and "\<And>f r. r \<in> set (pool_of s f) \<Longrightarrow> c_state (deref s r) \<noteq> StateStarting \<and>
        (c_state (deref s r) = StateBusy \<longrightarrow> r \<in> set H \<or> leased s r)"
  shows "owned H s"
  unfolding owned_def using assms by blast

lemma owned_distinct: "owned H s \<Longrightarrow> distinct H"
  by (simp add: owned_def)

lemma owned_held: "owned H s \<Longrightarrow> r \<in> set H \<Longrightarrow> r < length (s_heap s) \<and> c_state (deref s r) = StateBusy"
  by (simp add: owned_def)

lemma owned_lease: "owned H s \<Longrightarrow> s_leases s i = Some lr \<Longrightarrow>
   \<not> lr_released lr \<and> lr_instance lr < length (s_heap s) \<and>
   c_state (deref s (lr_instance lr)) = StateBusy \<and> lr_instance lr \<notin> set H"
  unfolding owned_def by blast

lemma owned_lease_inj: "owned H s \<Longrightarrow> s_leases s i = Some lr \<Longrightarrow> s_leases s i' = Some lr' \<Longrightarrow>
   lr_instance lr = lr_instance lr' \<Longrightarrow> i = i'"
  unfolding owned_def by blast

lemma owned_pool: "owned H s \<Longrightarrow> r \<in> set (pool_of s f) \<Longrightarrow> c_state (deref s r) \<noteq> StateStarting \<and>
   (c_state (deref s r) = StateBusy \<longrightarrow> r \<in> set H \<or> leased s r)"
  unfolding owned_def by blast

lemma owned_new: "owned [] (new_scheduler cfgs)"
  by (rule ownedI) (simp_all add: new_scheduler_def)

lemma owned_frame [sched_inv]:
  assumes "owned H s" "s_heap s' = s_heap s" "s_leases s' = s_leases s"
    "\<And>f. set (pool_of s' f) \<subseteq> set (pool_of s f)"
  shows "owned H s'"
proof (rule ownedI)
  show "distinct H" using assms(1) by (rule owned_distinct)
  show "s_leases s' i = Some lr \<Longrightarrow> s_leases s' i' = Some lr' \<Longrightarrow> lr_instance lr = lr_instance lr' \<Longrightarrow> i = i'"
    for i i' lr lr' unfolding assms(3) by (rule owned_lease_inj [OF assms(1)])
  show "r \<in> set (pool_of s' f) \<Longrightarrow> c_state (deref s' r) \<noteq> StateStarting \<and>
      (c_state (deref s' r) = StateBusy \<longrightarrow> r \<in> set H \<or> leased s' r)" for f r
    using owned_pool [OF assms(1), of r f] assms(4) [of f] leased_cong [OF assms(3), of r]
    unfolding assms(2) by blast
qed (use owned_held [OF assms(1)] owned_lease [OF assms(1)] assms(2,3) in auto)

lemma owned_reuse [sched_inv]:
  assumes "owned H s" "c_state (deref s r) = StateIdle" "r < length (s_heap s)"
  shows "owned (r # H) (mark r StateBusy now s)"
proof (rule ownedI)
  have r: "r \<notin> set H" using owned_held [OF assms(1)] assms(2) by auto
  show "distinct (r # H)" using r owned_distinct [OF assms(1)] by simp
  have lease: "s_leases s i = Some lr \<Longrightarrow> lr_instance lr \<noteq> r" for i lr
    using owned_lease [OF assms(1)] assms(2) by auto
  show "s_leases (mark r StateBusy now s) i = Some lr \<Longrightarrow> \<not> lr_released lr \<and>
        lr_instance lr < length (s_heap (mark r StateBusy now s)) \<and>
        c_state (deref (mark r StateBusy now s) (lr_instance lr)) = StateBusy \<and>
        lr_instance lr \<notin> set (r # H)" for i lr
    using owned_lease [OF assms(1), of i lr] lease assms(3) by (auto simp: deref_mark)
  show "s_leases (mark r StateBusy now s) i = Some lr \<Longrightarrow> s_leases (mark r StateBusy now s) i' = Some lr' \<Longrightarrow>
    lr_instance lr = lr_instance lr' \<Longrightarrow> i = i'" for i i' lr lr'
    using owned_lease_inj [OF assms(1)] by simp
  show "x \<in> set (pool_of (mark r StateBusy now s) f) \<Longrightarrow>
      c_state (deref (mark r StateBusy now s) x) \<noteq> StateStarting \<and>
      (c_state (deref (mark r StateBusy now s) x) = StateBusy \<longrightarrow>
        x \<in> set (r # H) \<or> leased (mark r StateBusy now s) x)" for f x
    using owned_pool [OF assms(1), of x f] assms(3) by (simp add: deref_mark leased_def)
qed (use owned_held [OF assms(1)] assms(3) in \<open>auto simp: deref_mark\<close>)

lemma owned_append [sched_inv]:
  assumes "owned H s" "shape s"
    "c_state c = StateBusy \<and> H' = length (s_heap s) # H \<or> c_state c = StateIdle \<and> H' = H"
  shows "owned H' (snd (pool_append f c s))"
proof (rule ownedI)
  have fresh: "length (s_heap s) \<notin> set H" using owned_held [OF assms(1)] by blast
  show "distinct H'" using fresh owned_distinct [OF assms(1)] assms(3) by auto
  have old: "x < length (s_heap s) \<Longrightarrow> (s_heap s @ [c]) ! x = deref s x" for x
    by (simp add: nth_append)
  show "r < length (s_heap (snd (pool_append f c s))) \<and>
      c_state (deref (snd (pool_append f c s)) r) = StateBusy" if "r \<in> set H'" for r
  proof (cases "r = length (s_heap s)")
    case True
    then show ?thesis using that assms(3) fresh by auto
  next
    case False
    then show ?thesis using that assms(3) owned_held [OF assms(1), of r] old [of r] by auto
  qed
  show "s_leases (snd (pool_append f c s)) i = Some lr \<Longrightarrow> \<not> lr_released lr \<and>
        lr_instance lr < length (s_heap (snd (pool_append f c s))) \<and>
        c_state (deref (snd (pool_append f c s)) (lr_instance lr)) = StateBusy \<and>
        lr_instance lr \<notin> set H'" for i lr
    using owned_lease [OF assms(1), of i lr] old [of "lr_instance lr"] assms(3) by auto
  show "s_leases (snd (pool_append f c s)) i = Some lr \<Longrightarrow> s_leases (snd (pool_append f c s)) i' = Some lr' \<Longrightarrow>
    lr_instance lr = lr_instance lr' \<Longrightarrow> i = i'" for i i' lr lr'
    using owned_lease_inj [OF assms(1)] by simp
  show "c_state (deref (snd (pool_append f c s)) r) \<noteq> StateStarting \<and>
      (c_state (deref (snd (pool_append f c s)) r) = StateBusy \<longrightarrow>
        r \<in> set H' \<or> leased (snd (pool_append f c s)) r)"
    if "r \<in> set (pool_of (snd (pool_append f c s)) g)" for g r
  proof (cases "r = length (s_heap s)")
    case True
    then show ?thesis using assms(3) by auto
  next
    case False
    then have "r \<in> set (pool_of s g)" using that by (auto split: if_splits)
    moreover from this have "(s_heap s @ [c]) ! r = deref s r"
      using shape_pool [OF assms(2)] old by blast
    ultimately show ?thesis
      using owned_pool [OF assms(1), of r g] assms(3) by (auto simp: leased_def)
  qed
qed

lemma owned_release [sched_inv]:
  assumes "owned H s" "r \<in> set H"
  shows "owned (remove1 r H) (mark r StateIdle now s)"
proof (rule ownedI)
  have r: "r < length (s_heap s)" using owned_held [OF assms(1)] assms(2) by blast
  have d: "distinct H" by (rule owned_distinct [OF assms(1)])
  then show "distinct (remove1 r H)" by simp
  show "x \<in> set (remove1 r H) \<Longrightarrow> x < length (s_heap (mark r StateIdle now s)) \<and>
      c_state (deref (mark r StateIdle now s) x) = StateBusy" for x
    using owned_held [OF assms(1), of x] d r by (auto simp: deref_mark)
  show "s_leases (mark r StateIdle now s) i = Some lr \<Longrightarrow> \<not> lr_released lr \<and>
        lr_instance lr < length (s_heap (mark r StateIdle now s)) \<and>
        c_state (deref (mark r StateIdle now s) (lr_instance lr)) = StateBusy \<and>
        lr_instance lr \<notin> set (remove1 r H)" for i lr
    using owned_lease [OF assms(1), of i lr] assms(2) d r by (auto simp: deref_mark)
  show "s_leases (mark r StateIdle now s) i = Some lr \<Longrightarrow> s_leases (mark r StateIdle now s) i' = Some lr' \<Longrightarrow>
    lr_instance lr = lr_instance lr' \<Longrightarrow> i = i'" for i i' lr lr'
    using owned_lease_inj [OF assms(1)] by simp
  show "x \<in> set (pool_of (mark r StateIdle now s) f) \<Longrightarrow>
      c_state (deref (mark r StateIdle now s) x) \<noteq> StateStarting \<and>
      (c_state (deref (mark r StateIdle now s) x) = StateBusy \<longrightarrow>
        x \<in> set (remove1 r H) \<or> leased (mark r StateIdle now s) x)" for f x
    using owned_pool [OF assms(1), of x f] r d by (simp add: deref_mark leased_def)
qed

lemma owned_lease_insert [sched_inv]:
  assumes "owned H s" "r \<in> set H" "s_leases s lease_id = None"
  shows "owned (remove1 r H) (snd (lease_insert req t lease_id r now s))"
proof (rule ownedI)
  let ?s = "snd (lease_insert req t lease_id r now s)"
  have d: "distinct H" by (rule owned_distinct [OF assms(1)])
  then show "distinct (remove1 r H)" by simp
  have eq: "s_heap ?s = s_heap s" "pool_of ?s f = pool_of s f" for f
    by (simp_all add: lease_insert_def Let_def)
  have leases: "s_leases ?s = (s_leases s)(lease_id \<mapsto> \<lparr>lr_lease = lease_of req lease_id (deref s r) t,
      lr_instance = r, lr_deadline = lease_deadline now t, lr_released = False\<rparr>)"
    by (simp add: lease_insert_def Let_def)
  have other: "s_leases s i = Some lr \<Longrightarrow> lr_instance lr \<noteq> r" for i lr
    using owned_lease [OF assms(1)] assms(2) by blast
  show "x \<in> set (remove1 r H) \<Longrightarrow> x < length (s_heap ?s) \<and> c_state (deref ?s x) = StateBusy" for x
    using owned_held [OF assms(1), of x] d unfolding eq by auto
  show "s_leases ?s i = Some lr \<Longrightarrow> \<not> lr_released lr \<and> lr_instance lr < length (s_heap ?s) \<and>
        c_state (deref ?s (lr_instance lr)) = StateBusy \<and> lr_instance lr \<notin> set (remove1 r H)" for i lr
    using owned_lease [OF assms(1), of i lr] owned_held [OF assms(1,2)] d unfolding eq leases
    by (auto split: if_splits)
  show "s_leases ?s i = Some lr \<Longrightarrow> s_leases ?s i' = Some lr' \<Longrightarrow> lr_instance lr = lr_instance lr' \<Longrightarrow> i = i'"
    for i i' lr lr'
    using owned_lease_inj [OF assms(1), of i lr i' lr'] other [of i lr] other [of i' lr'] unfolding leases
    by (auto split: if_splits)
  have "leased s x \<Longrightarrow> leased ?s x" for x
    using assms(3) unfolding leased_def leases by (metis fun_upd_other option.distinct(1))
  moreover have "leased ?s r" unfolding leased_def leases by auto
  ultimately show "x \<in> set (pool_of ?s f) \<Longrightarrow> c_state (deref ?s x) \<noteq> StateStarting \<and>
      (c_state (deref ?s x) = StateBusy \<longrightarrow> x \<in> set (remove1 r H) \<or> leased ?s x)" for f x
    using owned_pool [OF assms(1), of x f] d unfolding eq by (cases "x = r") auto
qed

lemma owned_unlease:
  assumes "owned H s" "s_leases s k = Some lr"
  shows "owned (lr_instance lr # H) (s\<lparr>s_leases := (s_leases s)(k := None)\<rparr>)"
proof (rule ownedI)
  let ?s = "s\<lparr>s_leases := (s_leases s)(k := None)\<rparr>"
  note k = owned_lease [OF assms]
  show "distinct (lr_instance lr # H)" using k owned_distinct [OF assms(1)] by simp
  show "x \<in> set (lr_instance lr # H) \<Longrightarrow> x < length (s_heap ?s) \<and> c_state (deref ?s x) = StateBusy" for x
    using owned_held [OF assms(1), of x] k by auto
  show "s_leases ?s i = Some l \<Longrightarrow> \<not> lr_released l \<and> lr_instance l < length (s_heap ?s) \<and>
        c_state (deref ?s (lr_instance l)) = StateBusy \<and> lr_instance l \<notin> set (lr_instance lr # H)" for i l
    using owned_lease [OF assms(1), of i l] owned_lease_inj [OF assms(1), of i l k lr] assms(2)
    by (auto split: if_splits)
  show "s_leases ?s i = Some l \<Longrightarrow> s_leases ?s i' = Some l' \<Longrightarrow> lr_instance l = lr_instance l' \<Longrightarrow> i = i'"
    for i i' l l'
    using owned_lease_inj [OF assms(1), of i l i' l'] by (auto split: if_splits)
  have "x = lr_instance lr \<or> leased ?s x" if x: "leased s x" for x
  proof -
    from x obtain i l where "s_leases s i = Some l" "lr_instance l = x" unfolding leased_def by blast
    with assms(2) show ?thesis by (cases "i = k") (auto simp: leased_def)
  qed
  then show "x \<in> set (pool_of ?s f) \<Longrightarrow> c_state (deref ?s x) \<noteq> StateStarting \<and>
      (c_state (deref ?s x) = StateBusy \<longrightarrow> x \<in> set (lr_instance lr # H) \<or> leased ?s x)" for f x
    using owned_pool [OF assms(1), of x f] by auto
qed

lemma owned_drop:
  assumes "owned H s" "\<And>f. r \<notin> set (pool_of s f)"
  shows "owned (remove1 r H) s"
proof (rule ownedI)
  have d: "distinct H" by (rule owned_distinct [OF assms(1)])
  then show "distinct (remove1 r H)" by simp
  show "x \<in> set (pool_of s f) \<Longrightarrow> c_state (deref s x) \<noteq> StateStarting \<and>
      (c_state (deref s x) = StateBusy \<longrightarrow> x \<in> set (remove1 r H) \<or> leased s x)" for f x
    using owned_pool [OF assms(1), of x f] assms(2) [of f] d by auto
  show "s_leases s i = Some lr \<Longrightarrow> s_leases s i' = Some lr' \<Longrightarrow> lr_instance lr = lr_instance lr' \<Longrightarrow> i = i'"
    for i i' lr lr' by (rule owned_lease_inj [OF assms(1)])
qed (use owned_held [OF assms(1)] owned_lease [OF assms(1)] in \<open>auto dest: set_remove1_subset [THEN subsetD]\<close>)

section \<open>Whole operations\<close>

definition sched_ok :: "ref list \<Rightarrow> scheduler \<Rightarrow> bool" where
  "sched_ok H s \<longleftrightarrow> shape s \<and> owned H s"

lemma sched_okD: "sched_ok H s \<Longrightarrow> shape s" "sched_ok H s \<Longrightarrow> owned H s"
  by (simp_all add: sched_ok_def)

lemma sched_ok_frame:
  "sched_ok H s \<Longrightarrow> shape s' \<Longrightarrow> s_heap s' = s_heap s \<Longrightarrow> s_leases s' = s_leases s \<Longrightarrow>
   (\<And>f. set (pool_of s' f) \<subseteq> set (pool_of s f)) \<Longrightarrow> sched_ok H s'"
  unfolding sched_ok_def by (blast intro: owned_frame)

lemma sched_ok_new: "list_all config_ok cfgs \<Longrightarrow> sched_ok [] (new_scheduler cfgs)"
  by (simp add: sched_ok_def shape_new owned_new)

lemma sched_ok_register [sched_inv]:
  "sched_ok H s \<Longrightarrow> config_ok cfg \<Longrightarrow> register_insert cfg s = (None, s') \<Longrightarrow> sched_ok H s'"
  by (rule sched_ok_frame [of H s])
    (auto simp: register_insert_def sched_okD shape_functions_upd split: option.splits)

lemma sched_ok_delete [sched_inv]: "sched_ok H s \<Longrightarrow> sched_ok H (delete_function name s)"
  by (rule sched_ok_frame [of H s]) (simp_all add: sched_okD shape_delete, simp_all add: delete_function_def)

lemma pool_of_Deregister:
  "Deregister name s = (stops, s') \<Longrightarrow> pool_of s' f = (if f = name then [] else pool_of s f)"
  by (auto simp: Deregister_def get_list_upd)

lemma sched_ok_deregister [sched_inv]:
  assumes "sched_ok H s" "Deregister name s = (stops, s')"
  shows "sched_ok H s'"
proof (rule sched_ok_frame [OF assms(1)])
  show "shape s'" using sched_okD(1) [OF assms(1)] assms(2) by (rule shape_deregister)
  show "set (pool_of s' f) \<subseteq> set (pool_of s f)" for f
    by (simp add: pool_of_Deregister [OF assms(2)])
qed (use assms(2) in \<open>auto simp: Deregister_def\<close>)

lemma pool_of_upload_commit:
  "upload_commit name cfg dir s = (dropped, s') \<Longrightarrow> pool_of s' f = (if f = name then [] else pool_of s f)"
  by (auto simp: upload_commit_def get_list_upd)

lemma sched_ok_upload [sched_inv]:
  assumes "sched_ok H s" "config_ok cfg" "fc_name cfg = name" "upload_commit name cfg dir s = (dropped, s')"
  shows "sched_ok H s'"
proof (rule sched_ok_frame [OF assms(1)])
  show "shape s'" using sched_okD(1) [OF assms(1)] assms(2-4) by (rule shape_upload)
  show "set (pool_of s' f) \<subseteq> set (pool_of s f)" for f
    by (simp add: pool_of_upload_commit [OF assms(4)])
qed (use assms(4) in \<open>auto simp: upload_commit_def\<close>)

lemma sched_ok_port [sched_inv]: "sched_ok H s \<Longrightarrow> sched_ok H (s\<lparr>s_next_port := p\<rparr>)"
  by (rule sched_ok_frame [of H s]) (simp_all add: sched_okD shape_port)

lemma acquire_locked_cases:
  assumes "acquire_locked now name s = (res, s')"
  obtains (unknown) "s_functions s name = None" "res = Inl (FunctionNotFound name)" "s' = s"
  | (reused) cfg r where "s_functions s name = Some cfg" "r \<in> set (pool_of s name)"
      "c_state (deref s r) = StateIdle" "res = Inr (Reused r)" "s' = mark r StateBusy now s"
  | (cold) cfg where "s_functions s name = Some cfg" "\<forall>r \<in> set (pool_of s name). c_state (deref s r) \<noteq> StateIdle"
      "res = Inr (NeedColdStart cfg (s_next_port s))" "s' = s\<lparr>s_next_port := s_next_port s + 1\<rparr>"
proof (cases "s_functions s name")
  case None
  show ?thesis by (rule unknown [OF None]) (use assms None in \<open>auto simp: acquire_locked_def\<close>)
next
  case (Some cfg)
  show ?thesis
  proof (cases "find (\<lambda>r. c_state (deref s r) = StateIdle) (pool_of s name)")
    case None
    show ?thesis
      by (rule cold [OF Some]) (use assms Some None in \<open>auto simp: acquire_locked_def find_None_iff\<close>)
  next
    case (Some r)
    then have "r \<in> set (pool_of s name)" "c_state (deref s r) = StateIdle"
      by (auto simp: find_Some_iff)
    then show ?thesis
      by (rule reused [OF \<open>s_functions s name = Some cfg\<close>])
        (use assms \<open>s_functions s name = Some cfg\<close> Some in \<open>auto simp: acquire_locked_def\<close>)
  qed
qed

lemma sched_ok_acquire [sched_inv]:
  assumes "sched_ok H s" "acquire_locked now name s = (res, s')"
  shows "case res of Inr (Reused r) \<Rightarrow> sched_ok (r # H) s' | _ \<Rightarrow> sched_ok H s'"
  using assms(2)
proof (cases rule: acquire_locked_cases)
  case (reused cfg r)
  have "r < length (s_heap s)" using shape_pool [OF sched_okD(1) [OF assms(1)] reused(2)] by blast
  with reused(3) have "sched_ok (r # H) (mark r StateBusy now s)"
    unfolding sched_ok_def by (intro conjI shape_mark owned_reuse sched_okD [OF assms(1)])
  with reused show ?thesis by simp
next
  case unknown
  with assms(1) show ?thesis by simp
next
  case (cold cfg)
  with sched_ok_port [OF assms(1)] show ?thesis by simp
qed

lemma sched_ok_append [sched_inv]:
  assumes "sched_ok H s" "c_func_name c = f" "c_id c \<notin> c_id ` set (s_heap s)"
    "c_state c = StateBusy \<and> H' = length (s_heap s) # H \<or> c_state c = StateIdle \<and> H' = H"
  shows "sched_ok H' (snd (pool_append f c s))"
  unfolding sched_ok_def
  by (intro conjI shape_append owned_append [of H] sched_okD [OF assms(1)] assms(2-4))

lemma sched_ok_release [sched_inv]:
  "sched_ok H s \<Longrightarrow> r \<in> set H \<Longrightarrow> sched_ok (remove1 r H) (Release r now s)"
  unfolding sched_ok_def Release_def by (simp add: shape_mark owned_release)

lemma sched_ok_lease [sched_inv]:
  "sched_ok H s \<Longrightarrow> r \<in> set H \<Longrightarrow> s_leases s lease_id = None \<Longrightarrow>
   sched_ok (remove1 r H) (snd (lease_insert req t lease_id r now s))"
  unfolding sched_ok_def
  by (intro conjI owned_lease_insert) (auto simp: lease_insert_def Let_def shape_leases)

lemma releaseInstanceLocked_cases:
  assumes "releaseInstanceLocked k status now s = (err, stop_id, s')" "sched_ok H s"
  obtains (missing) "s_leases s k = None" "err = Some (LeaseNotFound k)" "stop_id = []" "s' = s"
  | (removed) lr where "s_leases s k = Some lr" "status = ''timeout'' \<or> status = ''abandoned''" "err = None"
      "stop_id = c_id (deref s (lr_instance lr))" "lr_instance lr < length (s_heap s)"
      "s' = removeInstanceLocked (lr_instance lr) (s\<lparr>s_leases := (s_leases s)(k := None)\<rparr>)"
  | (idle) lr where "s_leases s k = Some lr" "\<not> (status = ''timeout'' \<or> status = ''abandoned'')" "err = None"
      "stop_id = []" "lr_instance lr < length (s_heap s)"
      "s' = mark (lr_instance lr) StateIdle now (s\<lparr>s_leases := (s_leases s)(k := None)\<rparr>)"
proof (cases "s_leases s k")
  case None
  show ?thesis by (rule missing [OF None]) (use assms(1) None in \<open>auto simp: releaseInstanceLocked_def\<close>)
next
  case (Some lr)
  note l = owned_lease [OF sched_okD(2) [OF assms(2)] Some]
  show ?thesis
  proof (cases "status = ''timeout'' \<or> status = ''abandoned''")
    case True
    show ?thesis
      by (rule removed [OF Some True]) (use assms(1) Some True l in \<open>auto simp: releaseInstanceLocked_def Let_def\<close>)
  next
    case False
    show ?thesis
      by (rule idle [OF Some False]) (use assms(1) Some False l in \<open>auto simp: releaseInstanceLocked_def Let_def\<close>)
  qed
qed

lemma sched_ok_unlease_remove:
  assumes "sched_ok H s" "s_leases s k = Some lr"
  shows "sched_ok H (removeInstanceLocked (lr_instance lr) (s\<lparr>s_leases := (s_leases s)(k := None)\<rparr>))"
proof -
  let ?r = "lr_instance lr"
  define s1 where "s1 = s\<lparr>s_leases := (s_leases s)(k := None)\<rparr>"
  have s1: "shape s1" "owned (?r # H) s1" "?r < length (s_heap s1)"
    unfolding s1_def
    using shape_leases [OF sched_okD(1) [OF assms(1)]] owned_unlease [OF sched_okD(2) [OF assms(1)] assms(2)]
      owned_lease [OF sched_okD(2) [OF assms(1)] assms(2)] by simp_all
  have pool: "pool_of (removeInstanceLocked ?r s1) f = remove1 ?r (pool_of s1 f)" for f
    using s1 by (simp add: pool_of_removeInstance)
  have "owned (?r # H) (removeInstanceLocked ?r s1)"
    using s1(2) by (rule owned_frame) (simp_all add: pool set_remove1_subset)
  then have "owned (remove1 ?r (?r # H)) (removeInstanceLocked ?r s1)"
    by (rule owned_drop) (simp add: pool shape_distinct [OF s1(1)])
  then show ?thesis using shape_remove [OF s1(1,3)] unfolding sched_ok_def s1_def by simp
qed

lemma sched_ok_releaseInstance [sched_inv]:
  assumes "sched_ok H s" "releaseInstanceLocked k status now s = (err, stop_id, s')"
  shows "sched_ok H s'"
  using assms(2,1)
proof (cases rule: releaseInstanceLocked_cases)
  case (idle lr)
  have "owned (remove1 (lr_instance lr) (lr_instance lr # H)) s'"
    unfolding idle(6) using owned_unlease [OF sched_okD(2) [OF assms(1)] idle(1)] by (rule owned_release) simp
  moreover have "shape s'"
    unfolding idle(6) by (intro shape_mark shape_leases sched_okD(1) [OF assms(1)])
  ultimately show ?thesis by (simp add: sched_ok_def)
next
  case missing
  with assms(1) show ?thesis by simp
next
  case (removed lr)
  with sched_ok_unlease_remove [OF assms(1)] show ?thesis by simp
qed

lemma sched_ok_reapLeases [sched_inv]:
  "sched_ok H s \<Longrightarrow> sched_ok H (snd (reapExpiredLeases now ks s))"
proof (induction now ks s rule: reapExpiredLeases.induct)
  case (2 now k ks s)
  obtain err stop_id s1 where s1: "releaseInstanceLocked k ''timeout'' now s = (err, stop_id, s1)"
    by (metis prod_cases3)
  have ok: "sched_ok H s1" using 2(4) s1 by (rule sched_ok_releaseInstance)
  show ?case
  proof (cases "s_leases s k")
    case None
    with 2(1,4) show ?thesis by simp
  next
    case (Some lr)
    show ?thesis
    proof (cases "now > lr_deadline lr")
      case True
      from 2(2) [OF Some True s1 [symmetric] refl refl ok] show ?thesis
        using Some True s1 by (simp add: case_prod_beta)
    next
      case False
      with 2(3,4) Some show ?thesis by simp
    qed
  qed
qed simp

lemma sched_ok_reap_idle [sched_inv]:
  assumes "sched_ok H s" "reap_idle now fs s = (stops, s')" "distinct fs"
  shows "sched_ok H s'"
proof -
  note eq = reap_idle_eq [OF assms(2,3)]
  have sh: "shape s'"
    using eq sched_okD(1) [OF assms(1)] by (intro shape_pool_subset [of s s']) (auto simp: shape_distinct)
  show ?thesis
    by (rule sched_ok_frame [OF assms(1) sh]) (use eq in auto)
qed

section \<open>Scaling down\<close>

text \<open>What the search for the oldest idle container has established at position \<open>k\<close>.\<close>

definition oldest_upto :: "container list \<Rightarrow> ref list \<Rightarrow> nat \<Rightarrow> nat option \<Rightarrow> bool" where
  "oldest_upto h cs k best \<longleftrightarrow>
     (case best of
        None \<Rightarrow> \<forall>j < k. c_state (h ! (cs ! j)) \<noteq> StateIdle
      | Some b \<Rightarrow> b < k \<and> c_state (h ! (cs ! b)) = StateIdle \<and>
          (\<forall>j < k. c_state (h ! (cs ! j)) = StateIdle \<longrightarrow>
             c_last_used (h ! (cs ! b)) \<le> c_last_used (h ! (cs ! j)) \<and>
             (j < b \<longrightarrow> c_last_used (h ! (cs ! b)) < c_last_used (h ! (cs ! j)))))"

lemma oldest_step:
  assumes "oldest_upto h cs k best"
  shows "oldest_upto h cs (Suc k)
     (if c_state (h ! (cs ! k)) \<noteq> StateIdle then best
      else case best of None \<Rightarrow> Some k
           | Some b \<Rightarrow> if c_last_used (h ! (cs ! k)) < c_last_used (h ! (cs ! b)) then Some k else best)"
  using assms by (cases best) (fastforce simp: oldest_upto_def less_Suc_eq)+

lemma oldest_idle_step:
  "oldest_idle h cs k (r # rs) best = oldest_idle h cs (Suc k) rs
     (if c_state (h ! r) \<noteq> StateIdle then best
      else case best of None \<Rightarrow> Some k
           | Some b \<Rightarrow> if c_last_used (h ! r) < c_last_used (h ! (cs ! b)) then Some k else best)"
  by simp

lemma oldest_idle_upto:
  "k \<le> length cs \<Longrightarrow> rs = drop k cs \<Longrightarrow> oldest_upto h cs k best \<Longrightarrow>
   oldest_upto h cs (length cs) (oldest_idle h cs k rs best)"
proof (induction h cs k rs best rule: oldest_idle.induct)
  case (2 h cs i r rs best)
  have i: "i < length cs" using 2(3) by (metis drop_all list.distinct(1) not_le)
  from 2(3) Cons_nth_drop_Suc [OF i] have "r # rs = cs ! i # drop (Suc i) cs" by simp
  then have r: "r = cs ! i" "rs = drop (Suc i) cs" by auto
  show ?case
    unfolding oldest_idle_step
    by (rule 2(1) [OF _ r(2)]) (use i in \<open>simp add: Suc_le_eq\<close>, unfold r(1), rule oldest_step [OF 2(4)])
qed simp

lemma oldest_idle_spec: "oldest_upto h cs (length cs) (oldest_idle h cs 0 cs None)"
  by (rule oldest_idle_upto) (simp_all add: oldest_upto_def)

lemma RemoveIdle_cases:
  assumes "RemoveIdle now f s = (ok, stops, s')"
  obtains (kept) "\<not> ok" "stops = []" "s' = s"
      "\<forall>r \<in> set (pool_of s f). c_state (deref s r) = StateIdle \<longrightarrow> now - c_last_used (deref s r) < 2 * minute"
  | (removed) i where "ok" "i < length (pool_of s f)" "c_state (deref s (pool_of s f ! i)) = StateIdle"
      "stops = [c_id (deref s (pool_of s f ! i))]" "2 * minute \<le> now - c_last_used (deref s (pool_of s f ! i))"
      "\<forall>r \<in> set (pool_of s f). c_state (deref s r) = StateIdle \<longrightarrow>
         c_last_used (deref s (pool_of s f ! i)) \<le> c_last_used (deref s r)"
      "s' = s\<lparr>s_pool := (s_pool s)(f \<mapsto> take i (pool_of s f) @ drop (Suc i) (pool_of s f))\<rparr>"
proof (cases "oldest_idle (s_heap s) (pool_of s f) 0 (pool_of s f) None")
  case None
  then have "\<forall>r \<in> set (pool_of s f). c_state (deref s r) \<noteq> StateIdle"
    using oldest_idle_spec [of "s_heap s" "pool_of s f"] by (auto simp: oldest_upto_def in_set_conv_nth)
  note none = this
  show ?thesis by (rule kept) (use assms None none in \<open>auto simp: RemoveIdle_def\<close>)
next
  case (Some i)
  have spec: "i < length (pool_of s f)" "c_state (deref s (pool_of s f ! i)) = StateIdle"
    "\<forall>r \<in> set (pool_of s f). c_state (deref s r) = StateIdle \<longrightarrow>
         c_last_used (deref s (pool_of s f ! i)) \<le> c_last_used (deref s r)"
    using oldest_idle_spec [of "s_heap s" "pool_of s f"] Some
    by (auto simp: oldest_upto_def in_set_conv_nth)
  show ?thesis
  proof (cases "time_sub now (c_last_used (deref s (pool_of s f ! i))) < 2 * minute")
    case True
    then have "now - c_last_used (deref s (pool_of s f ! i)) < 2 * minute"
      by (simp add: time_sub_lt minute_def second_def)
    then have "\<forall>r \<in> set (pool_of s f). c_state (deref s r) = StateIdle \<longrightarrow> now - c_last_used (deref s r) < 2 * minute"
      using spec(3) by force
    moreover have "\<not> ok" "stops = []" "s' = s"
      using assms Some True by (simp_all add: RemoveIdle_def Let_def)
    ultimately show ?thesis using kept by blast
  next
    case False
    then have "2 * minute \<le> now - c_last_used (deref s (pool_of s f ! i))"
      by (simp add: time_sub_lt minute_def second_def)
    note old = this
    show ?thesis
      by (rule removed [OF _ spec(1,2) _ old spec(3)])
        (use assms Some False in \<open>auto simp: RemoveIdle_def Let_def\<close>)
  qed
qed

lemma distinct_remove_nth: "distinct xs \<Longrightarrow> i < length xs \<Longrightarrow> take i xs @ drop (Suc i) xs = remove1 (xs ! i) xs"
proof (induction xs arbitrary: i)
  case (Cons x xs)
  then show ?case by (cases i) auto
qed simp

lemma sched_ok_remove_idle [sched_inv]:
  assumes "sched_ok H s" "RemoveIdle now f s = (ok, stops, s')"
  shows "sched_ok H s'"
  using assms(2)
proof (cases rule: RemoveIdle_cases)
  case kept
  with assms(1) show ?thesis by simp
next
  case (removed i)
  have pool: "pool_of s' g = (if g = f then remove1 (pool_of s f ! i) (pool_of s f) else pool_of s g)" for g
    using removed distinct_remove_nth [OF shape_distinct [OF sched_okD(1) [OF assms(1)]], of i f]
    by (simp add: get_list_upd)
  have eq: "s_heap s' = s_heap s" "s_functions s' = s_functions s" "s_leases s' = s_leases s"
    by (simp_all add: removed(7))
  have sub: "set (pool_of s' g) \<subseteq> set (pool_of s g)" for g
    by (simp add: pool set_remove1_subset)
  have "distinct (pool_of s' g)" for g
    using shape_distinct [OF sched_okD(1) [OF assms(1)]] by (simp add: pool)
  from shape_pool_subset [OF sched_okD(1) [OF assms(1)] this sub eq(1,2)]
  show ?thesis by (rule sched_ok_frame [OF assms(1) _ eq(1,3) sub])
qed

end
