(* ===== verification/Transition.thy ===== *)
theory Transition
  imports Main
begin

text \<open>
  The interface of a component whose critical sections interleave: initial states, a step
  relation and an invariant that the initial states have and every step keeps. What holds
  after any number of steps is proved here once; the scheduler, the gateway's function
  queue and the invocation table of the in-container runtime each interpret the locale with
  their own steps.
\<close>

locale transition_system =
  fixes init :: "'s \<Rightarrow> bool"
    and step :: "'s \<Rightarrow> 's \<Rightarrow> bool"
    and good :: "'s \<Rightarrow> bool"
  assumes init_good: "init s \<Longrightarrow> good s"
    and step_good: "good s \<Longrightarrow> step s t \<Longrightarrow> good t"
begin

lemma steps_good: "step\<^sup>*\<^sup>* s t \<Longrightarrow> good s \<Longrightarrow> good t"
  by (induction rule: rtranclp_induct) (auto intro: step_good)

lemma reachable_good: "init s \<Longrightarrow> step\<^sup>*\<^sup>* s t \<Longrightarrow> good t"
  by (auto intro: steps_good init_good)

end

text \<open>A machine with a quantity that no step decreases.\<close>

locale monotone_system = transition_system +
  fixes gauge :: "'s \<Rightarrow> 'm :: order"
  assumes step_mono: "good s \<Longrightarrow> step s t \<Longrightarrow> gauge s \<le> gauge t"
begin

lemma steps_mono:
  assumes "step\<^sup>*\<^sup>* s t" "good s"
  shows "gauge s \<le> gauge t"
  using assms
proof (induction rule: rtranclp_induct)
  case (step u v)
  then have "good u" using steps_good by blast
  with step show ?case using step_mono by (meson order_trans)
qed simp

end

end
