(* ===== verification/Scheduler_System.thy ===== *)
theory Scheduler_System
  imports Scheduler_Inv Transition
begin

text \<open>
  The gateway process as a transition system: the scheduler together with the requests that
  are between two of its critical sections. Every rule of \<open>sys_step\<close> is one critical
  section of gateway/scheduler/scheduler.go (or one answer of the backend or the store)
  with whatever thread reaches it next, so a run is any interleaving of any number of
  requests, uploads, prewarm goroutines, releases and reaper sweeps. Of the backend the rules
  for a finished start rely on two documented facts: the instance carries the name of the
  function it was started for, and an id that is not empty and was never used before. Of the
  uuid package they rely on a lease id being new.
\<close>

text \<open>Who waits for a container: the router for an HTTP invocation, or \<open>AcquireInstance\<close>
  for mqsvc, which has read the configuration and checked the trigger.\<close>

datatype client = Http | Mq acquire_request function_config

text \<open>A cold start in flight: its client (none for \<open>ColdStartOne\<close>), the function, the
  configuration copied out of the registry and the port.\<close>

record pending_start =
  ps_client :: "client option"
  ps_name :: string
  ps_cfg :: function_config
  ps_port :: int

record system =
  y_sched :: scheduler
  y_checked :: "client list"            \<comment> \<open>past the checks of \<open>AcquireInstance\<close>\<close>
  y_holding :: "(client \<times> ref) list"    \<comment> \<open>given a container, not released, no lease yet\<close>
  y_cold :: "pending_start list"
  y_saving :: "function_config list"    \<comment> \<open>\<open>Register\<close> waiting for \<open>SaveFunction\<close>\<close>
  y_uploads :: "(string \<times> function_config) list"  \<comment> \<open>\<open>UploadCode\<close> before its last section\<close>
  y_stopped :: "string list"            \<comment> \<open>ids handed to \<open>s.stop\<close>\<close>
  y_leaked :: "string list"             \<comment> \<open>ids dropped by an upload that failed afterwards\<close>

definition held :: "system \<Rightarrow> ref list" where
  "held y = map snd (y_holding y)"

definition sys_init :: "system \<Rightarrow> bool" where
  "sys_init y \<longleftrightarrow>
     (\<exists>cfgs. list_all config_ok cfgs \<and>
       y = \<lparr>y_sched = new_scheduler cfgs, y_checked = [], y_holding = [], y_cold = [], y_saving = [],
            y_uploads = [], y_stopped = [], y_leaked = []\<rparr>)"

inductive sys_step :: "env \<Rightarrow> system \<Rightarrow> system \<Rightarrow> bool" for env where
  register_claim:
    "register_prepare cfg0 = Inr cfg \<Longrightarrow> register_insert cfg (y_sched y) = (None, s) \<Longrightarrow>
     sys_step env y (y\<lparr>y_sched := s, y_saving := cfg # y_saving y\<rparr>)"
| register_saved:
    "cfg \<in> set (y_saving y) \<Longrightarrow> sys_step env y (y\<lparr>y_saving := remove1 cfg (y_saving y)\<rparr>)"
| register_failed:
    "cfg \<in> set (y_saving y) \<Longrightarrow>
     sys_step env y (y\<lparr>y_sched := delete_function (fc_name cfg) (y_sched y), y_saving := remove1 cfg (y_saving y)\<rparr>)"
| deregister:
    "Deregister name (y_sched y) = (stops, s) \<Longrightarrow>
     sys_step env y (y\<lparr>y_sched := s, y_stopped := stops @ y_stopped y\<rparr>)"
| upload_read:
    "Get name (y_sched y) = Some cfg \<Longrightarrow> sys_step env y (y\<lparr>y_uploads := (name, cfg) # y_uploads y\<rparr>)"
| upload_abort:
    "up \<in> set (y_uploads y) \<Longrightarrow> sys_step env y (y\<lparr>y_uploads := remove1 up (y_uploads y)\<rparr>)"
| upload_done:
    "(name, cfg) \<in> set (y_uploads y) \<Longrightarrow>
     upload_commit name (cfg\<lparr>fc_code_key := key, fc_code_url := url\<rparr>) dir (y_sched y) = (dropped, s) \<Longrightarrow>
     sys_step env y (y\<lparr>y_sched := s, y_uploads := remove1 (name, cfg) (y_uploads y),
       y_stopped := map (c_id \<circ> deref s) dropped @ y_stopped y\<rparr>)"
| upload_save_failed:
    "(name, cfg) \<in> set (y_uploads y) \<Longrightarrow>
     upload_commit name (cfg\<lparr>fc_code_key := key, fc_code_url := url\<rparr>) dir (y_sched y) = (dropped, s) \<Longrightarrow>
     sys_step env y (y\<lparr>y_sched := s, y_uploads := remove1 (name, cfg) (y_uploads y),
       y_leaked := map (c_id \<circ> deref s) dropped @ y_leaked y\<rparr>)"
| mq_checked:
    "Get (ar_function req) (y_sched y) = Some cfg \<Longrightarrow> validateAcquireTrigger cfg req = None \<Longrightarrow>
     sys_step env y (y\<lparr>y_checked := Mq req cfg # y_checked y\<rparr>)"
| acquire_failed:
    "cl = Http \<or> cl \<in> set (y_checked y) \<Longrightarrow> (\<And>req cfg. cl = Mq req cfg \<Longrightarrow> name = ar_function req) \<Longrightarrow>
     acquire_locked now name (y_sched y) = (Inl e, s) \<Longrightarrow>
     sys_step env y (y\<lparr>y_sched := s, y_checked := remove1 cl (y_checked y)\<rparr>)"
| acquire_reuse:
    "cl = Http \<or> cl \<in> set (y_checked y) \<Longrightarrow> (\<And>req cfg. cl = Mq req cfg \<Longrightarrow> name = ar_function req) \<Longrightarrow>
     acquire_locked now name (y_sched y) = (Inr (Reused r), s) \<Longrightarrow>
     sys_step env y (y\<lparr>y_sched := s, y_checked := remove1 cl (y_checked y), y_holding := (cl, r) # y_holding y\<rparr>)"
| acquire_cold:
    "cl = Http \<or> cl \<in> set (y_checked y) \<Longrightarrow> (\<And>req cfg. cl = Mq req cfg \<Longrightarrow> name = ar_function req) \<Longrightarrow>
     acquire_locked now name (y_sched y) = (Inr (NeedColdStart cfg port), s) \<Longrightarrow>
     sys_step env y (y\<lparr>y_sched := s, y_checked := remove1 cl (y_checked y),
       y_cold := \<lparr>ps_client = Some cl, ps_name = name, ps_cfg = cfg, ps_port = port\<rparr> # y_cold y\<rparr>)"
| prewarm:
    "coldstart_begin name (y_sched y) = (Some (cfg, port), s) \<Longrightarrow>
     sys_step env y (y\<lparr>y_sched := s,
       y_cold := \<lparr>ps_client = None, ps_name = name, ps_cfg = cfg, ps_port = port\<rparr> # y_cold y\<rparr>)"
| start_failed:
    "p \<in> set (y_cold y) \<Longrightarrow> sys_step env y (y\<lparr>y_cold := remove1 p (y_cold y)\<rparr>)"
| start_busy:
    "p \<in> set (y_cold y) \<Longrightarrow> ps_client p = Some cl \<Longrightarrow>
     start backend (ps_cfg p) (ps_port p) StateBusy now = Inr c \<Longrightarrow>
     c_func_name c = fc_name (ps_cfg p) \<Longrightarrow> c_id c \<notin> insert [] (c_id ` set (s_heap (y_sched y))) \<Longrightarrow>
     pool_append (ps_name p) c (y_sched y) = (r, s) \<Longrightarrow>
     sys_step env y (y\<lparr>y_sched := s, y_cold := remove1 p (y_cold y), y_holding := (cl, r) # y_holding y\<rparr>)"
| start_idle:
    "p \<in> set (y_cold y) \<Longrightarrow> ps_client p = None \<Longrightarrow>
     start backend (ps_cfg p) (ps_port p) StateIdle now = Inr c \<Longrightarrow>
     c_func_name c = fc_name (ps_cfg p) \<Longrightarrow> c_id c \<notin> insert [] (c_id ` set (s_heap (y_sched y))) \<Longrightarrow>
     pool_append (ps_name p) c (y_sched y) = (r, s) \<Longrightarrow>
     sys_step env y (y\<lparr>y_sched := s, y_cold := remove1 p (y_cold y)\<rparr>)"
| release:
    "(Http, r) \<in> set (y_holding y) \<Longrightarrow>
     sys_step env y (y\<lparr>y_sched := Release r now (y_sched y), y_holding := remove1 (Http, r) (y_holding y)\<rparr>)"
| lease:
    "(Mq req cfg, r) \<in> set (y_holding y) \<Longrightarrow> s_leases (y_sched y) lease_id = None \<Longrightarrow>
     lease_insert req (clampLeaseTimeout env (ar_timeout_seconds req) (fc_timeout cfg)) lease_id r now (y_sched y) = (l, s) \<Longrightarrow>
     sys_step env y (y\<lparr>y_sched := s, y_holding := remove1 (Mq req cfg, r) (y_holding y)\<rparr>)"
| release_lease:
    "ReleaseInstance lease_id status now (y_sched y) = (err, stops, s) \<Longrightarrow>
     sys_step env y (y\<lparr>y_sched := s, y_stopped := stops @ y_stopped y\<rparr>)"
| reap_leases:
    "range_order (s_leases (y_sched y)) ks \<Longrightarrow> reapExpiredLeases now ks (y_sched y) = (stops, s) \<Longrightarrow>
     sys_step env y (y\<lparr>y_sched := s, y_stopped := stops @ y_stopped y\<rparr>)"
| reap_containers:
    "range_order (s_pool (y_sched y)) fs \<Longrightarrow> reap_idle now fs (y_sched y) = (stops, s) \<Longrightarrow>
     sys_step env y (y\<lparr>y_sched := s, y_stopped := stops @ y_stopped y\<rparr>)"
| scale_down:
    "RemoveIdle now name (y_sched y) = (ok, stops, s) \<Longrightarrow>
     sys_step env y (y\<lparr>y_sched := s, y_stopped := stops @ y_stopped y\<rparr>)"

section \<open>The invariant\<close>

definition pooled :: "scheduler \<Rightarrow> ref \<Rightarrow> bool" where
  "pooled s r \<longleftrightarrow> (\<exists>f. r \<in> set (pool_of s f))"

text \<open>\<open>D\<close> is the set of the ids that were handed to \<open>stop\<close> or leaked: they are exactly
  those of the containers that are in no pool.\<close>

definition traced :: "string set \<Rightarrow> scheduler \<Rightarrow> bool" where
  "traced D s \<longleftrightarrow> [] \<notin> c_id ` set (s_heap s) \<and> D \<subseteq> c_id ` set (s_heap s) \<and>
     (\<forall>r < length (s_heap s). c_id (deref s r) \<in> D \<longleftrightarrow> \<not> pooled s r)"

definition disposed :: "system \<Rightarrow> string set" where
  "disposed y = set (y_stopped y) \<union> set (y_leaked y)"

definition pending_ok :: "system \<Rightarrow> bool" where
  "pending_ok y \<longleftrightarrow>
     (\<forall>p \<in> set (y_cold y). fc_name (ps_cfg p) = ps_name p \<and> ps_port p < s_next_port (y_sched y)) \<and>
     distinct (map ps_port (y_cold y)) \<and>
     (\<forall>up \<in> set (y_uploads y). fc_name (snd up) = fst up \<and> config_ok (snd up))"

definition sys_ok :: "system \<Rightarrow> bool" where
  "sys_ok y \<longleftrightarrow> sched_ok (held y) (y_sched y) \<and> pending_ok y \<and> traced (disposed y) (y_sched y)"

lemma sys_okD:
  "sys_ok y \<Longrightarrow> sched_ok (held y) (y_sched y)"
  "sys_ok y \<Longrightarrow> pending_ok y"
  "sys_ok y \<Longrightarrow> traced (disposed y) (y_sched y)"
  by (simp_all add: sys_ok_def)

lemma traced_new: "traced {} (new_scheduler cfgs)"
  by (simp add: traced_def new_scheduler_def)

lemma sys_init_ok: "sys_init y \<Longrightarrow> sys_ok y"
  by (auto simp: sys_init_def sys_ok_def held_def sched_ok_new pending_ok_def disposed_def traced_new)

subsection \<open>Containers that leave the pools\<close>

lemma id_mem:
  assumes "shape s" "set rs \<subseteq> {..<length (s_heap s)}" "r < length (s_heap s)"
  shows "c_id (deref s r) \<in> set (map (c_id \<circ> deref s) rs) \<longleftrightarrow> r \<in> set rs"
  using assms(2) shape_id_inj [OF assms(1,3)] by auto

lemma id_in_heap: "r < length (s_heap s) \<Longrightarrow> c_id (deref s r) \<in> c_id ` set (s_heap s)"
  by simp

lemma traced_drop:
  assumes "traced D s" "shape s" "set rs \<subseteq> {..<length (s_heap s)}"
    and "map c_id (s_heap s') = map c_id (s_heap s)"
    and "\<And>r. pooled s' r \<longleftrightarrow> pooled s r \<and> r \<notin> set rs"
  shows "traced (set (map (c_id \<circ> deref s) rs) \<union> D) s'"
proof -
  have len: "length (s_heap s') = length (s_heap s)"
    using arg_cong [OF assms(4), of length] by simp
  have ids: "c_id ` set (s_heap s') = c_id ` set (s_heap s)"
    using arg_cong [OF assms(4), of set] by simp
  have id: "r < length (s_heap s) \<Longrightarrow> c_id (deref s' r) = c_id (deref s r)" for r
    using arg_cong [OF assms(4), of "\<lambda>l. l ! r"] len by simp
  have sub: "set (map (c_id \<circ> deref s) rs) \<subseteq> c_id ` set (s_heap s)"
    using assms(3) by auto
  have "c_id (deref s' r) \<in> set (map (c_id \<circ> deref s) rs) \<union> D \<longleftrightarrow> \<not> pooled s' r"
    if r: "r < length (s_heap s)" for r
  proof -
    have "c_id (deref s r) \<in> D \<longleftrightarrow> \<not> pooled s r"
      using assms(1) r by (simp add: traced_def)
    then show ?thesis
      unfolding Un_iff id [OF r] id_mem [OF assms(2,3) r] assms(5) by blast
  qed
  then show ?thesis
    using assms(1) sub unfolding traced_def ids len by blast
qed

lemma traced_same:
  "traced D s \<Longrightarrow> map c_id (s_heap s') = map c_id (s_heap s) \<Longrightarrow> shape s \<Longrightarrow>
   (\<And>f. set (pool_of s' f) = set (pool_of s f)) \<Longrightarrow> traced D s'"
  using traced_drop [of D s "[]" s'] by (simp add: pooled_def)

lemma traced_append:
  assumes "traced D s" "c_id c \<notin> insert [] (c_id ` set (s_heap s))" "shape s"
  shows "traced D (snd (pool_append f c s))"
proof -
  let ?s = "snd (pool_append f c s)"
  have "pooled ?s r \<longleftrightarrow> pooled s r \<or> r = length (s_heap s)" for r
    unfolding pooled_def pool_append_simps by auto
  moreover have "\<not> pooled s (length (s_heap s))"
    using shape_pool [OF assms(3)] unfolding pooled_def by blast
  moreover have "c_id c \<notin> D" using assms(1,2) unfolding traced_def by blast
  ultimately show ?thesis
    using assms(1,2) unfolding traced_def by (auto simp: nth_append less_Suc_eq)
qed

lemma pooled_remove:
  assumes "shape s" "r < length (s_heap s)"
  shows "pooled (removeInstanceLocked r s) x \<longleftrightarrow> pooled s x \<and> x \<noteq> r"
  unfolding pooled_def pool_of_removeInstance [OF assms]
  using shape_distinct [OF assms(1)] by auto

lemma traced_unlease:
  "traced D s \<Longrightarrow> traced D (s\<lparr>s_leases := m\<rparr>)"
  by (simp add: traced_def pooled_def)

lemma traced_releaseInstance:
  assumes "traced D s" "sched_ok H s" "releaseInstanceLocked k status now s = (err, stop_id, s')"
  shows "traced (set (if stop_id \<noteq> [] then [stop_id] else []) \<union> D) s'"
  using assms(3,2)
proof (cases rule: releaseInstanceLocked_cases)
  case missing
  with assms(1) show ?thesis by simp
next
  case (idle lr)
  have "traced D (s\<lparr>s_leases := (s_leases s)(k := None)\<rparr>)" using assms(1) by (rule traced_unlease)
  then have "traced D s'"
    by (rule traced_same) (simp_all add: idle(6) shape_leases sched_okD(1) [OF assms(2)])
  with idle(4) show ?thesis by simp
next
  case (removed lr)
  let ?s = "s\<lparr>s_leases := (s_leases s)(k := None)\<rparr>"
  have sh: "shape ?s" by (intro shape_leases sched_okD(1) [OF assms(2)])
  have "traced (set (map (c_id \<circ> deref ?s) [lr_instance lr]) \<union> D) s'"
    by (rule traced_drop [OF traced_unlease [OF assms(1)] sh])
      (use removed(5) sh in \<open>simp_all add: removed(6) pooled_remove\<close>)
  moreover have "c_id (deref s (lr_instance lr)) \<noteq> []"
    using assms(1) removed(5) unfolding traced_def by (metis id_in_heap)
  ultimately show ?thesis by (simp add: removed(4))
qed

lemma traced_reapLeases:
  "traced D s \<Longrightarrow> sched_ok H s \<Longrightarrow> reapExpiredLeases now ks s = (stops, s') \<Longrightarrow> traced (set stops \<union> D) s'"
proof (induction now ks s arbitrary: D stops rule: reapExpiredLeases.induct)
  case (2 now k ks s)
  show ?case
  proof (cases "\<exists>lr. s_leases s k = Some lr \<and> now > lr_deadline lr")
    case False
    then have "reapExpiredLeases now ks s = (stops, s')"
      using 2(6) by (auto split: option.splits)
    with False 2(1,3,4,5) show ?thesis by (cases "s_leases s k") auto
  next
    case True
    then obtain lr where lr: "s_leases s k = Some lr" "now > lr_deadline lr" by blast
    obtain err stop_id s1 where s1: "releaseInstanceLocked k ''timeout'' now s = (err, stop_id, s1)"
      by (metis prod_cases3)
    obtain more where more: "reapExpiredLeases now ks s1 = (more, s')"
      and stops: "stops = (if stop_id \<noteq> [] then [stop_id] else []) @ more"
      using 2(6) lr s1 by (auto split: prod.splits if_splits)
    from traced_releaseInstance [OF 2(4,5) s1] sched_ok_releaseInstance [OF 2(5) s1]
    have "traced (set more \<union> (set (if stop_id \<noteq> [] then [stop_id] else []) \<union> D)) s'"
      by (rule 2(2) [OF lr s1 [symmetric] refl refl _ _ more])
    then show ?thesis by (simp add: stops Un_left_commute Un_assoc)
  qed
qed simp

lemma traced_reap_idle:
  assumes "traced D s" "shape s" "reap_idle now fs s = (stops, s')" "range_order (s_pool s) fs"
  shows "traced (set stops \<union> D) s'"
proof -
  have d: "distinct fs" and dom: "set fs = dom (s_pool s)" using assms(4) by (auto simp: range_order_def)
  note eq = reap_idle_eq [OF assms(3) d]
  let ?st = "\<lambda>f. filter (\<lambda>r. stale now (deref s r)) (pool_of s f)"
  let ?rs = "concat (map ?st fs)"
  have stops: "stops = map (c_id \<circ> deref s) ?rs"
    using eq by (simp add: map_concat comp_def)
  have listed: "r \<in> set (pool_of s f) \<Longrightarrow> f \<in> set fs" for r f
    using dom by (cases "s_pool s f") (auto simp: get_list_def)
  have pool: "pool_of s' f = filter (\<lambda>r. \<not> stale now (deref s r)) (pool_of s f)" for f
    using eq listed [of _ f] by (cases "pool_of s f") auto
  show ?thesis
    unfolding stops
  proof (rule traced_drop [OF assms(1,2)])
    show "set ?rs \<subseteq> {..<length (s_heap s)}" using shape_pool [OF assms(2)] by auto
    show "map c_id (s_heap s') = map c_id (s_heap s)" using eq by simp
    show "pooled s' r \<longleftrightarrow> pooled s r \<and> r \<notin> set ?rs" for r
      unfolding pooled_def pool using listed by auto
  qed
qed

lemma traced_remove_idle:
  assumes "traced D s" "shape s" "RemoveIdle now f s = (ok, stops, s')"
  shows "traced (set stops \<union> D) s'"
  using assms(3)
proof (cases rule: RemoveIdle_cases)
  case kept
  with assms(1) show ?thesis by simp
next
  case (removed i)
  let ?r = "pool_of s f ! i"
  have r: "?r \<in> set (pool_of s f)" using removed(2) by simp
  have pool: "pool_of s' g = (if g = f then remove1 ?r (pool_of s f) else pool_of s g)" for g
    using removed(2,7) distinct_remove_nth [OF shape_distinct [OF assms(2)], of i f] by (simp add: get_list_upd)
  have home: "x \<in> set (pool_of s g) \<Longrightarrow> g = c_func_name (deref s x)" for x g
    using shape_pool [OF assms(2)] by blast
  have gone: "pooled s' x \<longleftrightarrow> pooled s x \<and> x \<noteq> ?r" for x
  proof -
    have "x \<in> set (pool_of s' g) \<longleftrightarrow> x \<in> set (pool_of s g) \<and> x \<noteq> ?r" for g
    proof (cases "g = f")
      case True
      then show ?thesis using shape_distinct [OF assms(2), of f] by (simp add: pool)
    next
      case False
      then have "?r \<notin> set (pool_of s g)" using home [of ?r g] home [OF r] by metis
      then show ?thesis using False by (auto simp only: pool if_False)
    qed
    then show ?thesis unfolding pooled_def by blast
  qed
  have "traced (set (map (c_id \<circ> deref s) [?r]) \<union> D) s'"
    by (rule traced_drop [OF assms(1,2)])
      (use shape_pool [OF assms(2) r] in \<open>simp_all add: gone\<close>, simp add: removed(7))
  then show ?thesis by (simp add: removed(4))
qed

text \<open>Dropping the whole pool of one function.\<close>

lemma traced_drop_pool:
  assumes "traced D s" "shape s" "s_heap s' = s_heap s"
    "\<And>g. pool_of s' g = (if g = f then [] else pool_of s g)"
  shows "traced (set (map (c_id \<circ> deref s) (pool_of s f)) \<union> D) s'"
proof (rule traced_drop [OF assms(1,2)])
  show "set (pool_of s f) \<subseteq> {..<length (s_heap s)}" using shape_pool [OF assms(2)] by auto
  have one: "g = f" if "r \<in> set (pool_of s f)" "r \<in> set (pool_of s g)" for r g
    using shape_pool [OF assms(2)] that by metis
  have "r \<in> set (pool_of s' g) \<longleftrightarrow> r \<in> set (pool_of s g) \<and> r \<notin> set (pool_of s f)" for r g
    using one [of r g] assms(4) [of g] by (cases "g = f") auto
  then show "pooled s' r \<longleftrightarrow> pooled s r \<and> r \<notin> set (pool_of s f)" for r
    unfolding pooled_def by blast
qed (simp add: assms(3))

lemma map_snd_remove1:
  "distinct (map snd xs) \<Longrightarrow> (a, r) \<in> set xs \<Longrightarrow> map snd (remove1 (a, r) xs) = remove1 r (map snd xs)"
  by (induction xs) (auto simp: rev_image_eqI)

subsection \<open>Every step keeps it\<close>

lemma step_sched_ok:
  assumes "sys_ok y" "sys_step env y y'"
  shows "sched_ok (held y') (y_sched y')"
  using assms(2)
proof cases
  note ok = sys_okD(1) [OF assms(1)]
  note d = owned_distinct [OF sched_okD(2) [OF ok]]
  {
    case (register_claim cfg0 cfg s)
    have "config_ok cfg" using register_claim(2) by (rule register_prepare_ok)
    from sched_ok_register [OF ok this register_claim(3)] show ?thesis
      by (simp add: register_claim(1) held_def)
  next
    case (register_saved cfg)
    with ok show ?thesis by (simp add: held_def)
  next
    case (register_failed cfg)
    with sched_ok_delete [OF ok] show ?thesis by (simp add: held_def)
  next
    case (deregister name stops s)
    with sched_ok_deregister [OF ok] show ?thesis by (simp add: held_def)
  next
    case (upload_read name cfg)
    with ok show ?thesis by (simp add: held_def)
  next
    case (upload_abort up)
    with ok show ?thesis by (simp add: held_def)
  next
    case (upload_done name cfg key url dir dropped s)
    then have "fc_name cfg = name" "config_ok cfg"
      using sys_okD(2) [OF assms(1)] by (auto simp: pending_ok_def)
    then have "sched_ok (held y) s"
      by (intro sched_ok_upload [OF ok _ _ upload_done(3)]) (simp_all add: config_ok_def)
    then show ?thesis by (simp add: upload_done(1) held_def)
  next
    case (upload_save_failed name cfg key url dir dropped s)
    then have "fc_name cfg = name" "config_ok cfg"
      using sys_okD(2) [OF assms(1)] by (auto simp: pending_ok_def)
    then have "sched_ok (held y) s"
      by (intro sched_ok_upload [OF ok _ _ upload_save_failed(3)]) (simp_all add: config_ok_def)
    then show ?thesis by (simp add: upload_save_failed(1) held_def)
  next
    case (mq_checked req cfg)
    with ok show ?thesis by (simp add: held_def)
  next
    case (acquire_failed cl name now e s)
    with sched_ok_acquire [OF ok acquire_failed(4)] show ?thesis by (simp add: held_def)
  next
    case (acquire_reuse cl name now r s)
    with sched_ok_acquire [OF ok acquire_reuse(4)] show ?thesis by (simp add: held_def)
  next
    case (acquire_cold cl name now cfg port s)
    with sched_ok_acquire [OF ok acquire_cold(4)] show ?thesis by (simp add: held_def)
  next
    case (prewarm name cfg port s)
    have "s = (y_sched y)\<lparr>s_next_port := s_next_port (y_sched y) + 1\<rparr>"
      using prewarm(2) by (auto simp: coldstart_begin_def split: option.splits)
    with sched_ok_port [OF ok] show ?thesis by (simp add: prewarm(1) held_def)
  next
    case (start_failed p)
    with ok show ?thesis by (simp add: held_def)
  next
    case (start_busy p cl backend now c r s)
    have st: "c_state c = StateBusy"
      using start_busy(4) by (auto simp: start_def container_of_def split: sum.splits)
    have r: "r = length (s_heap (y_sched y))" "s = snd (pool_append (ps_name p) c (y_sched y))"
      using start_busy(7) by (auto simp: pool_append_def)
    have "c_func_name c = ps_name p"
      using start_busy(2,5) sys_okD(2) [OF assms(1)] by (auto simp: pending_ok_def)
    then have "sched_ok (length (s_heap (y_sched y)) # held y) (snd (pool_append (ps_name p) c (y_sched y)))"
      by (rule sched_ok_append [OF ok]) (use start_busy(6) st in auto)
    then show ?thesis by (simp add: start_busy(1) held_def r)
  next
    case (start_idle p backend now c r s)
    have st: "c_state c = StateIdle"
      using start_idle(4) by (auto simp: start_def container_of_def split: sum.splits)
    have r: "s = snd (pool_append (ps_name p) c (y_sched y))"
      using start_idle(7) by (auto simp: pool_append_def)
    have "c_func_name c = ps_name p"
      using start_idle(2,5) sys_okD(2) [OF assms(1)] by (auto simp: pending_ok_def)
    then have "sched_ok (held y) (snd (pool_append (ps_name p) c (y_sched y)))"
      by (rule sched_ok_append [OF ok]) (use start_idle(6) st in auto)
    then show ?thesis by (simp add: start_idle(1) held_def r)
  next
    case (release r now)
    have "r \<in> set (held y)" using release(2) by (force simp: held_def)
    from sched_ok_release [OF ok this] show ?thesis
      using map_snd_remove1 [OF d [unfolded held_def] release(2)] by (simp add: release(1) held_def)
  next
    case (lease req cfg r lease_id now l s)
    have "r \<in> set (held y)" using lease(2) by (force simp: held_def)
    from sched_ok_lease [OF ok this lease(3), of req _ now] have "sched_ok (remove1 r (held y)) s"
      by (metis lease(4) snd_conv)
    then show ?thesis
      using map_snd_remove1 [OF d [unfolded held_def] lease(2)] by (simp add: lease(1) held_def)
  next
    case (release_lease lease_id status now err stops s)
    show ?thesis
    proof (cases "isValidLeaseStatus status")
      case True
      obtain e' st' s' where r: "releaseInstanceLocked lease_id status now (y_sched y) = (e', st', s')"
        by (metis prod_cases3)
      then have "s = s'" using release_lease(2) True by (auto simp: ReleaseInstance_def split: option.splits)
      with sched_ok_releaseInstance [OF ok r] show ?thesis by (simp add: release_lease(1) held_def)
    next
      case False
      then show ?thesis using release_lease(2) ok by (simp add: release_lease(1) held_def ReleaseInstance_def)
    qed
  next
    case (reap_leases ks now stops s)
    with sched_ok_reapLeases [OF ok, of now ks] show ?thesis by (simp add: held_def)
  next
    case (reap_containers fs now stops s)
    with sched_ok_reap_idle [OF ok reap_containers(3)] show ?thesis by (simp add: held_def range_order_def)
  next
    case (scale_down now name b stops s)
    with sched_ok_remove_idle [OF ok scale_down(2)] show ?thesis by (simp add: held_def)
  }
qed

lemma acquire_frame:
  assumes "acquire_locked now name s = (res, s')"
  shows "s_next_port s \<le> s_next_port s' \<and> map c_id (s_heap s') = map c_id (s_heap s) \<and>
    (\<forall>f. pool_of s' f = pool_of s f)"
  using assms by (cases rule: acquire_locked_cases) simp_all

lemma release_frame:
  "releaseInstanceLocked k status now s = (err, stop_id, s') \<Longrightarrow> s_next_port s' = s_next_port s"
  by (auto simp: releaseInstanceLocked_def Let_def split: option.splits if_splits)

lemma reapLeases_frame:
  "s_next_port (snd (reapExpiredLeases now ks s)) = s_next_port s"
proof (induction now ks s rule: reapExpiredLeases.induct)
  case (2 now k ks s)
  then show ?case
    using release_frame [of k "''timeout''" now s] by (auto split: option.split prod.split)
qed simp

lemma pending_ok_mono:
  assumes "pending_ok y" "s_next_port (y_sched y) \<le> s_next_port (y_sched y')"
    "y_cold y' = y_cold y" "set (y_uploads y') \<subseteq> set (y_uploads y)"
  shows "pending_ok y' \<and> s_next_port (y_sched y) \<le> s_next_port (y_sched y')"
  unfolding pending_ok_def assms(3)
proof (intro conjI ballI)
  show "s_next_port (y_sched y) \<le> s_next_port (y_sched y')" by (rule assms(2))
  show "distinct (map ps_port (y_cold y))" using assms(1) by (simp add: pending_ok_def)
  fix p assume "p \<in> set (y_cold y)"
  then show "fc_name (ps_cfg p) = ps_name p" "ps_port p < s_next_port (y_sched y')"
    using assms(1,2) by (auto simp: pending_ok_def)
next
  fix up assume "up \<in> set (y_uploads y')"
  then have "up \<in> set (y_uploads y)" using assms(4) by blast
  then show "fc_name (snd up) = fst up" "config_ok (snd up)"
    using assms(1) by (auto simp: pending_ok_def)
qed

lemma pending_ok_less:
  assumes "pending_ok y" "s_next_port (y_sched y') = s_next_port (y_sched y)"
    "y_cold y' = remove1 p (y_cold y)" "y_uploads y' = y_uploads y"
  shows "pending_ok y' \<and> s_next_port (y_sched y) \<le> s_next_port (y_sched y')"
  using assms notin_set_remove1 unfolding pending_ok_def
  by (auto dest: notin_set_remove1 set_remove1_subset [THEN subsetD] simp: distinct_map intro: inj_on_subset)

lemma pending_ok_more:
  assumes "pending_ok y" "y_cold y' = p # y_cold y" "ps_port p = s_next_port (y_sched y)"
    "fc_name (ps_cfg p) = ps_name p" "s_next_port (y_sched y') = s_next_port (y_sched y) + 1"
    "y_uploads y' = y_uploads y"
  shows "pending_ok y' \<and> s_next_port (y_sched y) \<le> s_next_port (y_sched y')"
  using assms unfolding pending_ok_def by fastforce

lemma step_pending_ok:
  assumes "sys_ok y" "sys_step env y y'"
  shows "pending_ok y' \<and> s_next_port (y_sched y) \<le> s_next_port (y_sched y')"
  using assms(2)
proof cases
  note ok = sys_okD(2) [OF assms(1)]
  note sh = sched_okD(1) [OF sys_okD(1) [OF assms(1)]]
  {
    case (register_claim cfg0 cfg s)
    then show ?thesis
      by (intro pending_ok_mono [OF ok]) (auto simp: register_insert_def split: option.splits)
  next
    case (register_failed cfg)
    then show ?thesis by (intro pending_ok_mono [OF ok]) (auto simp: delete_function_def)
  next
    case (deregister name stops s)
    then show ?thesis by (intro pending_ok_mono [OF ok]) (auto simp: Deregister_def)
  next
    case (upload_read name cfg)
    with shape_function [OF sh, of name cfg] ok show ?thesis by (simp add: pending_ok_def Get_def)
  next
    case (upload_abort up)
    then show ?thesis by (intro pending_ok_mono [OF ok]) (auto dest: set_remove1_subset [THEN subsetD])
  next
    case (upload_done name cfg key url dir dropped s)
    then show ?thesis
      by (intro pending_ok_mono [OF ok]) (auto simp: upload_commit_def dest: set_remove1_subset [THEN subsetD])
  next
    case (upload_save_failed name cfg key url dir dropped s)
    then show ?thesis
      by (intro pending_ok_mono [OF ok]) (auto simp: upload_commit_def dest: set_remove1_subset [THEN subsetD])
  next
    case (acquire_failed cl name now e s)
    with acquire_frame [OF acquire_failed(4)] show ?thesis by (intro pending_ok_mono [OF ok]) simp_all
  next
    case (acquire_reuse cl name now r s)
    with acquire_frame [OF acquire_reuse(4)] show ?thesis by (intro pending_ok_mono [OF ok]) simp_all
  next
    case (acquire_cold cl name now cfg port s)
    from acquire_cold(4) have "s_functions (y_sched y) name = Some cfg" "port = s_next_port (y_sched y)"
      "s_next_port s = s_next_port (y_sched y) + 1"
      by (cases rule: acquire_locked_cases; simp)+
    with shape_function [OF sh, of name cfg] show ?thesis
      by (intro pending_ok_more [OF ok, where p = "\<lparr>ps_client = Some cl, ps_name = name, ps_cfg = cfg, ps_port = port\<rparr>"])
        (simp_all add: acquire_cold(1))
  next
    case (prewarm name cfg port s)
    then have "s_functions (y_sched y) name = Some cfg" "port = s_next_port (y_sched y)"
      "s_next_port s = s_next_port (y_sched y) + 1"
      by (auto simp: coldstart_begin_def split: option.splits)
    with shape_function [OF sh, of name cfg] show ?thesis
      by (intro pending_ok_more [OF ok, where p = "\<lparr>ps_client = None, ps_name = name, ps_cfg = cfg, ps_port = port\<rparr>"])
        (simp_all add: prewarm(1))
  next
    case (start_failed p)
    then show ?thesis by (intro pending_ok_less [OF ok]) simp_all
  next
    case (start_busy p cl backend now c r s)
    then have "s_next_port s = s_next_port (y_sched y)" by (auto simp: pool_append_def)
    with start_busy(1) show ?thesis by (intro pending_ok_less [OF ok]) simp_all
  next
    case (start_idle p backend now c r s)
    then have "s_next_port s = s_next_port (y_sched y)" by (auto simp: pool_append_def)
    with start_idle(1) show ?thesis by (intro pending_ok_less [OF ok]) simp_all
  next
    case (lease req cfg r lease_id now l s)
    then have "s_next_port s = s_next_port (y_sched y)" by (auto simp: lease_insert_def Let_def)
    with lease(1) show ?thesis by (intro pending_ok_mono [OF ok]) simp_all
  next
    case (release_lease lease_id status now err stops s)
    have "s_next_port s = s_next_port (y_sched y)"
      using release_lease(2) release_frame [of lease_id status now "y_sched y"]
      by (auto simp: ReleaseInstance_def split: if_splits prod.splits option.splits)
    with release_lease(1) show ?thesis by (intro pending_ok_mono [OF ok]) simp_all
  next
    case (reap_leases ks now stops s)
    with reapLeases_frame [of now ks "y_sched y"] show ?thesis by (intro pending_ok_mono [OF ok]) simp_all
  next
    case (reap_containers fs now stops s)
    with reap_idle_eq [OF reap_containers(3)] show ?thesis
      by (intro pending_ok_mono [OF ok]) (simp_all add: range_order_def)
  next
    case (scale_down now name b stops s)
    then have "s_next_port s = s_next_port (y_sched y)"
      by (auto elim!: RemoveIdle_cases)
    with scale_down(1) show ?thesis by (intro pending_ok_mono [OF ok]) simp_all
  }
qed (use sys_okD(2) [OF assms(1)] in \<open>simp_all add: Release_def pending_ok_def\<close>)

lemma step_traced:
  assumes "sys_ok y" "sys_step env y y'"
  shows "traced (disposed y') (y_sched y')"
  using assms(2)
proof cases
  note ok = sys_okD(3) [OF assms(1)]
  note sch = sys_okD(1) [OF assms(1)]
  note sh = sched_okD(1) [OF sch]
  {
    case (register_claim cfg0 cfg s)
    with ok show ?thesis
      by (auto simp: register_insert_def disposed_def traced_def pooled_def split: option.splits)
  next
    case (register_failed cfg)
    with ok show ?thesis by (simp add: delete_function_def disposed_def traced_def pooled_def)
  next
    case (deregister name stops s)
    have "s_heap s = s_heap (y_sched y)" "stops = map (c_id \<circ> deref (y_sched y)) (pool_of (y_sched y) name)"
      using deregister(2) by (auto simp: Deregister_def)
    with traced_drop_pool [OF ok sh _ pool_of_Deregister [OF deregister(2)]] show ?thesis
      by (simp add: deregister(1) disposed_def Un_assoc)
  next
    case (upload_done name cfg key url dir dropped s)
    have "s_heap s = s_heap (y_sched y)" "dropped = pool_of (y_sched y) name"
      using upload_done(3) by (auto simp: upload_commit_def)
    with traced_drop_pool [OF ok sh _ pool_of_upload_commit [OF upload_done(3)]] show ?thesis
      by (simp add: upload_done(1) disposed_def Un_assoc)
  next
    case (upload_save_failed name cfg key url dir dropped s)
    have "s_heap s = s_heap (y_sched y)" "dropped = pool_of (y_sched y) name"
      using upload_save_failed(3) by (auto simp: upload_commit_def)
    with traced_drop_pool [OF ok sh _ pool_of_upload_commit [OF upload_save_failed(3)]] show ?thesis
      by (simp add: upload_save_failed(1) disposed_def Un_left_commute)
  next
    case (acquire_failed cl name now e s)
    have "traced (disposed y) s"
      by (rule traced_same [OF ok _ sh]) (simp_all add: acquire_frame [OF acquire_failed(4)])
    then show ?thesis by (simp add: acquire_failed(1) disposed_def)
  next
    case (acquire_reuse cl name now r s)
    have "traced (disposed y) s"
      by (rule traced_same [OF ok _ sh]) (simp_all add: acquire_frame [OF acquire_reuse(4)])
    then show ?thesis by (simp add: acquire_reuse(1) disposed_def)
  next
    case (acquire_cold cl name now cfg port s)
    have "traced (disposed y) s"
      by (rule traced_same [OF ok _ sh]) (simp_all add: acquire_frame [OF acquire_cold(4)])
    then show ?thesis by (simp add: acquire_cold(1) disposed_def)
  next
    case (prewarm name cfg port s)
    then show ?thesis
      using ok by (auto simp: coldstart_begin_def disposed_def traced_def pooled_def split: option.splits)
  next
    case (start_busy p cl backend now c r s)
    have "s = snd (pool_append (ps_name p) c (y_sched y))" using start_busy(7) by simp
    with traced_append [OF ok start_busy(6) sh] show ?thesis by (simp add: start_busy(1) disposed_def)
  next
    case (start_idle p backend now c r s)
    have "s = snd (pool_append (ps_name p) c (y_sched y))" using start_idle(7) by simp
    with traced_append [OF ok start_idle(6) sh] show ?thesis by (simp add: start_idle(1) disposed_def)
  next
    case (release r now)
    have "traced (disposed y) (Release r now (y_sched y))"
      by (rule traced_same [OF ok _ sh]) (simp_all add: Release_def)
    then show ?thesis by (simp add: release(1) disposed_def)
  next
    case (lease req cfg r lease_id now l s)
    have "traced (disposed y) s"
      by (rule traced_same [OF ok _ sh]) (use lease(4) in \<open>auto simp: lease_insert_def Let_def\<close>)
    then show ?thesis by (simp add: lease(1) disposed_def)
  next
    case (release_lease lease_id status now err stops s)
    obtain e' st' s' where r: "releaseInstanceLocked lease_id status now (y_sched y) = (e', st', s')"
      by (metis prod_cases3)
    note t = traced_releaseInstance [OF ok sch r]
    have none: "e' = Some e \<Longrightarrow> st' = []" for e
      using r by (auto simp: releaseInstanceLocked_def Let_def split: option.splits if_splits)
    consider "stops = [] \<and> s = y_sched y" | "s = s' \<and> stops = (if st' \<noteq> [] then [st'] else [])"
      using release_lease(2) r none by (auto simp: ReleaseInstance_def split: if_splits option.splits)
    then show ?thesis
    proof cases
      case 1
      then show ?thesis using ok by (simp add: release_lease(1) disposed_def)
    next
      case 2
      then show ?thesis using t by (simp add: release_lease(1) disposed_def Un_assoc)
    qed
  next
    case (reap_leases ks now stops s)
    with traced_reapLeases [OF ok sch reap_leases(3)] show ?thesis by (simp add: disposed_def Un_assoc)
  next
    case (reap_containers fs now stops s)
    with traced_reap_idle [OF ok sh reap_containers(3,2)] show ?thesis by (simp add: disposed_def Un_assoc)
  next
    case (scale_down now name b stops s)
    with traced_remove_idle [OF ok sh scale_down(2)] show ?thesis by (simp add: disposed_def Un_assoc)
  }
qed (use sys_okD(3) [OF assms(1)] in \<open>simp_all add: disposed_def\<close>)

interpretation gateway: monotone_system sys_init "sys_step env" sys_ok "\<lambda>y. s_next_port (y_sched y)" for env
proof
  show "sys_ok y" if "sys_init y" for y using that by (rule sys_init_ok)
  show "sys_ok y'" if "sys_ok y" "sys_step env y y'" for y y'
    using that step_sched_ok step_pending_ok step_traced unfolding sys_ok_def [of y'] by blast
  show "s_next_port (y_sched y) \<le> s_next_port (y_sched y')" if "sys_ok y" "sys_step env y y'" for y y'
    using step_pending_ok [OF that] by simp
qed

end
