(* ===== verification/Scheduler_Props.thy ===== *)
theory Scheduler_Props
  imports Scheduler_System
begin

text \<open>
  What the invariant gives for the scheduler: exclusive possession of containers, no reuse
  of stopped ones, exact statistics, the exact effect of the reapers and of scaling down,
  and the outcome of registering, releasing and uploading. The runs behind the witnesses
  start from a gateway that has loaded one function.
\<close>

section \<open>A sample run\<close>

definition sample_trigger :: trigger_config where
  "sample_trigger =
     \<lparr>tc_id = ''t'', tc_type = ''mq'', tc_enabled = True, tc_mq_id = ''m'', tc_queue = ''q'',
      tc_max_concurrency = 0, tc_prefetch = 0, tc_max_attempts = 0, tc_retry_backoff_ms = 0, tc_dlq = []\<rparr>"

definition sample_config :: function_config where
  "sample_config =
     \<lparr>fc_name = ''f'', fc_image = ''img'', fc_runtime = ''python3'', fc_timeout = 30, fc_memory = 128,
      fc_handler = ''handler.handler'', fc_triggers = [sample_trigger], fc_code_dir = [], fc_code_key = [],
      fc_code_url = [], fc_port = 0\<rparr>"

definition sample_start :: "system" where
  "sample_start = \<lparr>y_sched = new_scheduler [sample_config], y_checked = [], y_holding = [], y_cold = [],
     y_saving = [], y_uploads = [], y_stopped = [], y_leaked = []\<rparr>"

definition sample_backend :: backend_start where
  "sample_backend cfg = Inr \<lparr>ri_id = ''c0'', ri_addr = ''localhost:9100'', ri_func_name = fc_name cfg, ri_node_name = []\<rparr>"

definition sample_container :: container where
  "sample_container = \<lparr>c_id = ''c0'', c_addr = ''localhost:9100'', c_state = StateIdle, c_last_used = 0,
     c_func_name = ''f'', c_node_name = []\<rparr>"

text \<open>After a prewarm has finished: one idle container.\<close>

definition sample_warm :: "system" where
  "sample_warm = sample_start\<lparr>y_sched := (new_scheduler [sample_config])\<lparr>s_next_port := 9101,
     s_pool := [''f'' \<mapsto> [0]], s_heap := [sample_container]\<rparr>\<rparr>"

text \<open>After an HTTP request has taken it.\<close>

definition sample_busy :: "system" where
  "sample_busy = sample_warm\<lparr>y_sched := mark 0 StateBusy 5 (y_sched sample_warm), y_holding := [(Http, 0)]\<rparr>"

lemma sample_config_ok: "config_ok sample_config"
  by (simp add: config_ok_def sample_config_def label_ok_def triggers_ok_def dns_char_def is_lower_def
      isSupportedRuntime_def sample_trigger_def trigger_ok_def)

lemma sample_init: "sys_init sample_start"
  by (auto simp: sys_init_def sample_start_def sample_config_ok intro!: exI [of _ "[sample_config]"])

lemma sample_functions: "s_functions (new_scheduler [sample_config]) = [''f'' \<mapsto> sample_config]"
  by (simp add: new_scheduler_def sample_config_def)

lemma sample_warm_run: "(sys_step env)\<^sup>*\<^sup>* sample_start sample_warm"
proof -
  let ?p = "\<lparr>ps_client = None, ps_name = ''f'', ps_cfg = sample_config, ps_port = 9100\<rparr>"
  let ?s = "(new_scheduler [sample_config])\<lparr>s_next_port := 9101\<rparr>"
  define y1 where "y1 = sample_start\<lparr>y_sched := ?s, y_cold := [?p]\<rparr>"
  have "sys_step env sample_start (sample_start\<lparr>y_sched := ?s, y_cold := ?p # y_cold sample_start\<rparr>)"
    by (rule sys_step.prewarm)
      (simp add: sample_start_def coldstart_begin_def sample_functions, simp add: new_scheduler_def)
  then have 1: "sys_step env sample_start y1" by (simp add: y1_def sample_start_def)
  let ?s' = "snd (pool_append ''f'' sample_container ?s)"
  have "sys_step env y1 (y1\<lparr>y_sched := ?s', y_cold := remove1 ?p (y_cold y1)\<rparr>)"
    by (rule sys_step.start_idle [where backend = sample_backend and now = 0 and c = sample_container])
      (simp_all add: y1_def sample_start_def start_def sample_backend_def container_of_def sample_container_def
        sample_config_def new_scheduler_def pool_append_def)
  moreover have "y1\<lparr>y_sched := ?s', y_cold := remove1 ?p (y_cold y1)\<rparr> = sample_warm"
    by (simp add: y1_def sample_warm_def sample_start_def pool_append_def new_scheduler_def)
  ultimately have "sys_step env y1 sample_warm" by simp
  with 1 show ?thesis by (meson r_into_rtranclp rtranclp_trans)
qed

lemma sample_acquire:
  "acquire_locked 5 ''f'' (y_sched sample_warm) = (Inr (Reused 0), y_sched sample_busy)"
  by (simp add: acquire_locked_def sample_warm_def sample_busy_def sample_functions sample_container_def mark_def)

lemma sample_busy_run: "(sys_step env)\<^sup>*\<^sup>* sample_start sample_busy"
proof -
  have "sys_step env sample_warm
      (sample_warm\<lparr>y_sched := y_sched sample_busy, y_checked := remove1 Http (y_checked sample_warm),
         y_holding := (Http, 0) # y_holding sample_warm\<rparr>)"
    by (rule sys_step.acquire_reuse [OF _ _ sample_acquire]) simp_all
  moreover have "sample_warm\<lparr>y_sched := y_sched sample_busy, y_checked := remove1 Http (y_checked sample_warm),
         y_holding := (Http, 0) # y_holding sample_warm\<rparr> = sample_busy"
    by (simp add: sample_busy_def sample_warm_def sample_start_def)
  ultimately show ?thesis using sample_warm_run by (metis rtranclp.rtrancl_into_rtrancl)
qed

text \<open>After mqsvc has been given it under a lease of 30 seconds.\<close>

definition sample_request :: acquire_request where
  "sample_request = \<lparr>ar_function = ''f'', ar_source = ''mq'', ar_mq_id = ''m'', ar_trigger_id = ''t'',
     ar_message_id = ''1'', ar_timeout_seconds = 0\<rparr>"

definition sample_leased :: "system" where
  "sample_leased = sample_warm\<lparr>y_sched := snd (lease_insert sample_request 30 ''L'' 0 5 (y_sched sample_busy))\<rparr>"

lemma sample_leased_run: "(sys_step env)\<^sup>*\<^sup>* sample_start sample_leased"
proof -
  let ?m = "Mq sample_request sample_config"
  let ?t = "clampLeaseTimeout env (ar_timeout_seconds sample_request) (fc_timeout sample_config)"
  define y1 where "y1 = sample_warm\<lparr>y_checked := [?m]\<rparr>"
  define y2 where "y2 = sample_warm\<lparr>y_sched := y_sched sample_busy, y_holding := [(?m, 0)]\<rparr>"
  have "sys_step env sample_warm (sample_warm\<lparr>y_checked := ?m # y_checked sample_warm\<rparr>)"
    by (rule sys_step.mq_checked)
      (simp_all add: Get_def sample_warm_def sample_functions sample_request_def validateAcquireTrigger_def
        trigger_matches_def sample_config_def sample_trigger_def new_scheduler_def)
  then have 1: "sys_step env sample_warm y1" by (simp add: y1_def sample_warm_def sample_start_def)
  have acq: "acquire_locked 5 ''f'' (y_sched y1) = (Inr (Reused 0), y_sched sample_busy)"
    using sample_acquire by (simp add: y1_def)
  have "sys_step env y1 (y1\<lparr>y_sched := y_sched sample_busy, y_checked := remove1 ?m (y_checked y1),
      y_holding := (?m, 0) # y_holding y1\<rparr>)"
    by (rule sys_step.acquire_reuse [OF _ _ acq]) (simp_all add: y1_def sample_request_def)
  then have 2: "sys_step env y1 y2" by (simp add: y1_def y2_def sample_warm_def sample_start_def)
  have t: "?t = 30" by (simp add: clampLeaseTimeout_def sample_request_def sample_config_def)
  have "lease_insert sample_request ?t ''L'' 0 5 (y_sched y2) =
      (lease_of sample_request ''L'' (deref (y_sched y2) 0) 30, y_sched sample_leased)"
    unfolding t by (simp add: y2_def sample_leased_def lease_insert_def Let_def)
  then have "sys_step env y2 (y2\<lparr>y_sched := y_sched sample_leased, y_holding := remove1 (?m, 0) (y_holding y2)\<rparr>)"
    by (intro sys_step.lease) (simp_all add: y2_def sample_busy_def sample_warm_def new_scheduler_def)
  then have "sys_step env y2 sample_leased"
    by (simp add: y2_def sample_leased_def sample_warm_def sample_start_def)
  with 1 2 sample_warm_run show ?thesis by (meson rtranclp.rtrancl_into_rtrancl)
qed

section \<open>Possession of containers\<close>

lemma reachable_ok: "sys_init y0 \<Longrightarrow> (sys_step env)\<^sup>*\<^sup>* y0 y \<Longrightarrow> sys_ok y"
  by (rule gateway.reachable_good)

lemmas reachable_sched = reachable_ok [THEN sys_okD(1)]

text \<open>C1. Exclusive possession. In every reachable state of the gateway no container is held by
  two requests, no held container is under a lease, no two leases name one container, and a
  container in a pool is idle exactly when no request holds it and no lease names it.\<close>

theorem exclusive_possession:
  assumes "sys_init y0" "(sys_step env)\<^sup>*\<^sup>* y0 y"
  shows "distinct (held y) \<and>
    (\<forall>r \<in> set (held y). c_state (deref (y_sched y) r) = StateBusy \<and> \<not> leased (y_sched y) r) \<and>
    (\<forall>i j l l'. s_leases (y_sched y) i = Some l \<and> s_leases (y_sched y) j = Some l' \<and>
       lr_instance l = lr_instance l' \<longrightarrow> i = j) \<and>
    (\<forall>f. \<forall>r \<in> set (pool_of (y_sched y) f).
       c_state (deref (y_sched y) r) = StateIdle \<longleftrightarrow> r \<notin> set (held y) \<and> \<not> leased (y_sched y) r)"
proof -
  note ok = sched_okD(2) [OF reachable_sched [OF assms]]
  have "r \<in> set (held y) \<Longrightarrow> \<not> leased (y_sched y) r" for r
    using owned_lease [OF ok] unfolding leased_def by blast
  then show ?thesis
    using owned_distinct [OF ok] owned_held [OF ok] owned_lease_inj [OF ok] owned_pool_idle [OF ok] by blast
qed

theorem exclusive_possession_witness:
  "held sample_busy = [0] \<and> \<not> leased (y_sched sample_busy) 0 \<and> pool_of (y_sched sample_busy) ''f'' = [0]"
  using exclusive_possession [OF sample_init sample_busy_run]
  by (simp add: held_def sample_busy_def sample_warm_def)

text \<open>C4. Reuse is safe. A container that the fast path of \<open>Acquire\<close> hands out belongs to the
  function asked for, is in its pool, is held by no request and no lease, and was never
  handed to \<open>stop\<close>; it leaves the critical section busy, and no other container changes.\<close>

theorem reuse_is_safe:
  assumes "sys_init y0" "(sys_step env)\<^sup>*\<^sup>* y0 y"
    "acquire_locked now f (y_sched y) = (Inr (Reused r), s)"
  shows "r \<in> set (pool_of (y_sched y) f) \<and> c_func_name (deref s r) = f \<and>
    r \<notin> set (held y) \<and> \<not> leased (y_sched y) r \<and> c_id (deref s r) \<notin> set (y_stopped y) \<and>
    c_state (deref s r) = StateBusy \<and> c_last_used (deref s r) = now \<and>
    (\<forall>r'. r' \<noteq> r \<longrightarrow> deref s r' = deref (y_sched y) r')"
  using assms(3)
proof (cases rule: acquire_locked_cases)
  case (reused cfg x)
  note sch = reachable_sched [OF assms(1,2)]
  have x: "x = r" "s = mark r StateBusy now (y_sched y)" using reused by auto
  note r = shape_pool [OF sched_okD(1) [OF sch] reused(2), unfolded x]
  have "pooled (y_sched y) r" using reused(2) unfolding pooled_def x by blast
  then have "c_id (deref (y_sched y) r) \<notin> disposed y"
    using r sys_okD(3) [OF reachable_ok [OF assms(1,2)]] unfolding traced_def by blast
  then show ?thesis
    using r reused(2,3) owned_pool_idle [OF sched_okD(2) [OF sch] reused(2)]
    unfolding x disposed_def by (simp add: deref_mark)
qed auto

theorem reuse_is_safe_witness:
  "c_state (deref (y_sched sample_busy) 0) = StateBusy \<and> 0 \<notin> set (held sample_warm)"
  using reuse_is_safe [OF sample_init sample_warm_run sample_acquire] by simp

text \<open>C5. No container is lost. In every reachable state a container that was started is in a pool exactly
  when its id was neither handed to \<open>stop\<close> nor dropped by an upload whose metadata could not be saved: no
  pool has a container that was handed to \<open>stop\<close>, and one that is in no pool and was not handed to
  \<open>stop\<close> was dropped by such an upload.\<close>

theorem no_container_lost:
  assumes "sys_init y0" "(sys_step env)\<^sup>*\<^sup>* y0 y" "r < length (s_heap (y_sched y))"
  shows "pooled (y_sched y) r \<longleftrightarrow>
    c_id (deref (y_sched y) r) \<notin> set (y_stopped y) \<and> c_id (deref (y_sched y) r) \<notin> set (y_leaked y)"
  using sys_okD(3) [OF reachable_ok [OF assms(1,2)]] assms(3) unfolding traced_def disposed_def Un_iff by blast

theorem no_container_lost_witness:
  "pooled (y_sched sample_busy) 0"
  using no_container_lost [OF sample_init sample_busy_run, of 0]
  by (simp add: sample_busy_def sample_warm_def sample_start_def)

lemma count_states:
  "\<forall>r \<in> set rs. c_state (h ! r) \<noteq> StateStarting \<Longrightarrow>
   count_if (\<lambda>r. c_state (h ! r) = StateBusy) rs + count_if (\<lambda>r. c_state (h ! r) = StateIdle) rs = length rs"
  by (induction rs) (auto intro: container_state.exhaust)

text \<open>\<open>Stats\<close> is exact. In every reachable state the busy count of a function is the
  number of its containers that a request holds or a lease names, and busy and idle add up
  to the size of the pool: nothing is ever counted as starting.\<close>

theorem stats_exact:
  assumes "sys_init y0" "(sys_step env)\<^sup>*\<^sup>* y0 y" "Stats f (y_sched y) = (busy, idle)"
  shows "busy = count_if (\<lambda>r. r \<in> set (held y) \<or> leased (y_sched y) r) (pool_of (y_sched y) f) \<and>
    busy + idle = length (pool_of (y_sched y) f) \<and>
    length (Instances f (y_sched y)) = length (ContainerIDs f (y_sched y))"
proof -
  note ok = sched_okD(2) [OF reachable_sched [OF assms(1,2)]]
  let ?h = "s_heap (y_sched y)"
  have sum: "count_if (\<lambda>r. c_state (?h ! r) = StateBusy) (pool_of (y_sched y) f) +
      count_if (\<lambda>r. c_state (?h ! r) = StateIdle) (pool_of (y_sched y) f) = length (pool_of (y_sched y) f)"
    by (rule count_states) (use owned_not_starting [OF ok] in blast)
  have "c_state (?h ! r) = StateBusy \<longleftrightarrow> r \<in> set (held y) \<or> leased (y_sched y) r"
    if "r \<in> set (pool_of (y_sched y) f)" for r
    using owned_not_starting [OF ok that] owned_pool_idle [OF ok that] by (cases "c_state (?h ! r)") auto
  then have "count_if (\<lambda>r. c_state (?h ! r) = StateBusy) (pool_of (y_sched y) f) =
      count_if (\<lambda>r. r \<in> set (held y) \<or> leased (y_sched y) r) (pool_of (y_sched y) f)"
    unfolding count_if_def by (intro arg_cong [of _ _ length] filter_cong refl) blast
  then show ?thesis
    using assms(3) sum by (auto simp: Stats_def stats_loop_count Instances_def ContainerIDs_def)
qed

theorem stats_exact_witness:
  "Stats ''f'' (y_sched sample_busy) = (1, 0) \<and> length (pool_of (y_sched sample_busy) ''f'') = 1"
proof -
  have "Stats ''f'' (y_sched sample_busy) = (1, 0)"
    by (simp add: Stats_def sample_busy_def sample_warm_def sample_start_def mark_def)
  then show ?thesis using stats_exact [OF sample_init sample_busy_run, of "''f''" 1 0] by simp
qed

text \<open>Ports are never handed out twice: of two cold starts, the later one gets the larger
  port, and the ports of the cold starts in flight are pairwise distinct.\<close>

theorem ports_distinct:
  assumes "sys_init y0" "(sys_step env)\<^sup>*\<^sup>* y0 y" "acquire_locked now f (y_sched y) = (Inr (NeedColdStart cfg p), s)"
    "(sys_step env)\<^sup>*\<^sup>* (y\<lparr>y_sched := s, y_cold := \<lparr>ps_client = Some Http, ps_name = f, ps_cfg = cfg, ps_port = p\<rparr> # y_cold y\<rparr>) z"
    "acquire_locked now' g (y_sched z) = (Inr (NeedColdStart cfg' q), s')"
  shows "p < q \<and> distinct (map ps_port (y_cold z)) \<and> (\<forall>c \<in> set (y_cold z). ps_port c < q)"
proof -
  let ?y = "y\<lparr>y_sched := s, y_cold := \<lparr>ps_client = Some Http, ps_name = f, ps_cfg = cfg, ps_port = p\<rparr> # y_cold y\<rparr>"
  have s: "s_next_port s = p + 1"
    using assms(3) by (cases rule: acquire_locked_cases) auto
  have q: "q = s_next_port (y_sched z)"
    using assms(5) by (cases rule: acquire_locked_cases) auto
  note ok = reachable_ok [OF assms(1,2)]
  obtain w where w: "sys_step env y w" "w = y\<lparr>y_sched := s, y_checked := remove1 Http (y_checked y),
       y_cold := \<lparr>ps_client = Some Http, ps_name = f, ps_cfg = cfg, ps_port = p\<rparr> # y_cold y\<rparr>"
    using sys_step.acquire_cold [of Http y f now cfg p s env, OF _ _ assms(3)] by blast
  have "sys_ok w" using ok w(1) by (rule gateway.step_good)
  then have "sys_ok ?y" by (simp add: w(2) sys_ok_def held_def pending_ok_def disposed_def)
  with gateway.steps_good [OF assms(4)] gateway.steps_mono [OF assms(4)]
  have "sys_ok z" "p + 1 \<le> s_next_port (y_sched z)" by (simp_all add: s)
  then show ?thesis using sys_okD(2) [of z] by (auto simp: q pending_ok_def)
qed

theorem ports_distinct_witness:
  "\<exists>s s'. acquire_locked 0 ''f'' (y_sched sample_start) = (Inr (NeedColdStart sample_config 9100), s) \<and>
     acquire_locked 0 ''f'' s = (Inr (NeedColdStart sample_config 9101), s') \<and> (9100::int) < 9101"
proof (intro exI conjI)
  let ?s = "(y_sched sample_start)\<lparr>s_next_port := 9101\<rparr>"
  show 1: "acquire_locked 0 ''f'' (y_sched sample_start) = (Inr (NeedColdStart sample_config 9100), ?s)"
    by (simp add: sample_start_def acquire_locked_def sample_functions) (simp add: new_scheduler_def)
  show 2: "acquire_locked 0 ''f'' ?s = (Inr (NeedColdStart sample_config 9101), ?s\<lparr>s_next_port := 9102\<rparr>)"
    by (simp add: sample_start_def acquire_locked_def sample_functions) (simp add: new_scheduler_def)
  show "(9100::int) < 9101"
    using ports_distinct [OF sample_init rtranclp.rtrancl_refl 1 rtranclp.rtrancl_refl, of 0 "''f''" sample_config 9101]
      2 by auto
qed

section \<open>Leases\<close>

text \<open>The lease \<open>k\<close> has expired and names the container \<open>r\<close>.\<close>

definition doomed :: "time \<Rightarrow> string list \<Rightarrow> scheduler \<Rightarrow> ref \<Rightarrow> bool" where
  "doomed now ks s r \<longleftrightarrow>
     (\<exists>k \<in> set ks. \<exists>lr. s_leases s k = Some lr \<and> now > lr_deadline lr \<and> lr_instance lr = r)"

definition keep_live :: "time \<Rightarrow> string list \<Rightarrow> scheduler \<Rightarrow> (string \<rightharpoonup> lease_record)" where
  "keep_live now ks s =
     (\<lambda>k. case s_leases s k of None \<Rightarrow> None
        | Some lr \<Rightarrow> if k \<in> set ks \<and> now > lr_deadline lr then None else Some lr)"

lemma doomed_Cons:
  "doomed now (k # ks) s r \<longleftrightarrow>
     (\<exists>lr. s_leases s k = Some lr \<and> now > lr_deadline lr \<and> lr_instance lr = r) \<or> doomed now ks s r"
  by (simp add: doomed_def)

lemma reapLeases_eq:
  assumes "reapExpiredLeases now ks s = (stops, s')" "distinct ks" "sched_ok H s"
    "[] \<notin> c_id ` set (s_heap s)"
  shows "s_heap s' = s_heap s \<and> s_functions s' = s_functions s \<and> s_leases s' = keep_live now ks s \<and>
    (\<forall>f. pool_of s' f = filter (\<lambda>r. \<not> doomed now ks s r) (pool_of s f)) \<and>
    set stops = {c_id (deref s r) |r. doomed now ks s r}"
  using assms
proof (induction now ks s arbitrary: stops rule: reapExpiredLeases.induct)
  case (1 now s)
  then show ?case by (auto simp: doomed_def keep_live_def split: option.split)
next
  case (2 now k ks s)
  show ?case
  proof (cases "\<exists>lr. s_leases s k = Some lr \<and> now > lr_deadline lr")
    case False
    then have run: "reapExpiredLeases now ks s = (stops, s')"
      using 2(4) by (auto split: option.splits)
    have "doomed now (k # ks) s = doomed now ks s" "keep_live now (k # ks) s = keep_live now ks s"
      using False by (auto simp: doomed_Cons fun_eq_iff keep_live_def split: option.split)
    moreover have "distinct ks" using 2(5) by simp
    ultimately show ?thesis
      using False run 2(1,3,6,7) by (cases "s_leases s k") auto
  next
    case True
    then obtain lr where lr: "s_leases s k = Some lr" "now > lr_deadline lr" by blast
    obtain err stop_id s1 where s1: "releaseInstanceLocked k ''timeout'' now s = (err, stop_id, s1)"
      by (metis prod_cases3)
    obtain more where more: "reapExpiredLeases now ks s1 = (more, s')"
      and stops: "stops = (if stop_id \<noteq> [] then [stop_id] else []) @ more"
      using 2(4) lr s1 by (auto split: prod.splits if_splits)
    let ?r = "lr_instance lr"
    note own = owned_lease [OF sched_okD(2) [OF 2(6)] lr(1)]
    have s1_def: "s1 = removeInstanceLocked ?r (s\<lparr>s_leases := (s_leases s)(k := None)\<rparr>)" "stop_id = c_id (deref s ?r)"
      using s1 lr own by (auto simp: releaseInstanceLocked_def Let_def)
    have f1: "s_heap s1 = s_heap s" "s_functions s1 = s_functions s" "s_leases s1 = (s_leases s)(k := None)"
      by (simp_all add: s1_def)
    have p1: "pool_of s1 f = filter (\<lambda>x. x \<noteq> ?r) (pool_of s f)" for f
      using own shape_leases [OF sched_okD(1) [OF 2(6)]] shape_distinct [OF sched_okD(1) [OF 2(6)], of f]
      by (simp add: s1_def pool_of_removeInstance distinct_remove1_removeAll removeAll_filter_not_eq)
        (metis (mono_tags, lifting) filter_cong)
    have k: "k \<notin> set ks" "distinct ks" using 2(5) by auto
    have d1: "doomed now ks s1 = doomed now ks s" "keep_live now ks s1 = keep_live now (k # ks) s"
      using k lr by (auto simp: doomed_def fun_eq_iff keep_live_def f1 split: option.split)
    have dk: "doomed now (k # ks) s x \<longleftrightarrow> x = ?r \<or> doomed now ks s x" for x
      using lr by (auto simp: doomed_Cons)
    have "stop_id \<noteq> []" using own 2(7) by (metis id_in_heap s1_def(2))
    moreover have "s_heap s' = s_heap s1 \<and> s_functions s' = s_functions s1 \<and> s_leases s' = keep_live now ks s1 \<and>
      (\<forall>f. pool_of s' f = filter (\<lambda>r. \<not> doomed now ks s1 r) (pool_of s1 f)) \<and>
      set more = {c_id (deref s1 r) |r. doomed now ks s1 r}"
      by (rule 2(2) [OF lr s1 [symmetric] refl refl more k(2) sched_ok_releaseInstance [OF 2(6) s1]])
        (use 2(7) f1 in simp)
    ultimately show ?thesis
      unfolding stops d1 f1 p1 dk filter_filter by (auto simp: s1_def(2) conj_commute intro!: filter_cong)
  qed
qed

text \<open>C17. The lease reaper is exact, whatever order the map is visited in: it ends the leases
  whose deadline has passed and no others, takes exactly their containers out of the pools,
  stops exactly those, and leaves the registry and every other container alone. Hence two
  visiting orders give the same pools and the same set of stopped containers.\<close>

theorem reapExpiredLeases_spec:
  assumes "sys_init y0" "(sys_step env)\<^sup>*\<^sup>* y0 y" "range_order (s_leases (y_sched y)) ks"
    "reapExpiredLeases now ks (y_sched y) = (stops, s)"
  shows "s_heap s = s_heap (y_sched y) \<and> s_functions s = s_functions (y_sched y) \<and>
    s_leases s = (\<lambda>k. case s_leases (y_sched y) k of None \<Rightarrow> None
      | Some lr \<Rightarrow> if now > lr_deadline lr then None else Some lr) \<and>
    (\<forall>f. pool_of s f = filter (\<lambda>r. \<not> (\<exists>k lr. s_leases (y_sched y) k = Some lr \<and>
      now > lr_deadline lr \<and> lr_instance lr = r)) (pool_of (y_sched y) f)) \<and>
    set stops = {c_id (deref (y_sched y) (lr_instance lr)) |k lr. s_leases (y_sched y) k = Some lr \<and> now > lr_deadline lr}"
proof -
  have d: "distinct ks" and dom: "set ks = dom (s_leases (y_sched y))"
    using assms(3) by (auto simp: range_order_def)
  have "doomed now ks (y_sched y) r \<longleftrightarrow>
      (\<exists>k lr. s_leases (y_sched y) k = Some lr \<and> now > lr_deadline lr \<and> lr_instance lr = r)" for r
    unfolding doomed_def using dom by blast
  moreover have "keep_live now ks (y_sched y) = (\<lambda>k. case s_leases (y_sched y) k of None \<Rightarrow> None
      | Some lr \<Rightarrow> if now > lr_deadline lr then None else Some lr)"
    using dom by (auto simp: keep_live_def fun_eq_iff split: option.split)
  moreover have "[] \<notin> c_id ` set (s_heap (y_sched y))"
    using sys_okD(3) [OF reachable_ok [OF assms(1,2)]] by (simp add: traced_def)
  ultimately show ?thesis
    using reapLeases_eq [OF assms(4) d reachable_sched [OF assms(1,2)]] by auto
qed

theorem reapExpiredLeases_spec_witness:
  "\<exists>s. reapExpiredLeases 40000000000 [''L''] (y_sched sample_leased) = ([''c0''], s) \<and>
     s_leases s ''L'' = None \<and> pool_of (y_sched sample_leased) ''f'' = [0] \<and> pool_of s ''f'' = []"
proof -
  have l: "s_leases (y_sched sample_leased) = [''L'' \<mapsto>
     \<lparr>lr_lease = lease_of sample_request ''L'' (deref (y_sched sample_busy) 0) 30, lr_instance = 0,
      lr_deadline = lease_deadline 5 30, lr_released = False\<rparr>]"
    by (simp add: sample_leased_def lease_insert_def Let_def) (simp add: sample_busy_def sample_warm_def new_scheduler_def)
  then have ord: "range_order (s_leases (y_sched sample_leased)) [''L'']" by (simp add: range_order_def)
  have dl: "lease_deadline 5 30 < 40000000000"
    by (simp add: lease_deadline_def dur_add_def dur_seconds_def wrap64_def second_def)
  have p: "pool_of (y_sched sample_leased) ''f'' = [0]"
    by (simp add: sample_leased_def lease_insert_def sample_busy_def sample_warm_def Let_def)
  obtain stops s where run: "reapExpiredLeases 40000000000 [''L''] (y_sched sample_leased) = (stops, s)"
    by (metis prod.exhaust)
  then have "stops = [''c0'']"
    using l dl by (auto simp: releaseInstanceLocked_def Let_def sample_leased_def lease_insert_def sample_busy_def
      sample_warm_def mark_def sample_container_def)
  with run reapExpiredLeases_spec [OF sample_init sample_leased_run ord run] l dl p show ?thesis by simp
qed

text \<open>C18. A lease ends once. Releasing a live lease with a valid status succeeds; with success
  or error the container goes back to idle where it is, with timeout or abandoned it leaves
  the pools and is stopped; and any second release of the same lease fails and changes
  nothing.\<close>

theorem release_lease_once:
  assumes "sys_init y0" "(sys_step env)\<^sup>*\<^sup>* y0 y" "s_leases (y_sched y) k = Some lr" "isValidLeaseStatus status"
    "ReleaseInstance k status now (y_sched y) = (err, stops, s)"
  shows "err = None \<and>
    (if status = ''success'' \<or> status = ''error''
     then stops = [] \<and> s_pool s = s_pool (y_sched y) \<and>
       deref s (lr_instance lr) = (deref (y_sched y) (lr_instance lr))\<lparr>c_state := StateIdle, c_last_used := now\<rparr>
     else stops = [c_id (deref (y_sched y) (lr_instance lr))] \<and> s_heap s = s_heap (y_sched y) \<and>
       (\<forall>f. lr_instance lr \<notin> set (pool_of s f))) \<and>
    (\<exists>e. ReleaseInstance k status' later s = (Some e, [], s))"
proof -
  note sch = reachable_sched [OF assms(1,2)]
  obtain e' st s' where r: "releaseInstanceLocked k status now (y_sched y) = (e', st, s')"
    by (metis prod_cases3)
  have out: "err = e'" "e' = None \<Longrightarrow> s = s' \<and> stops = (if st \<noteq> [] then [st] else [])"
    using assms(4,5) r by (auto simp: ReleaseInstance_def split: option.splits)
  have status: "status = ''timeout'' \<or> status = ''abandoned'' \<longleftrightarrow> \<not> (status = ''success'' \<or> status = ''error'')"
    using assms(4) by (auto simp: isValidLeaseStatus_def)
  have again: "\<exists>e. ReleaseInstance k status' later t = (Some e, [], t)" if "s_leases t k = None" for t
    using that by (simp add: ReleaseInstance_def releaseInstanceLocked_def)
  from r sch show ?thesis
  proof (cases rule: releaseInstanceLocked_cases)
    case missing
    with assms(3) show ?thesis by simp
  next
    case (removed l)
    let ?s = "(y_sched y)\<lparr>s_leases := (s_leases (y_sched y))(k := None)\<rparr>"
    have l: "l = lr" using removed(1) assms(3) by simp
    have "st \<noteq> []"
      using sys_okD(3) [OF reachable_ok [OF assms(1,2)]] removed(4,5) unfolding traced_def by (metis id_in_heap)
    moreover have "lr_instance lr \<notin> set (pool_of s' f)" for f
      using removed(5) shape_distinct [OF sched_okD(1) [OF sch], of f]
      by (simp add: removed(6) l pool_of_removeInstance shape_leases [OF sched_okD(1) [OF sch]])
    moreover have "s_leases s' k = None" by (simp add: removed(6))
    ultimately show ?thesis using out removed status again by (simp add: l)
  next
    case (idle l)
    have l: "l = lr" using idle(1) assms(3) by simp
    have "s_leases s' k = None" by (simp add: idle(6))
    then show ?thesis using out idle status again by (simp add: l deref_mark)
  qed
qed

theorem release_lease_once_witness:
  "\<exists>s. ReleaseInstance ''L'' ''success'' 9 (y_sched sample_leased) = (None, [], s) \<and>
     c_state (deref s 0) = StateIdle"
proof -
  have l: "s_leases (y_sched sample_leased) ''L'' = Some
     \<lparr>lr_lease = lease_of sample_request ''L'' (deref (y_sched sample_busy) 0) 30, lr_instance = 0,
      lr_deadline = lease_deadline 5 30, lr_released = False\<rparr>"
    by (simp add: sample_leased_def lease_insert_def Let_def)
  have v: "isValidLeaseStatus ''success''" by (simp add: isValidLeaseStatus_def)
  obtain err stops s where r: "ReleaseInstance ''L'' ''success'' 9 (y_sched sample_leased) = (err, stops, s)"
    by (metis prod_cases3)
  from release_lease_once [OF sample_init sample_leased_run l v r, where status' = "''error''" and later = 0] r
  show ?thesis by auto
qed

section \<open>Reaping and scaling down\<close>

text \<open>The idle reaper is exact: it takes out of the pools and stops exactly the containers
  that have been idle for more than five minutes, none of which any request holds or any
  lease names, keeps the order of the others, and after it no such container is left.\<close>

theorem reap_idle_spec:
  assumes "sys_init y0" "(sys_step env)\<^sup>*\<^sup>* y0 y" "range_order (s_pool (y_sched y)) fs"
    "reap_idle now fs (y_sched y) = (stops, s)"
  shows "s_heap s = s_heap (y_sched y) \<and>
    (\<forall>f. pool_of s f = filter (\<lambda>r. \<not> stale now (deref (y_sched y) r)) (pool_of (y_sched y) f)) \<and>
    set stops = {c_id (deref (y_sched y) r) |r. pooled (y_sched y) r \<and> stale now (deref (y_sched y) r)} \<and>
    (\<forall>r. pooled (y_sched y) r \<and> stale now (deref (y_sched y) r) \<longrightarrow> r \<notin> set (held y) \<and> \<not> leased (y_sched y) r)"
proof -
  let ?s = "y_sched y"
  have d: "distinct fs" and dom: "set fs = dom (s_pool ?s)" using assms(3) by (auto simp: range_order_def)
  note eq = reap_idle_eq [OF assms(4) d]
  have listed: "r \<in> set (pool_of ?s f) \<Longrightarrow> f \<in> set fs" for r f
    using dom by (cases "s_pool ?s f") (auto simp: get_list_def)
  have pool: "pool_of s f = filter (\<lambda>r. \<not> stale now (deref ?s r)) (pool_of ?s f)" for f
    using eq listed [of _ f] by (cases "pool_of ?s f") auto
  have stops: "set stops = {c_id (deref ?s r) |r. pooled ?s r \<and> stale now (deref ?s r)}"
    using eq listed unfolding pooled_def by fastforce
  have "r \<notin> set (held y) \<and> \<not> leased ?s r" if "pooled ?s r" "stale now (deref ?s r)" for r
    using that owned_pool_idle [OF sched_okD(2) [OF reachable_sched [OF assms(1,2)]]]
    unfolding pooled_def stale_def by blast
  with eq pool stops show ?thesis by blast
qed

theorem reap_idle_spec_witness:
  "\<exists>s. reap_idle (6 * minute) [''f''] (y_sched sample_warm) = ([''c0''], s) \<and> pool_of s ''f'' = []"
proof -
  have ord: "range_order (s_pool (y_sched sample_warm)) [''f'']"
    by (simp add: range_order_def sample_warm_def)
  have run: "reap_idle (6 * minute) [''f''] (y_sched sample_warm) =
      ([''c0''], (y_sched sample_warm)\<lparr>s_pool := [''f'' \<mapsto> []]\<rparr>)"
    by (simp add: sample_warm_def sample_container_def stale_def time_sub_def minute_def second_def)
  from reap_idle_spec [OF sample_init sample_warm_run ord run] run show ?thesis by simp
qed

text \<open>Scaling down takes at most one container, the function's longest unused idle one, and
  only if that one has been unused for two minutes; no request holds it and no lease names
  it. It answers false exactly when every idle container is younger, and then nothing has
  changed.\<close>

theorem RemoveIdle_spec:
  assumes "sys_init y0" "(sys_step env)\<^sup>*\<^sup>* y0 y" "RemoveIdle now f (y_sched y) = (ok, stops, s)"
  shows "if ok
    then \<exists>r \<in> set (pool_of (y_sched y) f). r \<notin> set (held y) \<and> \<not> leased (y_sched y) r \<and>
      stops = [c_id (deref (y_sched y) r)] \<and> 2 * minute \<le> now - c_last_used (deref (y_sched y) r) \<and>
      (\<forall>x \<in> set (pool_of (y_sched y) f). x \<notin> set (held y) \<and> \<not> leased (y_sched y) x \<longrightarrow>
         c_last_used (deref (y_sched y) r) \<le> c_last_used (deref (y_sched y) x)) \<and>
      pool_of s f = remove1 r (pool_of (y_sched y) f) \<and> (\<forall>g. g \<noteq> f \<longrightarrow> pool_of s g = pool_of (y_sched y) g) \<and>
      s_heap s = s_heap (y_sched y)
    else s = y_sched y \<and> stops = [] \<and>
      (\<forall>x \<in> set (pool_of (y_sched y) f). x \<notin> set (held y) \<and> \<not> leased (y_sched y) x \<longrightarrow>
         now - c_last_used (deref (y_sched y) x) < 2 * minute)"
  using assms(3)
proof (cases rule: RemoveIdle_cases)
  case kept
  then show ?thesis
    using owned_pool_idle [OF sched_okD(2) [OF reachable_sched [OF assms(1,2)]]] by simp
next
  case (removed i)
  let ?s = "y_sched y" and ?r = "pool_of (y_sched y) f ! i"
  note idle = owned_pool_idle [OF sched_okD(2) [OF reachable_sched [OF assms(1,2)]]]
  have r: "?r \<in> set (pool_of ?s f)" using removed(2) by simp
  have "pool_of s f = remove1 ?r (pool_of ?s f)" "s_heap s = s_heap ?s" "\<forall>g. g \<noteq> f \<longrightarrow> pool_of s g = pool_of ?s g"
    using removed(2,7) distinct_remove_nth [OF shape_distinct [OF sched_okD(1) [OF reachable_sched [OF assms(1,2)]]], of i f]
    by simp_all
  moreover have "?r \<notin> set (held y) \<and> \<not> leased ?s ?r" using idle [OF r] removed(3) by blast
  moreover have "\<forall>x \<in> set (pool_of ?s f). x \<notin> set (held y) \<and> \<not> leased ?s x \<longrightarrow>
      c_last_used (deref ?s ?r) \<le> c_last_used (deref ?s x)"
    using idle removed(6) by blast
  ultimately show ?thesis using r removed(1,4,5) by auto
qed

theorem RemoveIdle_spec_witness:
  "\<exists>s. RemoveIdle (3 * minute) ''f'' (y_sched sample_warm) = (True, [''c0''], s) \<and> pool_of s ''f'' = []"
proof -
  have run: "RemoveIdle (3 * minute) ''f'' (y_sched sample_warm) =
      (True, [''c0''], (y_sched sample_warm)\<lparr>s_pool := [''f'' \<mapsto> []]\<rparr>)"
    by (simp add: RemoveIdle_def sample_warm_def sample_container_def time_sub_def minute_def second_def)
  from RemoveIdle_spec [OF sample_init sample_warm_run run] run show ?thesis by simp
qed

section \<open>Registering, acquiring under a lease, uploading\<close>

text \<open>\<open>Register\<close> is all or nothing: it succeeds exactly when the configuration is valid, the
  name is free and the metadata could be saved, and then exactly that name is bound to the
  configuration with its defaults; in every other case, a failed save included, the scheduler
  is as it was.\<close>

theorem Register_spec:
  "Register save_ok cfg s =
     (case register_prepare cfg of
        Inl e \<Rightarrow> (Some e, s)
      | Inr _ \<Rightarrow>
          if s_functions s (fc_name cfg) \<noteq> None then (Some AlreadyRegistered, s)
          else if save_ok then (None, s\<lparr>s_functions := (s_functions s)(fc_name cfg \<mapsto> with_defaults cfg)\<rparr>)
          else (Some SaveMetadataFailed, s))"
proof (cases "register_prepare cfg")
  case (Inr cfg')
  then have c: "cfg' = with_defaults cfg" using register_prepare_Inr by blast
  have "m k = None \<Longrightarrow> m(k := None) = m" for m :: "string \<rightharpoonup> function_config" and k by auto
  then show ?thesis
    using Inr by (auto simp: Register_def register_insert_def delete_function_def c split: option.split)
qed (simp add: Register_def)

text \<open>C16. Acquiring under a lease, for a run without interference from a reachable state: it
  succeeds only for an enabled mq trigger of the registered function that names the broker
  and the trigger of the request; the record then points to a busy container of the pool whose
  id and address the caller was told, with a timeout of at least one second and at most the function's
  (for a function whose timeout is negative, at most the gateway's maximum): the request may shorten the function's timeout, never extend it.
  An error leaves registry, pools, containers and leases as they were.\<close>

theorem AcquireInstance_spec:
  assumes "sys_init y0" "(sys_step env)\<^sup>*\<^sup>* y0 y"
    "AcquireInstance env backend t1 t2 t3 lease_id req (y_sched y) = (res, s)"
  shows "case res of
    Inl e \<Rightarrow> s_functions s = s_functions (y_sched y) \<and> s_pool s = s_pool (y_sched y) \<and>
      s_heap s = s_heap (y_sched y) \<and> s_leases s = s_leases (y_sched y)
  | Inr l \<Rightarrow> \<exists>cfg lr. s_functions (y_sched y) (ar_function req) = Some cfg \<and>
      (\<exists>t \<in> set (fc_triggers cfg). trigger_matches req t) \<and> 1 \<le> il_timeout_seconds l \<and>
      il_timeout_seconds l \<le> (if fc_timeout cfg > 0 then fc_timeout cfg
        else let m = env_int env ''MAX_FUNCTION_TIMEOUT_SECONDS'' 300 in if m > 0 then m else 300) \<and>
      (fc_timeout cfg > 0 \<longrightarrow> il_timeout_seconds l =
        (if ar_timeout_seconds req \<le> 0 then fc_timeout cfg else min (ar_timeout_seconds req) (fc_timeout cfg))) \<and>
      s_leases s = (s_leases (y_sched y))(lease_id \<mapsto> lr) \<and> lr_lease lr = l \<and>
      lr_deadline lr = lease_deadline t3 (il_timeout_seconds l) \<and>
      lr_instance lr \<in> set (pool_of s (ar_function req)) \<and> c_state (deref s (lr_instance lr)) = StateBusy \<and>
      il_instance_id l = c_id (deref s (lr_instance lr)) \<and> il_address l = c_addr (deref s (lr_instance lr)) \<and>
      \<not> leased (y_sched y) (lr_instance lr) \<and> lr_instance lr \<notin> set (held y)"
proof -
  let ?s = "y_sched y" and ?f = "ar_function req"
  note sch = reachable_sched [OF assms(1,2)]
  have clamp: "1 \<le> clampLeaseTimeout env a b"
    "b > 0 \<Longrightarrow> clampLeaseTimeout env a b = (if a \<le> 0 then b else min a b)" for a b
    by (auto simp: clampLeaseTimeout_def Let_def)
  show ?thesis
  proof (cases "s_functions ?s ?f")
    case None
    then show ?thesis using assms(3) by (auto simp: AcquireInstance_def Get_def)
  next
    case (Some cfg)
    note cfg = Some
    show ?thesis
    proof (cases "validateAcquireTrigger cfg req")
      case (Some e)
      then show ?thesis using assms(3) cfg by (auto simp: AcquireInstance_def Get_def)
    next
      case None
      then have trig: "\<exists>t \<in> set (fc_triggers cfg). trigger_matches req t"
        by (auto simp: validateAcquireTrigger_def list_ex_iff split: if_splits)
      obtain ra s1 where acq: "Acquire backend t1 t2 ?f ?s = (ra, s1)" by fastforce
      obtain q s0 where lock: "acquire_locked t1 ?f ?s = (q, s0)" by fastforce
      have fin: "res = (case ra of Inl e \<Rightarrow> Inl e | Inr r \<Rightarrow> Inr (fst (lease_insert req (clampLeaseTimeout env
          (ar_timeout_seconds req) (fc_timeout cfg)) lease_id r t3 s1)))"
        "s = (case ra of Inl e \<Rightarrow> s1 | Inr r \<Rightarrow> snd (lease_insert req (clampLeaseTimeout env
          (ar_timeout_seconds req) (fc_timeout cfg)) lease_id r t3 s1))"
        using assms(3) cfg None acq
        by (auto simp: AcquireInstance_def Get_def Let_def case_prod_beta split: sum.splits)
      have done_: ?thesis if r: "ra = Inr r" "r \<in> set (pool_of s1 ?f)" "c_state (deref s1 r) = StateBusy"
        "s_leases s1 = s_leases ?s" "\<not> leased ?s r" "r \<notin> set (held y)" for r
        using r cfg trig clamp(1) [of "ar_timeout_seconds req" "fc_timeout cfg"]
          clamp(2) [of "fc_timeout cfg" "ar_timeout_seconds req"]
          clamp_upper [of env "ar_timeout_seconds req" "fc_timeout cfg"]
        by (auto simp: fin lease_insert_def lease_of_def Let_def split: if_splits)
      from lock show ?thesis
      proof (cases rule: acquire_locked_cases)
        case unknown
        with cfg show ?thesis by simp
      next
        case (reused c r)
        then have s1: "ra = Inr r" "s1 = mark r StateBusy t1 ?s"
          using acq lock by (auto simp: Acquire_def)
        have "r \<notin> set (held y) \<and> \<not> leased ?s r"
          using owned_pool_idle [OF sched_okD(2) [OF sch] reused(2)] reused(3) by blast
        moreover have "r < length (s_heap ?s)" using shape_pool [OF sched_okD(1) [OF sch] reused(2)] by blast
        ultimately show ?thesis
          using reused(2) by (intro done_ [of r]) (simp_all add: s1 deref_mark)
      next
        case (cold c)
        show ?thesis
        proof (cases "start backend c (s_next_port ?s) StateBusy t2")
          case (Inl e)
          then have "ra = Inl (ColdStartFailed e)" "s1 = s0"
            using acq lock cold by (auto simp: Acquire_def)
          then show ?thesis using cold(4) by (simp add: fin)
        next
          case (Inr x)
          have st: "c_state x = StateBusy"
            using Inr by (auto simp: start_def container_of_def split: sum.splits)
          have s1: "ra = Inr (length (s_heap s0))" "s1 = snd (pool_append ?f x s0)"
            using acq lock cold Inr by (auto simp: Acquire_def pool_append_def Let_def)
          have len: "s_heap s0 = s_heap ?s" "s_leases s0 = s_leases ?s" by (simp_all add: cold(4))
          have "length (s_heap ?s) \<notin> set (held y) \<and> \<not> leased ?s (length (s_heap ?s))"
            using owned_held [OF sched_okD(2) [OF sch]] owned_lease [OF sched_okD(2) [OF sch]]
            unfolding leased_def by (metis less_irrefl)
          then show ?thesis
            by (intro done_ [of "length (s_heap s0)"]) (simp_all add: s1 len st)
        qed
      qed
    qed
  qed
qed

theorem AcquireInstance_spec_witness:
  "\<exists>l s. AcquireInstance (\<lambda>_. []) sample_backend 5 6 7 ''L'' sample_request (y_sched sample_warm) = (Inr l, s) \<and>
     il_instance_id l = ''c0''"
proof -
  have f: "s_functions (y_sched sample_warm) ''f'' = Some sample_config"
    by (simp add: sample_warm_def sample_functions)
  have v: "validateAcquireTrigger sample_config sample_request = None"
    by (simp add: sample_request_def validateAcquireTrigger_def trigger_matches_def sample_config_def sample_trigger_def)
  obtain l s where run: "AcquireInstance (\<lambda>_. []) sample_backend 5 6 7 ''L'' sample_request (y_sched sample_warm) = (Inr l, s)"
    "il_instance_id l = ''c0''"
    using f v sample_acquire
    by (auto simp: AcquireInstance_def Get_def Acquire_def lease_insert_def lease_of_def Let_def
      sample_request_def sample_busy_def sample_warm_def sample_container_def mark_def)
  from AcquireInstance_spec [OF sample_init sample_warm_run run(1)] run show ?thesis by auto
qed

text \<open>Two races of the registry. An upload that read its function before a \<open>Deregister\<close> and
  commits after it registers the function again; and a cold start that was under way during a
  \<open>Deregister\<close> puts its container into the pool of a function that no longer exists. From a
  reachable state with the function registered both runs exist.\<close>

theorem deregister_races:
  fixes inst :: runtime_instance and backend :: backend_start
  assumes "sys_init y0" "(sys_step env)\<^sup>*\<^sup>* y0 y" "s_functions (y_sched y) f = Some cfg"
    "backend (cfg\<lparr>fc_port := s_next_port (y_sched y)\<rparr>) = Inr inst" "ri_func_name inst = fc_name cfg"
    "ri_id inst \<notin> insert [] (c_id ` set (s_heap (y_sched y)))"
  shows "(\<exists>y1 y2 y3 cfg'. sys_step env y y1 \<and> sys_step env y1 y2 \<and> s_functions (y_sched y2) f = None \<and>
      sys_step env y2 y3 \<and> s_functions (y_sched y3) f = Some cfg') \<and>
    (\<exists>y1 y2 y3. sys_step env y y1 \<and> sys_step env y1 y2 \<and> s_functions (y_sched y2) f = None \<and>
      sys_step env y2 y3 \<and> s_functions (y_sched y3) f = None \<and> pool_of (y_sched y3) f \<noteq> [])"
proof (intro conjI)
  let ?s = "y_sched y"
  let ?del = "\<lambda>s. snd (Deregister f s)" and ?ids = "\<lambda>s. fst (Deregister f s)"
  have del: "s_functions (?del s) f = None" "s_heap (?del s) = s_heap s" for s
    by (simp_all add: Deregister_def)
  show "\<exists>y1 y2 y3 cfg'. sys_step env y y1 \<and> sys_step env y1 y2 \<and> s_functions (y_sched y2) f = None \<and>
      sys_step env y2 y3 \<and> s_functions (y_sched y3) f = Some cfg'"
  proof (intro exI conjI)
    let ?y1 = "y\<lparr>y_uploads := (f, cfg) # y_uploads y\<rparr>"
    let ?y2 = "?y1\<lparr>y_sched := ?del ?s, y_stopped := ?ids ?s @ y_stopped ?y1\<rparr>"
    let ?c = "cfg\<lparr>fc_code_key := [], fc_code_url := []\<rparr>"
    show "sys_step env y ?y1" by (rule sys_step.upload_read) (simp add: Get_def assms(3))
    show "sys_step env ?y1 ?y2" by (rule sys_step.deregister) simp
    show "s_functions (y_sched ?y2) f = None" by (simp add: del)
    show "sys_step env ?y2 (?y2\<lparr>y_sched := snd (upload_commit f ?c [] (y_sched ?y2)),
        y_uploads := remove1 (f, cfg) (y_uploads ?y2),
        y_stopped := map (c_id \<circ> deref (snd (upload_commit f ?c [] (y_sched ?y2)))) (fst (upload_commit f ?c [] (y_sched ?y2)))
          @ y_stopped ?y2\<rparr>)"
      by (rule sys_step.upload_done [of _ _ _ "[]" "[]" "[]"]) simp_all
    show "s_functions (y_sched (?y2\<lparr>y_sched := snd (upload_commit f ?c [] (y_sched ?y2)),
        y_uploads := remove1 (f, cfg) (y_uploads ?y2),
        y_stopped := map (c_id \<circ> deref (snd (upload_commit f ?c [] (y_sched ?y2)))) (fst (upload_commit f ?c [] (y_sched ?y2)))
          @ y_stopped ?y2\<rparr>)) f = Some (?c\<lparr>fc_code_dir := []\<rparr>)"
      by (simp add: upload_commit_def)
  qed
  show "\<exists>y1 y2 y3. sys_step env y y1 \<and> sys_step env y1 y2 \<and> s_functions (y_sched y2) f = None \<and>
      sys_step env y2 y3 \<and> s_functions (y_sched y3) f = None \<and> pool_of (y_sched y3) f \<noteq> []"
  proof (intro exI conjI)
    let ?p = "\<lparr>ps_client = None, ps_name = f, ps_cfg = cfg, ps_port = s_next_port ?s\<rparr>"
    let ?y1 = "y\<lparr>y_sched := ?s\<lparr>s_next_port := s_next_port ?s + 1\<rparr>, y_cold := ?p # y_cold y\<rparr>"
    let ?y2 = "?y1\<lparr>y_sched := ?del (y_sched ?y1), y_stopped := ?ids (y_sched ?y1) @ y_stopped ?y1\<rparr>"
    let ?c = "container_of inst StateIdle 0"
    let ?y3 = "?y2\<lparr>y_sched := snd (pool_append (ps_name ?p) ?c (y_sched ?y2)), y_cold := remove1 ?p (y_cold ?y2)\<rparr>"
    show "sys_step env y ?y1" by (rule sys_step.prewarm) (simp add: coldstart_begin_def assms(3))
    show "sys_step env ?y1 ?y2" by (rule sys_step.deregister) simp
    show "s_functions (y_sched ?y2) f = None" by (simp add: del)
    show "sys_step env ?y2 ?y3"
      by (rule sys_step.start_idle [where backend = backend and now = 0 and c = ?c and r = "length (s_heap ?s)"])
        (use assms(4-6) in \<open>simp_all add: start_def container_of_def pool_append_def Deregister_def\<close>)
    show "s_functions (y_sched ?y3) f = None" by (simp add: del)
    show "pool_of (y_sched ?y3) f \<noteq> []" by simp
  qed
qed

theorem deregister_races_witness:
  "\<exists>y1 y2 y3. sys_step (\<lambda>_. []) sample_start y1 \<and> sys_step (\<lambda>_. []) y1 y2 \<and> s_functions (y_sched y2) ''f'' = None \<and>
     sys_step (\<lambda>_. []) y2 y3 \<and> s_functions (y_sched y3) ''f'' \<noteq> None"
proof -
  have "s_functions (y_sched sample_start) ''f'' = Some sample_config"
    by (simp add: sample_start_def sample_functions)
  from deregister_races [OF sample_init rtranclp.rtrancl_refl this, of sample_backend]
  have "\<exists>y1 y2 y3 cfg'. sys_step (\<lambda>_. []) sample_start y1 \<and> sys_step (\<lambda>_. []) y1 y2 \<and> s_functions (y_sched y2) ''f'' = None \<and>
      sys_step (\<lambda>_. []) y2 y3 \<and> s_functions (y_sched y3) ''f'' = Some cfg'"
    by (auto simp: sample_backend_def sample_start_def new_scheduler_def)
  then show ?thesis by (metis option.distinct(1))
qed

end
