(* ===== verification/Code_Upload.thy ===== *)
theory Code_Upload
  imports Paths Scheduler_Props
begin

text \<open>
  Uploading code (gateway/scheduler/scheduler.go, \<open>UploadCode\<close> and \<open>extractZip\<close>): a zip
  archive is unpacked into a fresh temporary directory, which then replaces the function's
  code directory; the metadata follow. The archive reader is a library: an archive is the
  list of entries it yields, each with its data or a read error. A file tree maps a clean
  absolute path, a list of components, to a node. Every call that can fail for reasons outside
  the model (permissions, space, a broken link) takes its success as an argument.
\<close>

section \<open>Extracting an archive\<close>

datatype node = DirNode | FileNode int string

type_synonym tree = "string list \<rightharpoonup> node"

record zip_entry =
  ze_name :: string
  ze_is_dir :: bool
  ze_mode :: int
  ze_data :: "string option"
  ze_io_ok :: bool

datatype upload_error =
    NotRegistered | CreateTempFailed | ReadZipFailed | EntryEscapes string | EntryIO string
  | RemoveOldBackupFailed | BackupFailed | StatFailed | ReplaceFailed | RemoveBackupFailed
  | SaveCodeFailed | SaveFunctionFailed

text \<open>\<open>os.MkdirAll\<close>: every ancestor becomes a directory; a file on the way is an error.\<close>

definition mkdir_all :: "string list \<Rightarrow> tree \<Rightarrow> tree option" where
  "mkdir_all p t =
     (if list_ex (\<lambda>k. case t (take k p) of Some (FileNode _ _) \<Rightarrow> True | _ \<Rightarrow> False) [0..<Suc (length p)] then None
      else Some (\<lambda>q. if prefix q p \<and> t q = None then Some DirNode else t q))"

text \<open>\<open>os.OpenFile\<close> with create and truncate, then the copy: an existing file keeps its mode.\<close>

definition write_file :: "string list \<Rightarrow> int \<Rightarrow> string \<Rightarrow> tree \<Rightarrow> tree option" where
  "write_file p mode d t =
     (case t p of
        Some DirNode \<Rightarrow> None
      | Some (FileNode m _) \<Rightarrow> Some (t(p \<mapsto> FileNode m d))
      | None \<Rightarrow> Some (t(p \<mapsto> FileNode mode d)))"

text \<open>\<open>filepath.Join(root, name)\<close> then \<open>filepath.Abs\<close>, which cleans once more.\<close>

definition zip_target :: "string \<Rightarrow> string \<Rightarrow> string" where
  "zip_target rootdir name =
     abs_clean (if name = [] then abs_clean rootdir else abs_clean (rootdir @ CHR ''/'' # name))"

definition escapes :: "string \<Rightarrow> string \<Rightarrow> bool" where
  "escapes rootdir cleanTarget \<longleftrightarrow> cleanTarget \<noteq> rootdir \<and> \<not> has_prefix cleanTarget (rootdir @ ''/'')"

definition path_comps :: "string \<Rightarrow> string list" where
  "path_comps p = clean_comps [] (split_on CHR ''/'' p)"

text \<open>The body of the loop for one entry: the error, if any, and the tree. Every entry that is
  written is opened with its data first.\<close>

definition extract_entry :: "string \<Rightarrow> zip_entry \<Rightarrow> tree \<Rightarrow> upload_error option \<times> tree" where
  "extract_entry rootdir f t =
     (let cleanTarget = zip_target rootdir (ze_name f); p = path_comps cleanTarget; err = Some (EntryIO (ze_name f)) in
      if escapes rootdir cleanTarget then (Some (EntryEscapes (ze_name f)), t)
      else if ze_is_dir f then
        (case mkdir_all p t of None \<Rightarrow> (err, t) | Some t \<Rightarrow> if ze_io_ok f then (None, t) else (err, t))
      else
        (case mkdir_all (butlast p) t of
           None \<Rightarrow> (err, t)
         | Some t \<Rightarrow>
             (case ze_data f of
                None \<Rightarrow> (err, t)
              | Some d \<Rightarrow>
                  (case write_file p (if ze_mode f = 0 then 420 else ze_mode f) d t of
                     None \<Rightarrow> (err, t)
                   | Some t \<Rightarrow> if ze_io_ok f then (None, t) else (err, t)))))"

fun extract_entries :: "string \<Rightarrow> zip_entry list \<Rightarrow> tree \<Rightarrow> upload_error option \<times> tree" where
  "extract_entries rootdir [] t = (None, t)"
| "extract_entries rootdir (f # fs) t =
     (case extract_entry rootdir f t of
        (Some e, t) \<Rightarrow> (Some e, t)
      | (None, t) \<Rightarrow> extract_entries rootdir fs t)"

definition extractZip :: "zip_entry list option \<Rightarrow> string \<Rightarrow> tree \<Rightarrow> upload_error option \<times> tree" where
  "extractZip archive dir t =
     (case archive of
        None \<Rightarrow> (Some ReadZipFailed, t)
      | Some entries \<Rightarrow> extract_entries (abs_clean dir) entries t)"

subsection \<open>Containment\<close>

lemma split_no_slash: "\<forall>w \<in> set (split_on CHR ''/'' p). CHR ''/'' \<notin> set w"
  using split_on_no_sep by blast

lemma path_comps_ok: "list_all comp_ok (path_comps p)"
  unfolding path_comps_def by (rule clean_comps_ok) (simp_all add: split_no_slash)

lemma abs_clean_comps: "abs_clean p = render (path_comps p)"
  by (simp add: abs_clean_def path_comps_def)

lemma path_comps_render: "list_all comp_ok ws \<Longrightarrow> path_comps (render ws) = ws"
  by (simp add: path_comps_def clean_render)

text \<open>The components of an entry's target, for a root given by its components.\<close>

definition entry_comps :: "string list \<Rightarrow> string \<Rightarrow> string list" where
  "entry_comps rs name = clean_comps rs (split_on CHR ''/'' name)"

lemma zip_target_comps:
  assumes "list_all comp_ok rs" "rs \<noteq> []"
  shows "path_comps (zip_target (render rs) name) = entry_comps rs name"
    "zip_target (render rs) name = render (entry_comps rs name)"
proof -
  have "path_comps (render rs @ CHR ''/'' # name) = entry_comps rs name"
    using split_render [OF assms] by (simp add: path_comps_def entry_comps_def split_on_sep clean_comps_append
      clean_comps_fix [OF assms(1)])
  moreover have "path_comps (render rs) = entry_comps rs []"
    by (simp add: path_comps_render [OF assms(1)] entry_comps_def)
  ultimately have *: "zip_target (render rs) name = abs_clean (render (entry_comps rs name))"
    by (simp add: zip_target_def abs_clean_comps)
  have ok: "list_all comp_ok (entry_comps rs name)"
    unfolding entry_comps_def using assms(1) split_no_slash by (rule clean_comps_ok)
  show "zip_target (render rs) name = render (entry_comps rs name)"
    using * ok by (simp add: abs_clean_render)
  then show "path_comps (zip_target (render rs) name) = entry_comps rs name"
    using ok by (simp add: path_comps_render)
qed

lemma escapes_iff:
  assumes "list_all comp_ok rs" "rs \<noteq> []"
  shows "escapes (render rs) (zip_target (render rs) name) \<longleftrightarrow> \<not> prefix rs (entry_comps rs name)"
proof -
  have ok: "list_all comp_ok (entry_comps rs name)"
    unfolding entry_comps_def using assms(1) split_no_slash by (rule clean_comps_ok)
  show ?thesis
    unfolding escapes_def zip_target_comps(2) [OF assms]
    using prefix_render [OF assms ok] render_inj [OF ok assms(1)] by (auto simp: strict_prefix_def)
qed

text \<open>All that a step may touch lies strictly below the root; the root itself and its
  ancestors stay directories.\<close>

definition root_ready :: "string list \<Rightarrow> tree \<Rightarrow> bool" where
  "root_ready rs t \<longleftrightarrow> (\<forall>q. prefix q rs \<longrightarrow> t q = Some DirNode)"

definition confined :: "string list \<Rightarrow> tree \<Rightarrow> tree \<Rightarrow> bool" where
  "confined rs t t' \<longleftrightarrow> (\<forall>q. \<not> strict_prefix rs q \<longrightarrow> t' q = t q)"

lemma confined_refl: "confined rs t t"
  by (simp add: confined_def)

lemma confined_trans: "confined rs t u \<Longrightarrow> confined rs u v \<Longrightarrow> confined rs t v"
  by (simp add: confined_def)

lemma root_ready_confined: "root_ready rs t \<Longrightarrow> confined rs t t' \<Longrightarrow> root_ready rs t'"
  unfolding root_ready_def confined_def by (metis prefix_order.less_le_not_le)

lemma mkdir_confined:
  assumes "root_ready rs t" "prefix rs p \<or> prefix p rs" "mkdir_all p t = Some t'"
  shows "confined rs t t'"
proof -
  have "prefix q p \<Longrightarrow> t q = None \<Longrightarrow> strict_prefix rs q" for q
    using assms(1,2) prefix_same_cases [of q p rs] unfolding root_ready_def strict_prefix_def
    by (metis option.distinct(1) prefix_order.order_trans prefix_order.order_refl)
  then show ?thesis
    using assms(3) unfolding mkdir_all_def confined_def by (fastforce split: if_splits)
qed

lemma write_confined:
  "root_ready rs t \<Longrightarrow> prefix rs p \<Longrightarrow> write_file p m d t = Some t' \<Longrightarrow> confined rs t t'"
  unfolding write_file_def confined_def root_ready_def
  by (auto simp: strict_prefix_def split: option.splits node.splits)

lemma extract_entry_confined:
  assumes "list_all comp_ok rs" "rs \<noteq> []" "root_ready rs t" "extract_entry (render rs) f t = (e, t')"
  shows "confined rs t t'"
proof (cases "prefix rs (entry_comps rs (ze_name f))")
  case False
  then have "escapes (render rs) (zip_target (render rs) (ze_name f))" by (simp add: escapes_iff [OF assms(1,2)])
  then show ?thesis using assms(4) by (auto simp: extract_entry_def Let_def confined_refl)
next
  case True
  let ?p = "entry_comps rs (ze_name f)"
  have ne: "\<not> escapes (render rs) (zip_target (render rs) (ze_name f))"
    using True by (simp add: escapes_iff [OF assms(1,2)])
  have dir: "mkdir_all ?p t = Some u \<Longrightarrow> confined rs t u" for u
    using mkdir_confined [OF assms(3)] True by blast
  have bl: "prefix rs (butlast ?p) \<or> prefix (butlast ?p) rs"
    using True by (metis prefix_order.order_trans prefix_same_cases prefixeq_butlast)
  have parent: "mkdir_all (butlast ?p) t = Some u \<Longrightarrow> confined rs t u" for u
    using mkdir_confined [OF assms(3) bl] by blast
  have leaf: "mkdir_all (butlast ?p) t = Some u \<Longrightarrow> write_file ?p m d u = Some v \<Longrightarrow> confined rs t v" for u v m d
    using write_confined [OF root_ready_confined [OF assms(3) parent] True] confined_trans parent by blast
  show ?thesis
    using assms(4) ne dir parent leaf confined_refl [of rs t]
    unfolding extract_entry_def Let_def zip_target_comps(1) [OF assms(1,2)]
    by (auto split: option.splits if_splits)
qed

lemma extract_entries_confined:
  assumes "list_all comp_ok rs" "rs \<noteq> []"
  shows "root_ready rs t \<Longrightarrow> extract_entries (render rs) fs t = (e, t') \<Longrightarrow> confined rs t t'"
proof (induction fs arbitrary: t)
  case (Cons f fs)
  obtain e1 u where u: "extract_entry (render rs) f t = (e1, u)" by fastforce
  note c = extract_entry_confined [OF assms Cons(2) u]
  show ?case
  proof (cases e1)
    case None
    with Cons(3) u have "extract_entries (render rs) fs u = (e, t')" by simp
    from Cons(1) [OF root_ready_confined [OF Cons(2) c] this] c show ?thesis by (rule confined_trans [rotated])
  next
    case (Some x)
    with Cons(3) u c show ?thesis by simp
  qed
qed (simp add: confined_refl)

lemma extract_entries_no_escape:
  assumes "list_all comp_ok rs" "rs \<noteq> []"
  shows "extract_entries (render rs) fs t = (None, t') \<Longrightarrow> f \<in> set fs \<Longrightarrow> prefix rs (entry_comps rs (ze_name f))"
proof (induction fs arbitrary: t)
  case (Cons g fs)
  then obtain u where u: "extract_entry (render rs) g t = (None, u)" "extract_entries (render rs) fs u = (None, t')"
    by (auto split: prod.splits option.splits)
  from u(1) have "\<not> escapes (render rs) (zip_target (render rs) (ze_name g))"
    by (auto simp: extract_entry_def Let_def split: if_splits)
  with Cons(1) [OF u(2)] Cons(3) show ?case by (auto simp: escapes_iff [OF assms])
qed simp

text \<open>C15. No archive writes outside its directory. Whatever the entries are called, unpacking
  into an existing directory other than the root of the file system changes nothing at, above
  or beside that directory, also when it ends with an error; and it succeeds only if the
  cleaned path of every entry lies in the directory.\<close>

theorem extractZip_confined:
  assumes "rs \<noteq> []" "list_all comp_ok rs" "root_ready rs t" "extractZip (Some entries) (render rs) t = (err, t')"
  shows "(\<forall>q. \<not> strict_prefix rs q \<longrightarrow> t' q = t q) \<and>
    (err = None \<longrightarrow> (\<forall>f \<in> set entries. prefix rs (path_comps (render rs @ CHR ''/'' # ze_name f))))"
proof -
  have run: "extract_entries (render rs) entries t = (err, t')"
    using assms(4) by (simp add: extractZip_def abs_clean_render [OF assms(2)])
  have "path_comps (render rs @ CHR ''/'' # name) = entry_comps rs name" for name
    using split_render [OF assms(2,1)] by (simp add: path_comps_def entry_comps_def split_on_sep clean_comps_append
      clean_comps_fix [OF assms(2)])
  then show ?thesis
    using extract_entries_confined [OF assms(2,1,3) run] extract_entries_no_escape [OF assms(2,1)] run
    unfolding confined_def by auto
qed

text \<open>A sample archive with an entry that climbs out of the directory.\<close>

definition sample_tree :: tree where
  "sample_tree = (\<lambda>q. if q = [] \<or> q = [''tmp''] then Some DirNode else None)"

definition sample_archive :: "zip_entry list" where
  "sample_archive =
     [\<lparr>ze_name = ''a/b.py'', ze_is_dir = False, ze_mode = 0, ze_data = Some ''x'', ze_io_ok = True\<rparr>,
      \<lparr>ze_name = ''a/../../etc'', ze_is_dir = False, ze_mode = 0, ze_data = Some ''y'', ze_io_ok = True\<rparr>]"

theorem extractZip_confined_witness:
  "\<exists>t'. extractZip (Some sample_archive) ''/tmp'' sample_tree = (Some (EntryEscapes ''a/../../etc''), t') \<and>
     t' [''etc''] = None \<and> t' [''tmp'', ''a'', ''b.py''] = Some (FileNode 420 ''x'')"
proof -
  have r: "render [''tmp''] = ''/tmp''" by (simp add: render_def)
  have ok: "list_all comp_ok [''tmp'']" "[''tmp''] \<noteq> []" by (simp_all add: comp_ok_def)
  have ready: "root_ready [''tmp''] sample_tree"
    by (auto simp: root_ready_def sample_tree_def prefix_Cons)
  obtain err t' where run: "extractZip (Some sample_archive) ''/tmp'' sample_tree = (err, t')" by fastforce
  have "err = Some (EntryEscapes ''a/../../etc'') \<and> t' [''tmp'', ''a'', ''b.py''] = Some (FileNode 420 ''x'')"
    using run by (auto simp: extractZip_def sample_archive_def extract_entry_def Let_def zip_target_def abs_clean_def
      path_comps_def render_def escapes_def mkdir_all_def write_file_def sample_tree_def)
  moreover have "t' [''etc''] = None"
    using extractZip_confined [OF ok(2,1) ready run [folded r]] by (simp add: sample_tree_def strict_prefix_def)
  ultimately show ?thesis using run by blast
qed

section \<open>Replacing the code directory\<close>

text \<open>The three directories an upload of one function works on: the live one
  (\<open>/tmp/faas/<label>\<close>), its backup (\<open>.old\<close>) and the temporary one.\<close>

record 'c code_dirs =
  cd_live :: "'c option"
  cd_backup :: "'c option"
  cd_temp :: "'c option"

datatype stat_result = StatOk | StatNotExist | StatError

text \<open>Which of the fallible calls succeed. \<open>io_stat\<close> is what \<open>os.Stat\<close> of the live
  directory answers when it fails for another reason than a missing directory.\<close>

record upload_io =
  io_mkdir_temp :: bool
  io_remove_old :: bool
  io_stat_fails :: bool
  io_rename_old :: bool
  io_rename_new :: bool
  io_restore :: bool
  io_remove_backup :: bool

definition stat_live :: "upload_io \<Rightarrow> 'c code_dirs \<Rightarrow> stat_result" where
  "stat_live io d = (if io_stat_fails io then StatError else if cd_live d = None then StatNotExist else StatOk)"

text \<open>From the renaming of the temporary directory on; \<open>os.Rename\<close> of a directory onto a
  missing path moves it.\<close>

definition swap_in :: "upload_io \<Rightarrow> 'c code_dirs \<Rightarrow> upload_error option \<times> 'c code_dirs" where
  "swap_in io d =
     (if \<not> io_rename_new io then
        (Some ReplaceFailed,
         if cd_backup d \<noteq> None \<and> io_restore io then d\<lparr>cd_live := cd_backup d, cd_backup := None\<rparr> else d)
      else
        let d = d\<lparr>cd_live := cd_temp d, cd_temp := None\<rparr> in
        if \<not> io_remove_backup io then (Some RemoveBackupFailed, d)
        else (None, d\<lparr>cd_backup := None\<rparr>))"

definition replace_dirs :: "upload_io \<Rightarrow> (upload_error option \<times> 'c) \<Rightarrow> 'c code_dirs \<Rightarrow> upload_error option \<times> 'c code_dirs" where
  "replace_dirs io extracted d =
     (if \<not> io_mkdir_temp io then (Some CreateTempFailed, d)
      else
        let d = d\<lparr>cd_temp := Some (snd extracted)\<rparr>;
            (err, d) =
              (case fst extracted of
                 Some e \<Rightarrow> (Some e, d)
               | None \<Rightarrow>
                   if \<not> io_remove_old io then (Some RemoveOldBackupFailed, d)
                   else
                     let d = d\<lparr>cd_backup := None\<rparr> in
                     case stat_live io d of
                       StatError \<Rightarrow> (Some StatFailed, d)
                     | StatNotExist \<Rightarrow> swap_in io d
                     | StatOk \<Rightarrow>
                         if \<not> io_rename_old io then (Some BackupFailed, d)
                         else swap_in io (d\<lparr>cd_backup := cd_live d, cd_live := None\<rparr>))
        in (err, d\<lparr>cd_temp := None\<rparr>))"

text \<open>The whole method without interference: the directories, then the object store if one is
  configured (\<open>None\<close> for none, \<open>Some None\<close> for a failed save), then the registry, then the
  metadata store, and only then the containers of the old code. \<open>tmp\<close> is the directory that
  \<open>os.MkdirTemp\<close> made and \<open>t0\<close> the file tree just after that.\<close>

definition UploadCode ::
  "upload_io \<Rightarrow> zip_entry list option \<Rightarrow> string \<Rightarrow> tree \<Rightarrow> (string \<times> string) option option \<Rightarrow> bool \<Rightarrow> string
   \<Rightarrow> tree code_dirs \<times> scheduler \<Rightarrow> upload_error option \<times> string list \<times> tree code_dirs \<times> scheduler" where
  "UploadCode io archive tmp t0 code_object save_ok name st =
     (case st of (d, s) \<Rightarrow>
        case Get name s of
          None \<Rightarrow> (Some NotRegistered, [], d, s)
        | Some cfg \<Rightarrow>
            (case replace_dirs io (extractZip archive tmp t0) d of
               (Some e, d) \<Rightarrow> (Some e, [], d, s)
             | (None, d) \<Rightarrow>
                 (case code_object of
                    Some None \<Rightarrow> (Some SaveCodeFailed, [], d, s)
                  | _ \<Rightarrow>
                      let cfg = (case code_object of
                                   Some (Some (key, url)) \<Rightarrow> cfg\<lparr>fc_code_key := key, fc_code_url := url\<rparr>
                                 | _ \<Rightarrow> cfg);
                          (dropped, s) = upload_commit name cfg (''/tmp/faas/'' @ dnsLabel name) s
                      in if \<not> save_ok then (Some SaveFunctionFailed, [], d, s)
                         else (None, map (c_id \<circ> deref s) dropped, d, s))))"

lemma replace_dirs_temp: "cd_temp d = None \<Longrightarrow> replace_dirs io ex d = (err, d') \<Longrightarrow> cd_temp d' = None"
  by (auto simp: replace_dirs_def Let_def split: if_splits prod.splits)

lemma replace_dirs_cases:
  assumes "replace_dirs io ex d = (err, d')"
  shows "err = None \<and> cd_live d' = Some (snd ex) \<and> cd_backup d' = None \<or>
    err = Some RemoveBackupFailed \<and> cd_live d' = Some (snd ex) \<or>
    err = Some ReplaceFailed \<and> cd_live d' = None \<and> cd_backup d' = cd_live d \<or>
    err \<noteq> None \<and> cd_live d' = cd_live d"
  using assms
  by (cases "fst ex") (auto simp: replace_dirs_def swap_in_def stat_live_def Let_def split: if_splits)

lemma extract_entries_error:
  "fst (extract_entries r fs t) \<noteq> Some SaveFunctionFailed"
proof (induction fs arbitrary: t)
  case (Cons f fs)
  have "fst (extract_entry r f t) \<noteq> Some SaveFunctionFailed"
    by (auto simp: extract_entry_def Let_def split: option.splits)
  with Cons show ?case by (auto split: prod.split option.split)
qed simp

lemma extractZip_error: "fst (extractZip archive dir t) \<noteq> Some SaveFunctionFailed"
  by (auto simp: extractZip_def extract_entries_error split: option.split)

text \<open>C26. What an upload leaves behind. The temporary directory is always removed. On success the
  live directory holds exactly the extracted files, no backup is left, the registry has the new
  code directory, the pool is empty and exactly its old containers are stopped. On an error
  nothing is stopped and the old code is live or in the backup, unless the new code is already
  live; registry and pools are unchanged with one exception: when the metadata cannot be saved
  the pool has been emptied all the same, so its containers are lost without being stopped.\<close>

theorem UploadCode_spec:
  assumes "cd_temp d = None" "UploadCode io archive tmp t0 code_object save_ok name (d, s) = (err, stops, d', s')"
  shows "cd_temp d' = None \<and>
    (if err = None
     then cd_live d' = Some (snd (extractZip archive tmp t0)) \<and> cd_backup d' = None \<and>
       stops = ContainerIDs name s \<and> ContainerIDs name s' = [] \<and>
       (\<exists>cfg cfg'. Get name s = Some cfg \<and> Get name s' = Some cfg' \<and>
          fc_code_dir cfg' = ''/tmp/faas/'' @ dnsLabel name \<and> fc_triggers cfg' = fc_triggers cfg)
     else stops = [] \<and>
       (cd_live d' = cd_live d \<or> cd_live d' = Some (snd (extractZip archive tmp t0)) \<or>
        cd_live d' = None \<and> cd_backup d' = cd_live d) \<and>
       (if err = Some SaveFunctionFailed then ContainerIDs name s' = [] else s' = s))"
proof (cases "Get name s")
  case None
  then show ?thesis using assms by (auto simp: UploadCode_def)
next
  case (Some cfg)
  obtain e d1 where d1: "replace_dirs io (extractZip archive tmp t0) d = (e, d1)" by fastforce
  note temp = replace_dirs_temp [OF assms(1) d1]
  note dirs = replace_dirs_cases [OF d1]
  show ?thesis
  proof (cases e)
    case (Some x)
    have "x \<noteq> SaveFunctionFailed"
      using d1 Some extractZip_error [of archive tmp t0] by (cases "fst (extractZip archive tmp t0)")
        (auto simp: replace_dirs_def swap_in_def stat_live_def Let_def split: if_splits)
    with Some \<open>Get name s = Some cfg\<close> d1 temp dirs assms(2) show ?thesis
      by (auto simp: UploadCode_def)
  next
    case None
    with \<open>Get name s = Some cfg\<close> d1 temp dirs assms(2) show ?thesis
      by (auto simp: UploadCode_def upload_commit_def ContainerIDs_def Get_def Let_def split: option.splits if_splits)
  qed
qed

theorem UploadCode_spec_witness:
  "\<exists>d' s'. UploadCode \<lparr>io_mkdir_temp = True, io_remove_old = True, io_stat_fails = False, io_rename_old = True,
       io_rename_new = True, io_restore = True, io_remove_backup = True\<rparr> (Some []) ''/tmp/faas/.f-1'' sample_tree
       None False ''f'' (\<lparr>cd_live = None, cd_backup = None, cd_temp = None\<rparr>, y_sched sample_warm)
     = (Some SaveFunctionFailed, [], d', s') \<and>
     ContainerIDs ''f'' (y_sched sample_warm) = [''c0''] \<and> ContainerIDs ''f'' s' = []"
proof -
  let ?io = "\<lparr>io_mkdir_temp = True, io_remove_old = True, io_stat_fails = False, io_rename_old = True,
       io_rename_new = True, io_restore = True, io_remove_backup = True\<rparr>"
  let ?d = "\<lparr>cd_live = None, cd_backup = None, cd_temp = None\<rparr> :: tree code_dirs"
  obtain err stops d' s' where run: "UploadCode ?io (Some []) ''/tmp/faas/.f-1'' sample_tree None False ''f''
      (?d, y_sched sample_warm) = (err, stops, d', s')"
    by (metis prod_cases4)
  have g: "Get ''f'' (y_sched sample_warm) = Some sample_config"
    by (simp add: Get_def sample_warm_def sample_functions)
  have e: "err = Some SaveFunctionFailed"
    using run g by (auto simp: UploadCode_def replace_dirs_def stat_live_def swap_in_def extractZip_def Let_def
      split: prod.splits)
  from UploadCode_spec [OF _ run] run e show ?thesis
    by (auto simp: ContainerIDs_def sample_warm_def sample_container_def)
qed

end
