(* ===== verification/Semaphore.thy ===== *)
theory Semaphore
  imports Faas_Prelude
begin

text \<open>
  Buffered channels used as counting semaphores (\<open>chan struct{}\<close>): a send takes a slot, a
  receive gives it back. The gateway bounds the invocations in flight per function with one
  (gateway/queue/queue.go) and mqsvc the messages handled at once per consumer
  (mqsvc/rabbitmq.go). Making a channel of negative capacity panics (\<open>None\<close>); a send on a full
  channel and a receive on an empty one do not proceed (\<open>None\<close>).
\<close>

record semaphore =
  sm_cap :: nat
  sm_used :: nat

definition sem_make :: "int \<Rightarrow> semaphore option" where
  "sem_make n = (if n < 0 then None else Some \<lparr>sm_cap = nat n, sm_used = 0\<rparr>)"

definition sem_take :: "semaphore \<Rightarrow> semaphore option" where
  "sem_take s = (if sm_used s < sm_cap s then Some (s\<lparr>sm_used := Suc (sm_used s)\<rparr>) else None)"

definition sem_give :: "semaphore \<Rightarrow> semaphore option" where
  "sem_give s = (if 0 < sm_used s then Some (s\<lparr>sm_used := sm_used s - 1\<rparr>) else None)"

text \<open>The contract its users rely on: a pool of \<open>cap\<close> slots of which \<open>used\<close> are taken.\<close>

locale slot_pool =
  fixes take_slot give_slot :: "'p \<Rightarrow> 'p option"
    and used cap :: "'p \<Rightarrow> nat"
  assumes take_iff: "(\<exists>q. take_slot p = Some q) \<longleftrightarrow> used p < cap p"
    and take_used: "take_slot p = Some q \<Longrightarrow> used q = Suc (used p) \<and> cap q = cap p"
    and give_iff: "(\<exists>q. give_slot p = Some q) \<longleftrightarrow> 0 < used p"
    and give_used: "give_slot p = Some q \<Longrightarrow> Suc (used q) = used p \<and> cap q = cap p"
begin

lemma take_bounded: "take_slot p = Some q \<Longrightarrow> used q \<le> cap q"
  using take_iff take_used by (metis Suc_le_eq)

lemma take_give: "take_slot p = Some q \<Longrightarrow> \<exists>r. give_slot q = Some r \<and> used r = used p \<and> cap r = cap p"
  using give_iff [of q] take_used give_used by (metis Suc_inject zero_less_Suc)

lemma full_iff: "take_slot p = None \<longleftrightarrow> cap p \<le> used p"
  using take_iff [of p] by (cases "take_slot p") auto

text \<open>Whoever counts the holders of the slots and changes the count with every take and give
  never has more of them than slots.\<close>

lemma holders_take:
  "used p = n \<Longrightarrow> take_slot p = Some q \<Longrightarrow> used q = Suc n \<and> Suc n \<le> cap q"
  using take_used take_bounded by metis

lemma holders_give:
  "used p = Suc n \<Longrightarrow> \<exists>q. give_slot p = Some q \<and> used q = n \<and> cap q = cap p"
  using give_iff [of p] give_used by (metis Suc_inject zero_less_Suc)

end

interpretation chan_sem: slot_pool sem_take sem_give sm_used sm_cap
  by unfold_locales (auto simp: sem_take_def sem_give_def split: if_splits)

end
