(* ===== verification/Gateway_Queue.thy ===== *)
theory Gateway_Queue
  imports Semaphore Transition
begin

text \<open>
  The per-function admission queue of the gateway (gateway/queue/queue.go): at most
  \<open>maxInflight\<close> invocations of a function run at once, at most \<open>maxQueue\<close> more wait, and a
  waiting one gives up at its timer or when its client goes away. \<open>manager\<close> is the struct with
  its map; \<open>qsystem\<close> is one \<open>functionQueue\<close> with the requests that are inside
  \<open>Manager.Invoke\<close>, each at one of the points where another goroutine may run.
\<close>

record function_queue =
  fq_sem :: semaphore
  fq_queued :: int

record manager =
  mg_max_inflight :: int
  mg_max_queue :: int
  mg_queue_timeout :: duration
  mg_funcs :: "string \<rightharpoonup> function_queue"

record queue_status =
  qs_function :: string
  qs_in_flight :: nat
  qs_queued :: int
  qs_max_inflight :: int
  qs_max_queue :: int

definition new_manager :: "env \<Rightarrow> manager" where
  "new_manager env =
     \<lparr>mg_max_inflight = env_int env ''MAX_INFLIGHT_PER_FUNCTION'' 5,
      mg_max_queue = env_int env ''MAX_QUEUE_PER_FUNCTION'' 100,
      mg_queue_timeout = wrap64 (env_int env ''QUEUE_TIMEOUT_MS'' 30000 * 1000000),
      mg_funcs = Map.empty\<rparr>"

text \<open>\<open>get\<close>: the queue of a function, made on first use; \<open>None\<close> is the panic of a negative
  channel capacity.\<close>

definition get_queue :: "string \<Rightarrow> manager \<Rightarrow> (function_queue \<times> manager) option" where
  "get_queue name m =
     (case mg_funcs m name of
        Some fq \<Rightarrow> Some (fq, m)
      | None \<Rightarrow>
          (case sem_make (mg_max_inflight m) of
             None \<Rightarrow> None
           | Some sem \<Rightarrow>
               (let fq = \<lparr>fq_sem = sem, fq_queued = 0\<rparr>
                in Some (fq, m\<lparr>mg_funcs := (mg_funcs m)(name \<mapsto> fq)\<rparr>))))"

definition Status :: "string \<Rightarrow> manager \<Rightarrow> (queue_status \<times> manager) option" where
  "Status name m =
     (case get_queue name m of
        None \<Rightarrow> None
      | Some (fq, m) \<Rightarrow>
          Some (\<lparr>qs_function = name, qs_in_flight = sm_used (fq_sem fq), qs_queued = fq_queued fq,
                 qs_max_inflight = mg_max_inflight m, qs_max_queue = mg_max_queue m\<rparr>, m))"

section \<open>The steps of \<open>Manager.Invoke\<close>\<close>

datatype outcome = Served | QueueFull | QueueTimeout | ClientGone

text \<open>Where a request is: before the first \<open>select\<close>; before the locked check of the queue;
  in the second \<open>select\<close>; past it with a slot, by the timer or by the client, each before its
  locked \<open>queued--\<close>; in the router; finished.\<close>

datatype phase =
    Arrived | Checking | Waiting | Admitted | TimedOut | Cancelled | Running | Done outcome

record qsystem =
  q_fq :: function_queue
  q_reqs :: "phase list"

datatype qevent =
    Arrive
  | FastTake nat | FastFull nat
  | Check nat
  | SlowTake nat | TimerFires nat | ContextDone nat
  | LeaveQueue nat
  | Finish nat

abbreviation set_phase :: "nat \<Rightarrow> phase \<Rightarrow> qsystem \<Rightarrow> qsystem" where
  "set_phase i p s \<equiv> s\<lparr>q_reqs := (q_reqs s)[i := p]\<rparr>"

definition phase_is :: "phase \<Rightarrow> nat \<Rightarrow> qsystem \<Rightarrow> bool" where
  "phase_is p i s \<longleftrightarrow> i < length (q_reqs s) \<and> q_reqs s ! i = p"

definition with_slot :: "semaphore option \<Rightarrow> nat \<Rightarrow> phase \<Rightarrow> qsystem \<Rightarrow> qsystem option" where
  "with_slot sem i p s =
     (case sem of None \<Rightarrow> None | Some sem \<Rightarrow> Some (set_phase i p (s\<lparr>q_fq := (q_fq s)\<lparr>fq_sem := sem\<rparr>\<rparr>)))"

text \<open>The locked section that counts the request in, or refuses it.\<close>

definition enter_queue :: "int \<Rightarrow> function_queue \<Rightarrow> function_queue option" where
  "enter_queue maxQueue fq = (if fq_queued fq \<ge> maxQueue then None else Some (fq\<lparr>fq_queued := fq_queued fq + 1\<rparr>))"

definition leave_queue :: "function_queue \<Rightarrow> function_queue" where
  "leave_queue fq = fq\<lparr>fq_queued := fq_queued fq - 1\<rparr>"

fun after_leave :: "phase \<Rightarrow> phase option" where
  "after_leave Admitted = Some Running"
| "after_leave TimedOut = Some (Done QueueTimeout)"
| "after_leave Cancelled = Some (Done ClientGone)"
| "after_leave _ = None"

text \<open>One step, or \<open>None\<close> when it cannot be taken now. A \<open>select\<close> with a \<open>default\<close> takes the
  default only when the send cannot proceed; of the ready cases of the second \<open>select\<close> any
  may be taken.\<close>

fun qstep :: "int \<Rightarrow> qevent \<Rightarrow> qsystem \<Rightarrow> qsystem option" where
  "qstep maxq Arrive s = Some (s\<lparr>q_reqs := q_reqs s @ [Arrived]\<rparr>)"
| "qstep maxq (FastTake i) s =
     (if phase_is Arrived i s then with_slot (sem_take (fq_sem (q_fq s))) i Running s else None)"
| "qstep maxq (FastFull i) s =
     (if phase_is Arrived i s \<and> sem_take (fq_sem (q_fq s)) = None then Some (set_phase i Checking s) else None)"
| "qstep maxq (Check i) s =
     (if phase_is Checking i s then
        (case enter_queue maxq (q_fq s) of
           None \<Rightarrow> Some (set_phase i (Done QueueFull) s)
         | Some fq \<Rightarrow> Some (set_phase i Waiting (s\<lparr>q_fq := fq\<rparr>)))
      else None)"
| "qstep maxq (SlowTake i) s =
     (if phase_is Waiting i s then with_slot (sem_take (fq_sem (q_fq s))) i Admitted s else None)"
| "qstep maxq (TimerFires i) s = (if phase_is Waiting i s then Some (set_phase i TimedOut s) else None)"
| "qstep maxq (ContextDone i) s = (if phase_is Waiting i s then Some (set_phase i Cancelled s) else None)"
| "qstep maxq (LeaveQueue i) s =
     (if i < length (q_reqs s) then
        (case after_leave (q_reqs s ! i) of
           None \<Rightarrow> None
         | Some p \<Rightarrow> Some (set_phase i p (s\<lparr>q_fq := leave_queue (q_fq s)\<rparr>)))
      else None)"
| "qstep maxq (Finish i) s =
     (if phase_is Running i s then with_slot (sem_give (fq_sem (q_fq s))) i (Done Served) s else None)"

fun qrun :: "int \<Rightarrow> qevent list \<Rightarrow> qsystem \<Rightarrow> qsystem option" where
  "qrun maxq [] s = Some s"
| "qrun maxq (e # es) s = (case qstep maxq e s of None \<Rightarrow> None | Some t \<Rightarrow> qrun maxq es t)"

definition queue_start :: "nat \<Rightarrow> qsystem" where
  "queue_start cap = \<lparr>q_fq = \<lparr>fq_sem = \<lparr>sm_cap = cap, sm_used = 0\<rparr>, fq_queued = 0\<rparr>, q_reqs = []\<rparr>"

section \<open>Accounting\<close>

definition has_slot :: "phase \<Rightarrow> bool" where
  "has_slot p \<longleftrightarrow> p = Admitted \<or> p = Running"

definition is_queued :: "phase \<Rightarrow> bool" where
  "is_queued p \<longleftrightarrow> p = Waiting \<or> p = Admitted \<or> p = TimedOut \<or> p = Cancelled"

definition is_done :: "phase \<Rightarrow> bool" where
  "is_done p \<longleftrightarrow> (\<exists>out. p = Done out)"

definition queue_ok :: "nat \<Rightarrow> int \<Rightarrow> qsystem \<Rightarrow> bool" where
  "queue_ok cap maxq s \<longleftrightarrow>
     sm_cap (fq_sem (q_fq s)) = cap \<and>
     sm_used (fq_sem (q_fq s)) = count_if has_slot (q_reqs s) \<and> count_if has_slot (q_reqs s) \<le> cap \<and>
     fq_queued (q_fq s) = int (count_if is_queued (q_reqs s)) \<and> fq_queued (q_fq s) \<le> max 0 maxq"

lemma phase_preds [simp]:
  "has_slot Admitted" "has_slot Running" "\<not> has_slot Arrived" "\<not> has_slot Checking" "\<not> has_slot Waiting"
  "\<not> has_slot TimedOut" "\<not> has_slot Cancelled" "\<not> has_slot (Done x)"
  "is_queued Waiting" "is_queued Admitted" "is_queued TimedOut" "is_queued Cancelled"
  "\<not> is_queued Arrived" "\<not> is_queued Checking" "\<not> is_queued Running" "\<not> is_queued (Done x)"
  "is_done (Done x)" "\<not> is_done Arrived" "\<not> is_done Checking" "\<not> is_done Waiting" "\<not> is_done Admitted"
  "\<not> is_done TimedOut" "\<not> is_done Cancelled" "\<not> is_done Running"
  by (simp_all add: has_slot_def is_queued_def is_done_def)

lemma queue_ok_start: "queue_ok cap maxq (queue_start cap)"
  by (simp add: queue_ok_def queue_start_def)

text \<open>How one request changing its phase moves the two counts.\<close>

lemma count_move:
  assumes "phase_is p i s"
  shows "count_if P ((q_reqs s)[i := q]) + (if P p then 1 else 0) = count_if P (q_reqs s) + (if P q then 1 else 0)"
  using count_if_update [of i "q_reqs s" P q] assms by (simp add: phase_is_def)

lemma count_pos: "phase_is p i s \<Longrightarrow> P p \<Longrightarrow> 0 < count_if P (q_reqs s)"
  using count_if_pos [of i "q_reqs s" P] by (auto simp: phase_is_def)

lemma queue_ok_step:
  assumes "queue_ok cap maxq s" "qstep maxq e s = Some t"
  shows "queue_ok cap maxq t"
proof (cases e)
  case Arrive
  with assms show ?thesis by (auto simp: queue_ok_def)
next
  case (FastTake i)
  with assms(2) obtain sem where ph: "phase_is Arrived i s" and sem: "sem_take (fq_sem (q_fq s)) = Some sem"
    and t: "t = set_phase i Running (s\<lparr>q_fq := (q_fq s)\<lparr>fq_sem := sem\<rparr>\<rparr>)"
    by (auto simp: with_slot_def split: if_splits option.splits)
  from chan_sem.holders_take [OF refl sem] chan_sem.take_used [OF sem]
    count_move [OF ph, of has_slot Running] count_move [OF ph, of is_queued Running] assms(1)
  show ?thesis by (simp add: queue_ok_def t)
next
  case (FastFull i)
  with assms(2) have ph: "phase_is Arrived i s" and t: "t = set_phase i Checking s"
    by (auto split: if_splits)
  from count_move [OF ph, of has_slot Checking] count_move [OF ph, of is_queued Checking] assms(1)
  show ?thesis by (simp add: queue_ok_def t)
next
  case (Check i)
  with assms(2) have ph: "phase_is Checking i s" by (auto split: if_splits)
  show ?thesis
  proof (cases "fq_queued (q_fq s) \<ge> maxq")
    case True
    with Check ph assms(2) have t: "t = set_phase i (Done QueueFull) s" by (simp add: enter_queue_def)
    from count_move [OF ph, of has_slot "Done QueueFull"] count_move [OF ph, of is_queued "Done QueueFull"] assms(1)
    show ?thesis by (simp add: queue_ok_def t)
  next
    case False
    with Check ph assms(2)
    have t: "t = set_phase i Waiting (s\<lparr>q_fq := (q_fq s)\<lparr>fq_queued := fq_queued (q_fq s) + 1\<rparr>\<rparr>)"
      by (simp add: enter_queue_def)
    from count_move [OF ph, of has_slot Waiting] count_move [OF ph, of is_queued Waiting] assms(1) False
    show ?thesis by (simp add: queue_ok_def t)
  qed
next
  case (SlowTake i)
  with assms(2) obtain sem where ph: "phase_is Waiting i s" and sem: "sem_take (fq_sem (q_fq s)) = Some sem"
    and t: "t = set_phase i Admitted (s\<lparr>q_fq := (q_fq s)\<lparr>fq_sem := sem\<rparr>\<rparr>)"
    by (auto simp: with_slot_def split: if_splits option.splits)
  from chan_sem.holders_take [OF refl sem] chan_sem.take_used [OF sem]
    count_move [OF ph, of has_slot Admitted] count_move [OF ph, of is_queued Admitted] assms(1)
  show ?thesis by (simp add: queue_ok_def t)
next
  case (TimerFires i)
  with assms(2) have ph: "phase_is Waiting i s" and t: "t = set_phase i TimedOut s" by (auto split: if_splits)
  from count_move [OF ph, of has_slot TimedOut] count_move [OF ph, of is_queued TimedOut] assms(1)
  show ?thesis by (simp add: queue_ok_def t)
next
  case (ContextDone i)
  with assms(2) have ph: "phase_is Waiting i s" and t: "t = set_phase i Cancelled s" by (auto split: if_splits)
  from count_move [OF ph, of has_slot Cancelled] count_move [OF ph, of is_queued Cancelled] assms(1)
  show ?thesis by (simp add: queue_ok_def t)
next
  case (LeaveQueue i)
  with assms(2) obtain p where p: "after_leave (q_reqs s ! i) = Some p" and i: "i < length (q_reqs s)"
    and t: "t = set_phase i p (s\<lparr>q_fq := leave_queue (q_fq s)\<rparr>)"
    by (auto split: if_splits option.splits)
  have ph: "phase_is (q_reqs s ! i) i s" using i by (simp add: phase_is_def)
  have "is_queued (q_reqs s ! i) \<and> \<not> is_queued p \<and> (has_slot p \<longleftrightarrow> has_slot (q_reqs s ! i))"
    using p by (cases "q_reqs s ! i") auto
  with count_move [OF ph, of has_slot p] count_move [OF ph, of is_queued p] assms(1)
  show ?thesis by (simp add: queue_ok_def t leave_queue_def split: if_splits)
next
  case (Finish i)
  with assms(2) obtain sem where ph: "phase_is Running i s" and sem: "sem_give (fq_sem (q_fq s)) = Some sem"
    and t: "t = set_phase i (Done Served) (s\<lparr>q_fq := (q_fq s)\<lparr>fq_sem := sem\<rparr>\<rparr>)"
    by (auto simp: with_slot_def split: if_splits option.splits)
  from chan_sem.give_used [OF sem]
    count_move [OF ph, of has_slot "Done Served"] count_move [OF ph, of is_queued "Done Served"] assms(1)
  show ?thesis by (simp add: queue_ok_def t)
qed

interpretation admission: transition_system "\<lambda>s. s = queue_start cap" "\<lambda>s t. \<exists>e. qstep maxq e s = Some t"
  "queue_ok cap maxq" for cap maxq
  by unfold_locales (auto intro: queue_ok_start queue_ok_step)

lemma qrun_steps: "qrun maxq es s = Some t \<Longrightarrow> (\<lambda>s t. \<exists>e. qstep maxq e s = Some t)\<^sup>*\<^sup>* s t"
proof (induction maxq es s rule: qrun.induct)
  case (2 maxq e es s)
  then show ?case by (auto split: option.splits intro: converse_rtranclp_into_rtranclp)
qed simp

lemma qrun_ok: "qrun maxq es (queue_start cap) = Some t \<Longrightarrow> queue_ok cap maxq t"
  using admission.reachable_good [OF refl qrun_steps] by blast

section \<open>Progress\<close>

text \<open>How many steps a request can still take.\<close>

fun rank :: "phase \<Rightarrow> nat" where
  "rank Arrived = 5"
| "rank Checking = 4"
| "rank Waiting = 3"
| "rank Admitted = 2"
| "rank TimedOut = 1"
| "rank Cancelled = 1"
| "rank Running = 1"
| "rank (Done _) = 0"

definition total_rank :: "qsystem \<Rightarrow> nat" where
  "total_rank s = sum_list (map rank (q_reqs s))"

lemma total_rank_move:
  "phase_is p i s \<Longrightarrow> rank q < rank p \<Longrightarrow> sum_list (map rank ((q_reqs s)[i := q])) < total_rank s"
  unfolding total_rank_def phase_is_def by (auto intro: sum_update_less)

lemma qstep_rank:
  assumes "qstep maxq e s = Some t" "e \<noteq> Arrive"
  shows "total_rank t < total_rank s"
proof -
  obtain p i q where "phase_is p i s" "rank q < rank p" "q_reqs t = (q_reqs s)[i := q]"
  proof (cases e)
    case (LeaveQueue i)
    with assms(1) obtain q where q: "after_leave (q_reqs s ! i) = Some q" "i < length (q_reqs s)"
      "q_reqs t = (q_reqs s)[i := q]" by (auto split: if_splits option.splits)
    then have "rank q < rank (q_reqs s ! i)" by (cases "q_reqs s ! i") auto
    with q that [of "q_reqs s ! i" i q] show ?thesis by (simp add: phase_is_def)
  next
    case (Check i)
    with assms(1) that [of Checking i "Done QueueFull"] that [of Checking i Waiting] show ?thesis
      by (auto split: if_splits option.splits)
  next
    case (FastTake i)
    with assms(1) that [of Arrived i Running] show ?thesis by (auto simp: with_slot_def split: if_splits option.splits)
  next
    case (SlowTake i)
    with assms(1) that [of Waiting i Admitted] show ?thesis by (auto simp: with_slot_def split: if_splits option.splits)
  next
    case (Finish i)
    with assms(1) that [of Running i "Done Served"] show ?thesis by (auto simp: with_slot_def split: if_splits option.splits)
  next
    case (FastFull i)
    with assms(1) that [of Arrived i Checking] show ?thesis by (auto split: if_splits)
  next
    case (TimerFires i)
    with assms(1) that [of Waiting i TimedOut] show ?thesis by (auto split: if_splits)
  next
    case (ContextDone i)
    with assms(1) that [of Waiting i Cancelled] show ?thesis by (auto split: if_splits)
  qed (use assms in simp)
  then show ?thesis using total_rank_move by (metis total_rank_def)
qed

lemma qrun_rank:
  "qrun maxq es s = Some t \<Longrightarrow> Arrive \<notin> set es \<Longrightarrow> length es + total_rank t \<le> total_rank s"
proof (induction maxq es s rule: qrun.induct)
  case (2 maxq e es s)
  then obtain u where u: "qstep maxq e s = Some u" "qrun maxq es u = Some t" by (auto split: option.splits)
  with 2 qstep_rank [OF u(1)] show ?case by fastforce
qed simp

lemma qstep_enabled:
  assumes "queue_ok cap maxq s" "p \<in> set (q_reqs s)" "\<not> is_done p"
  shows "\<exists>e t. e \<noteq> Arrive \<and> qstep maxq e s = Some t"
proof -
  obtain i where i: "i < length (q_reqs s)" "q_reqs s ! i = p"
    using assms(2) by (auto simp: in_set_conv_nth)
  then have ph: "phase_is p i s" by (simp add: phase_is_def)
  show ?thesis
  proof (cases p)
    case Arrived
    show ?thesis
    proof (cases "sem_take (fq_sem (q_fq s))")
      case None
      with Arrived ph show ?thesis by (intro exI [of _ "FastFull i"]) auto
    next
      case (Some sem)
      with Arrived ph show ?thesis by (intro exI [of _ "FastTake i"]) (auto simp: with_slot_def)
    qed
  next
    case Checking
    then show ?thesis using ph by (auto intro!: exI [of _ "Check i"] split: option.split)
  next
    case Waiting
    then show ?thesis using ph by (auto intro!: exI [of _ "TimerFires i"])
  next
    case Running
    then have "0 < sm_used (fq_sem (q_fq s))"
      using count_pos [OF ph, of has_slot] assms(1) by (simp add: queue_ok_def)
    then obtain sem where "sem_give (fq_sem (q_fq s)) = Some sem" using chan_sem.give_iff by blast
    then show ?thesis using ph Running by (auto simp: with_slot_def intro!: exI [of _ "Finish i"])
  next
    case (Done x)
    with assms(3) show ?thesis by simp
  qed (use i in \<open>auto intro!: exI [of _ "LeaveQueue i"]\<close>)
qed

lemma drain:
  "queue_ok cap maxq s \<Longrightarrow>
   \<exists>es t. Arrive \<notin> set es \<and> qrun maxq es s = Some t \<and> list_all is_done (q_reqs t)"
proof (induction "total_rank s" arbitrary: s rule: less_induct)
  case less
  show ?case
  proof (cases "list_all is_done (q_reqs s)")
    case True
    then show ?thesis by (intro exI [of _ "[]"]) simp
  next
    case False
    then obtain p where "p \<in> set (q_reqs s)" "\<not> is_done p" by (auto simp: list_all_iff)
    then obtain e u where e: "e \<noteq> Arrive" "qstep maxq e s = Some u" using qstep_enabled [OF less(2)] by blast
    from less(1) [OF qstep_rank [OF e(2,1)] queue_ok_step [OF less(2) e(2)]]
    obtain es t where "Arrive \<notin> set es" "qrun maxq es u = Some t" "list_all is_done (q_reqs t)" by blast
    with e show ?thesis by (intro exI [of _ "e # es"]) auto
  qed
qed

section \<open>Properties\<close>

text \<open>C20. Admission control. After any interleaving of any number of requests, no more of them
  hold a slot, admitted or already in the router, than the channel has, and so no more are in the router; the counters that
  \<open>Status\<close> reports for the function are exact, in flight the requests that hold a slot and queued those counted
  into the queue and not yet out of it; the queue never exceeds its limit; and when every request
  has been answered both counters are back to zero.\<close>

theorem admission_bounds:
  assumes "qrun maxq es (queue_start cap) = Some s"
  shows "count_if (\<lambda>p. p = Admitted \<or> p = Running) (q_reqs s) \<le> cap \<and>
    count_if (\<lambda>p. p = Running) (q_reqs s) \<le> count_if (\<lambda>p. p = Admitted \<or> p = Running) (q_reqs s) \<and>
    sm_used (fq_sem (q_fq s)) = count_if (\<lambda>p. p = Admitted \<or> p = Running) (q_reqs s) \<and>
    fq_queued (q_fq s) = int (count_if (\<lambda>p. p = Waiting \<or> p = Admitted \<or> p = TimedOut \<or> p = Cancelled) (q_reqs s)) \<and>
    fq_queued (q_fq s) \<le> max 0 maxq \<and>
    (\<forall>name m. mg_funcs m name = Some (q_fq s) \<longrightarrow> (\<exists>st. Status name m = Some (st, m) \<and>
       qs_in_flight st = count_if (\<lambda>p. p = Admitted \<or> p = Running) (q_reqs s) \<and>
       qs_queued st = int (count_if (\<lambda>p. p = Waiting \<or> p = Admitted \<or> p = TimedOut \<or> p = Cancelled) (q_reqs s)))) \<and>
    (list_all is_done (q_reqs s) \<longrightarrow> sm_used (fq_sem (q_fq s)) = 0 \<and> fq_queued (q_fq s) = 0)"
proof -
  note ok = qrun_ok [OF assms]
  have preds: "has_slot = (\<lambda>p. p = Admitted \<or> p = Running)"
    "is_queued = (\<lambda>p. p = Waiting \<or> p = Admitted \<or> p = TimedOut \<or> p = Cancelled)"
    by (simp_all add: fun_eq_iff has_slot_def is_queued_def)
  have "count_if (\<lambda>p. p = Running) xs \<le> count_if has_slot xs" for xs
    by (induction xs) auto
  moreover have "list_all is_done xs \<Longrightarrow> count_if has_slot xs = 0 \<and> count_if is_queued xs = 0" for xs
    by (induction xs) (auto simp: is_done_def)
  ultimately show ?thesis
    using ok unfolding preds [symmetric] by (simp add: queue_ok_def Status_def get_queue_def)
qed

theorem admission_bounds_witness:
  "\<exists>s. qrun 1 [Arrive, Arrive, Arrive, FastTake 0, FastFull 1, FastFull 2, Check 1, Check 2] (queue_start 1) = Some s \<and>
     sm_used (fq_sem (q_fq s)) = 1 \<and> fq_queued (q_fq s) = 1 \<and> q_reqs s = [Running, Waiting, Done QueueFull]"
proof -
  obtain s where run: "qrun 1 [Arrive, Arrive, Arrive, FastTake 0, FastFull 1, FastFull 2, Check 1, Check 2]
      (queue_start 1) = Some s" "q_reqs s = [Running, Waiting, Done QueueFull]"
    by (simp add: queue_start_def phase_is_def with_slot_def sem_take_def enter_queue_def)
  from admission_bounds [OF run(1)] run(2) show ?thesis using run by (intro exI [of _ s]) auto
qed

text \<open>C21. No request is stuck. From every reachable state, with no further arrivals, some
  schedule answers every request, and every schedule is finite: none has more steps than five
  per request.\<close>

theorem admission_drains:
  assumes "qrun maxq es (queue_start cap) = Some s"
  shows "(\<exists>es' t. Arrive \<notin> set es' \<and> qrun maxq es' s = Some t \<and> list_all is_done (q_reqs t)) \<and>
    (\<forall>es' t. Arrive \<notin> set es' \<and> qrun maxq es' s = Some t \<longrightarrow> length es' \<le> 5 * length (q_reqs s))"
proof -
  have "total_rank s \<le> 5 * length (q_reqs s)"
  proof -
    have "sum_list (map rank ps) \<le> 5 * length ps" for ps
    proof (induction ps)
      case (Cons p ps)
      then show ?case by (cases p) auto
    qed simp
    then show ?thesis by (simp add: total_rank_def)
  qed
  then show ?thesis using drain [OF qrun_ok [OF assms]] qrun_rank by (metis add_leD1 order_trans)
qed

theorem admission_drains_witness:
  "\<exists>es' t. qrun 0 es' \<lparr>q_fq = \<lparr>fq_sem = \<lparr>sm_cap = 0, sm_used = 0\<rparr>, fq_queued = 0\<rparr>, q_reqs = [Arrived]\<rparr> = Some t \<and>
     list_all is_done (q_reqs t)"
  using admission_drains [of 0 "[Arrive]" 0] by (auto simp: queue_start_def)

text \<open>The limit comes from the environment unchecked: with a negative
  \<open>MAX_INFLIGHT_PER_FUNCTION\<close> the first use of any function, be it an invocation or a status
  request, panics, because a channel of negative capacity is made; otherwise a first use
  reports an empty queue.\<close>

theorem negative_inflight_panics:
  "Status name (new_manager env) =
     (if env_int env ''MAX_INFLIGHT_PER_FUNCTION'' 5 < 0 then None
      else Some (\<lparr>qs_function = name, qs_in_flight = 0, qs_queued = 0,
                  qs_max_inflight = env_int env ''MAX_INFLIGHT_PER_FUNCTION'' 5,
                  qs_max_queue = env_int env ''MAX_QUEUE_PER_FUNCTION'' 100\<rparr>,
                (new_manager env)\<lparr>mg_funcs := [name \<mapsto>
                  \<lparr>fq_sem = \<lparr>sm_cap = nat (env_int env ''MAX_INFLIGHT_PER_FUNCTION'' 5), sm_used = 0\<rparr>,
                   fq_queued = 0\<rparr>]\<rparr>))"
  by (simp add: Status_def get_queue_def new_manager_def sem_make_def Let_def)

end
