(* ===== verification/Gateway_Http.thy ===== *)
theory Gateway_Http
  imports Code_Upload Gateway_Queue
begin

text \<open>
  The HTTP surface of the gateway: the router that sends an invocation to a container
  (gateway/router/router.go), the handlers (gateway/entrypoints/*.go) and the two muxes that
  mount them. A handler takes a request and the gateway's state and yields the response
  (\<open>None\<close> for a panic, after which the server drops the connection) and the new state. A
  handler runs here without interference; the interleavings are the subject of
  Scheduler_System and Gateway_Queue. What lies outside the gateway answers through the record
  \<open>world\<close>: the backend, the called container, the JSON decoder, the archive reader, the metadata
  store, the clock.
\<close>

section \<open>Requests, responses and the world\<close>

record request =
  rq_method :: string
  rq_path :: string
  rq_auth :: string
  rq_body :: "string option"   \<comment> \<open>\<open>None\<close> when reading the body fails\<close>

datatype payload =
    NoBody
  | Plain string
  | RegisterErr register_error
  | UploadErr upload_error
  | SchedErr sched_error
  | JsonDone string string
  | JsonStats nat nat
  | JsonStrings "string list"
  | JsonInstances "instance_info list"
  | JsonQueue queue_status
  | JsonTriggers "mq_trigger list"
  | JsonLease instance_lease
  | RawJson string

record response =
  rs_status :: int
  rs_payload :: payload

definition http_error :: "payload \<Rightarrow> int \<Rightarrow> response option" where
  "http_error p code = Some \<lparr>rs_status = code, rs_payload = p\<rparr>"

text \<open>\<open>ResponseWriter.WriteHeader\<close> panics for a code that is not of three digits.\<close>

definition write_header :: "int \<Rightarrow> payload \<Rightarrow> response option" where
  "write_header code p = (if code < 100 \<or> code > 999 then None else Some \<lparr>rs_status = code, rs_payload = p\<rparr>)"

text \<open>What comes back from the container: the request could not be built, the call failed, the
  body is no JSON object of the expected types, or a status code (0 when the field is missing) with
  a body.\<close>

datatype call_result = BuildFailed | CallFailed | BadJson | Answer int string

record acquire_body =
  ab_source :: string
  ab_mq_id :: string
  ab_trigger_id :: string
  ab_message_id :: string
  ab_timeout_seconds :: int

record world =
  w_env :: env
  w_backend :: backend_start
  w_call :: "string \<Rightarrow> string \<Rightarrow> string \<Rightarrow> duration \<Rightarrow> call_result"
  w_t1 :: time
  w_t2 :: time
  w_t3 :: time
  w_lease_id :: string
  w_config :: "string \<Rightarrow> function_config option"
  w_acquire :: "string \<Rightarrow> acquire_body option"
  w_release :: "string \<Rightarrow> string option"
  w_unzip :: "string \<Rightarrow> zip_entry list option"
  w_save_ok :: bool
  w_upload_io :: upload_io
  w_tmp :: string
  w_tree :: tree
  w_code_object :: "(string \<times> string) option option"
  w_client_gone :: bool
  w_order :: "string list"    \<comment> \<open>the order in which \<open>range\<close> visits the registry\<close>

record gateway =
  gw_sched :: scheduler
  gw_cold :: "(string \<times> function_config \<times> int) list"   \<comment> \<open>the goroutines of \<open>ColdStartOne\<close> not finished\<close>
  gw_queue :: manager
  gw_dirs :: "string \<Rightarrow> tree code_dirs"

section \<open>The router\<close>

definition relay :: "call_result \<Rightarrow> response option" where
  "relay res =
     (case res of
        BuildFailed \<Rightarrow> http_error (Plain ''failed to build function request'') 500
      | CallFailed \<Rightarrow> http_error (Plain ''function instance unavailable'') 502
      | BadJson \<Rightarrow> http_error (Plain ''invalid function response'') 502
      | Answer code body \<Rightarrow> write_header code (RawJson body))"

text \<open>\<open>Router.Invoke\<close>; the release is deferred, so it also runs when \<open>WriteHeader\<close> panics.\<close>

definition router_Invoke :: "world \<Rightarrow> request \<Rightarrow> string \<Rightarrow> scheduler \<Rightarrow> response option \<times> scheduler" where
  "router_Invoke w req name s =
     (case Get name s of
        None \<Rightarrow> (http_error (Plain ''function not found'') 404, s)
      | Some cfg \<Rightarrow>
          (case rq_body req of
             None \<Rightarrow> (http_error (Plain ''failed to read body'') 400, s)
           | Some body \<Rightarrow>
               (case Acquire (w_backend w) (w_t1 w) (w_t2 w) name s of
                  (Inl e, s) \<Rightarrow> (http_error (Plain ''failed to acquire function instance'') 503, s)
                | (Inr r, s) \<Rightarrow>
                    (relay (w_call w (c_addr (deref s r)) name body (dur_seconds (fc_timeout cfg))),
                     Release r (w_t3 w) s))))"

text \<open>\<open>Manager.Invoke\<close> for a request that meets no other: with no slot it waits in vain until
  its timer fires or its client leaves (then nothing is written, and the server answers 200).\<close>

definition manager_Invoke :: "world \<Rightarrow> request \<Rightarrow> string \<Rightarrow> gateway \<Rightarrow> response option \<times> gateway" where
  "manager_Invoke w req name g =
     (case get_queue name (gw_queue g) of
        None \<Rightarrow> (None, g)
      | Some (fq, m) \<Rightarrow>
          (let g = g\<lparr>gw_queue := m\<rparr> in
           case sem_take (fq_sem fq) of
             Some sem \<Rightarrow>
               (let (out, s) = router_Invoke w req name (gw_sched g) in (out, g\<lparr>gw_sched := s\<rparr>))
           | None \<Rightarrow>
               if enter_queue (mg_max_queue m) fq = None then (http_error (Plain ''queue full'') 429, g)
               else if w_client_gone w then (write_header 200 NoBody, g)
               else (http_error (Plain ''queue timeout'') 503, g)))"

section \<open>Public handlers\<close>

definition method_not_allowed :: "response option" where
  "method_not_allowed = http_error (Plain ''method not allowed'') 405"

definition functions_handler :: "world \<Rightarrow> request \<Rightarrow> gateway \<Rightarrow> response option \<times> gateway" where
  "functions_handler w req g =
     (let path = trim_prefix (rq_path req) ''/functions/'' in
      if path = [] then (http_error (Plain ''missing function name'') 400, g)
      else if rq_method req = ''PUT'' \<and> has_suffix path ''/code'' then
        (let name = trim_suffix path ''/code'' in
         case rq_body req of
           None \<Rightarrow> (http_error (Plain ''failed to read body'') 400, g)
         | Some data \<Rightarrow>
             (let (err, stops, d, s) = UploadCode (w_upload_io w) (w_unzip w (take (50 * 2 ^ 20) data)) (w_tmp w)
                    (w_tree w) (w_code_object w) (w_save_ok w) name (gw_dirs g (dnsLabel name), gw_sched g);
                  g = g\<lparr>gw_sched := s, gw_dirs := (gw_dirs g)(dnsLabel name := d)\<rparr>
              in case err of
                   Some e \<Rightarrow> (http_error (UploadErr e) 400, g)
                 | None \<Rightarrow> (write_header 200 (JsonDone ''uploaded'' name), g)))
      else if rq_method req = ''POST'' then
        (case Option.bind (rq_body req) (w_config w) of
           None \<Rightarrow> (http_error (Plain ''invalid body'') 400, g)
         | Some cfg \<Rightarrow>
             (case Register (w_save_ok w) (cfg\<lparr>fc_name := path\<rparr>) (gw_sched g) of
                (Some e, s) \<Rightarrow> (http_error (RegisterErr e) 409, g\<lparr>gw_sched := s\<rparr>)
              | (None, s) \<Rightarrow> (write_header 201 (JsonDone ''registered'' path), g\<lparr>gw_sched := s\<rparr>)))
      else if rq_method req = ''DELETE'' then
        (write_header 204 NoBody, g\<lparr>gw_sched := snd (Deregister path (gw_sched g))\<rparr>)
      else (method_not_allowed, g))"

definition invoke_handler :: "world \<Rightarrow> request \<Rightarrow> gateway \<Rightarrow> response option \<times> gateway" where
  "invoke_handler w req g =
     (if rq_method req \<noteq> ''POST'' then (method_not_allowed, g)
      else
        let name = trim_prefix (rq_path req) ''/invoke/'' in
        if name = [] then (http_error (Plain ''missing function name'') 400, g)
        else manager_Invoke w req name g)"

definition health_handler :: "request \<Rightarrow> gateway \<Rightarrow> response option \<times> gateway" where
  "health_handler req g = (write_header 200 (Plain ''ok''), g)"

definition queue_response :: "string \<Rightarrow> gateway \<Rightarrow> response option \<times> gateway" where
  "queue_response name g =
     (case Status name (gw_queue g) of
        None \<Rightarrow> (None, g)
      | Some (st, m) \<Rightarrow> (write_header 200 (JsonQueue st), g\<lparr>gw_queue := m\<rparr>))"

definition StatusHandler :: "request \<Rightarrow> gateway \<Rightarrow> response option \<times> gateway" where
  "StatusHandler req g =
     (if rq_method req \<noteq> ''GET'' then (method_not_allowed, g)
      else
        let name = trim_prefix (rq_path req) ''/queues/'' in
        if name = [] then (http_error (Plain ''missing function name'') 400, g)
        else queue_response name g)"

section \<open>Internal handlers\<close>

definition stats_handler :: "request \<Rightarrow> gateway \<Rightarrow> response option \<times> gateway" where
  "stats_handler req g =
     (if rq_method req \<noteq> ''GET'' then (method_not_allowed, g)
      else
        let (busy, idle) = Stats (trim_prefix (rq_path req) ''/internal/stats/'') (gw_sched g)
        in (write_header 200 (JsonStats busy idle), g))"

definition containers_handler :: "request \<Rightarrow> gateway \<Rightarrow> response option \<times> gateway" where
  "containers_handler req g =
     (if rq_method req \<noteq> ''GET'' then (method_not_allowed, g)
      else (write_header 200 (JsonStrings (ContainerIDs (trim_prefix (rq_path req) ''/internal/containers/'') (gw_sched g))), g))"

definition instances_handler :: "request \<Rightarrow> gateway \<Rightarrow> response option \<times> gateway" where
  "instances_handler req g =
     (if rq_method req \<noteq> ''GET'' then (method_not_allowed, g)
      else (write_header 200 (JsonInstances (Instances (trim_prefix (rq_path req) ''/internal/instances/'') (gw_sched g))), g))"

definition queue_handler :: "request \<Rightarrow> gateway \<Rightarrow> response option \<times> gateway" where
  "queue_handler req g =
     (if rq_method req \<noteq> ''GET'' then (method_not_allowed, g)
      else queue_response (trim_prefix (rq_path req) ''/internal/queue/'') g)"

definition names_handler :: "world \<Rightarrow> request \<Rightarrow> gateway \<Rightarrow> response option \<times> gateway" where
  "names_handler w req g =
     (if rq_method req \<noteq> ''GET'' then (method_not_allowed, g)
      else (write_header 200 (JsonStrings (FunctionNames (w_order w) (gw_sched g))), g))"

definition triggers_handler :: "world \<Rightarrow> request \<Rightarrow> gateway \<Rightarrow> response option \<times> gateway" where
  "triggers_handler w req g =
     (if rq_method req \<noteq> ''GET'' then (method_not_allowed, g)
      else (write_header 200 (JsonTriggers (MQTriggers (w_order w) (gw_sched g))), g))"

definition acquire_error_status :: "sched_error \<Rightarrow> int" where
  "acquire_error_status e = (case e of FunctionNotFound _ \<Rightarrow> 404 | InvalidTrigger \<Rightarrow> 400 | _ \<Rightarrow> 503)"

definition release_error_status :: "sched_error \<Rightarrow> int" where
  "release_error_status e = (case e of InvalidLeaseStatus _ \<Rightarrow> 400 | LeaseNotFound _ \<Rightarrow> 404 | _ \<Rightarrow> 500)"

definition acquire_handler :: "world \<Rightarrow> request \<Rightarrow> gateway \<Rightarrow> response option \<times> gateway" where
  "acquire_handler w req g =
     (if rq_method req \<noteq> ''POST'' then (method_not_allowed, g)
      else
        let (name, ok) = cut_suffix (trim_prefix (rq_path req) ''/internal/functions/'') ''/instances/acquire'' in
        if \<not> ok \<or> name = [] \<or> CHR ''/'' \<in> set name then (http_error (Plain ''not found'') 404, g)
        else
          case Option.bind (rq_body req) (w_acquire w) of
            None \<Rightarrow> (http_error (Plain ''invalid body'') 400, g)
          | Some b \<Rightarrow>
              (case AcquireInstance (w_env w) (w_backend w) (w_t1 w) (w_t2 w) (w_t3 w) (w_lease_id w)
                      \<lparr>ar_function = name, ar_source = ab_source b, ar_mq_id = ab_mq_id b,
                       ar_trigger_id = ab_trigger_id b, ar_message_id = ab_message_id b,
                       ar_timeout_seconds = ab_timeout_seconds b\<rparr> (gw_sched g) of
                 (Inl e, s) \<Rightarrow> (http_error (SchedErr e) (acquire_error_status e), g\<lparr>gw_sched := s\<rparr>)
               | (Inr lease, s) \<Rightarrow> (write_header 200 (JsonLease lease), g\<lparr>gw_sched := s\<rparr>)))"

definition release_handler :: "world \<Rightarrow> request \<Rightarrow> gateway \<Rightarrow> response option \<times> gateway" where
  "release_handler w req g =
     (if rq_method req \<noteq> ''POST'' then (method_not_allowed, g)
      else
        let (lease_id, ok) = cut_suffix (trim_prefix (rq_path req) ''/internal/leases/'') ''/release'' in
        if \<not> ok \<or> lease_id = [] \<or> CHR ''/'' \<in> set lease_id then (http_error (Plain ''not found'') 404, g)
        else
          case Option.bind (rq_body req) (w_release w) of
            None \<Rightarrow> (http_error (Plain ''invalid body'') 400, g)
          | Some status \<Rightarrow>
              (case ReleaseInstance lease_id (if status = [] then ''success'' else status) (w_t1 w) (gw_sched g) of
                 (Some e, stops, s) \<Rightarrow> (http_error (SchedErr e) (release_error_status e), g\<lparr>gw_sched := s\<rparr>)
               | (None, stops, s) \<Rightarrow> (write_header 204 NoBody, g\<lparr>gw_sched := s\<rparr>)))"

definition scale_up_handler :: "world \<Rightarrow> request \<Rightarrow> gateway \<Rightarrow> response option \<times> gateway" where
  "scale_up_handler w req g =
     (if rq_method req \<noteq> ''POST'' then (method_not_allowed, g)
      else
        let name = trim_prefix (rq_path req) ''/internal/scale-up/'' in
        (write_header 202 NoBody,
         case coldstart_begin name (gw_sched g) of
           (None, s) \<Rightarrow> g\<lparr>gw_sched := s\<rparr>
         | (Some (cfg, port), s) \<Rightarrow> g\<lparr>gw_sched := s, gw_cold := (name, cfg, port) # gw_cold g\<rparr>))"

text \<open>A goroutine of \<open>ColdStartOne\<close> ends, whatever else the gateway has done since it began.\<close>

definition finish_cold :: "backend_start \<Rightarrow> time \<Rightarrow> string \<times> function_config \<times> int \<Rightarrow> gateway \<Rightarrow> gateway" where
  "finish_cold backend now p g =
     (case p of (f, cfg, port) \<Rightarrow>
        if p \<in> set (gw_cold g)
        then g\<lparr>gw_sched := coldstart_finish backend now f cfg port (gw_sched g), gw_cold := remove1 p (gw_cold g)\<rparr>
        else g)"

definition scale_down_handler :: "world \<Rightarrow> request \<Rightarrow> gateway \<Rightarrow> response option \<times> gateway" where
  "scale_down_handler w req g =
     (if rq_method req \<noteq> ''POST'' then (method_not_allowed, g)
      else
        let (removed, stops, s) = RemoveIdle (w_t1 w) (trim_prefix (rq_path req) ''/internal/scale-down/'') (gw_sched g)
        in (write_header (if removed then 200 else 204) NoBody, g\<lparr>gw_sched := s\<rparr>))"

text \<open>Agents report to \<open>/containers/<id>/metrics\<close>; the body is limited to a mebibyte and, if a scaler is
  configured, handed with the path to a goroutine that runs \<open>forwardMetrics\<close>.\<close>

definition forwardMetrics :: "(string \<Rightarrow> string \<Rightarrow> 's \<Rightarrow> 's) \<Rightarrow> string \<Rightarrow> string \<Rightarrow> string \<Rightarrow> 's \<Rightarrow> 's" where
  "forwardMetrics post scalerAddr path body s =
     post (''http://'' @ scalerAddr @ ''/metrics/'' @ trim_suffix path ''/metrics'') body s"

definition metrics_handler :: "string \<Rightarrow> request \<Rightarrow> response option \<times> (string \<times> string) option" where
  "metrics_handler scaler_addr req =
     (if rq_method req \<noteq> ''POST'' then (method_not_allowed, None)
      else
        let path = trim_prefix (rq_path req) ''/containers/'' in
        if \<not> has_suffix path ''/metrics'' then (http_error (Plain ''not found'') 404, None)
        else
          case rq_body req of
            None \<Rightarrow> (http_error (Plain ''failed to read body'') 400, None)
          | Some body \<Rightarrow>
              if length body > 2 ^ 20 then (http_error (Plain ''metrics body too large'') 413, None)
              else (write_header 204 NoBody,
                    if scaler_addr \<noteq> []
                    then Some (path, body)
                    else None))"

section \<open>Passing on logs\<close>

type_synonym headers = "(string \<times> string list) list"

datatype log_reply = LogBuildFailed | LogCallFailed | LogReply int headers "(string \<times> bool) list"

definition isHopByHopHeader :: "string \<Rightarrow> bool" where
  "isHopByHopHeader key \<longleftrightarrow>
     to_lower key \<in> set [''connection'', ''keep-alive'', ''proxy-authenticate'', ''proxy-authorization'', ''te'',
       ''trailer'', ''transfer-encoding'', ''upgrade'']"

fun add_values :: "string \<Rightarrow> string list \<Rightarrow> headers \<Rightarrow> headers" where
  "add_values key [] dst = dst"
| "add_values key (v # vs) dst =
     add_values key vs
       (case map_of dst key of
          None \<Rightarrow> dst @ [(key, [v])]
        | Some _ \<Rightarrow> map (\<lambda>(k, ws). if k = key then (k, ws @ [v]) else (k, ws)) dst)"

text \<open>\<open>copyHeaders\<close> with the source map in the order it is visited; header names are in
  canonical form, so \<open>Add\<close> finds them by equality.\<close>

fun copyHeaders :: "headers \<Rightarrow> headers \<Rightarrow> headers" where
  "copyHeaders dst [] = dst"
| "copyHeaders dst ((key, vs) # src) =
     (if isHopByHopHeader key then copyHeaders dst src else copyHeaders (add_values key vs dst) src)"

text \<open>\<open>copyStreamingResponse\<close>: what each \<open>Read\<close> returned and whether it also returned an error
  (the end of the stream included), and for each write whether it succeeds; the result is what
  reached the client.\<close>

fun copy_stream :: "(string \<times> bool) list \<Rightarrow> bool list \<Rightarrow> string" where
  "copy_stream [] oks = []"
| "copy_stream ((chunk, fin) # rs) oks =
     (if chunk \<noteq> [] then
        (case oks of
           True # oks \<Rightarrow> chunk @ (if fin then [] else copy_stream rs oks)
         | _ \<Rightarrow> [])
      else if fin then [] else copy_stream rs oks)"

definition logs_handler ::
  "(string \<Rightarrow> log_reply) \<Rightarrow> string \<Rightarrow> bool list \<Rightarrow> request \<Rightarrow> (response \<times> headers \<times> string) option" where
  "logs_handler fetch uri oks req =
     (let plain = (\<lambda>r. map_option (\<lambda>r. (r, [], [])) r) in
      if rq_method req \<noteq> ''GET'' then plain method_not_allowed
      else
        let path = trim_prefix (rq_path req) ''/logs/'' in
        if path = [] \<or> has_prefix path ''/'' then plain (http_error (Plain ''missing function name'') 400)
        else
          case fetch uri of
            LogBuildFailed \<Rightarrow> plain (http_error (Plain ''failed to build log request'') 500)
          | LogCallFailed \<Rightarrow> plain (http_error (Plain ''logs unavailable'') 502)
          | LogReply code hs chunks \<Rightarrow>
              map_option (\<lambda>r. (r, copyHeaders [] hs, copy_stream chunks oks)) (write_header code NoBody))"

section \<open>Mounting\<close>

text \<open>\<open>http.ServeMux\<close>: a path that is not clean is redirected to its clean form; a pattern that
  ends with a slash matches the paths below it, another pattern only itself; the longest matching
  pattern wins; and a path whose only exact match would need a closing slash is redirected there.\<close>

datatype dispatch = Route string | RedirectTo string | NoRoute

definition clean_path :: "string \<Rightarrow> string" where
  "clean_path p =
     (let p = (if p = [] then ''/'' else if hd p \<noteq> CHR ''/'' then CHR ''/'' # p else p); np = abs_clean p in
      if last p = CHR ''/'' \<and> np \<noteq> ''/'' then np @ ''/'' else np)"

definition pattern_matches :: "string \<Rightarrow> string \<Rightarrow> bool" where
  "pattern_matches path pat \<longleftrightarrow> path = pat \<or> has_suffix pat ''/'' \<and> has_prefix path pat"

fun longest :: "string list \<Rightarrow> string option \<Rightarrow> string option" where
  "longest [] best = best"
| "longest (p # ps) best =
     longest ps (case best of None \<Rightarrow> Some p | Some b \<Rightarrow> if length p > length b then Some p else best)"

definition mux_dispatch :: "string list \<Rightarrow> string \<Rightarrow> dispatch" where
  "mux_dispatch pats path =
     (let c = clean_path path; best = longest (filter (pattern_matches path) pats) None;
          slash = path @ ''/'' in
      if c \<noteq> path then RedirectTo c
      else if best \<noteq> Some path \<and> \<not> has_suffix path ''/'' \<and> slash \<in> set pats then RedirectTo slash
      else case best of None \<Rightarrow> NoRoute | Some p \<Rightarrow> Route p)"

definition public_patterns :: "string list" where
  "public_patterns = [''/functions/'', ''/invoke/'', ''/health'', ''/logs/'', ''/queues/'']"

definition internal_patterns :: "string list" where
  "internal_patterns =
     [''/containers/'', ''/internal/functions/'', ''/internal/leases/'', ''/internal/stats/'',
      ''/internal/containers/'', ''/internal/instances/'', ''/internal/queue/'', ''/internal/functions'',
      ''/internal/triggers'', ''/internal/scale-up/'', ''/internal/scale-down/'']"

definition not_routed :: "dispatch \<Rightarrow> response option" where
  "not_routed d = (case d of RedirectTo _ \<Rightarrow> write_header 301 NoBody | _ \<Rightarrow> http_error (Plain ''404 page not found'') 404)"

text \<open>The public mux; for \<open>/logs/\<close> only the response code is kept here.\<close>

definition public_serve :: "(string \<Rightarrow> log_reply) \<Rightarrow> world \<Rightarrow> request \<Rightarrow> gateway \<Rightarrow> response option \<times> gateway" where
  "public_serve fetch w req g =
     (case mux_dispatch public_patterns (rq_path req) of
        Route p \<Rightarrow>
          (if p = ''/functions/'' then functions_handler w req g
           else if p = ''/invoke/'' then invoke_handler w req g
           else if p = ''/health'' then health_handler req g
           else if p = ''/logs/'' then (map_option fst (logs_handler fetch (rq_path req) [] req), g)
           else StatusHandler req g)
      | d \<Rightarrow> (not_routed d, g))"

definition internal_serve :: "string \<Rightarrow> world \<Rightarrow> request \<Rightarrow> gateway \<Rightarrow> response option \<times> gateway" where
  "internal_serve scaler_addr w req g =
     (case mux_dispatch internal_patterns (rq_path req) of
        Route p \<Rightarrow>
          (if p = ''/containers/'' then (fst (metrics_handler scaler_addr req), g)
           else if p = ''/internal/functions/'' then acquire_handler w req g
           else if p = ''/internal/leases/'' then release_handler w req g
           else if p = ''/internal/stats/'' then stats_handler req g
           else if p = ''/internal/containers/'' then containers_handler req g
           else if p = ''/internal/instances/'' then instances_handler req g
           else if p = ''/internal/queue/'' then queue_handler req g
           else if p = ''/internal/functions'' then names_handler w req g
           else if p = ''/internal/triggers'' then triggers_handler w req g
           else if p = ''/internal/scale-up/'' then scale_up_handler w req g
           else scale_down_handler w req g)
      | d \<Rightarrow> (not_routed d, g))"

text \<open>\<open>withInternalAuth\<close>: the check sits in a mux of its own with the single pattern \<open>/\<close>.\<close>

definition withInternalAuth ::
  "(request \<Rightarrow> gateway \<Rightarrow> response option \<times> gateway) \<Rightarrow> string \<Rightarrow> request \<Rightarrow> gateway \<Rightarrow> response option \<times> gateway" where
  "withInternalAuth handler token req g =
     (case mux_dispatch [''/''] (rq_path req) of
        Route _ \<Rightarrow>
          (if rq_auth req \<noteq> ''Bearer '' @ token then (http_error (Plain ''unauthorized'') 401, g)
           else handler req g)
      | d \<Rightarrow> (not_routed d, g))"

definition NewInternalMux :: "string \<Rightarrow> string \<Rightarrow> world \<Rightarrow> request \<Rightarrow> gateway \<Rightarrow> response option \<times> gateway" where
  "NewInternalMux scaler_addr token w =
     (if token = [] then internal_serve scaler_addr w
      else withInternalAuth (internal_serve scaler_addr w) token)"

section \<open>Facts about routing\<close>

lemma longest_cases: "longest ps best = Some p \<Longrightarrow> p \<in> set ps \<or> best = Some p"
  by (induction ps best rule: longest.induct) (fastforce split: option.splits if_splits)+

lemma route_matches: "mux_dispatch pats path = Route p \<Longrightarrow> p \<in> set pats \<and> pattern_matches path p"
  using longest_cases [of "filter (pattern_matches path) pats" None p]
  by (auto simp: mux_dispatch_def Let_def split: if_splits option.splits)

lemma route_public: "mux_dispatch public_patterns path = Route p \<Longrightarrow> p \<in> set public_patterns"
  using route_matches by blast

text \<open>The single pattern of the mux around the internal one takes every clean path.\<close>

lemma route_root: "mux_dispatch [''/''] p = (if clean_path p = p then Route ''/'' else RedirectTo (clean_path p))"
proof (cases "clean_path p = p")
  case True
  moreover have "hd (clean_path p) = CHR ''/''" "clean_path p \<noteq> []"
    by (simp_all add: clean_path_def abs_clean_def render_def Let_def)
  ultimately obtain q where "p = CHR ''/'' # q" by (cases p) auto
  with True show ?thesis by (auto simp: mux_dispatch_def pattern_matches_def Let_def)
qed (simp add: mux_dispatch_def Let_def)

section \<open>Properties\<close>

text \<open>A world in which the backend starts one more container and the function answers without
  a status code.\<close>

definition sample_world :: world where
  "sample_world =
     \<lparr>w_env = (\<lambda>_. []),
      w_backend = (\<lambda>cfg. Inr \<lparr>ri_id = ''c1'', ri_addr = ''localhost:9101'', ri_func_name = fc_name cfg, ri_node_name = []\<rparr>),
      w_call = (\<lambda>addr name body t. Answer 0 ''{}''), w_t1 = 5, w_t2 = 6, w_t3 = 7, w_lease_id = ''L'',
      w_config = (\<lambda>_. None), w_acquire = (\<lambda>_. None), w_release = (\<lambda>_. None), w_unzip = (\<lambda>_. None),
      w_save_ok = True,
      w_upload_io = \<lparr>io_mkdir_temp = True, io_remove_old = True, io_stat_fails = False, io_rename_old = True,
        io_rename_new = True, io_restore = True, io_remove_backup = True\<rparr>,
      w_tmp = ''/tmp/faas/.f-1'', w_tree = sample_tree, w_code_object = None, w_client_gone = False, w_order = []\<rparr>"

definition sample_invoke :: request where
  "sample_invoke = \<lparr>rq_method = ''POST'', rq_path = ''/invoke/f'', rq_auth = [], rq_body = Some ''{}''\<rparr>"

lemma sample_Acquire:
  "Acquire (w_backend sample_world) (w_t1 sample_world) (w_t2 sample_world) ''f'' (y_sched sample_warm)
     = (Inr 0, y_sched sample_busy)"
  using sample_acquire by (simp add: Acquire_def sample_world_def)

lemma sample_get: "Get ''f'' (y_sched sample_warm) = Some sample_config"
  by (simp add: Get_def sample_warm_def sample_functions)

text \<open>C22. The router gives its container back on every path: for an invocation without
  interference from a reachable state, whatever the backend and the container answer, a panic in
  \<open>WriteHeader\<close> included, the containers held afterwards are those held before, so every other
  pooled container without a lease is idle; the answer is one of the five errors or carries the status
  code of the function.\<close>

theorem router_releases:
  assumes "sys_init y0" "(sys_step env)\<^sup>*\<^sup>* y0 y"
    "\<forall>cfg i. w_backend w cfg = Inr i \<longrightarrow>
       ri_func_name i = fc_name cfg \<and> ri_id i \<notin> insert [] (c_id ` set (s_heap (y_sched y)))"
    "router_Invoke w req name (y_sched y) = (out, s)"
  shows "(\<forall>f. \<forall>r \<in> set (pool_of s f). c_state (deref s r) = StateIdle \<longleftrightarrow> r \<notin> set (held y) \<and> \<not> leased s r) \<and>
    s_leases s = s_leases (y_sched y) \<and>
    (case out of None \<Rightarrow> True | Some rsp \<Rightarrow> rs_status rsp \<in> {400, 404, 500, 502, 503} \<or>
       (\<exists>addr body t d. w_call w addr name body t = Answer (rs_status rsp) d))"
proof -
  let ?s = "y_sched y"
  note sch = sys_okD(1) [OF reachable_ok [OF assms(1,2)]]
  have status: "case relay res of None \<Rightarrow> True | Some rsp \<Rightarrow> rs_status rsp \<in> {400, 404, 500, 502, 503} \<or>
      (\<exists>d. res = Answer (rs_status rsp) d)" for res
    by (cases res) (auto simp: relay_def http_error_def write_header_def)
  have keep: ?thesis if "s = ?s" "out = http_error p c" "c \<in> {400, 404, 500, 502, 503}" for p c
    using that owned_pool_idle [OF sched_okD(2) [OF sch]] by (auto simp: http_error_def)
  have fin: "(\<forall>f. \<forall>x \<in> set (pool_of t f). c_state (deref t x) = StateIdle \<longleftrightarrow> x \<notin> set (held y) \<and> \<not> leased t x)"
    if "sched_ok (r # held y) u" "t = Release r now u" for r u t now
  proof -
    have "sched_ok (remove1 r (r # held y)) t"
      unfolding that(2) using that(1) by (rule sched_ok_release) simp
    then have "sched_ok (held y) t" by simp
    then show ?thesis using owned_pool_idle [OF sched_okD(2)] by blast
  qed
  show ?thesis
  proof (cases "s_functions ?s name")
    case None
    then show ?thesis using assms(4) keep by (auto simp: router_Invoke_def Get_def)
  next
    case (Some cfg)
    note cfg = Some
    show ?thesis
    proof (cases "rq_body req")
      case None
      then show ?thesis using assms(4) keep cfg by (auto simp: router_Invoke_def Get_def)
    next
      case (Some body)
      obtain q s0 where lock: "acquire_locked (w_t1 w) name ?s = (q, s0)" by fastforce
      from lock show ?thesis
      proof (cases rule: acquire_locked_cases)
        case unknown
        with cfg show ?thesis by simp
      next
        case (reused c r)
        let ?u = "mark r StateBusy (w_t1 w) ?s"
        have "Acquire (w_backend w) (w_t1 w) (w_t2 w) name ?s = (Inr r, ?u)"
          using lock reused by (simp add: Acquire_def)
        then have out: "s = Release r (w_t3 w) ?u"
          "out = relay (w_call w (c_addr (deref ?u r)) name body (dur_seconds (fc_timeout cfg)))"
          using assms(4) cfg Some by (auto simp: router_Invoke_def Get_def)
        have "sched_ok (r # held y) ?u"
          using sched_ok_acquire [OF sch lock] reused by simp
        from fin [OF this out(1)] show ?thesis
          using status [of "w_call w (c_addr (deref ?u r)) name body (dur_seconds (fc_timeout cfg))"]
          by (auto simp: out Release_def split: option.splits)
      next
        case (cold c)
        show ?thesis
        proof (cases "start (w_backend w) c (s_next_port ?s) StateBusy (w_t2 w)")
          case (Inl e)
          then have "Acquire (w_backend w) (w_t1 w) (w_t2 w) name ?s = (Inl (ColdStartFailed e), s0)"
            using lock cold by (simp add: Acquire_def)
          then have out: "s = s0" "out = http_error (Plain ''failed to acquire function instance'') 503"
            using assms(4) cfg Some by (auto simp: router_Invoke_def Get_def)
          have ok: "sched_ok (held y) s0" using sched_ok_acquire [OF sch lock] cold by simp
          have "s_leases s0 = s_leases ?s" by (simp add: cold(4))
          then show ?thesis
            unfolding out using owned_pool_idle [OF sched_okD(2) [OF ok]] by (simp add: http_error_def)
        next
          case (Inr x)
          let ?u = "snd (pool_append name x s0)" and ?r = "length (s_heap ?s)"
          obtain i where i: "w_backend w (c\<lparr>fc_port := s_next_port ?s\<rparr>) = Inr i" "x = container_of i StateBusy (w_t2 w)"
            using Inr by (auto simp: start_def split: sum.splits)
          from assms(3) [rule_format, OF i(1)]
          have x: "c_state x = StateBusy" "c_func_name x = fc_name c" "c_id x \<notin> insert [] (c_id ` set (s_heap ?s))"
            by (simp_all add: i(2) container_of_def)
          have "fc_name c = name" using shape_function [OF sched_okD(1) [OF sch] cold(1)] by simp
          then have ok: "sched_ok (?r # held y) ?u"
            using x sched_ok_acquire [OF sch lock] cold
            by (intro sched_ok_append [of "held y" s0]) auto
          have "Acquire (w_backend w) (w_t1 w) (w_t2 w) name ?s = (Inr ?r, ?u)"
            using lock cold Inr by (simp add: Acquire_def pool_append_def Let_def)
          then have out: "s = Release ?r (w_t3 w) ?u"
            "out = relay (w_call w (c_addr (deref ?u ?r)) name body (dur_seconds (fc_timeout cfg)))"
            using assms(4) cfg Some by (auto simp: router_Invoke_def Get_def simp del: pool_append_simps)
          from fin [OF ok out(1)] show ?thesis
            using status [of "w_call w (c_addr (deref ?u ?r)) name body (dur_seconds (fc_timeout cfg))"]
            by (auto simp: out Release_def cold(4) split: option.splits)
        qed
      qed
    qed
  qed
qed

theorem router_releases_witness:
  "\<exists>s. router_Invoke sample_world sample_invoke ''f'' (y_sched sample_warm) = (None, s) \<and>
     c_state (deref s 0) = StateIdle"
proof -
  obtain out s where run: "router_Invoke sample_world sample_invoke ''f'' (y_sched sample_warm) = (out, s)"
    by fastforce
  have s: "out = None" "s = Release 0 7 (y_sched sample_busy)"
    using run sample_get sample_Acquire
    by (auto simp: router_Invoke_def sample_invoke_def relay_def write_header_def) (simp_all add: sample_world_def write_header_def)
  have p: "pool_of s ''f'' = [0]" "s_leases s = Map.empty"
    by (simp_all add: s(2) Release_def sample_busy_def sample_warm_def new_scheduler_def)
  have b: "\<forall>cfg i. w_backend sample_world cfg = Inr i \<longrightarrow> ri_func_name i = fc_name cfg \<and>
      ri_id i \<notin> insert [] (c_id ` set (s_heap (y_sched sample_warm)))"
    by (simp add: sample_world_def sample_warm_def sample_container_def)
  have m: "(0::nat) \<in> set (pool_of s ''f'')" "\<not> leased s 0" "(0::nat) \<notin> set (held sample_warm)"
    by (simp_all add: p leased_def held_def sample_warm_def sample_start_def)
  have "c_state (deref s 0) = StateIdle"
    using router_releases [OF sample_init sample_warm_run b run] m by blast
  with run s(1) show ?thesis by simp
qed

text \<open>The status code of a function is written unchecked: an invocation that reaches a
  container ends in a panic, and the client gets no response, exactly when the code in the
  container's answer is not a number of three digits. An answer without the field \<open>statusCode\<close>,
  such as the runtime's own error for an invocation that timed out, has the code 0.\<close>

theorem router_panics_iff:
  assumes "Get name s = Some cfg" "rq_body req = Some body"
    "Acquire (w_backend w) (w_t1 w) (w_t2 w) name s = (Inr r, s1)"
  shows "fst (router_Invoke w req name s) = None \<longleftrightarrow>
    (\<exists>code d. w_call w (c_addr (deref s1 r)) name body (dur_seconds (fc_timeout cfg)) = Answer code d \<and>
       \<not> (100 \<le> code \<and> code \<le> 999))"
  using assms
  by (auto simp: router_Invoke_def relay_def http_error_def write_header_def split: call_result.split)

theorem router_panics_iff_witness:
  "fst (router_Invoke sample_world sample_invoke ''f'' (y_sched sample_warm)) = None"
  using router_panics_iff [OF sample_get _ sample_Acquire, of sample_invoke "''{}''"]
  by (simp add: sample_invoke_def) (simp add: sample_world_def)

text \<open>The internal interface is not reachable through the public listener: a request for any
  path under \<open>/internal/\<close> or \<open>/containers/\<close> is answered with a redirect or 404 there and changes
  nothing.\<close>

theorem public_hides_internal:
  assumes "has_prefix (rq_path req) ''/internal/'' \<or> has_prefix (rq_path req) ''/containers/''"
  shows "snd (public_serve fetch w req g) = g \<and>
    (\<exists>rsp. fst (public_serve fetch w req g) = Some rsp \<and> rs_status rsp \<in> {301, 404})"
proof -
  have "mux_dispatch public_patterns (rq_path req) \<noteq> Route p" for p
  proof
    assume "mux_dispatch public_patterns (rq_path req) = Route p"
    then have "p \<in> set public_patterns" "pattern_matches (rq_path req) p" using route_matches by blast+
    then show False
      using assms unfolding public_patterns_def pattern_matches_def by (auto simp: prefix_def)
  qed
  then show ?thesis
    by (cases "mux_dispatch public_patterns (rq_path req)")
      (auto simp: public_serve_def not_routed_def write_header_def http_error_def)
qed

theorem public_hides_internal_witness:
  "\<forall>g. snd (public_serve (\<lambda>_. LogCallFailed) sample_world
     \<lparr>rq_method = ''POST'', rq_path = ''/internal/scale-up/f'', rq_auth = [], rq_body = None\<rparr> g) = g"
  using public_hides_internal [of "\<lparr>rq_method = ''POST'', rq_path = ''/internal/scale-up/f'', rq_auth = [], rq_body = None\<rparr>"]
  by simp

text \<open>C36. With a token configured, a request to the internal listener without exactly that bearer
  token changes nothing and is answered with 401 or, if its path is not clean, with a redirect;
  with the token it is served as without the check.\<close>

theorem internal_auth:
  "token \<noteq> [] \<Longrightarrow>
   (if rq_auth req = ''Bearer '' @ token
    then clean_path (rq_path req) = rq_path req \<longrightarrow>
      NewInternalMux sa token w req g = internal_serve sa w req g
    else snd (NewInternalMux sa token w req g) = g \<and>
      (\<exists>rsp. fst (NewInternalMux sa token w req g) = Some rsp \<and> rs_status rsp \<in> {301, 401}))"
proof -
  assume t: "token \<noteq> []"
  show ?thesis
    using t by (auto simp: NewInternalMux_def withInternalAuth_def route_root not_routed_def write_header_def http_error_def)
qed

theorem internal_auth_witness:
  "\<forall>g. snd (NewInternalMux [] ''t'' sample_world
     \<lparr>rq_method = ''POST'', rq_path = ''/internal/scale-up/f'', rq_auth = ''Bearer x'', rq_body = None\<rparr> g) = g"
  using internal_auth [of "''t''" "\<lparr>rq_method = ''POST'', rq_path = ''/internal/scale-up/f'',
    rq_auth = ''Bearer x'', rq_body = None\<rparr>"] by simp

end
