(* ===== verification/Wire_Text.thy ===== *)
theory Wire_Text
  imports Faas_Prelude
begin

text \<open>
  The parts of Go's standard library that turn values into text on the wire and that several
  services use: \<open>url.PathEscape\<close> and the decoding of a request path (net/url),
  \<open>base64.StdEncoding\<close> (encoding/base64) and \<open>json.Valid\<close> (the state machine of
  encoding/json/scanner.go, with its stack of open brackets and its nesting limit).
\<close>

section \<open>Percent encoding\<close>

definition hex_digits :: string where
  "hex_digits = ''0123456789ABCDEF''"

definition hex_value :: "char \<Rightarrow> nat option" where
  "hex_value c =
     (if is_digit c then Some (of_char c - 48)
      else if (65::nat) \<le> of_char c \<and> of_char c \<le> (70::nat) then Some (of_char c - 55)
      else if (97::nat) \<le> of_char c \<and> of_char c \<le> (102::nat) then Some (of_char c - 87)
      else None)"

text \<open>A byte that \<open>PathEscape\<close> leaves alone (\<open>shouldEscape\<close> in mode
  \<open>encodePathSegment\<close> is false).\<close>

definition path_safe :: "char \<Rightarrow> bool" where
  "path_safe c \<longleftrightarrow> is_lower c \<or> is_upper c \<or> is_digit c \<or> c \<in> set ''-_.~$&+=:@''"

fun path_escape :: "string \<Rightarrow> string" where
  "path_escape [] = []"
| "path_escape (c # cs) =
     (if path_safe c then c # path_escape cs
      else CHR ''%'' # hex_digits ! (of_char c div 16) # hex_digits ! (of_char c mod 16) # path_escape cs)"

function path_unescape :: "string \<Rightarrow> string option" where
  "path_unescape s =
     (case s of
        [] \<Rightarrow> Some []
      | c # cs \<Rightarrow>
          if c \<noteq> CHR ''%'' then map_option ((#) c) (path_unescape cs)
          else case cs of
                 a # b # rest \<Rightarrow>
                   (case (hex_value a, hex_value b) of
                      (Some h, Some l) \<Rightarrow> map_option ((#) (char_of (16 * h + l))) (path_unescape rest)
                    | _ \<Rightarrow> None)
               | _ \<Rightarrow> None)"
  by pat_completeness auto
termination by (relation "measure length") auto

declare path_unescape.simps [simp del]

lemma hex_round: "n < 16 \<Longrightarrow> hex_value (hex_digits ! n) = Some n"
proof -
  have "list_all (\<lambda>n. hex_value (hex_digits ! n) = Some n) [0..<16]" by code_simp
  then show "n < 16 \<Longrightarrow> hex_value (hex_digits ! n) = Some n" by (simp add: list_all_iff)
qed

lemma percent_not_safe: "\<not> path_safe CHR ''%''"
  by code_simp

theorem path_unescape_escape: "path_unescape (path_escape s) = Some s"
proof (induction s)
  case Nil
  show ?case by (simp add: path_unescape.simps)
next
  case (Cons c cs)
  have "(of_char c :: nat) < 256" by simp
  moreover have "char_of (16 * ((of_char c :: nat) div 16) + of_char c mod 16) = c"
    by simp
  ultimately show ?case
    using Cons percent_not_safe
    by (auto simp: path_unescape.simps [of "_ # _"] hex_round less_mult_imp_div_less
      simp del: mult_div_mod_eq)
qed

lemma path_escape_safe: "list_all path_safe s \<Longrightarrow> path_escape s = s"
  by (induction s) auto

section \<open>Base64\<close>

definition b64_alphabet :: string where
  "b64_alphabet = ''ABCDEFGHIJKLMNOPQRSTUVWXYZabcdefghijklmnopqrstuvwxyz0123456789+/''"

definition b64_char :: "nat \<Rightarrow> char" where
  "b64_char n = b64_alphabet ! n"

fun b64_encode :: "string \<Rightarrow> string" where
  "b64_encode [] = []"
| "b64_encode [a] =
     (let x = of_char a in [b64_char (x div 4), b64_char ((x mod 4) * 16), CHR ''='', CHR ''=''])"
| "b64_encode [a, b] =
     (let x = of_char a; y = of_char b
      in [b64_char (x div 4), b64_char ((x mod 4) * 16 + y div 16), b64_char ((y mod 16) * 4), CHR ''=''])"
| "b64_encode (a # b # c # rest) =
     (let x = of_char a; y = of_char b; z = of_char c
      in b64_char (x div 4) # b64_char ((x mod 4) * 16 + y div 16) #
         b64_char ((y mod 16) * 4 + z div 64) # b64_char (z mod 64) # b64_encode rest)"

fun b64_index :: "char \<Rightarrow> string \<Rightarrow> nat option" where
  "b64_index c [] = None"
| "b64_index c (d # ds) = (if c = d then Some 0 else map_option Suc (b64_index c ds))"

definition b64_value :: "char \<Rightarrow> nat option" where
  "b64_value c = b64_index c b64_alphabet"

text \<open>The receiver's side: groups of four, padding only in the last.\<close>

fun b64_decode :: "string \<Rightarrow> string option" where
  "b64_decode [] = Some []"
| "b64_decode (p # q # r # t # rest) =
     (case (b64_value p, b64_value q) of
        (Some x, Some y) \<Rightarrow>
          (case b64_value r of
             None \<Rightarrow> if r = CHR ''='' \<and> t = CHR ''='' \<and> rest = [] then Some [char_of (4 * x + y div 16)] else None
           | Some z \<Rightarrow>
               (case b64_value t of
                  None \<Rightarrow> if t = CHR ''='' \<and> rest = [] then
                            Some [char_of (4 * x + y div 16), char_of ((y mod 16) * 16 + z div 4)] else None
                | Some u \<Rightarrow>
                    map_option (\<lambda>cs. char_of (4 * x + y div 16) # char_of ((y mod 16) * 16 + z div 4) #
                                     char_of ((z mod 4) * 64 + u) # cs) (b64_decode rest)))
      | _ \<Rightarrow> None)"
| "b64_decode _ = None"

lemma b64_value_char: "n < 64 \<Longrightarrow> b64_value (b64_char n) = Some n"
proof -
  have "list_all (\<lambda>n. b64_value (b64_char n) = Some n) [0..<64]" by code_simp
  then show "n < 64 \<Longrightarrow> b64_value (b64_char n) = Some n" by (simp add: list_all_iff)
qed

lemma b64_value_pad: "b64_value CHR ''='' = None"
  by code_simp

lemma b64_group:
  fixes x y z :: nat
  assumes "x < 256" "y < 256" "z < 256"
  shows "x div 4 < 64" "(x mod 4) * 16 + y div 16 < 64" "(y mod 16) * 4 + z div 64 < 64" "z mod 64 < 64"
    "4 * (x div 4) + ((x mod 4) * 16 + y div 16) div 16 = x"
    "((x mod 4) * 16 + y div 16) mod 16 * 16 + ((y mod 16) * 4 + z div 64) div 4 = y"
    "((y mod 16) * 4 + z div 64) mod 4 * 64 + z mod 64 = z"
proof -
  have q: "y div 16 < 16" "z div 64 < 4" "x mod 4 < 4" "y mod 16 < 16"
    using assms by (simp_all add: less_mult_imp_div_less)
  show "x div 4 < 64" "z mod 64 < 64" using assms by (simp_all add: less_mult_imp_div_less)
  show "(x mod 4) * 16 + y div 16 < 64" "(y mod 16) * 4 + z div 64 < 64" using q by linarith+
  show "4 * (x div 4) + ((x mod 4) * 16 + y div 16) div 16 = x"
    "((x mod 4) * 16 + y div 16) mod 16 * 16 + ((y mod 16) * 4 + z div 64) div 4 = y"
    "((y mod 16) * 4 + z div 64) mod 4 * 64 + z mod 64 = z"
    using q by simp_all
qed

lemma b64_tail:
  fixes x y :: nat
  shows "(x mod 4) * 16 < 64" "(y mod 16) * 4 < 64" "4 * (x div 4) + (x mod 4) * 16 div 16 = x"
    "y div 16 < 16 \<Longrightarrow> ((x mod 4) * 16 + y div 16) mod 16 * 16 + (y mod 16) * 4 div 4 = y"
  by simp_all

lemma b64_decode_encode: "b64_decode (b64_encode s) = Some s"
proof (induction s rule: b64_encode.induct)
  case (2 a)
  have "(of_char a :: nat) < 256" by simp
  note b64_group(1) [OF this this this]
  then show ?case by (simp add: Let_def b64_value_char b64_value_pad b64_tail)
next
  case (3 a b)
  have "(of_char a :: nat) < 256" "(of_char b :: nat) < 256" by simp_all
  note b64_group [OF this this(1)]
  moreover have "(of_char b :: nat) div 16 < 16" by (simp add: less_mult_imp_div_less)
  ultimately show ?case by (simp add: Let_def b64_value_char b64_value_pad b64_tail)
next
  case (4 a b c rest)
  have "(of_char a :: nat) < 256" "(of_char b :: nat) < 256" "(of_char c :: nat) < 256" by simp_all
  note b64_group [OF this]
  with 4 show ?case by (simp add: Let_def b64_value_char)
qed simp

section \<open>JSON texts\<close>

text \<open>The scanner of encoding/json: the state says what the next byte may be, the stack which
  objects and arrays are open. A literal keeps the bytes that must still follow.\<close>

datatype json_ctx = InObjectKey | InObjectValue | InArray

datatype json_state =
    BeginValue | BeginValueOrEmpty | BeginString | BeginStringOrEmpty | InString | InStringEsc
  | InStringHex nat | NumNeg | NumInt | NumZero | NumDot | NumFrac | NumExp | NumExpSign | NumExpDigits
  | InLiteral string | EndValue | EndTop | ScanError

type_synonym json_scanner = "json_state \<times> json_ctx list"

definition json_space :: "char \<Rightarrow> bool" where
  "json_space c \<longleftrightarrow> c = CHR '' '' \<or> c = CHR 0x09 \<or> c = CHR 0x0D \<or> c = CHR 0x0A"

definition hex_char :: "char \<Rightarrow> bool" where
  "hex_char c \<longleftrightarrow> hex_value c \<noteq> None"

definition max_nesting :: nat where
  "max_nesting = 10000"

definition json_push :: "json_ctx \<Rightarrow> json_state \<Rightarrow> json_ctx list \<Rightarrow> json_scanner" where
  "json_push ctx st stack =
     (if length stack < max_nesting then (st, ctx # stack) else (ScanError, ctx # stack))"

definition json_pop :: "json_ctx list \<Rightarrow> json_scanner" where
  "json_pop stack = (if tl stack = [] then EndTop else EndValue, tl stack)"

definition json_begin_value :: "json_ctx list \<Rightarrow> char \<Rightarrow> json_scanner" where
  "json_begin_value stack c =
     (if json_space c then (BeginValue, stack)
      else if c = CHR ''{'' then json_push InObjectKey BeginStringOrEmpty stack
      else if c = CHR ''['' then json_push InArray BeginValueOrEmpty stack
      else if c = CHR 0x22 then (InString, stack)
      else if c = CHR ''-'' then (NumNeg, stack)
      else if c = CHR ''0'' then (NumZero, stack)
      else if c = CHR ''t'' then (InLiteral ''rue'', stack)
      else if c = CHR ''f'' then (InLiteral ''alse'', stack)
      else if c = CHR ''n'' then (InLiteral ''ull'', stack)
      else if is_digit c then (NumInt, stack)
      else (ScanError, stack))"

text \<open>\<open>stateEndValue\<close>: a value at the top level is complete, what follows may only be white
  space; inside an object or an array the bracket or a separator comes next.\<close>

definition json_end_value :: "json_ctx list \<Rightarrow> char \<Rightarrow> json_scanner" where
  "json_end_value stack c =
     (case stack of
        [] \<Rightarrow> (if json_space c then EndTop else ScanError, [])
      | ctx # rest \<Rightarrow>
          if json_space c then (EndValue, stack)
          else (case ctx of
                  InObjectKey \<Rightarrow> if c = CHR '':'' then (BeginValue, InObjectValue # rest) else (ScanError, stack)
                | InObjectValue \<Rightarrow>
                    if c = CHR '','' then (BeginString, InObjectKey # rest)
                    else if c = CHR ''}'' then json_pop stack else (ScanError, stack)
                | InArray \<Rightarrow>
                    if c = CHR '','' then (BeginValue, stack)
                    else if c = CHR '']'' then json_pop stack else (ScanError, stack)))"

definition json_begin_string :: "json_ctx list \<Rightarrow> char \<Rightarrow> json_scanner" where
  "json_begin_string stack c =
     (if json_space c then (BeginString, stack) else if c = CHR 0x22 then (InString, stack) else (ScanError, stack))"

fun json_step :: "json_scanner \<Rightarrow> char \<Rightarrow> json_scanner" where
  "json_step (BeginValue, stack) c = json_begin_value stack c"
| "json_step (BeginValueOrEmpty, stack) c =
     (if json_space c then (BeginValueOrEmpty, stack)
      else if c = CHR '']'' then json_end_value stack c else json_begin_value stack c)"
| "json_step (BeginString, stack) c = json_begin_string stack c"
| "json_step (BeginStringOrEmpty, stack) c =
     (if json_space c then (BeginStringOrEmpty, stack)
      else if c = CHR ''}'' then json_end_value (InObjectValue # tl stack) c else json_begin_string stack c)"
| "json_step (InString, stack) c =
     (if c = CHR 0x22 then (EndValue, stack)
      else if c = CHR 0x5C then (InStringEsc, stack)
      else if (of_char c :: nat) < 32 then (ScanError, stack) else (InString, stack))"
| "json_step (InStringEsc, stack) c =
     (if c \<in> set (CHR 0x22 # CHR 0x5C # ''bfnrt/'') then (InString, stack)
      else if c = CHR ''u'' then (InStringHex 4, stack) else (ScanError, stack))"
| "json_step (InStringHex n, stack) c =
     (if \<not> hex_char c then (ScanError, stack)
      else if n \<le> 1 then (InString, stack) else (InStringHex (n - 1), stack))"
| "json_step (NumNeg, stack) c =
     (if c = CHR ''0'' then (NumZero, stack) else if is_digit c then (NumInt, stack) else (ScanError, stack))"
| "json_step (NumInt, stack) c =
     (if is_digit c then (NumInt, stack)
      else if c = CHR ''.'' then (NumDot, stack)
      else if c = CHR ''e'' \<or> c = CHR ''E'' then (NumExp, stack) else json_end_value stack c)"
| "json_step (NumZero, stack) c =
     (if c = CHR ''.'' then (NumDot, stack)
      else if c = CHR ''e'' \<or> c = CHR ''E'' then (NumExp, stack) else json_end_value stack c)"
| "json_step (NumDot, stack) c = (if is_digit c then (NumFrac, stack) else (ScanError, stack))"
| "json_step (NumFrac, stack) c =
     (if is_digit c then (NumFrac, stack)
      else if c = CHR ''e'' \<or> c = CHR ''E'' then (NumExp, stack) else json_end_value stack c)"
| "json_step (NumExp, stack) c =
     (if c = CHR ''+'' \<or> c = CHR ''-'' then (NumExpSign, stack)
      else if is_digit c then (NumExpDigits, stack) else (ScanError, stack))"
| "json_step (NumExpSign, stack) c = (if is_digit c then (NumExpDigits, stack) else (ScanError, stack))"
| "json_step (NumExpDigits, stack) c =
     (if is_digit c then (NumExpDigits, stack) else json_end_value stack c)"
| "json_step (InLiteral [], stack) c = json_end_value stack c"
| "json_step (InLiteral (l # ls), stack) c =
     (if c \<noteq> l then (ScanError, stack) else if ls = [] then (EndValue, stack) else (InLiteral ls, stack))"
| "json_step (EndValue, stack) c = json_end_value stack c"
| "json_step (EndTop, stack) c = (if json_space c then (EndTop, stack) else (ScanError, stack))"
| "json_step (ScanError, stack) c = (ScanError, stack)"

fun json_run :: "json_scanner \<Rightarrow> string \<Rightarrow> json_scanner" where
  "json_run st [] = st"
| "json_run st (c # cs) = json_run (json_step st c) cs"

text \<open>At the end of the input the scanner is given one more space (\<open>eof\<close>).\<close>

definition json_valid :: "string \<Rightarrow> bool" where
  "json_valid s = (fst (json_step (json_run (BeginValue, []) s) CHR '' '') = EndTop)"

lemma json_valid_examples:
  "json_valid ''{}''" "\<not> json_valid ''hello''" "\<not> json_valid []" "\<not> json_valid ''01''"
  "json_valid '' [1, -2.5e+3, true, null ] ''" "\<not> json_valid ''[1,]''" "\<not> json_valid ''1 2''"
  by code_simp+

section \<open>Strings in JSON texts\<close>

text \<open>How encoding/json writes a byte inside a string; \<open><\<close>, \<open>>\<close> and \<open>&\<close> are escaped for HTML. Bytes from
  128 on belong to UTF-8 sequences, which are kept (the separators U+2028 and U+2029, which no
  error text here has, are not distinguished).\<close>

definition hex_low :: "nat \<Rightarrow> char" where
  "hex_low n = (''0123456789abcdef'') ! (n mod 16)"

definition json_escape :: "char \<Rightarrow> string" where
  "json_escape c =
     (if c = CHR 0x22 \<or> c = CHR 0x5C then [CHR 0x5C, c]
      else if c = CHR 0x08 then [CHR 0x5C, CHR ''b'']
      else if c = CHR 0x0C then [CHR 0x5C, CHR ''f'']
      else if c = CHR 0x0A then [CHR 0x5C, CHR ''n'']
      else if c = CHR 0x0D then [CHR 0x5C, CHR ''r'']
      else if c = CHR 0x09 then [CHR 0x5C, CHR ''t'']
      else if (of_char c :: nat) < 32 \<or> c = CHR ''<'' \<or> c = CHR ''>'' \<or> c = CHR ''&''
      then CHR 0x5C # ''u00'' @ [hex_low (of_char c div 16), hex_low (of_char c)]
      else [c])"

definition json_string :: "string \<Rightarrow> string" where
  "json_string s = CHR 0x22 # concat (map json_escape s) @ [CHR 0x22]"

lemma json_run_append: "json_run st (s @ t) = json_run (json_run st s) t"
  by (induction s arbitrary: st) simp_all

lemma hex_low_hex: "hex_char (hex_low n)"
proof -
  have "\<forall>k < 16. hex_char (''0123456789abcdef'' ! k)" by code_simp
  then show ?thesis by (simp add: hex_low_def)
qed

lemma json_escape_run: "json_run (InString, stack) (json_escape c) = (InString, stack)"
proof -
  have "hex_char (CHR ''0'')" by code_simp
  then show ?thesis by (auto simp: json_escape_def hex_low_hex)
qed

lemma json_escapes_run: "json_run (InString, stack) (concat (map json_escape s)) = (InString, stack)"
  by (induction s) (simp_all add: json_run_append json_escape_run)

lemma json_string_run: "json_run (BeginValue, stack) (json_string s) = (EndValue, stack)"
  by (simp add: json_string_def json_run_append json_escapes_run json_begin_value_def json_space_def)

lemma json_key_run: "json_run (BeginStringOrEmpty, stack) (json_string s) = (EndValue, stack)"
  "json_run (BeginString, stack) (json_string s) = (EndValue, stack)"
  by (simp_all add: json_string_def json_run_append json_escapes_run json_begin_string_def json_space_def)

end
