(* ===== verification/Gateway_Routes.thy ===== *)
theory Gateway_Routes
  imports Gateway_Http Wire_Text
begin

text \<open>
  How the paths that the other services build come apart again at the gateway: for a name that is a
  DNS label, or a lease id, the internal mux sends each of them to its own handler, which cuts
  exactly that name out. The clients of the gateway's internal listener (Message_Flow,
  Scaling_Loop) rest on these facts.
\<close>

section \<open>Paths that reach their handler\<close>

lemma label_chars:
  assumes "label_ok n s"
  shows "s \<noteq> []" "CHR ''/'' \<notin> set s" "comp_ok s" "list_all path_safe s" "CHR ''%'' \<notin> set s"
proof -
  have dns: "list_all dns_char s" "s \<noteq> []" using assms by (simp_all add: label_ok_def)
  have "\<not> dns_char CHR ''/''" "\<not> dns_char CHR ''.''" "\<not> dns_char CHR ''%''"
    by (simp_all add: dns_char_def is_lower_def is_digit_def)
  then show "s \<noteq> []" "CHR ''/'' \<notin> set s" "comp_ok s" "CHR ''%'' \<notin> set s"
    using dns by (auto simp: comp_ok_def list_all_iff)
  show "list_all path_safe s"
    using dns by (auto simp: list_all_iff path_safe_def dns_char_def)
qed

lemma path_unescape_plain: "CHR ''%'' \<notin> set s \<Longrightarrow> path_unescape s = Some s"
proof (induction s)
  case Nil
  show ?case by (simp add: path_unescape.simps)
next
  case (Cons c s)
  then show ?case by (auto simp: path_unescape.simps [of "c # s"])
qed

lemma last_render:
  assumes "list_all comp_ok ws" "ws \<noteq> []"
  shows "last (render ws) \<noteq> CHR ''/''"
proof -
  obtain us w where ws: "ws = us @ [w]" using assms(2) by (cases ws rule: rev_cases) auto
  have w: "w \<noteq> []" "CHR ''/'' \<notin> set w" using assms(1) by (auto simp: ws comp_ok_def)
  have "\<exists>p. render ws = p @ w"
    using join_append [of us "[w]" "CHR ''/''"] by (cases "us = []") (auto simp: ws render_def)
  with w show ?thesis by (metis last_appendR last_in_set)
qed

lemma clean_path_render:
  assumes "list_all comp_ok ws" "ws \<noteq> []"
  shows "clean_path (render ws) = render ws"
proof -
  have "abs_clean (render ws) = render ws" using assms(1) by (rule abs_clean_render)
  moreover have "hd (render ws) = CHR ''/''" "render ws \<noteq> []" by (simp_all add: render_def)
  ultimately show ?thesis using last_render [OF assms] by (simp add: clean_path_def)
qed

lemma acquire_path:
  "''/internal/functions/'' @ name @ ''/instances/acquire'' = render [''internal'', ''functions'', name, ''instances'', ''acquire'']"
  by (simp add: render_def)

lemma release_path: "''/internal/leases/'' @ k @ ''/release'' = render [''internal'', ''leases'', k, ''release'']"
  by (simp add: render_def)

lemma route_acquire:
  assumes "comp_ok name"
  shows "mux_dispatch internal_patterns (''/internal/functions/'' @ name @ ''/instances/acquire'') =
    Route ''/internal/functions/''"
proof -
  have "clean_path (''/internal/functions/'' @ name @ ''/instances/acquire'') = ''/internal/functions/'' @ name @ ''/instances/acquire''"
    unfolding acquire_path using assms by (intro clean_path_render) (simp_all add: comp_ok_def)
  then show ?thesis
    by (simp add: mux_dispatch_def internal_patterns_def pattern_matches_def Let_def suffix_to_prefix)
qed

lemma route_release:
  assumes "comp_ok k"
  shows "mux_dispatch internal_patterns (''/internal/leases/'' @ k @ ''/release'') = Route ''/internal/leases/''"
proof -
  have "clean_path (''/internal/leases/'' @ k @ ''/release'') = ''/internal/leases/'' @ k @ ''/release''"
    unfolding release_path using assms by (intro clean_path_render) (simp_all add: comp_ok_def)
  then show ?thesis
    by (simp add: mux_dispatch_def internal_patterns_def pattern_matches_def Let_def suffix_to_prefix)
qed


lemma cut_suffix_append: "cut_suffix (s @ p) p = (s, True)"
  by (simp add: cut_suffix_def suffix_def)

lemma trim_prefix_append: "trim_prefix (p @ s) p = s"
  by (simp add: trim_prefix_def)

lemma route_named:
  assumes "comp_ok name" "x \<in> set [''stats'', ''containers'', ''queue'', ''scale-up'', ''scale-down'']"
  shows "clean_path (''/internal/'' @ x @ ''/'' @ name) = ''/internal/'' @ x @ ''/'' @ name"
    "mux_dispatch internal_patterns (''/internal/'' @ x @ ''/'' @ name) = Route (''/internal/'' @ x @ ''/'')"
proof -
  have "''/internal/'' @ x @ ''/'' @ name = render [''internal'', x, name]" by (simp add: render_def)
  moreover have "comp_ok x" using assms(2) by (auto simp: comp_ok_def)
  ultimately show clean: "clean_path (''/internal/'' @ x @ ''/'' @ name) = ''/internal/'' @ x @ ''/'' @ name"
    using assms(1) clean_path_render [of "[''internal'', x, name]"] by (simp add: comp_ok_def)
  from assms(2) consider "x = ''stats''" | "x = ''containers''" | "x = ''queue''" | "x = ''scale-up''" | "x = ''scale-down''"
    by auto
  then show "mux_dispatch internal_patterns (''/internal/'' @ x @ ''/'' @ name) = Route (''/internal/'' @ x @ ''/'')"
    by cases (insert clean, simp_all add: mux_dispatch_def internal_patterns_def pattern_matches_def Let_def suffix_to_prefix)
qed

text \<open>A gateway whose function \<open>f\<close> has one idle container.\<close>

definition sample_gateway :: gateway where
  "sample_gateway = \<lparr>gw_sched = y_sched sample_warm, gw_cold = [],
     gw_queue = \<lparr>mg_max_inflight = 1, mg_max_queue = 1, mg_queue_timeout = second, mg_funcs = Map.empty\<rparr>,
     gw_dirs = \<lambda>_. \<lparr>cd_live = None, cd_backup = None, cd_temp = None\<rparr>\<rparr>"

lemma sample_label: "label_ok 63 ''f''"
  by (simp add: label_ok_def dns_char_def is_lower_def)

end
