(* ===== verification/MQ_Config.thy ===== *)
theory MQ_Config
  imports Registry
begin

text \<open>
  The configuration of mqsvc (mqsvc/config.go): broker instances, triggers, their validation and
  the defaults filled in when a trigger is started. A trigger is what the gateway publishes
  (\<open>mq_trigger\<close>) with the broker kind added; the two services share the fields. Parsing of the
  broker URL is an argument that yields scheme and host.
\<close>

record mq_instance =
  mi_mq_id :: string
  mi_broker :: string
  mi_url :: string

record trigger = mq_trigger +
  tr_broker :: string

record mq_config =
  mq_gateway_addr :: string
  mq_instances :: "mq_instance list"
  mq_triggers :: "trigger list"

type_synonym url_parser = "string \<Rightarrow> (string \<times> string) option"

definition envString :: "env \<Rightarrow> string \<Rightarrow> string \<Rightarrow> string" where
  "envString env key def = (if env key \<noteq> [] then env key else def)"

text \<open>A decoded trigger has no broker yet.\<close>

definition trigger_of_json :: "mq_trigger \<Rightarrow> trigger" where
  "trigger_of_json t = mq_trigger.extend t (trigger.fields [])"

datatype config_error =
    IncompleteInstance | UnsupportedBroker string | InvalidUrl string | NotAmqp string | DuplicateMqId string
  | TriggerIdMissing | BadTriggerId string | DuplicateTriggerId string | BadTriggerType string
  | NegativeMaxConcurrency string | NegativeMaxAttempts string | NegativePrefetch string | NegativeBackoff string
  | IncompleteTrigger string | UnknownMqId string string | BadFunction string string

section \<open>Validation\<close>

definition validateBrokerURL :: "url_parser \<Rightarrow> mq_instance \<Rightarrow> config_error option" where
  "validateBrokerURL parse inst =
     (case parse (mi_url inst) of
        None \<Rightarrow> Some (InvalidUrl (mi_mq_id inst))
      | Some (scheme, host) \<Rightarrow>
          if scheme = [] \<or> host = [] then Some (InvalidUrl (mi_mq_id inst))
          else if mi_broker inst = ''rabbitmq'' \<and> scheme \<noteq> ''amqp'' \<and> scheme \<noteq> ''amqps'' then Some (NotAmqp (mi_mq_id inst))
          else None)"

fun validate_instances :: "url_parser \<Rightarrow> string list \<Rightarrow> mq_instance list \<Rightarrow> config_error option" where
  "validate_instances parse seen [] = None"
| "validate_instances parse seen (inst # rest) =
     (if mi_mq_id inst = [] \<or> mi_broker inst = [] \<or> mi_url inst = [] then Some IncompleteInstance
      else if mi_broker inst \<noteq> ''rabbitmq'' then Some (UnsupportedBroker (mi_broker inst))
      else case validateBrokerURL parse inst of
             Some e \<Rightarrow> Some e
           | None \<Rightarrow>
               if mi_mq_id inst \<in> set seen then Some (DuplicateMqId (mi_mq_id inst))
               else validate_instances parse (mi_mq_id inst # seen) rest)"

definition validate_mq_trigger :: "string list \<Rightarrow> string list \<Rightarrow> trigger \<Rightarrow> config_error option" where
  "validate_mq_trigger mq_ids seen t =
     (if mt_id t = [] then Some TriggerIdMissing
      else if mt_id t \<noteq> mq_dnsLabel (mt_id t) then Some (BadTriggerId (mt_id t))
      else if mt_id t \<in> set seen then Some (DuplicateTriggerId (mt_id t))
      else if mt_type t \<noteq> ''mq'' then Some (BadTriggerType (mt_type t))
      else if mt_max_concurrency t < 0 then Some (NegativeMaxConcurrency (mt_id t))
      else if mt_max_attempts t < 0 then Some (NegativeMaxAttempts (mt_id t))
      else if mt_prefetch t < 0 then Some (NegativePrefetch (mt_id t))
      else if mt_retry_backoff_ms t < 0 then Some (NegativeBackoff (mt_id t))
      else if \<not> mt_enabled t then None
      else if mt_mq_id t = [] \<or> mt_queue t = [] \<or> mt_function t = [] then Some (IncompleteTrigger (mt_id t))
      else if mt_mq_id t \<notin> set mq_ids then Some (UnknownMqId (mt_id t) (mt_mq_id t))
      else if \<not> isDNSLabel (mt_function t) then Some (BadFunction (mt_id t) (mt_function t))
      else None)"

fun validate_mq_triggers :: "string list \<Rightarrow> string list \<Rightarrow> trigger list \<Rightarrow> config_error option" where
  "validate_mq_triggers mq_ids seen [] = None"
| "validate_mq_triggers mq_ids seen (t # ts) =
     (case validate_mq_trigger mq_ids seen t of
        Some e \<Rightarrow> Some e
      | None \<Rightarrow> validate_mq_triggers mq_ids (mt_id t # seen) ts)"

definition validateConfig :: "url_parser \<Rightarrow> mq_config \<Rightarrow> config_error option" where
  "validateConfig parse cfg =
     (case validate_instances parse [] (mq_instances cfg) of
        Some e \<Rightarrow> Some e
      | None \<Rightarrow> validate_mq_triggers (map mi_mq_id (mq_instances cfg)) [] (mq_triggers cfg))"

text \<open>\<open>loadConfig\<close> once the file is read: \<open>None\<close> when it is no JSON of the right shape.\<close>

definition loadConfig :: "url_parser \<Rightarrow> env \<Rightarrow> mq_config option \<Rightarrow> (config_error option + mq_config)" where
  "loadConfig parse env parsed =
     (case parsed of
        None \<Rightarrow> Inl None
      | Some cfg \<Rightarrow>
          let cfg = cfg\<lparr>mq_gateway_addr :=
                (if mq_gateway_addr cfg = [] then envString env ''GATEWAY_INTERNAL_ADDR'' ''localhost:8081''
                 else mq_gateway_addr cfg)\<rparr>
          in case validateConfig parse cfg of Some e \<Rightarrow> Inl (Some e) | None \<Rightarrow> Inr cfg)"

definition defaultConfig :: "env \<Rightarrow> mq_config" where
  "defaultConfig env =
     \<lparr>mq_gateway_addr = envString env ''GATEWAY_INTERNAL_ADDR'' ''localhost:8081'',
      mq_instances = (if env ''RABBITMQ_URL'' \<noteq> []
        then [\<lparr>mi_mq_id = ''rabbitmq-main'', mi_broker = ''rabbitmq'', mi_url = env ''RABBITMQ_URL''\<rparr>] else []),
      mq_triggers = []\<rparr>"

section \<open>Defaults\<close>

definition normalizeTrigger :: "trigger \<Rightarrow> mq_instance \<Rightarrow> trigger" where
  "normalizeTrigger t inst =
     (let t = t\<lparr>tr_broker := mi_broker inst\<rparr>;
          t = mt_max_concurrency_update (\<lambda>n. if n \<le> 0 then 1 else n) t;
          t = mt_prefetch_update (\<lambda>n. if n \<le> 0 then mt_max_concurrency t else n) t
      in mt_retry_backoff_ms_update (\<lambda>n. if n \<le> 0 then 1000 else n) t)"

text \<open>\<open>instanceByID\<close>: later entries win.\<close>

fun instances_into :: "mq_instance list \<Rightarrow> (string \<rightharpoonup> mq_instance) \<Rightarrow> (string \<rightharpoonup> mq_instance)" where
  "instances_into [] m = m"
| "instances_into (i # is) m = instances_into is (m(mi_mq_id i \<mapsto> i))"

definition instanceByID :: "mq_config \<Rightarrow> (string \<rightharpoonup> mq_instance)" where
  "instanceByID cfg = instances_into (mq_instances cfg) Map.empty"

section \<open>What validation establishes\<close>

definition instance_ok :: "url_parser \<Rightarrow> mq_instance \<Rightarrow> bool" where
  "instance_ok parse i \<longleftrightarrow> mi_mq_id i \<noteq> [] \<and> mi_url i \<noteq> [] \<and> mi_broker i = ''rabbitmq'' \<and>
     (\<exists>scheme host. parse (mi_url i) = Some (scheme, host) \<and> host \<noteq> [] \<and> scheme \<in> {''amqp'', ''amqps''})"

definition mq_trigger_ok :: "string set \<Rightarrow> trigger \<Rightarrow> bool" where
  "mq_trigger_ok ids t \<longleftrightarrow> mt_id t \<noteq> [] \<and> mq_label_ok (mt_id t) \<and> mt_type t = ''mq'' \<and>
     0 \<le> mt_max_concurrency t \<and> 0 \<le> mt_max_attempts t \<and> 0 \<le> mt_prefetch t \<and> 0 \<le> mt_retry_backoff_ms t \<and>
     (mt_enabled t \<longrightarrow> mt_mq_id t \<noteq> [] \<and> mt_queue t \<noteq> [] \<and> mt_mq_id t \<in> ids \<and> label_ok 63 (mt_function t))"

lemma mq_id_label: "mt_id t = mq_dnsLabel (mt_id t) \<longleftrightarrow> mq_label_ok (mt_id t)"
  by (rule mq_label.fixed_iff_ok)

lemma validateBrokerURL_None:
  "mi_broker i = ''rabbitmq'' \<Longrightarrow> validateBrokerURL parse i = None \<longleftrightarrow>
   (\<exists>scheme host. parse (mi_url i) = Some (scheme, host) \<and> host \<noteq> [] \<and> scheme \<in> {''amqp'', ''amqps''})"
  by (auto simp: validateBrokerURL_def split: option.splits prod.splits)

lemma validate_instances_None:
  "validate_instances parse seen is = None \<longleftrightarrow>
   list_all (instance_ok parse) is \<and> distinct (map mi_mq_id is) \<and> set (map mi_mq_id is) \<inter> set seen = {}"
proof (induction parse seen "is" rule: validate_instances.induct)
  case (2 parse seen i rest)
  show ?case
  proof (cases "mi_mq_id i = [] \<or> mi_broker i \<noteq> ''rabbitmq'' \<or> mi_url i = []")
    case True
    then show ?thesis by (auto simp: instance_ok_def)
  next
    case False
    then have "validateBrokerURL parse i = None \<longleftrightarrow> instance_ok parse i"
      by (simp add: instance_ok_def validateBrokerURL_None)
    with False 2 show ?thesis by (auto split: option.splits)
  qed
qed simp

lemma validate_mq_trigger_None:
  "validate_mq_trigger ids seen t = None \<longleftrightarrow> mq_trigger_ok (set ids) t \<and> mt_id t \<notin> set seen"
  by (auto simp: validate_mq_trigger_def mq_trigger_ok_def mq_id_label isDNSLabel_label_ok label_ok_def)

lemma validate_mq_triggers_None:
  "validate_mq_triggers ids seen ts = None \<longleftrightarrow>
   list_all (mq_trigger_ok (set ids)) ts \<and> distinct (map mt_id ts) \<and> set (map mt_id ts) \<inter> set seen = {}"
proof (induction ids seen ts rule: validate_mq_triggers.induct)
  case (2 ids seen t ts)
  show ?case
  proof (cases "validate_mq_trigger ids seen t")
    case None
    then have "mq_trigger_ok (set ids) t \<and> mt_id t \<notin> set seen" using validate_mq_trigger_None by blast
    with None 2 show ?thesis by auto
  next
    case (Some e)
    then have "\<not> (mq_trigger_ok (set ids) t \<and> mt_id t \<notin> set seen)"
      by (simp flip: validate_mq_trigger_None)
    with Some show ?thesis by auto
  qed
qed simp

lemma instances_into_map: "instances_into is m k = (case map_of (rev (map (\<lambda>i. (mi_mq_id i, i)) is)) k of
    Some i \<Rightarrow> Some i | None \<Rightarrow> m k)"
  by (induction "is" arbitrary: m) (auto simp: map_add_Some_iff map_add_def split: option.splits)

lemma instanceByID_Some:
  "instanceByID cfg k = Some i \<Longrightarrow> i \<in> set (mq_instances cfg) \<and> mi_mq_id i = k"
  by (auto simp: instanceByID_def instances_into_map dest: map_of_SomeD split: option.splits)

lemma instanceByID_None:
  "instanceByID cfg k = None \<longleftrightarrow> k \<notin> mi_mq_id ` set (mq_instances cfg)"
proof -
  have "instanceByID cfg k = map_of (rev (map (\<lambda>i. (mi_mq_id i, i)) (mq_instances cfg))) k"
    by (simp add: instanceByID_def instances_into_map split: option.split)
  then show ?thesis by (simp only: map_of_eq_None_iff) force
qed

lemma normalizeTrigger_sel [simp]:
  "mt_id (normalizeTrigger t i) = mt_id t" "mt_mq_id (normalizeTrigger t i) = mt_mq_id t"
  "mt_function (normalizeTrigger t i) = mt_function t" "mt_enabled (normalizeTrigger t i) = mt_enabled t"
  "mt_queue (normalizeTrigger t i) = mt_queue t" "mt_dlq (normalizeTrigger t i) = mt_dlq t"
  "mt_max_attempts (normalizeTrigger t i) = mt_max_attempts t" "mt_type (normalizeTrigger t i) = mt_type t"
  "tr_broker (normalizeTrigger t i) = mi_broker i"
  by (simp_all add: normalizeTrigger_def Let_def)

lemma normalizeTrigger_positive:
  "0 < mt_max_concurrency (normalizeTrigger t i)" "0 < mt_prefetch (normalizeTrigger t i)"
  "0 < mt_retry_backoff_ms (normalizeTrigger t i)"
  by (simp_all add: normalizeTrigger_def Let_def)

lemma normalizeTrigger_idem: "normalizeTrigger (normalizeTrigger t i) i = normalizeTrigger t i"
  using normalizeTrigger_positive [of t i]
  by (simp add: normalizeTrigger_def Let_def)

section \<open>Properties\<close>

text \<open>Mqsvc's \<open>loadConfig\<close> accepts a configuration file exactly when the broker instances
  are complete RabbitMQ instances with amqp URLs and pairwise different ids, every trigger id
  is a distinct DNS label without double dashes, no limit is negative, and every enabled
  trigger names a declared instance, a queue and a function that is a DNS label. An accepted
  configuration is returned with its instances and triggers unchanged, so that every enabled
  trigger finds its own instance in \<open>instanceByID\<close>.\<close>

theorem loadConfig_spec:
  "((\<exists>out. loadConfig parse env (Some cfg) = Inr out) \<longleftrightarrow>
      list_all (instance_ok parse) (mq_instances cfg) \<and> distinct (map mi_mq_id (mq_instances cfg)) \<and>
      list_all (mq_trigger_ok (mi_mq_id ` set (mq_instances cfg))) (mq_triggers cfg) \<and>
      distinct (map mt_id (mq_triggers cfg))) \<and>
   (\<forall>out. loadConfig parse env (Some cfg) = Inr out \<longrightarrow>
      mq_triggers out = mq_triggers cfg \<and> mq_instances out = mq_instances cfg \<and>
      (\<forall>t \<in> set (mq_triggers out). mt_enabled t \<longrightarrow>
         (\<exists>i. instanceByID out (mt_mq_id t) = Some i \<and> mi_mq_id i = mt_mq_id t \<and> instance_ok parse i)))"
proof -
  define c where "c = cfg\<lparr>mq_gateway_addr := (if mq_gateway_addr cfg = []
      then envString env ''GATEWAY_INTERNAL_ADDR'' ''localhost:8081'' else mq_gateway_addr cfg)\<rparr>"
  have load: "loadConfig parse env (Some cfg) =
      (case validateConfig parse c of Some e \<Rightarrow> Inl (Some e) | None \<Rightarrow> Inr c)"
    unfolding loadConfig_def Let_def c_def by (simp split del: if_split)
  have sel: "mq_instances c = mq_instances cfg" "mq_triggers c = mq_triggers cfg"
    by (simp_all add: c_def)
  have ok: "validateConfig parse c = None \<longleftrightarrow>
      list_all (instance_ok parse) (mq_instances cfg) \<and> distinct (map mi_mq_id (mq_instances cfg)) \<and>
      list_all (mq_trigger_ok (mi_mq_id ` set (mq_instances cfg))) (mq_triggers cfg) \<and>
      distinct (map mt_id (mq_triggers cfg))"
    using validate_instances_None [of parse "[]" "mq_instances cfg"]
      validate_mq_triggers_None [of "map mi_mq_id (mq_instances cfg)" "[]" "mq_triggers cfg"]
    by (cases "validate_instances parse [] (mq_instances cfg)") (simp add: validateConfig_def sel, simp add: validateConfig_def sel, blast)
  have inst: "\<exists>i. instanceByID c (mt_mq_id t) = Some i \<and> mi_mq_id i = mt_mq_id t \<and> instance_ok parse i"
    if "validateConfig parse c = None" "t \<in> set (mq_triggers cfg)" "mt_enabled t" for t
  proof -
    from that ok have known: "mt_mq_id t \<in> mi_mq_id ` set (mq_instances cfg)"
      and all: "list_all (instance_ok parse) (mq_instances cfg)"
      by (auto simp: list_all_iff mq_trigger_ok_def)
    then obtain i where i: "instanceByID c (mt_mq_id t) = Some i"
      using instanceByID_None [of c "mt_mq_id t"] sel by (cases "instanceByID c (mt_mq_id t)") auto
    with instanceByID_Some [OF i] all sel show ?thesis by (auto simp: list_all_iff)
  qed
  show ?thesis using ok inst by (cases "validateConfig parse c") (auto simp: load sel)
qed

definition sample_instance :: mq_instance where
  "sample_instance = \<lparr>mi_mq_id = ''rabbitmq-main'', mi_broker = ''rabbitmq'', mi_url = ''amqp://mq:5672/''\<rparr>"

definition sample_mq_trigger :: trigger where
  "sample_mq_trigger = trigger_of_json
     \<lparr>mt_id = ''orders'', mt_type = ''mq'', mt_enabled = True, mt_mq_id = ''rabbitmq-main'',
      mt_queue = ''orders'', mt_function = ''order-fn'', mt_max_concurrency = 0, mt_prefetch = 0,
      mt_max_attempts = 3, mt_retry_backoff_ms = 0, mt_dlq = ''orders.dlq''\<rparr>"

definition sample_mq_config :: mq_config where
  "sample_mq_config = \<lparr>mq_gateway_addr = ''gw:8081'', mq_instances = [sample_instance], mq_triggers = [sample_mq_trigger]\<rparr>"

lemma sample_mq_trigger_sel [simp]:
  "mt_id sample_mq_trigger = ''orders''" "mt_type sample_mq_trigger = ''mq''" "mt_enabled sample_mq_trigger"
  "mt_mq_id sample_mq_trigger = ''rabbitmq-main''" "mt_queue sample_mq_trigger = ''orders''"
  "mt_function sample_mq_trigger = ''order-fn''" "mt_max_concurrency sample_mq_trigger = 0"
  "mt_prefetch sample_mq_trigger = 0" "mt_max_attempts sample_mq_trigger = 3"
  "mt_retry_backoff_ms sample_mq_trigger = 0" "mt_dlq sample_mq_trigger = ''orders.dlq''"
  by (simp_all add: sample_mq_trigger_def trigger_of_json_def mq_trigger.defs)

lemma sample_mq_config_sel [simp]:
  "mq_instances sample_mq_config = [sample_instance]" "mq_triggers sample_mq_config = [sample_mq_trigger]"
  "mi_mq_id sample_instance = ''rabbitmq-main''" "mi_broker sample_instance = ''rabbitmq''"
  "mi_url sample_instance = ''amqp://mq:5672/''"
  by (simp_all add: sample_mq_config_def sample_instance_def)

theorem loadConfig_spec_witness:
  "\<exists>out. loadConfig (\<lambda>_. Some (''amqp'', ''mq:5672'')) (\<lambda>_. []) (Some sample_mq_config) = Inr out \<and>
     instanceByID out ''rabbitmq-main'' \<noteq> None"
proof -
  have "label_ok 63 ''orders''" "label_ok 63 ''order-fn''" "no_double_dash ''orders''" by code_simp+
  then have "\<exists>out. loadConfig (\<lambda>_. Some (''amqp'', ''mq:5672'')) (\<lambda>_. []) (Some sample_mq_config) = Inr out"
    using loadConfig_spec [of "\<lambda>_. Some (''amqp'', ''mq:5672'')" "\<lambda>_. []" sample_mq_config]
    by (simp add: instance_ok_def mq_trigger_ok_def mq_label_ok_def)
  then show ?thesis
    using loadConfig_spec [of "\<lambda>_. Some (''amqp'', ''mq:5672'')" "\<lambda>_. []" sample_mq_config]
    by fastforce
qed

end
