(* ===== verification/MQ_Metrics.thy ===== *)
theory MQ_Metrics
  imports Faas_Prelude
begin

text \<open>
  The counters mqsvc keeps per trigger (mqsvc/metrics.go). A Go map of structs is read with the
  zero value for a missing key; each counter is an \<open>int64\<close>. The messages of one trigger are
  handled concurrently, so the updates of different messages interleave in any order.
\<close>

record trigger_metrics =
  tm_received :: int
  tm_inflight :: int
  tm_acked :: int
  tm_retried :: int
  tm_dlq :: int
  tm_errors :: int
  tm_last_error :: string

type_synonym metrics = "string \<rightharpoonup> trigger_metrics"

definition zero_metrics :: trigger_metrics where
  "zero_metrics = \<lparr>tm_received = 0, tm_inflight = 0, tm_acked = 0, tm_retried = 0, tm_dlq = 0,
     tm_errors = 0, tm_last_error = []\<rparr>"

definition NewMetrics :: metrics where
  "NewMetrics = Map.empty"

definition metrics_of :: "metrics \<Rightarrow> string \<Rightarrow> trigger_metrics" where
  "metrics_of m tid = (case m tid of None \<Rightarrow> zero_metrics | Some v \<Rightarrow> v)"

definition metrics_update :: "string \<Rightarrow> (trigger_metrics \<Rightarrow> trigger_metrics) \<Rightarrow> metrics \<Rightarrow> metrics" where
  "metrics_update tid f m = m(tid \<mapsto> f (metrics_of m tid))"

definition leave :: "int \<Rightarrow> int" where
  "leave n = (if n > 0 then n - 1 else n)"

definition Received :: "string \<Rightarrow> metrics \<Rightarrow> metrics" where
  "Received tid = metrics_update tid (\<lambda>v. v\<lparr>tm_received := incr (tm_received v), tm_inflight := incr (tm_inflight v)\<rparr>)"

definition Acked :: "string \<Rightarrow> metrics \<Rightarrow> metrics" where
  "Acked tid = metrics_update tid (\<lambda>v. v\<lparr>tm_acked := incr (tm_acked v), tm_inflight := leave (tm_inflight v)\<rparr>)"

definition Retried :: "string \<Rightarrow> string \<Rightarrow> metrics \<Rightarrow> metrics" where
  "Retried tid reason = metrics_update tid (\<lambda>v. v\<lparr>tm_retried := incr (tm_retried v), tm_errors := incr (tm_errors v),
     tm_last_error := reason, tm_inflight := leave (tm_inflight v)\<rparr>)"

definition DLQed :: "string \<Rightarrow> string \<Rightarrow> metrics \<Rightarrow> metrics" where
  "DLQed tid reason = metrics_update tid (\<lambda>v. v\<lparr>tm_dlq := incr (tm_dlq v), tm_errors := incr (tm_errors v),
     tm_last_error := reason, tm_inflight := leave (tm_inflight v)\<rparr>)"

definition Snapshot :: "metrics \<Rightarrow> metrics" where
  "Snapshot m = m"

section \<open>Interleaved updates\<close>

datatype metric_event = EvReceived | EvAcked | EvRetried string | EvDLQed string

fun apply_event :: "string \<times> metric_event \<Rightarrow> metrics \<Rightarrow> metrics" where
  "apply_event (tid, EvReceived) m = Received tid m"
| "apply_event (tid, EvAcked) m = Acked tid m"
| "apply_event (tid, EvRetried r) m = Retried tid r m"
| "apply_event (tid, EvDLQed r) m = DLQed tid r m"

definition events_of :: "string \<Rightarrow> (string \<times> metric_event) list \<Rightarrow> metric_event list" where
  "events_of tid evs = map snd (filter (\<lambda>e. fst e = tid) evs)"

definition open_messages :: "metric_event list \<Rightarrow> int" where
  "open_messages es = int (count_if (\<lambda>e. e = EvReceived) es) - int (count_if (\<lambda>e. e \<noteq> EvReceived) es)"

text \<open>No message has an outcome before it was received.\<close>

definition causal :: "metric_event list \<Rightarrow> bool" where
  "causal es \<longleftrightarrow> (\<forall>n. 0 \<le> open_messages (take n es))"

fun last_reason :: "metric_event list \<Rightarrow> string" where
  "last_reason [] = []"
| "last_reason (e # es) =
     (case e of EvRetried r \<Rightarrow> r | EvDLQed r \<Rightarrow> r | _ \<Rightarrow> last_reason es)"

definition tally :: "metric_event list \<Rightarrow> trigger_metrics" where
  "tally es = (let n = (\<lambda>P. int (count_if P es)) in
     \<lparr>tm_received = n (\<lambda>e. e = EvReceived), tm_inflight = open_messages es, tm_acked = n (\<lambda>e. e = EvAcked),
      tm_retried = n (\<lambda>e. \<exists>r. e = EvRetried r), tm_dlq = n (\<lambda>e. \<exists>r. e = EvDLQed r),
      tm_errors = n (\<lambda>e. e \<noteq> EvReceived \<and> e \<noteq> EvAcked), tm_last_error = last_reason (rev es)\<rparr>)"

definition run_events :: "(string \<times> metric_event) list \<Rightarrow> metrics \<Rightarrow> metrics" where
  "run_events evs m = fold apply_event evs m"

lemma metrics_of_update:
  "metrics_of (metrics_update tid f m) k = (if k = tid then f (metrics_of m k) else metrics_of m k)"
  by (simp add: metrics_update_def metrics_of_def)

lemma incr_count: "n < 2 ^ 62 \<Longrightarrow> incr (int n) = int n + 1"
  by (simp add: incr_def wrap64_id in_int64_def)

lemma run_events_snoc: "run_events (evs @ [e]) m = apply_event e (run_events evs m)"
  by (simp add: run_events_def)

lemma events_of_snoc:
  "events_of k (evs @ [(tid, e)]) = (if k = tid then events_of k evs @ [e] else events_of k evs)"
  by (simp add: events_of_def)

lemma causal_snocD: "causal (es @ [e]) \<Longrightarrow> causal es \<and> 0 \<le> open_messages es \<and> 0 \<le> open_messages (es @ [e])"
proof -
  assume c: "causal (es @ [e])"
  have "0 \<le> open_messages (take n es)" for n
    using c [unfolded causal_def, rule_format, of "min n (length es)"] by (simp add: min_def split: if_splits)
  moreover from this [of "length es"] have "0 \<le> open_messages es" by simp
  moreover have "0 \<le> open_messages (es @ [e])"
    using c [unfolded causal_def, rule_format, of "length (es @ [e])"] by simp
  ultimately show ?thesis by (simp add: causal_def)
qed

lemma open_messages_snoc: "open_messages (es @ [e]) = open_messages es + (if e = EvReceived then 1 else -1)"
  by (simp add: open_messages_def)

lemma count_outcomes:
  "count_if (\<lambda>e. e \<noteq> EvReceived) es = count_if (\<lambda>e. e = EvAcked) es +
      count_if (\<lambda>e. \<exists>r. e = EvRetried r) es + count_if (\<lambda>e. \<exists>r. e = EvDLQed r) es \<and>
   count_if (\<lambda>e. e \<noteq> EvReceived \<and> e \<noteq> EvAcked) es =
      count_if (\<lambda>e. \<exists>r. e = EvRetried r) es + count_if (\<lambda>e. \<exists>r. e = EvDLQed r) es"
proof (induction es)
  case (Cons e es)
  then show ?case by (cases e) simp_all
qed simp

lemma tally_step:
  assumes "causal (es @ [e])" "length es < 2 ^ 61" "metrics_of m k = tally es"
  shows "metrics_of (apply_event (k, e) m) k = tally (es @ [e])"
proof -
  have le: "count_if P es < 2 ^ 61" for P using count_if_le [of P es] assms(2) by linarith
  have inc: "incr (int (count_if P es)) = int (count_if P es) + 1" for P
    by (rule incr_count) (use le [of P] in simp)
  have "open_messages es = int (nat (open_messages es))" using causal_snocD [OF assms(1)] by simp
  moreover have "nat (open_messages es) < 2 ^ 61"
    using le [of "\<lambda>e. e = EvReceived"] by (simp add: open_messages_def)
  ultimately have inf: "incr (open_messages es) = open_messages es + 1"
    using incr_count [of "nat (open_messages es)"] by simp
  have "0 \<le> open_messages (es @ [e])" using causal_snocD [OF assms(1)] by simp
  then have lv: "e \<noteq> EvReceived \<Longrightarrow> leave (open_messages es) = open_messages es - 1"
    by (auto simp: leave_def open_messages_snoc)
  show ?thesis
    using assms(3) lv inf
    by (cases e) (simp_all add: Received_def Acked_def Retried_def DLQed_def metrics_of_update tally_def Let_def
      inc open_messages_snoc)
qed

section \<open>Properties\<close>

text \<open>Whatever the interleaving of concurrent messages and triggers, the counters of a trigger
  are the true counts of its events: as long as outcomes follow receipts, \<open>received\<close> is
  \<open>acked + retried + dlq + inflight\<close>, \<open>errors\<close> is \<open>retried + dlq\<close>,
  \<open>inflight\<close> is the number of messages received and not finished (the guard against going
  below zero never acts), \<open>last_error\<close> is the reason of the last failure, and the events of
  other triggers do not disturb them.\<close>

theorem metrics_exact:
  assumes "causal (events_of k evs)" "length evs < 2 ^ 61"
  defines "v \<equiv> metrics_of (Snapshot (run_events evs NewMetrics)) k"
  shows "v = tally (events_of k evs) \<and>
    tm_received v = tm_acked v + tm_retried v + tm_dlq v + tm_inflight v \<and> 0 \<le> tm_inflight v \<and>
    tm_errors v = tm_retried v + tm_dlq v"
proof -
  have exact: "metrics_of (run_events evs NewMetrics) k = tally (events_of k evs)"
    using assms(1,2)
  proof (induction evs rule: rev_induct)
    case Nil
    show ?case by (simp add: run_events_def NewMetrics_def metrics_of_def zero_metrics_def events_of_def
      tally_def Let_def open_messages_def)
  next
    case (snoc x evs)
    obtain t e where x: "x = (t, e)" by (cases x)
    show ?case
    proof (cases "t = k")
      case True
      have "length (events_of k evs) < 2 ^ 61"
        by (rule le_less_trans [OF _ snoc.prems(2)]) (simp add: events_of_def le_SucI)
      moreover have "causal (events_of k evs @ [e])" using snoc.prems(1) by (simp add: x True events_of_snoc)
      ultimately show ?thesis
        using snoc.IH snoc.prems(2) causal_snocD tally_step
        by (simp add: x True events_of_snoc run_events_snoc)
    next
      case False
      then have "metrics_of (apply_event (t, e) m) k = metrics_of m k" for m
        by (cases e) (simp_all add: Received_def Acked_def Retried_def DLQed_def metrics_of_update)
      with False snoc show ?thesis by (simp add: x events_of_snoc run_events_snoc)
    qed
  qed
  note count_outcomes [of "events_of k evs"]
  moreover have "0 \<le> open_messages (events_of k evs)"
    using assms(1) [unfolded causal_def, rule_format, of "length (events_of k evs)"] by simp
  ultimately show ?thesis
    by (simp add: v_def exact Snapshot_def) (simp add: tally_def Let_def open_messages_def)
qed

definition sample_events :: "(string \<times> metric_event) list" where
  "sample_events = [(''a'', EvReceived), (''b'', EvReceived), (''a'', EvReceived), (''a'', EvRetried ''boom''),
     (''b'', EvAcked)]"

theorem metrics_exact_witness:
  "tm_inflight (metrics_of (Snapshot (run_events sample_events NewMetrics)) ''a'') = 1 \<and>
   tm_last_error (metrics_of (Snapshot (run_events sample_events NewMetrics)) ''a'') = ''boom''"
proof -
  have ev: "events_of ''a'' sample_events = [EvReceived, EvReceived, EvRetried ''boom'']"
    by (simp add: sample_events_def events_of_def)
  have "causal [EvReceived, EvReceived, EvRetried ''boom'']"
    by (auto simp: causal_def open_messages_def take_Cons split: nat.split)
  moreover have "length sample_events < 2 ^ 61" by (simp add: sample_events_def)
  ultimately show ?thesis
    using metrics_exact [of "''a''" sample_events]
    by (simp add: ev tally_def Let_def open_messages_def)
qed

end
