(* ===== verification/MQ_Worker.thy ===== *)
theory MQ_Worker
  imports MQ_Config MQ_Metrics Wire_Text
begin

text \<open>
  How mqsvc handles one message (mqsvc/worker.go, mqsvc/gateway_client.go, the data of
  mqsvc/broker.go): it leases an instance from the gateway, posts the event to the instance,
  gives the lease back with a status, and tells the broker whether to acknowledge, to retry or
  to dead-letter the message. Everything outside answers through the record \<open>outside\<close>, which
  threads a state of its own through the calls: the network, the state of a call's context and
  the clock. The JSON coders are the record \<open>codec\<close>.
\<close>

section \<open>Data\<close>

record message =
  msg_id :: string
  msg_body :: string
  msg_headers :: "string \<rightharpoonup> string"
  msg_attempts :: int

record message_result =
  mr_ack :: bool
  mr_dlq :: bool
  mr_reason :: string

text \<open>An error: its text, and whether \<open>errors.Is\<close> finds a deadline or a cancellation in it.\<close>

record go_error =
  ge_text :: string
  ge_deadline :: bool
  ge_canceled :: bool

definition errorf :: "string \<Rightarrow> go_error" where
  "errorf text = \<lparr>ge_text = text, ge_deadline = False, ge_canceled = False\<rparr>"

record acquire_message =
  am_source :: string
  am_mq_id :: string
  am_trigger_id :: string
  am_message_id :: string
  am_timeout_seconds :: int

record client_lease =
  cl_lease_id :: string
  cl_function :: string
  cl_instance_id :: string
  cl_address :: string
  cl_timeout_seconds :: int

record event_envelope =
  ev_version :: string
  ev_type :: string
  ev_source :: string
  ev_mq_id :: string
  ev_trigger_id :: string
  ev_id :: string
  ev_time :: string
  ev_subject :: string
  ev_headers :: "string \<rightharpoonup> string"
  ev_body :: string
  ev_body_base64 :: string
  ev_is_base64 :: bool

section \<open>The outside\<close>

record out_request =
  or_method :: string
  or_host :: string
  or_path :: string
  or_headers :: "(string \<times> string) list"
  or_body :: "string option"
  or_deadline :: "duration option"  \<comment> \<open>of the request's context, beside that of the caller\<close>
  or_client_timeout :: duration

text \<open>A body is the bytes that arrived and the error that cut it off, if any.\<close>

type_synonym wire_body = "string \<times> go_error option"

datatype http_reply = Failed go_error | Reply int string wire_body

datatype ctx_end = DeadlineExceeded | ContextCanceled

record 'w outside =
  ou_net :: "out_request \<Rightarrow> 'w \<Rightarrow> http_reply \<times> 'w"
  ou_ctx :: "duration option \<Rightarrow> 'w \<Rightarrow> ctx_end option"
  ou_now :: "'w \<Rightarrow> string"

record codec =
  enc_acquire :: "acquire_message \<Rightarrow> string"
  enc_status :: "string \<Rightarrow> string"
  enc_event :: "event_envelope \<Rightarrow> go_error + string"
  dec_lease :: "wire_body \<Rightarrow> go_error + client_lease"
  dec_triggers :: "wire_body \<Rightarrow> go_error + mq_trigger list"
  dec_result :: "wire_body \<Rightarrow> go_error + int"

section \<open>The gateway client\<close>

record gateway_client =
  gc_addr :: string
  gc_token :: string
  gc_timeout :: duration

definition NewGatewayClient :: "env \<Rightarrow> string \<Rightarrow> gateway_client" where
  "NewGatewayClient env addr =
     \<lparr>gc_addr = addr, gc_token = env ''INTERNAL_API_TOKEN'', gc_timeout = 10 * second\<rparr>"

definition authorize :: "gateway_client \<Rightarrow> (string \<times> string) list" where
  "authorize c = (if gc_token c \<noteq> [] then [(''Authorization'', ''Bearer '' @ gc_token c)] else [])"

definition json_header :: "string \<times> string" where
  "json_header = (''Content-Type'', ''application/json'')"

definition acquire_call :: "codec \<Rightarrow> gateway_client \<Rightarrow> trigger \<Rightarrow> message \<Rightarrow> out_request" where
  "acquire_call cd c t msg =
     \<lparr>or_method = ''POST'', or_host = gc_addr c,
      or_path = ''/internal/functions/'' @ path_escape (mt_function t) @ ''/instances/acquire'',
      or_headers = json_header # authorize c,
      or_body = Some (enc_acquire cd \<lparr>am_source = ''mq'', am_mq_id = mt_mq_id t, am_trigger_id = mt_id t,
                                      am_message_id = msg_id msg, am_timeout_seconds = 0\<rparr>),
      or_deadline = None, or_client_timeout = gc_timeout c\<rparr>"

definition client_Acquire ::
  "codec \<Rightarrow> 'w outside \<Rightarrow> gateway_client \<Rightarrow> trigger \<Rightarrow> message \<Rightarrow> 'w \<Rightarrow> (go_error + client_lease) \<times> 'w" where
  "client_Acquire cd o' c t msg w =
     (case ou_net o' (acquire_call cd c t msg) w of
        (Failed e, w) \<Rightarrow> (Inl e, w)
      | (Reply code status body, w) \<Rightarrow>
          (if code \<noteq> 200 then (Inl (errorf (''gateway acquire returned '' @ status)), w)
           else (dec_lease cd body, w)))"

definition release_call :: "codec \<Rightarrow> gateway_client \<Rightarrow> duration option \<Rightarrow> string \<Rightarrow> string \<Rightarrow> out_request" where
  "release_call cd c deadline lease_id status =
     \<lparr>or_method = ''POST'', or_host = gc_addr c,
      or_path = ''/internal/leases/'' @ path_escape lease_id @ ''/release'',
      or_headers = json_header # authorize c,
      or_body = Some (enc_status cd status), or_deadline = deadline, or_client_timeout = gc_timeout c\<rparr>"

definition client_Release ::
  "codec \<Rightarrow> 'w outside \<Rightarrow> gateway_client \<Rightarrow> duration option \<Rightarrow> string \<Rightarrow> string \<Rightarrow> 'w \<Rightarrow> go_error option \<times> 'w" where
  "client_Release cd o' c deadline lease_id status w =
     (case ou_net o' (release_call cd c deadline lease_id status) w of
        (Failed e, w) \<Rightarrow> (Some e, w)
      | (Reply code text body, w) \<Rightarrow>
          (if code \<noteq> 204 then (Some (errorf (''gateway release returned '' @ text)), w) else (None, w)))"

definition client_Triggers ::
  "codec \<Rightarrow> 'w outside \<Rightarrow> gateway_client \<Rightarrow> 'w \<Rightarrow> (go_error + mq_trigger list) \<times> 'w" where
  "client_Triggers cd o' c w =
     (case ou_net o'
         \<lparr>or_method = ''GET'', or_host = gc_addr c, or_path = ''/internal/triggers'', or_headers = authorize c,
          or_body = None, or_deadline = None, or_client_timeout = gc_timeout c\<rparr> w of
        (Failed e, w) \<Rightarrow> (Inl e, w)
      | (Reply code status body, w) \<Rightarrow>
          (if code \<noteq> 200 then (Inl (errorf (''gateway triggers returned '' @ status)), w)
           else (dec_triggers cd body, w)))"

section \<open>Events\<close>

definition buildEvent :: "string \<Rightarrow> trigger \<Rightarrow> message \<Rightarrow> event_envelope" where
  "buildEvent now t msg =
     (let broker = tr_broker t;
          broker = (if broker = [] \<and> mt_type t \<noteq> ''mq'' then mt_type t else broker);
          broker = (if broker = [] then ''rabbitmq'' else broker);
          env = \<lparr>ev_version = ''1.0'', ev_type = ''mq'', ev_source = broker, ev_mq_id = mt_mq_id t,
                 ev_trigger_id = mt_id t, ev_id = msg_id msg, ev_time = now, ev_subject = mt_queue t,
                 ev_headers = msg_headers msg, ev_body = [], ev_body_base64 = [], ev_is_base64 = False\<rparr>
      in if json_valid (msg_body msg) then env\<lparr>ev_body := msg_body msg\<rparr>
         else env\<lparr>ev_body_base64 := b64_encode (msg_body msg), ev_is_base64 := True\<rparr>)"

section \<open>The worker\<close>

record worker =
  wk_gateway :: gateway_client
  wk_client_timeout :: duration
  wk_metrics :: "metrics option"

definition NewWorker :: "gateway_client \<Rightarrow> worker" where
  "NewWorker c = \<lparr>wk_gateway = c, wk_client_timeout = 35 * second, wk_metrics = Some NewMetrics\<rparr>"

definition SetMetrics :: "metrics option \<Rightarrow> worker \<Rightarrow> worker" where
  "SetMetrics m wk = (if m \<noteq> None then wk\<lparr>wk_metrics := m\<rparr> else wk)"

definition bump :: "(metrics \<Rightarrow> metrics) \<Rightarrow> worker \<Rightarrow> worker" where
  "bump f wk = wk\<lparr>wk_metrics := map_option f (wk_metrics wk)\<rparr>"

definition shouldDLQ :: "trigger \<Rightarrow> message \<Rightarrow> bool" where
  "shouldDLQ t msg \<longleftrightarrow> mt_max_attempts t > 0 \<and> wrap64 (msg_attempts msg + 1) \<ge> mt_max_attempts t \<and> mt_dlq t \<noteq> []"

definition clientForLease :: "worker \<Rightarrow> client_lease \<Rightarrow> duration" where
  "clientForLease wk l =
     (if cl_timeout_seconds l \<le> 0 then wk_client_timeout wk else dur_seconds (wrap64 (cl_timeout_seconds l + 5)))"

definition invoke_call ::
  "worker \<Rightarrow> duration option \<Rightarrow> client_lease \<Rightarrow> trigger \<Rightarrow> message \<Rightarrow> string \<Rightarrow> out_request" where
  "invoke_call wk deadline l t msg body =
     \<lparr>or_method = ''POST'', or_host = cl_address l, or_path = ''/events'',
      or_headers = [json_header, (''X-Event-Type'', ''mq''), (''X-Trigger-ID'', mt_id t), (''X-Message-ID'', msg_id msg)] @
        (if cl_timeout_seconds l > 0 then [(''X-Function-Timeout'', itoa (cl_timeout_seconds l))] else []),
      or_body = Some body, or_deadline = deadline, or_client_timeout = clientForLease wk l\<rparr>"

definition invokeRuntime ::
  "codec \<Rightarrow> 'w outside \<Rightarrow> worker \<Rightarrow> duration option \<Rightarrow> client_lease \<Rightarrow> trigger \<Rightarrow> message \<Rightarrow> 'w
   \<Rightarrow> go_error option \<times> 'w" where
  "invokeRuntime cd o' wk deadline l t msg w =
     (case enc_event cd (buildEvent (ou_now o' w) t msg) of
        Inl e \<Rightarrow> (Some e, w)
      | Inr body \<Rightarrow>
          (case ou_net o' (invoke_call wk deadline l t msg body) w of
             (Failed e, w) \<Rightarrow> (Some e, w)
           | (Reply code status rbody, w) \<Rightarrow>
               (if code \<ge> 500 then (Some (errorf (''runtime returned '' @ status)), w)
                else (case dec_result cd rbody of
                        Inl e \<Rightarrow> (Some e, w)
                      | Inr n \<Rightarrow>
                          (if n \<ge> 500 then (Some (errorf (''function returned status '' @ itoa n)), w)
                           else (None, w))))))"

definition releaseLease ::
  "codec \<Rightarrow> 'w outside \<Rightarrow> worker \<Rightarrow> string \<Rightarrow> string \<Rightarrow> 'w \<Rightarrow> go_error option \<times> 'w" where
  "releaseLease cd o' wk lease_id status w =
     client_Release cd o' (wk_gateway wk) (Some (5 * second)) lease_id status w"

definition failure_status :: "go_error \<Rightarrow> ctx_end option \<Rightarrow> string" where
  "failure_status e ctx =
     (if ge_deadline e \<or> ctx = Some DeadlineExceeded then ''timeout''
      else if ge_canceled e \<or> ctx = Some ContextCanceled then ''abandoned''
      else ''error'')"

definition dead_letter :: "trigger \<Rightarrow> string \<Rightarrow> worker \<Rightarrow> message_result \<times> worker" where
  "dead_letter t reason wk = (\<lparr>mr_ack = False, mr_dlq = True, mr_reason = reason\<rparr>, bump (DLQed (mt_id t) reason) wk)"

definition retry :: "trigger \<Rightarrow> string \<Rightarrow> worker \<Rightarrow> message_result \<times> worker" where
  "retry t reason wk = (\<lparr>mr_ack = False, mr_dlq = False, mr_reason = reason\<rparr>, bump (Retried (mt_id t) reason) wk)"

definition give_up :: "trigger \<Rightarrow> message \<Rightarrow> string \<Rightarrow> worker \<Rightarrow> message_result \<times> worker" where
  "give_up t msg reason wk = (if shouldDLQ t msg then dead_letter t reason wk else retry t reason wk)"

text \<open>The timeout put on the context of the invocation.\<close>

definition invoke_deadline :: "client_lease \<Rightarrow> duration option" where
  "invoke_deadline l = (if cl_timeout_seconds l > 0 then Some (dur_seconds (cl_timeout_seconds l)) else None)"

definition HandleMessage ::
  "codec \<Rightarrow> 'w outside \<Rightarrow> worker \<Rightarrow> trigger \<Rightarrow> message \<Rightarrow> 'w \<Rightarrow> (message_result \<times> worker) \<times> 'w" where
  "HandleMessage cd o' wk t msg w =
     (let wk = bump (Received (mt_id t)) wk in
      case client_Acquire cd o' (wk_gateway wk) t msg w of
        (Inl e, w) \<Rightarrow> (give_up t msg (ge_text e) wk, w)
      | (Inr l, w) \<Rightarrow>
          (let deadline = invoke_deadline l in
           case invokeRuntime cd o' wk deadline l t msg w of
             (Some e, w) \<Rightarrow>
               (case releaseLease cd o' wk (cl_lease_id l) (failure_status e (ou_ctx o' deadline w)) w of
                  (Some re, w) \<Rightarrow> (retry t (ge_text re) wk, w)
                | (None, w) \<Rightarrow> (give_up t msg (ge_text e) wk, w))
           | (None, w) \<Rightarrow>
               (case releaseLease cd o' wk (cl_lease_id l) ''success'' w of
                  (Some re, w) \<Rightarrow> (retry t (ge_text re) wk, w)
                | (None, w) \<Rightarrow> ((\<lparr>mr_ack = True, mr_dlq = False, mr_reason = []\<rparr>, bump (Acked (mt_id t)) wk), w))))"

section \<open>Recording the calls\<close>

definition recording :: "'w outside \<Rightarrow> ('w \<times> out_request list) outside" where
  "recording o' =
     \<lparr>ou_net = \<lambda>r (w, calls). (case ou_net o' r w of (reply, w) \<Rightarrow> (reply, (w, calls @ [r]))),
      ou_ctx = \<lambda>d (w, calls). ou_ctx o' d w, ou_now = \<lambda>(w, calls). ou_now o' w\<rparr>"

lemma recording_net:
  "ou_net (recording o') r (w, calls) = (fst (ou_net o' r w), (snd (ou_net o' r w), calls @ [r]))"
  by (simp add: recording_def split: prod.split)

lemma recording_sel [simp]:
  "ou_ctx (recording o') d (w, calls) = ou_ctx o' d w" "ou_now (recording o') (w, calls) = ou_now o' w"
  by (simp_all add: recording_def)

lemma client_Acquire_calls:
  "client_Acquire cd (recording o') c t msg (w, calls) =
     (fst (client_Acquire cd o' c t msg w), (snd (client_Acquire cd o' c t msg w), calls @ [acquire_call cd c t msg]))"
  by (simp add: client_Acquire_def recording_net split: prod.split http_reply.split)

lemma client_Release_calls:
  "client_Release cd (recording o') c d lid st (w, calls) =
     (fst (client_Release cd o' c d lid st w), (snd (client_Release cd o' c d lid st w), calls @ [release_call cd c d lid st]))"
  by (simp add: client_Release_def recording_net split: prod.split http_reply.split)

lemma invokeRuntime_calls:
  "\<exists>inv. invokeRuntime cd (recording o') wk d l t msg (w, calls) =
      (fst (invokeRuntime cd o' wk d l t msg w), (snd (invokeRuntime cd o' wk d l t msg w), calls @ inv)) \<and>
    (inv = [] \<and> fst (invokeRuntime cd o' wk d l t msg w) \<noteq> None \<or>
     (\<exists>body. enc_event cd (buildEvent (ou_now o' w) t msg) = Inr body \<and> inv = [invoke_call wk d l t msg body]))"
  unfolding invokeRuntime_def
  by (cases "enc_event cd (buildEvent (ou_now o' w) t msg)")
    (auto simp: recording_net split: prod.splits http_reply.splits sum.splits)

lemma failure_status_valid: "failure_status e ctx \<in> {''error'', ''timeout'', ''abandoned''}"
  by (simp add: failure_status_def)

lemma bump_bump: "bump f (bump g wk) = bump (f \<circ> g) wk"
  by (simp add: bump_def option.map_comp)

lemma bump_gateway [simp]: "wk_gateway (bump f wk) = wk_gateway wk"
  by (simp add: bump_def)

lemma invoke_call_bump [simp]: "invoke_call (bump f wk) = invoke_call wk"
  by (intro ext) (simp add: invoke_call_def clientForLease_def bump_def)

lemma invokeRuntime_bump [simp]: "invokeRuntime cd o' (bump f wk) = invokeRuntime cd o' wk"
  by (intro ext) (simp only: invokeRuntime_def invoke_call_bump)

lemma releaseLease_bump [simp]: "releaseLease cd o' (bump f wk) = releaseLease cd o' wk"
  by (intro ext) (simp add: releaseLease_def)

text \<open>What a result stands for in the counters.\<close>

definition result_event :: "message_result \<Rightarrow> metric_event" where
  "result_event r = (if mr_ack r then EvAcked else if mr_dlq r then EvDLQed (mr_reason r) else EvRetried (mr_reason r))"

lemma metrics_after: "wk_metrics (bump f (bump g wk)) = map_option (\<lambda>m. f (g m)) (wk_metrics wk)"
  by (simp add: bump_def option.map_comp comp_def)

lemmas results = dead_letter_def retry_def result_event_def metrics_after

section \<open>Properties\<close>

lemma client_Release_confirmed:
  "fst (client_Release cd o' c d k st w) = None \<longleftrightarrow>
     (\<exists>text_out body. fst (ou_net o' (release_call cd c d k st) w) = Reply 204 text_out body)"
  by (auto simp: client_Release_def split: prod.split http_reply.split)

text \<open>C8. The lease discipline of a message, whatever the network answers. The gateway is asked
  once for an instance; without a lease nothing else is sent. With a lease, at most one event
  is posted, to the leased address, and then exactly one release of that lease follows, with a
  status the gateway knows, which is success exactly if the invocation was without an error. The message is acknowledged exactly
  if the release says success and the gateway answered it with 204, and then the event was posted; it is dead-lettered exactly if
  the invocation failed, the gateway answered the release with 204, the message's attempts
  are used up and there is a dead-letter queue. Any other answer to the release, or none, means a
  retry. The counters see the receipt and exactly this outcome.\<close>

theorem lease_discipline:
  assumes "HandleMessage cd (recording o') wk t msg (w, []) = ((res, wk'), (w', calls))"
  shows "(case client_Acquire cd o' (wk_gateway wk) t msg w of
       (Inl e, w1) \<Rightarrow> calls = [acquire_call cd (wk_gateway wk) t msg] \<and> \<not> mr_ack res \<and> mr_reason res = ge_text e \<and>
         (mr_dlq res \<longleftrightarrow> shouldDLQ t msg)
     | (Inr l, w1) \<Rightarrow>
         (case invokeRuntime cd o' wk (invoke_deadline l) l t msg w1 of (err, w2) \<Rightarrow>
          \<exists>posts status confirmed.
           calls = acquire_call cd (wk_gateway wk) t msg # posts @
             [release_call cd (wk_gateway wk) (Some (5 * second)) (cl_lease_id l) status] \<and>
           length posts \<le> 1 \<and> (\<forall>r \<in> set posts. or_host r = cl_address l \<and> or_path r = ''/events'') \<and>
           status \<in> {''success'', ''error'', ''timeout'', ''abandoned''} \<and> (status = ''success'' \<longleftrightarrow> err = None) \<and>
           (confirmed \<longleftrightarrow> (\<exists>text_out body. fst (ou_net o'
             (release_call cd (wk_gateway wk) (Some (5 * second)) (cl_lease_id l) status) w2) = Reply 204 text_out body)) \<and>
           (mr_ack res \<longleftrightarrow> status = ''success'' \<and> confirmed) \<and> (mr_ack res \<longrightarrow> length posts = 1) \<and>
           (mr_dlq res \<longleftrightarrow> status \<noteq> ''success'' \<and> confirmed \<and> shouldDLQ t msg))) \<and>
    wk_metrics wk' = map_option (\<lambda>m. apply_event (mt_id t, result_event res) (Received (mt_id t) m)) (wk_metrics wk)"
proof -
  obtain a w1 where acq: "client_Acquire cd o' (wk_gateway wk) t msg w = (a, w1)" by fastforce
  let ?calls = "[acquire_call cd (wk_gateway wk) t msg]"
  show ?thesis
  proof (cases a)
    case (Inl e)
    then have run: "((res, wk'), (w', calls)) = (give_up t msg (ge_text e) (bump (Received (mt_id t)) wk), (w1, ?calls))"
      using assms acq by (simp add: HandleMessage_def Let_def client_Acquire_calls)
    then show ?thesis using acq Inl
      by (cases "shouldDLQ t msg") (simp_all add: give_up_def results)
  next
    case (Inr l)
    let ?d = "invoke_deadline l"
    obtain err w2 where ie: "invokeRuntime cd o' wk ?d l t msg w1 = (err, w2)" by fastforce
    obtain inv where inv: "invokeRuntime cd (recording o') wk ?d l t msg (w1, ?calls) = (err, (w2, ?calls @ inv))"
      "inv = [] \<and> err \<noteq> None \<or> (\<exists>body. inv = [invoke_call wk ?d l t msg body])"
      using invokeRuntime_calls [of cd o' wk ?d l t msg w1 ?calls] ie by auto
    let ?st = "case err of None \<Rightarrow> ''success'' | Some e \<Rightarrow> failure_status e (ou_ctx o' ?d w2)"
    let ?rel = "client_Release cd o' (wk_gateway wk) (Some (5 * second)) (cl_lease_id l) ?st w2"
    have posts: "length inv \<le> 1" "\<forall>r \<in> set inv. or_host r = cl_address l \<and> or_path r = ''/events''"
      using inv(2) by (auto simp: invoke_call_def)
    have posted: "err = None \<longrightarrow> length inv = 1" using inv(2) by auto
    have st: "?st \<in> {''success'', ''error'', ''timeout'', ''abandoned''}" "?st = ''success'' \<longleftrightarrow> err = None"
      by (auto simp: failure_status_def split: option.split)
    have run: "HandleMessage cd (recording o') wk t msg (w, []) =
      ((case fst ?rel of
          Some re \<Rightarrow> retry t (ge_text re) (bump (Received (mt_id t)) wk)
        | None \<Rightarrow> (case err of
            Some e \<Rightarrow> give_up t msg (ge_text e) (bump (Received (mt_id t)) wk)
          | None \<Rightarrow> (\<lparr>mr_ack = True, mr_dlq = False, mr_reason = []\<rparr>, bump (Acked (mt_id t)) (bump (Received (mt_id t)) wk)))),
       (snd ?rel, ?calls @ inv @ [release_call cd (wk_gateway wk) (Some (5 * second)) (cl_lease_id l) ?st]))"
      using Inr acq inv(1)
      by (cases err) (simp_all add: HandleMessage_def Let_def client_Acquire_calls releaseLease_def
        client_Release_calls split: option.split)
    have out: "(mr_ack res \<longleftrightarrow> ?st = ''success'' \<and> fst ?rel = None) \<and> (mr_ack res \<longrightarrow> length inv = 1) \<and>
        (mr_dlq res \<longleftrightarrow> ?st \<noteq> ''success'' \<and> fst ?rel = None \<and> shouldDLQ t msg) \<and>
        wk_metrics wk' = map_option (\<lambda>m. apply_event (mt_id t, result_event res) (Received (mt_id t) m)) (wk_metrics wk) \<and>
        calls = ?calls @ inv @ [release_call cd (wk_gateway wk) (Some (5 * second)) (cl_lease_id l) ?st]"
    proof (cases "fst ?rel")
      case (Some re)
      with run assms show ?thesis by (simp add: results)
    next
      case None
      show ?thesis
      proof (cases err)
        case ok: None
        with inv(2) have "length inv = 1" by auto
        with run assms None ok show ?thesis by (simp add: results)
      next
        case (Some e)
        with run assms None st(2) show ?thesis by (cases "shouldDLQ t msg") (simp_all add: results give_up_def)
      qed
    qed
    show ?thesis
      unfolding acq Inr prod.case sum.case ie
      by (intro conjI exI [of _ inv] exI [of _ ?st] exI [of _ "fst ?rel = None"])
        (use out posts posted st client_Release_confirmed in \<open>simp_all\<close>)
  qed
qed

definition sample_codec :: codec where
  "sample_codec =
     \<lparr>enc_acquire = (\<lambda>_. ''{}''), enc_status = (\<lambda>s. s), enc_event = (\<lambda>_. Inr ''{}''),
      dec_lease = (\<lambda>_. Inr \<lparr>cl_lease_id = ''L'', cl_function = ''f'', cl_instance_id = ''c0'',
                             cl_address = ''localhost:9101'', cl_timeout_seconds = 30\<rparr>),
      dec_triggers = (\<lambda>_. Inr []), dec_result = (\<lambda>_. Inr 200)\<rparr>"

definition sample_outside :: "unit outside" where
  "sample_outside =
     \<lparr>ou_net = \<lambda>r w. (Reply (if or_path r = ''/internal/leases/L/release'' then 204 else 200) [] ([], None), w),
      ou_ctx = \<lambda>_ _. None, ou_now = \<lambda>_. ''2024-01-01T00:00:00Z''\<rparr>"

definition sample_message :: message where
  "sample_message = \<lparr>msg_id = ''m1'', msg_body = ''{}'', msg_headers = Map.empty, msg_attempts = 0\<rparr>"

definition sample_worker :: worker where
  "sample_worker = NewWorker \<lparr>gc_addr = ''gw:8081'', gc_token = [], gc_timeout = 10 * second\<rparr>"

lemma sample_lease_escape: "path_safe CHR ''L''"
  by code_simp

lemma sample_handled:
  "\<exists>wk' calls. HandleMessage sample_codec (recording sample_outside) sample_worker sample_mq_trigger sample_message ((), []) =
     ((\<lparr>mr_ack = True, mr_dlq = False, mr_reason = []\<rparr>, wk'), ((), calls))"
  by (simp add: HandleMessage_def Let_def client_Acquire_def client_Release_def invokeRuntime_def releaseLease_def
    recording_def sample_outside_def sample_codec_def release_call_def acquire_call_def sample_lease_escape invoke_call_def)

theorem lease_discipline_witness:
  "\<exists>calls wk'. HandleMessage sample_codec (recording sample_outside) sample_worker sample_mq_trigger sample_message ((), []) =
     ((\<lparr>mr_ack = True, mr_dlq = False, mr_reason = []\<rparr>, wk'), ((), calls)) \<and> length calls = 3"
proof -
  obtain wk' calls where run: "HandleMessage sample_codec (recording sample_outside) sample_worker sample_mq_trigger
      sample_message ((), []) = ((\<lparr>mr_ack = True, mr_dlq = False, mr_reason = []\<rparr>, wk'), ((), calls))"
    using sample_handled by blast
  have lease: "\<exists>l. client_Acquire sample_codec sample_outside (wk_gateway sample_worker) sample_mq_trigger
      sample_message () = (Inr l, ())"
    by (simp add: client_Acquire_def sample_outside_def sample_codec_def acquire_call_def)
  have "length calls = 3"
    using lease_discipline [OF run] lease by (auto split: prod.splits)
  with run show ?thesis by blast
qed

text \<open>An event carries its message unchanged: a body that is JSON is passed on as it is, any other
  body in base64, from which the receiver decodes exactly the same bytes; the flag says which
  of the two fields is in use. The id, queue and headers are those of the message, and the
  source is never empty.\<close>

theorem event_lossless:
  "(if ev_is_base64 (buildEvent now t msg)
    then ev_body (buildEvent now t msg) = [] \<and> \<not> json_valid (msg_body msg) \<and>
      b64_decode (ev_body_base64 (buildEvent now t msg)) = Some (msg_body msg)
    else ev_body (buildEvent now t msg) = msg_body msg \<and> json_valid (msg_body msg) \<and>
      ev_body_base64 (buildEvent now t msg) = []) \<and>
   ev_id (buildEvent now t msg) = msg_id msg \<and> ev_headers (buildEvent now t msg) = msg_headers msg \<and>
   ev_subject (buildEvent now t msg) = mt_queue t \<and> ev_source (buildEvent now t msg) \<noteq> [] \<and>
   (ev_source (buildEvent now (normalizeTrigger t inst) msg) = (if mi_broker inst = [] then
      (if mt_type t = [] \<or> mt_type t = ''mq'' then ''rabbitmq'' else mt_type t) else mi_broker inst))"
  by (simp add: buildEvent_def Let_def b64_decode_encode)

end
