(* ===== verification/Message_Flow.thy ===== *)
theory Message_Flow
  imports Gateway_Routes MQ_Worker
begin

text \<open>
  One message across two programs: mqsvc's worker (MQ_Worker) with the gateway's internal
  listener (Gateway_Http) at the other end of its HTTP calls. The network carries the worker's
  requests to the real mux, so the paths the client builds are parsed by the handlers that take
  them apart, the token of the one is checked by the other, and the state of the leases is the
  scheduler's own. What the leased instance does with an event, and whatever else happens in the
  meantime to the gateway, is arbitrary.
\<close>

section \<open>The network\<close>

text \<open>A call of the worker may fail in two ways: the request does not reach the gateway, or the gateway serves
  it and the reply is lost, for example because the client's timeout of 10 s ends before a cold start.\<close>

datatype fault = Unreached go_error | ReplyLost go_error

text \<open>What carries the requests: \<open>nw_fault\<close> is the fault of the next call to the gateway, if it has one,
  \<open>nw_invoke\<close> answers every request to another host and may change the gateway meanwhile, as its
  other clients and its reaper do, and \<open>nw_json\<close> is the body the gateway writes for a payload.\<close>

record 'u network =
  nw_addr :: string
  nw_scaler :: string
  nw_world :: "'u \<Rightarrow> world"
  nw_fault :: "'u \<Rightarrow> fault option"
  nw_next :: "'u \<Rightarrow> 'u"
  nw_invoke :: "out_request \<Rightarrow> gateway \<times> 'u \<Rightarrow> http_reply \<times> gateway \<times> 'u"
  nw_json :: "payload \<Rightarrow> string"
  nw_status :: "int \<Rightarrow> string"

text \<open>The server's view of a request: the path is decoded, an absent body reads as an empty one.\<close>

definition to_request :: "out_request \<Rightarrow> request option" where
  "to_request r =
     map_option (\<lambda>p. \<lparr>rq_method = or_method r, rq_path = p,
         rq_auth = (case map_of (or_headers r) ''Authorization'' of None \<Rightarrow> [] | Some v \<Rightarrow> v),
         rq_body = Some (case or_body r of None \<Rightarrow> [] | Some b \<Rightarrow> b)\<rparr>)
       (path_unescape (or_path r))"

definition serve_reply :: "'u network \<Rightarrow> response option \<Rightarrow> http_reply" where
  "serve_reply nw out =
     (case out of
        None \<Rightarrow> Failed (errorf ''EOF'')
      | Some rsp \<Rightarrow> Reply (rs_status rsp) (nw_status nw (rs_status rsp)) (nw_json nw (rs_payload rsp), None))"

definition gateway_serve :: "'u network \<Rightarrow> string \<Rightarrow> out_request \<Rightarrow> gateway \<Rightarrow> 'u \<Rightarrow> http_reply \<times> gateway" where
  "gateway_serve nw token r g u =
     (case to_request r of
        None \<Rightarrow> (serve_reply nw (http_error (Plain ''400 Bad Request'') 400), g)
      | Some req \<Rightarrow>
          (case NewInternalMux (nw_scaler nw) token (nw_world nw u) req g of (out, g) \<Rightarrow> (serve_reply nw out, g)))"

definition gateway_net :: "'u network \<Rightarrow> string \<Rightarrow> out_request \<Rightarrow> gateway \<times> 'u \<Rightarrow> http_reply \<times> gateway \<times> 'u" where
  "gateway_net nw token r gu =
     (if or_host r \<noteq> nw_addr nw then nw_invoke nw r gu
      else case gu of (g, u) \<Rightarrow>
        (case nw_fault nw u of
           Some (Unreached e) \<Rightarrow> (Failed e, g, nw_next nw u)
         | Some (ReplyLost e) \<Rightarrow> (Failed e, snd (gateway_serve nw token r g u), nw_next nw u)
         | None \<Rightarrow> (case gateway_serve nw token r g u of (rp, g) \<Rightarrow> (rp, g, nw_next nw u))))"

text \<open>What the two sides rely on: each can read what the other writes as JSON, and a lease id is a
  UUID in its text form, whose characters are those of a DNS label.\<close>

definition wire_ok :: "codec \<Rightarrow> 'u network \<Rightarrow> bool" where
  "wire_ok cd nw \<longleftrightarrow>
     (\<forall>u st. isValidLeaseStatus st \<longrightarrow> w_release (nw_world nw u) (enc_status cd st) = Some st) \<and>
     (\<forall>l. label_ok 63 (il_lease_id l) \<longrightarrow>
        (\<exists>c. dec_lease cd (nw_json nw (JsonLease l), None) = Inr c \<and> cl_lease_id c = il_lease_id l)) \<and>
     (\<forall>u. label_ok 63 (w_lease_id (nw_world nw u)))"

section \<open>The two calls\<close>

lemma authorized:
  assumes "rq_auth req = (case map_of (json_header # authorize (NewGatewayClient env addr)) ''Authorization'' of
      None \<Rightarrow> [] | Some v \<Rightarrow> v)" "clean_path (rq_path req) = rq_path req"
  shows "NewInternalMux sa (env ''INTERNAL_API_TOKEN'') w req g = internal_serve sa w req g"
  using assms
  by (auto simp: NewInternalMux_def withInternalAuth_def route_root json_header_def authorize_def NewGatewayClient_def)

text \<open>The gateway answers a call of its client: the token is accepted, and the path arrives as the
  client put it together.\<close>

definition served_request :: "gateway_client \<Rightarrow> string \<Rightarrow> string \<Rightarrow> request" where
  "served_request c path body =
     \<lparr>rq_method = ''POST'', rq_path = path,
      rq_auth = (case map_of (json_header # authorize c) ''Authorization'' of None \<Rightarrow> [] | Some v \<Rightarrow> v),
      rq_body = Some body\<rparr>"

lemma call_served:
  assumes "list_all comp_ok ws" "ws \<noteq> []" "CHR ''%'' \<notin> set (render ws)"
    "c = NewGatewayClient env (nw_addr nw)"
    "or_method r = ''POST''" "or_path r = render ws" "or_headers r = json_header # authorize c"
    "or_body r = Some body"
  shows "gateway_serve nw (env ''INTERNAL_API_TOKEN'') r g u =
     (case internal_serve (nw_scaler nw) (nw_world nw u) (served_request c (render ws) body) g of
        (out, g) \<Rightarrow> (serve_reply nw out, g))"
proof -
  have "to_request r = Some (served_request c (render ws) body)"
    using assms(3,5-) by (simp add: to_request_def served_request_def path_unescape_plain)
  moreover have "NewInternalMux sa (env ''INTERNAL_API_TOKEN'') w (served_request c (render ws) body) g =
      internal_serve sa w (served_request c (render ws) body) g" for sa w
    using clean_path_render [OF assms(1,2)] authorized [of "served_request c (render ws) body" env "nw_addr nw"] assms(4)
    by (simp add: served_request_def)
  ultimately show ?thesis by (simp add: gateway_serve_def)
qed

lemma acquire_served:
  assumes "c = NewGatewayClient env (nw_addr nw)" "label_ok n (mt_function t)"
  obtains body where "gateway_serve nw (env ''INTERNAL_API_TOKEN'') (acquire_call cd c t msg) g u =
     (case acquire_handler (nw_world nw u)
             (served_request c (''/internal/functions/'' @ mt_function t @ ''/instances/acquire'') body) g of
        (out, g) \<Rightarrow> (serve_reply nw out, g))"
proof -
  note f = label_chars [OF assms(2)]
  show ?thesis
  proof (rule that, subst call_served [OF _ _ _ assms(1)])
    show "or_path (acquire_call cd c t msg) = render [''internal'', ''functions'', mt_function t, ''instances'', ''acquire'']"
      by (simp add: acquire_call_def path_escape_safe f(4) acquire_path [symmetric])
  qed (use f(3,5) route_acquire [OF f(3)] in \<open>auto simp: comp_ok_def render_def acquire_call_def internal_serve_def served_request_def\<close>)
qed

lemma release_served:
  assumes "c = NewGatewayClient env (nw_addr nw)" "label_ok n k"
  shows "gateway_serve nw (env ''INTERNAL_API_TOKEN'') (release_call cd c d k st) g u =
     (case release_handler (nw_world nw u)
             (served_request c (''/internal/leases/'' @ k @ ''/release'') (enc_status cd st)) g of
        (out, g) \<Rightarrow> (serve_reply nw out, g))"
proof -
  note f = label_chars [OF assms(2)]
  show ?thesis
  proof (subst call_served [OF _ _ _ assms(1)])
    show "or_path (release_call cd c d k st) = render [''internal'', ''leases'', k, ''release'']"
      by (simp add: release_call_def path_escape_safe f(4) release_path [symmetric])
  qed (use f(3,5) route_release [OF f(3)] in \<open>auto simp: comp_ok_def render_def release_call_def internal_serve_def served_request_def\<close>)
qed

text \<open>How the reply of a call to the gateway comes back.\<close>

lemma net_gateway:
  assumes "or_host r = nw_addr nw"
  shows "gateway_net nw token r (g, u) =
    (case nw_fault nw u of
       Some (Unreached e) \<Rightarrow> (Failed e, g, nw_next nw u)
     | Some (ReplyLost e) \<Rightarrow> (Failed e, snd (gateway_serve nw token r g u), nw_next nw u)
     | None \<Rightarrow> (fst (gateway_serve nw token r g u), snd (gateway_serve nw token r g u), nw_next nw u))"
  using assms by (simp add: gateway_net_def split: option.split fault.split prod.split)

lemma AcquireInstance_leases:
  assumes "AcquireInstance env backend t1 t2 t3 k req s = (res, s')"
  shows "case res of
      Inl e \<Rightarrow> s_leases s' = s_leases s
    | Inr l \<Rightarrow> il_lease_id l = k \<and> (\<exists>lr. s_leases s' = (s_leases s)(k \<mapsto> lr) \<and> lr_lease lr = l \<and> \<not> lr_released lr)"
proof -
  have acq: "s_leases (snd (Acquire backend t1 t2 name s)) = s_leases s" for name
  proof -
    obtain q s0 where lock: "acquire_locked t1 name s = (q, s0)" by fastforce
    from lock show ?thesis
      by (cases rule: acquire_locked_cases)
        (simp_all add: Acquire_def lock pool_append_def Let_def split: sum.split)
  qed
  show ?thesis
    using assms acq [of "ar_function req"]
    by (auto simp: AcquireInstance_def lease_insert_def lease_of_def Let_def split: option.splits prod.splits sum.splits)
qed

text \<open>What serving an acquire call does to the leases, whatever becomes of the reply.\<close>

lemma acquire_handler_leases:
  assumes "label_ok n f" "acquire_handler w (served_request c (''/internal/functions/'' @ f @ ''/instances/acquire'') body) g = (out, g1)"
  shows "(\<exists>rsp. out = Some rsp \<and> rs_status rsp \<noteq> 200 \<and> s_leases (gw_sched g1) = s_leases (gw_sched g)) \<or>
    (\<exists>l lr. out = Some \<lparr>rs_status = 200, rs_payload = JsonLease l\<rparr> \<and> il_lease_id l = w_lease_id w \<and>
       s_leases (gw_sched g1) = (s_leases (gw_sched g))(w_lease_id w \<mapsto> lr) \<and> \<not> lr_released lr)"
proof (cases "w_acquire w body")
  case None
  then show ?thesis
    using assms(2) label_chars(1,2) [OF assms(1)] by (auto simp: acquire_handler_def served_request_def
      trim_prefix_append cut_suffix_append http_error_def simp del: append_Cons)
next
  case (Some b)
  note f = label_chars [OF assms(1)]
  obtain a s where acq: "AcquireInstance (w_env w) (w_backend w) (w_t1 w) (w_t2 w) (w_t3 w) (w_lease_id w)
      \<lparr>ar_function = f, ar_source = ab_source b, ar_mq_id = ab_mq_id b,
       ar_trigger_id = ab_trigger_id b, ar_message_id = ab_message_id b,
       ar_timeout_seconds = ab_timeout_seconds b\<rparr> (gw_sched g) = (a, s)" by fastforce
  show ?thesis
    using assms(2) f(1,2) Some AcquireInstance_leases [OF acq]
    by (cases a) (auto simp: acquire_handler_def served_request_def trim_prefix_append cut_suffix_append http_error_def
      write_header_def acq acquire_error_status_def split: sched_error.splits simp del: append_Cons)
qed

definition reply_lost :: "'u network \<Rightarrow> 'u \<Rightarrow> bool" where
  "reply_lost nw u \<longleftrightarrow> (\<exists>e. nw_fault nw u = Some (ReplyLost e))"

lemma client_Acquire_leases:
  assumes "wire_ok cd nw" "ou_net o' = gateway_net nw (env ''INTERNAL_API_TOKEN'')"
    "c = NewGatewayClient env (nw_addr nw)" "label_ok n (mt_function t)"
    "client_Acquire cd o' c t msg (g, u) = (res, g1, u1)"
  shows "case res of
      Inl e \<Rightarrow> s_leases (gw_sched g1) = s_leases (gw_sched g) \<or>
        reply_lost nw u \<and> (\<exists>lr. s_leases (gw_sched g1) = (s_leases (gw_sched g))(w_lease_id (nw_world nw u) \<mapsto> lr) \<and> \<not> lr_released lr)
    | Inr l \<Rightarrow> label_ok 63 (cl_lease_id l) \<and>
        (\<exists>lr. s_leases (gw_sched g1) = (s_leases (gw_sched g))(cl_lease_id l \<mapsto> lr) \<and> \<not> lr_released lr)"
proof -
  obtain body where serve: "gateway_serve nw (env ''INTERNAL_API_TOKEN'') (acquire_call cd c t msg) g u =
     (case acquire_handler (nw_world nw u)
             (served_request c (''/internal/functions/'' @ mt_function t @ ''/instances/acquire'') body) g of
        (out, g) \<Rightarrow> (serve_reply nw out, g))"
    by (rule acquire_served [OF assms(3,4)])
  obtain out g2 where h: "acquire_handler (nw_world nw u)
      (served_request c (''/internal/functions/'' @ mt_function t @ ''/instances/acquire'') body) g = (out, g2)"
    by fastforce
  have host: "or_host (acquire_call cd c t msg) = nw_addr nw" by (simp add: acquire_call_def assms(3) NewGatewayClient_def)
  have srv: "gateway_serve nw (env ''INTERNAL_API_TOKEN'') (acquire_call cd c t msg) g u = (serve_reply nw out, g2)"
    by (simp only: serve h prod.case)
  have net: "ou_net o' (acquire_call cd c t msg) (g, u) =
    (case nw_fault nw u of
       Some (Unreached e) \<Rightarrow> (Failed e, g, nw_next nw u)
     | Some (ReplyLost e) \<Rightarrow> (Failed e, g2, nw_next nw u)
     | None \<Rightarrow> (serve_reply nw out, g2, nw_next nw u))"
    by (simp add: assms(2) net_gateway [of _ nw, OF host] srv split: option.split fault.split)
  note cases = acquire_handler_leases [OF assms(4) h]
  show ?thesis
  proof (cases "nw_fault nw u")
    case (Some ft)
    then show ?thesis
      using assms(5) cases by (cases ft) (auto simp: client_Acquire_def net reply_lost_def)
  next
    case None
    from cases show ?thesis
    proof (elim disjE exE conjE)
      fix rsp
      assume "out = Some rsp" "rs_status rsp \<noteq> 200" "s_leases (gw_sched g2) = s_leases (gw_sched g)"
      then show ?thesis using assms(5) None by (auto simp: client_Acquire_def net serve_reply_def)
    next
      fix l lr
      assume l: "out = Some \<lparr>rs_status = 200, rs_payload = JsonLease l\<rparr>" "il_lease_id l = w_lease_id (nw_world nw u)"
        "s_leases (gw_sched g2) = (s_leases (gw_sched g))(w_lease_id (nw_world nw u) \<mapsto> lr)" "\<not> lr_released lr"
      have k: "label_ok 63 (il_lease_id l)" using l(2) assms(1) by (simp add: wire_ok_def)
      then obtain cl where cl: "dec_lease cd (nw_json nw (JsonLease l), None) = Inr cl" "cl_lease_id cl = il_lease_id l"
        using assms(1) unfolding wire_ok_def by blast
      have "client_Acquire cd o' c t msg (g, u) = (Inr cl, g2, nw_next nw u)"
        using None l(1) cl(1) by (simp add: client_Acquire_def net serve_reply_def)
      then show ?thesis using assms(5) cl(2) k l(2-) by auto
    qed
  qed
qed

definition live_leases :: "gateway \<Rightarrow> bool" where
  "live_leases g \<longleftrightarrow> (\<forall>k lr. s_leases (gw_sched g) k = Some lr \<longrightarrow> \<not> lr_released lr)"

lemma client_Release_leases:
  assumes "wire_ok cd nw" "ou_net o' = gateway_net nw (env ''INTERNAL_API_TOKEN'')"
    "c = NewGatewayClient env (nw_addr nw)" "label_ok 63 k" "isValidLeaseStatus st" "live_leases g"
    "client_Release cd o' c d k st (g, u) = (err, g', u')"
  shows "case nw_fault nw u of
      None \<Rightarrow> s_leases (gw_sched g') = (s_leases (gw_sched g))(k := None) \<and>
        (err = None \<longleftrightarrow> s_leases (gw_sched g) k \<noteq> None)
    | Some (ReplyLost e) \<Rightarrow> s_leases (gw_sched g') = (s_leases (gw_sched g))(k := None) \<and> err \<noteq> None
    | Some (Unreached e) \<Rightarrow> err \<noteq> None \<and> g' = g"
proof -
  note serve = release_served [OF assms(3,4)]
  note f = label_chars [OF assms(4)]
  have st: "st \<noteq> []" "w_release (nw_world nw u) (enc_status cd st) = Some st"
    using assms(1,5) by (auto simp: wire_ok_def isValidLeaseStatus_def)
  obtain e stops s where rel: "ReleaseInstance k st (w_t1 (nw_world nw u)) (gw_sched g) = (e, stops, s)"
    by (metis prod_cases3)
  have effect: "s_leases s = (s_leases (gw_sched g))(k := None)"
    "e = (if s_leases (gw_sched g) k = None then Some (LeaseNotFound k) else None)"
    using rel assms(5,6)
    by (auto simp: ReleaseInstance_def releaseInstanceLocked_def Let_def live_leases_def removeInstanceLocked_def
      fun_upd_idem split: option.splits if_splits)
  obtain out g2 where h: "release_handler (nw_world nw u)
      (served_request c (''/internal/leases/'' @ k @ ''/release'') (enc_status cd st)) g = (out, g2)" by fastforce
  have served: "s_leases (gw_sched g2) = (s_leases (gw_sched g))(k := None)"
    "out \<noteq> None \<and> (rs_status (the out) = 204 \<longleftrightarrow> s_leases (gw_sched g) k \<noteq> None)"
    using h f(1,2) st effect rel
    by (cases "s_leases (gw_sched g) k"; auto simp: release_handler_def served_request_def
      trim_prefix_append cut_suffix_append write_header_def http_error_def release_error_status_def
      simp del: append_Cons)+
  have host: "or_host (release_call cd c d k st) = nw_addr nw" by (simp add: release_call_def assms(3) NewGatewayClient_def)
  have srv: "gateway_serve nw (env ''INTERNAL_API_TOKEN'') (release_call cd c d k st) g u = (serve_reply nw out, g2)"
    by (simp only: serve h prod.case)
  have net: "ou_net o' (release_call cd c d k st) (g, u) =
    (case nw_fault nw u of
       Some (Unreached e) \<Rightarrow> (Failed e, g, nw_next nw u)
     | Some (ReplyLost e) \<Rightarrow> (Failed e, g2, nw_next nw u)
     | None \<Rightarrow> (serve_reply nw out, g2, nw_next nw u))"
    by (simp add: assms(2) net_gateway [of _ nw, OF host] srv split: option.split fault.split)
  show ?thesis
    using assms(7) served
    by (cases out) (auto simp: client_Release_def net serve_reply_def split: option.splits fault.splits if_splits)
qed

text \<open>An event that is posted to the gateway itself by mistake changes nothing there.\<close>

lemma no_event_route: "mux_dispatch internal_patterns ''/events'' = NoRoute"
  by code_simp

lemma event_path: "path_unescape ''/events'' = Some ''/events'' \<and> clean_path ''/events'' = ''/events''"
  by (simp add: path_unescape_plain) code_simp

lemma NewInternalMux_event: "rq_path req = ''/events'' \<Longrightarrow> snd (NewInternalMux sa token w req g) = g"
  using event_path no_event_route
  by (simp add: NewInternalMux_def withInternalAuth_def route_root internal_serve_def)

lemma invokeRuntime_live:
  assumes "ou_net o' = gateway_net nw token"
    "\<forall>r gu. live_leases (fst gu) \<longrightarrow> live_leases (fst (snd (nw_invoke nw r gu)))" "live_leases g"
  shows "live_leases (fst (snd (invokeRuntime cd o' wk d l t msg (g, u))))"
proof -
  have "live_leases (fst (snd (ou_net o' (invoke_call wk d l t msg body) (g, u))))" for body
  proof (cases "or_host (invoke_call wk d l t msg body) = nw_addr nw")
    case True
    obtain req where "to_request (invoke_call wk d l t msg body) = Some req" "rq_path req = ''/events''"
      using event_path by (simp add: to_request_def invoke_call_def)
    with True show ?thesis
      using NewInternalMux_event [of req] assms(3)
      by (auto simp: assms(1) gateway_net_def gateway_serve_def split: option.split prod.split fault.split) (metis snd_conv)+
  next
    case False
    with assms(2,3) show ?thesis by (simp add: assms(1) gateway_net_def)
  qed
  moreover have "snd (invokeRuntime cd o' wk d l t msg w) = w \<or>
      (\<exists>body. snd (invokeRuntime cd o' wk d l t msg w) = snd (ou_net o' (invoke_call wk d l t msg body) w))" for w
  proof (cases "enc_event cd (buildEvent (ou_now o' w) t msg)")
    case (Inr body)
    obtain rp w' where "ou_net o' (invoke_call wk d l t msg body) w = (rp, w')" by (metis surj_pair)
    with Inr show ?thesis
      by (intro disjI2 exI [of _ body]) (auto simp: invokeRuntime_def split: http_reply.split sum.split)
  qed (simp add: invokeRuntime_def)
  ultimately show ?thesis using assms(3) by (metis fst_conv)
qed

section \<open>Properties\<close>

text \<open>C2. One message through both programs, whichever calls to the gateway fail, before they reach it or
  after it has served them. If the worker gets no instance, the message is not acknowledged, and the
  leases are as before, unless the reply of the gateway was lost: then at most the one lease is left
  whose id the gateway drew. If it gets an instance, exactly that lease was added, and whatever the
  function answers and whatever the other clients and the reaper do meanwhile, the message ends with
  that lease gone and every other as it was at that moment, when the gateway was reached. The message is acknowledged
  exactly when the function succeeded and the gateway confirmed the release of a lease still alive: a
  message whose lease the reaper took first, or whose release did not arrive or was not confirmed, is neither
  acknowledged nor dead-lettered but delivered again.\<close>

theorem message_lease_closed:
  assumes "wire_ok cd nw" "ou_net o' = gateway_net nw (env ''INTERNAL_API_TOKEN'')"
    "wk_gateway wk = NewGatewayClient env (nw_addr nw)" "label_ok 63 (mt_function t)" "live_leases g"
    "\<forall>r gu. live_leases (fst gu) \<longrightarrow> live_leases (fst (snd (nw_invoke nw r gu)))"
    "HandleMessage cd o' wk t msg (g, u) = ((res, wk'), (g', u'))"
  shows "case client_Acquire cd o' (wk_gateway wk) t msg (g, u) of
      (Inl e, g1, u1) \<Rightarrow> \<not> mr_ack res \<and> (s_leases (gw_sched g') = s_leases (gw_sched g) \<or>
        reply_lost nw u \<and> (\<exists>lr. s_leases (gw_sched g') = (s_leases (gw_sched g))(w_lease_id (nw_world nw u) \<mapsto> lr) \<and> \<not> lr_released lr))
    | (Inr l, g1, u1) \<Rightarrow>
        (\<exists>lr. s_leases (gw_sched g1) = (s_leases (gw_sched g))(cl_lease_id l \<mapsto> lr) \<and> \<not> lr_released lr) \<and>
        (case invokeRuntime cd o' wk (invoke_deadline l) l t msg (g1, u1) of (err, g2, u2) \<Rightarrow>
           case nw_fault nw u2 of
             None \<Rightarrow> s_leases (gw_sched g') = (s_leases (gw_sched g2))(cl_lease_id l := None) \<and>
               (mr_ack res \<longleftrightarrow> err = None \<and> s_leases (gw_sched g2) (cl_lease_id l) \<noteq> None) \<and>
               (mr_dlq res \<longleftrightarrow> err \<noteq> None \<and> s_leases (gw_sched g2) (cl_lease_id l) \<noteq> None \<and> shouldDLQ t msg)
           | Some (ReplyLost e) \<Rightarrow>
               s_leases (gw_sched g') = (s_leases (gw_sched g2))(cl_lease_id l := None) \<and> \<not> mr_ack res \<and> \<not> mr_dlq res
           | Some (Unreached e) \<Rightarrow> g' = g2 \<and> \<not> mr_ack res \<and> \<not> mr_dlq res)"
proof -
  obtain a g1 u1 where acq: "client_Acquire cd o' (wk_gateway wk) t msg (g, u) = (a, g1, u1)" by (metis prod_cases3)
  note added = client_Acquire_leases [OF assms(1-4) acq]
  show ?thesis
  proof (cases a)
    case (Inl e)
    then have run: "g' = g1" "\<not> mr_ack res"
      using assms(7) acq by (auto simp: HandleMessage_def Let_def give_up_def dead_letter_def retry_def split: if_splits)
    show ?thesis using added run acq Inl by simp
  next
    case (Inr l)
    then obtain lr where l: "label_ok 63 (cl_lease_id l)" "\<not> lr_released lr"
      "s_leases (gw_sched g1) = (s_leases (gw_sched g))(cl_lease_id l \<mapsto> lr)"
      using added by auto
    have "live_leases g1" using assms(5) l(2,3) by (simp add: live_leases_def)
    obtain err g2 u2 where inv: "invokeRuntime cd o' wk (invoke_deadline l) l t msg (g1, u1) = (err, g2, u2)"
      by (metis prod_cases3)
    have live: "live_leases g2"
      using invokeRuntime_live [OF assms(2,6) \<open>live_leases g1\<close>] inv by (metis fst_conv snd_conv)
    let ?st = "case err of None \<Rightarrow> ''success'' | Some e \<Rightarrow> failure_status e (ou_ctx o' (invoke_deadline l) (g2, u2))"
    have st: "isValidLeaseStatus ?st"
      using failure_status_valid by (auto simp: isValidLeaseStatus_def split: option.split)
    obtain re g3 u3 where rel: "client_Release cd o' (wk_gateway wk) (Some (5 * second)) (cl_lease_id l) ?st (g2, u2) = (re, g3, u3)"
      by (metis prod_cases3)
    note gone = client_Release_leases [OF assms(1-3) l(1) st live rel]
    have run: "g' = g3 \<and> (mr_ack res \<longleftrightarrow> err = None \<and> re = None) \<and>
        (mr_dlq res \<longleftrightarrow> err \<noteq> None \<and> re = None \<and> shouldDLQ t msg)"
      using assms(7) acq Inr inv rel
      by (cases err; cases re)
        (auto simp: HandleMessage_def Let_def releaseLease_def give_up_def dead_letter_def retry_def split: if_splits)
    from run gone show ?thesis using acq Inr inv l(2,3) by (auto split: option.splits fault.splits)
  qed
qed

text \<open>A message for the function \<open>f\<close> of the gateway whose pool has one idle container.\<close>

definition flow_world :: world where
  "flow_world = sample_world\<lparr>w_lease_id := ''l'', w_release := Some,
     w_acquire := \<lambda>_. Some \<lparr>ab_source = ''mq'', ab_mq_id = ''m'', ab_trigger_id = ''t'', ab_message_id = ''1'', ab_timeout_seconds = 0\<rparr>\<rparr>"

definition flow_network :: "unit network" where
  "flow_network = \<lparr>nw_addr = ''gw:8081'', nw_scaler = [], nw_world = \<lambda>_. flow_world, nw_fault = \<lambda>_. None, nw_next = \<lambda>u. u,
     nw_invoke = \<lambda>r gu. (Reply 200 ''200 OK'' ([], None), gu),
     nw_json = \<lambda>p. case p of JsonLease l \<Rightarrow> il_lease_id l | _ \<Rightarrow> [], nw_status = \<lambda>_. []\<rparr>"

definition flow_codec :: codec where
  "flow_codec = sample_codec\<lparr>dec_lease := \<lambda>b. Inr \<lparr>cl_lease_id = fst b, cl_function = ''f'', cl_instance_id = ''c0'',
     cl_address = ''localhost:9100'', cl_timeout_seconds = 30\<rparr>\<rparr>"

definition flow_outside :: "(gateway \<times> unit) outside" where
  "flow_outside = \<lparr>ou_net = gateway_net flow_network ''s3cret'', ou_ctx = \<lambda>_ _. None, ou_now = \<lambda>_. []\<rparr>"

definition flow_worker :: worker where
  "flow_worker = NewWorker (NewGatewayClient (\<lambda>_. ''s3cret'') ''gw:8081'')"

definition flow_trigger :: trigger where
  "flow_trigger = sample_mq_trigger\<lparr>mt_function := ''f''\<rparr>"

lemma flow_label: "label_ok 63 ''f''" "label_ok 63 ''l''"
  by (simp_all add: label_ok_def dns_char_def is_lower_def)

lemma flow_wire: "wire_ok flow_codec flow_network"
  by (simp add: wire_ok_def flow_network_def flow_world_def flow_codec_def sample_codec_def flow_label)

lemma flow_acquired:
  "\<exists>l g1. client_Acquire flow_codec flow_outside (wk_gateway flow_worker) flow_trigger sample_message (sample_gateway, ()) = (Inr l, g1, ()) \<and>
     cl_address l = ''localhost:9100''"
proof -
  let ?c = "NewGatewayClient (\<lambda>_. ''s3cret'') ''gw:8081''"
  have f: "label_ok 63 (mt_function flow_trigger)" by (simp add: flow_trigger_def flow_label)
  have nw: "?c = NewGatewayClient (\<lambda>_. ''s3cret'') (nw_addr flow_network)" by (simp add: flow_network_def)
  obtain body where net: "gateway_serve flow_network ''s3cret'' (acquire_call flow_codec ?c flow_trigger sample_message) sample_gateway () =
     (case acquire_handler (nw_world flow_network ())
             (served_request ?c (''/internal/functions/'' @ mt_function flow_trigger @ ''/instances/acquire'') body) sample_gateway of
        (out, g) \<Rightarrow> (serve_reply flow_network out, g))"
    by (rule acquire_served [OF nw f])
  have v: "validateAcquireTrigger sample_config sample_request = None"
    by (simp add: sample_request_def validateAcquireTrigger_def trigger_matches_def sample_config_def sample_trigger_def)
  obtain x s where acq: "AcquireInstance (\<lambda>_. []) (w_backend sample_world) 5 6 7 ''l'' sample_request (y_sched sample_warm) = (Inr x, s)"
    using v sample_acquire sample_get
    by (auto simp: AcquireInstance_def Acquire_def lease_insert_def sample_request_def Let_def)
  have world: "nw_world flow_network () = flow_world" by (simp add: flow_network_def)
  have run: "acquire_handler flow_world
      (served_request ?c (''/internal/functions/'' @ mt_function flow_trigger @ ''/instances/acquire'') body) sample_gateway =
      (Some \<lparr>rs_status = 200, rs_payload = JsonLease x\<rparr>, sample_gateway\<lparr>gw_sched := s\<rparr>)"
    using acq by (simp add: acquire_handler_def served_request_def trim_prefix_append cut_suffix_append write_header_def
      sample_gateway_def flow_trigger_def flow_world_def sample_world_def sample_request_def del: append_Cons)
  have host: "or_host (acquire_call flow_codec ?c flow_trigger sample_message) = nw_addr flow_network"
    by (simp add: acquire_call_def NewGatewayClient_def flow_network_def)
  have "gateway_net flow_network ''s3cret'' (acquire_call flow_codec ?c flow_trigger sample_message) (sample_gateway, ()) =
      (Reply 200 [] (il_lease_id x, None), sample_gateway\<lparr>gw_sched := s\<rparr>, ())"
    unfolding net_gateway [of _ flow_network, OF host] net world run by (simp add: flow_network_def serve_reply_def)
  then show ?thesis
    by (simp add: client_Acquire_def flow_outside_def flow_worker_def NewWorker_def) (simp add: flow_codec_def)
qed

theorem message_lease_closed_witness:
  "\<exists>res wk' g'. HandleMessage flow_codec flow_outside flow_worker flow_trigger sample_message (sample_gateway, ()) =
     ((res, wk'), (g', ())) \<and> mr_ack res \<and> s_leases (gw_sched g') = Map.empty"
proof -
  obtain res wk' g' where run: "HandleMessage flow_codec flow_outside flow_worker flow_trigger sample_message (sample_gateway, ()) =
      ((res, wk'), (g', ()))"
    by (metis (full_types) surj_pair old.unit.exhaust)
  obtain l g1 where acq: "client_Acquire flow_codec flow_outside (wk_gateway flow_worker) flow_trigger sample_message (sample_gateway, ()) =
      (Inr l, g1, ())" "cl_address l = ''localhost:9100''"
    using flow_acquired by blast
  have none: "s_leases (gw_sched sample_gateway) = Map.empty"
    by (simp add: sample_gateway_def sample_warm_def new_scheduler_def)
  have inv: "invokeRuntime flow_codec flow_outside flow_worker (invoke_deadline l) l flow_trigger sample_message (g1, ()) = (None, g1, ())"
    by (simp add: invokeRuntime_def flow_codec_def sample_codec_def flow_outside_def gateway_net_def flow_network_def invoke_call_def acq(2))
  have net: "ou_net flow_outside = gateway_net flow_network ((\<lambda>_. ''s3cret'') ''INTERNAL_API_TOKEN'')"
    by (simp add: flow_outside_def)
  have wk: "wk_gateway flow_worker = NewGatewayClient (\<lambda>_. ''s3cret'') (nw_addr flow_network)"
    by (simp add: flow_worker_def NewWorker_def flow_network_def)
  have f: "label_ok 63 (mt_function flow_trigger)" by (simp add: flow_trigger_def flow_label)
  have live: "live_leases sample_gateway" by (simp add: live_leases_def none)
  have quiet: "\<forall>r gu. live_leases (fst gu) \<longrightarrow> live_leases (fst (snd (nw_invoke flow_network r gu)))"
    by (simp add: flow_network_def)
  have up: "nw_fault flow_network () = None" by (simp add: flow_network_def)
  from message_lease_closed [OF flow_wire net wk f live quiet run] acq(1) inv none up run
  show ?thesis by auto
qed

end
