(* ===== verification/Float64.thy ===== *)
theory Float64
  imports Faas_Prelude "HOL-Library.Log_Nat"
begin

text \<open>
  The \<open>float64\<close> arithmetic of the scaler and the agent. A finite number is the rational it
  stands for; an operation is the exact one followed by \<open>fl64\<close>, rounding to 53 significant bits,
  ties to even. The exponent is not bounded here: every number these programs compute is 0 or lies
  between \<open>2 powr -70\<close> and \<open>2 powr 80\<close>, far from the ends of the range. Thresholds read from the
  environment may also be infinite or NaN, so they have a type of their own.
\<close>

section \<open>Rounding\<close>

definition round_even :: "rat \<Rightarrow> int" where
  "round_even x =
     (let f = \<lfloor>x\<rfloor>; d = x - of_int f in
      if d < 1 / 2 then f else if d > 1 / 2 then f + 1 else if even f then f else f + 1)"

definition pow2 :: "int \<Rightarrow> rat" where
  "pow2 e = (if 0 \<le> e then 2 ^ nat e else 1 / 2 ^ nat (- e))"

text \<open>The exponent of a positive number: \<open>pow2 e \<le> x < pow2 (e + 1)\<close>.\<close>

definition fl_exp :: "rat \<Rightarrow> int" where
  "fl_exp x =
     (case quotient_of x of (p, q) \<Rightarrow>
        let e = bitlen p - bitlen q in if pow2 e \<le> x then e else e - 1)"

definition fl64 :: "rat \<Rightarrow> rat" where
  "fl64 x =
     (if x = 0 then 0
      else let u = pow2 (fl_exp \<bar>x\<bar> - 52) in sgn x * (of_int (round_even (\<bar>x\<bar> / u)) * u))"

lemma round_even_int [simp]: "round_even (of_int n) = n"
  by (simp add: round_even_def)

lemma round_even_bounds: "\<lfloor>x\<rfloor> \<le> round_even x" "round_even x \<le> \<lfloor>x\<rfloor> + 1"
  by (simp_all add: round_even_def Let_def)

lemma round_even_mono: "x \<le> y \<Longrightarrow> round_even x \<le> round_even y"
proof -
  assume le: "x \<le> y"
  show ?thesis
  proof (cases "\<lfloor>x\<rfloor> = \<lfloor>y\<rfloor>")
    case True
    then show ?thesis using le by (auto simp: round_even_def Let_def)
  next
    case False
    then have "\<lfloor>x\<rfloor> + 1 \<le> \<lfloor>y\<rfloor>" using floor_mono [OF le] by linarith
    then show ?thesis using round_even_bounds(2) [of x] round_even_bounds(1) [of y] by linarith
  qed
qed

lemma pow2_pos [simp]: "0 < pow2 e"
  by (simp add: pow2_def)

lemma pow2_nz [simp]: "pow2 e \<noteq> 0"
  by (simp add: pow2_def)

lemma pow2_not_neg [simp]: "\<not> pow2 e < 0" "0 \<le> pow2 e"
  using pow2_pos [of e] by linarith+

lemma pow2_0 [simp]: "pow2 0 = 1"
  by (simp add: pow2_def)

lemma pow2_nat: "pow2 (int n) = 2 ^ n"
  by (simp add: pow2_def)

lemma pow2_Suc: "pow2 (e + 1) = 2 * pow2 e"
proof (cases "0 \<le> e")
  case True
  then show ?thesis by (simp add: pow2_def nat_add_distrib)
next
  case False
  then have "nat (- e) = Suc (nat (- (e + 1)))" by linarith
  then show ?thesis using False by (simp add: pow2_def)
qed

lemma pow2_add_nat: "pow2 (e + int n) = pow2 e * 2 ^ n"
proof (induction n)
  case (Suc n)
  have "pow2 (e + int (Suc n)) = pow2 (e + int n + 1)" by (simp add: algebra_simps)
  with Suc show ?case by (simp only: pow2_Suc power_Suc mult.left_commute)
qed simp

lemma pow2_add: "pow2 (a + b) = pow2 a * pow2 b"
proof (cases "0 \<le> b")
  case True
  then show ?thesis using pow2_add_nat [of a "nat b"] pow2_nat [of "nat b"] by simp
next
  case False
  then have "pow2 (a + b) * 2 ^ nat (- b) = pow2 a"
    using pow2_add_nat [of "a + b" "nat (- b)"] by simp
  then show ?thesis using False by (simp add: pow2_def field_simps)
qed

lemma pow2_mono: "a \<le> b \<Longrightarrow> pow2 a \<le> pow2 b"
proof -
  assume "a \<le> b"
  then have "pow2 b = pow2 a * 2 ^ nat (b - a)" using pow2_add_nat [of a "nat (b - a)"] by simp
  moreover have "pow2 a * 1 \<le> pow2 a * 2 ^ nat (b - a)" by (intro mult_left_mono) simp_all
  ultimately show ?thesis by simp
qed

lemma pow2_less_cancel: "pow2 a < pow2 b \<Longrightarrow> a < b"
  using pow2_mono [of b a] by (cases "a < b") auto

lemma fl_exp_spec:
  assumes "0 < x"
  shows "pow2 (fl_exp x) \<le> x \<and> x < pow2 (fl_exp x + 1)"
proof -
  obtain p q where pq: "quotient_of x = (p, q)" by fastforce
  then have q: "0 < q" and x: "x = of_int p / of_int q"
    by (simp_all add: quotient_of_denom_pos quotient_of_div)
  then have p: "0 < p" using assms by (simp add: zero_less_divide_iff)
  define a b where "a = bitlen p" and "b = bitlen q"
  have a: "1 \<le> a" "2 ^ nat (a - 1) \<le> p" "p < 2 ^ nat a" and b: "1 \<le> b" "2 ^ nat (b - 1) \<le> q" "q < 2 ^ nat b"
    using bitlen_bounds [OF p] bitlen_bounds [OF q] p q bitlen_nonneg [of p] bitlen_nonneg [of q]
      bitlen_eq_zero_iff [of p] bitlen_eq_zero_iff [of q]
    unfolding a_def b_def by linarith+
  have cast: "of_int (2 ^ nat k) = pow2 k" if "0 \<le> k" for k
    using that by (simp add: pow2_def)
  have P: "pow2 (a - 1) \<le> of_int p" "of_int p < pow2 a" and Q: "pow2 (b - 1) \<le> of_int q" "of_int q < pow2 b"
    using a b cast [of "a - 1"] cast [of a] cast [of "b - 1"] cast [of b]
    by (metis diff_ge_0_iff_ge dual_order.trans of_int_le_iff of_int_less_iff zero_le_one)+
  have "x < pow2 (a - b + 1)"
  proof -
    have "x \<le> of_int p / pow2 (b - 1)"
      unfolding x using P(1) Q(1) p q by (intro divide_left_mono) auto
    also have "\<dots> < pow2 a / pow2 (b - 1)" using P(2) by (intro divide_strict_right_mono) auto
    also have "\<dots> = pow2 (a - b + 1)" using pow2_add [of "a - b + 1" "b - 1"] by simp
    finally show ?thesis .
  qed
  moreover have "pow2 (a - b - 1) \<le> x"
  proof -
    have "pow2 (a - b - 1) = pow2 (a - 1) / pow2 b" using pow2_add [of "a - b - 1" b] by (simp add: algebra_simps)
    also have "\<dots> \<le> of_int p / pow2 b" using P(1) by (intro divide_right_mono) auto
    also have "\<dots> \<le> x" unfolding x using Q(2) p q by (intro divide_left_mono) auto
    finally show ?thesis .
  qed
  ultimately show ?thesis
    using pq by (auto simp: fl_exp_def Let_def a_def b_def)
qed

lemma fl64_pos_eq:
  "0 < x \<Longrightarrow> fl64 x = of_int (round_even (x / pow2 (fl_exp x - 52))) * pow2 (fl_exp x - 52)"
  by (simp add: fl64_def Let_def)

lemma fl64_binade:
  assumes "0 < x"
  shows "pow2 (fl_exp x) \<le> fl64 x \<and> fl64 x \<le> pow2 (fl_exp x + 1)"
proof -
  let ?u = "pow2 (fl_exp x - 52)"
  have e: "pow2 (fl_exp x) = of_int (2 ^ 52) * ?u" "pow2 (fl_exp x + 1) = of_int (2 ^ 53) * ?u"
    using pow2_add_nat [of "fl_exp x - 52" 52] pow2_add_nat [of "fl_exp x - 52" 53] by (simp_all add: add.commute)
  have "of_int (2 ^ 52) \<le> x / ?u" "x / ?u \<le> of_int (2 ^ 53)"
    using fl_exp_spec [OF assms] unfolding e by (simp_all add: field_simps)
  then have "(2::int) ^ 52 \<le> round_even (x / ?u)" "round_even (x / ?u) \<le> 2 ^ 53"
    using round_even_mono round_even_int by metis+
  then have "of_int (2 ^ 52) \<le> (of_int (round_even (x / ?u)) :: rat)" "of_int (round_even (x / ?u)) \<le> (of_int (2 ^ 53) :: rat)"
    by (simp_all only: of_int_le_iff)
  then show ?thesis
    unfolding fl64_pos_eq [OF assms] e by (intro conjI mult_right_mono) auto
qed

lemma fl64_0 [simp]: "fl64 0 = 0"
  by (simp add: fl64_def)

lemma fl64_nonneg: "0 \<le> x \<Longrightarrow> 0 \<le> fl64 x"
  using fl64_binade [of x] pow2_pos [of "fl_exp x"] by (cases "x = 0") (simp, linarith)

text \<open>Rounding is monotone, so comparisons against a float survive it.\<close>

lemma fl64_mono:
  assumes "0 \<le> x" "x \<le> y"
  shows "fl64 x \<le> fl64 y"
proof (cases "x = 0")
  case True
  then show ?thesis using fl64_nonneg assms by simp
next
  case False
  then have pos: "0 < x" "0 < y" using assms by auto
  have "pow2 (fl_exp x) < pow2 (fl_exp y + 1)"
    using fl_exp_spec [OF pos(1)] fl_exp_spec [OF pos(2)] assms(2) by linarith
  then have le: "fl_exp x \<le> fl_exp y" using pow2_less_cancel by force
  show ?thesis
  proof (cases "fl_exp x = fl_exp y")
    case True
    have "x / pow2 (fl_exp x - 52) \<le> y / pow2 (fl_exp x - 52)"
      using assms(2) by (intro divide_right_mono) (auto simp: less_imp_le)
    then show ?thesis
      unfolding fl64_pos_eq [OF pos(1)] fl64_pos_eq [OF pos(2)] True [symmetric]
      using round_even_mono by (intro mult_right_mono) (auto simp: less_imp_le)
  next
    case False
    then have "fl64 x \<le> pow2 (fl_exp y)"
      using le fl64_binade [OF pos(1)] pow2_mono [of "fl_exp x + 1" "fl_exp y"] by simp
    then show ?thesis using fl64_binade [OF pos(2)] by simp
  qed
qed

text \<open>A number with at most 53 significant bits is not changed.\<close>

lemma fl64_exact:
  assumes "x = of_int m * pow2 k" "0 < m" "m \<le> 2 ^ 53"
  shows "fl64 x = x"
proof -
  have pos: "0 < x" using assms by simp
  define j where "j = fl_exp x - 52"
  obtain n where n: "x / pow2 j = of_int n"
  proof (cases "j \<le> k")
    case True
    have "x / pow2 j = of_int m * (pow2 j * 2 ^ nat (k - j)) / pow2 j"
      using pow2_add_nat [of j "nat (k - j)"] True by (simp add: assms(1))
    then have "x / pow2 j = of_int (m * 2 ^ nat (k - j))" by simp
    then show ?thesis by (rule that)
  next
    case False
    have "pow2 (fl_exp x) \<le> of_int m * pow2 k" using fl_exp_spec [OF pos] assms(1) by simp
    then have "pow2 (fl_exp x - k) \<le> of_int m"
      using pow2_add [of "fl_exp x - k" k] by simp
    moreover have "pow2 53 \<le> pow2 (fl_exp x - k)" using False by (intro pow2_mono) (simp add: j_def)
    moreover have "(of_int m :: rat) \<le> of_int (2 ^ 53)" using assms(3) by (simp only: of_int_le_iff)
    ultimately have "pow2 (fl_exp x - k) = of_int m" "of_int m = (2 ^ 53 :: rat)"
      by (simp_all add: pow2_def)
    then have "x = pow2 (fl_exp x)" using pow2_add [of "fl_exp x - k" k] assms(1) by simp
    moreover have "pow2 (fl_exp x) = pow2 j * 2 ^ 52"
      using pow2_add_nat [of j 52] by (simp add: j_def)
    ultimately have "x = pow2 j * 2 ^ 52" by simp
    then have "x / pow2 j = 2 ^ 52" by (metis nonzero_mult_div_cancel_left pow2_nz)
    then have "x / pow2 j = of_int (2 ^ 52)" by simp
    then show ?thesis by (rule that)
  qed
  then have "fl64 x = of_int n * pow2 j" by (simp add: fl64_pos_eq [OF pos] j_def)
  then show ?thesis using n by (simp add: field_simps)
qed

lemma fl64_int: "0 \<le> n \<Longrightarrow> n \<le> 2 ^ 53 \<Longrightarrow> fl64 (of_int n) = of_int n"
  using fl64_exact [of "of_int n" n 0] by (cases "n = 0") auto

section \<open>Numbers as the programs see them\<close>

text \<open>The conversion \<open>float64(n)\<close> and the two operations used on the results.\<close>

definition f_of_int :: "int \<Rightarrow> rat" where
  "f_of_int n = fl64 (of_int n)"

definition f_div :: "rat \<Rightarrow> rat \<Rightarrow> rat" where
  "f_div x y = fl64 (x / y)"

definition f_mul :: "rat \<Rightarrow> rat \<Rightarrow> rat" where
  "f_mul x y = fl64 (x * y)"

definition percent :: "int \<Rightarrow> int \<Rightarrow> rat" where
  "percent a b = f_mul (f_div (f_of_int a) (f_of_int b)) 100"

text \<open>A threshold: finite, infinite or NaN, with the comparisons of IEEE 754.\<close>

datatype threshold = Fin rat | PosInf | NegInf | NaN

fun f_ge :: "rat \<Rightarrow> threshold \<Rightarrow> bool" where
  "f_ge x (Fin y) \<longleftrightarrow> y \<le> x"
| "f_ge x PosInf \<longleftrightarrow> False"
| "f_ge x NegInf \<longleftrightarrow> True"
| "f_ge x NaN \<longleftrightarrow> False"

fun f_gt :: "rat \<Rightarrow> threshold \<Rightarrow> bool" where
  "f_gt x (Fin y) \<longleftrightarrow> y < x"
| "f_gt x PosInf \<longleftrightarrow> False"
| "f_gt x NegInf \<longleftrightarrow> True"
| "f_gt x NaN \<longleftrightarrow> False"

lemma percent_nonneg: "0 \<le> a \<Longrightarrow> 0 \<le> b \<Longrightarrow> 0 \<le> percent a b"
  by (simp add: percent_def f_mul_def f_div_def f_of_int_def fl64_nonneg)

text \<open>Bounds on a ratio carry over to the computed percentage where the bound is exact.\<close>

lemma percent_le:
  assumes "0 \<le> a" "0 < b" "a \<le> 2 ^ 53" "b \<le> 2 ^ 53" "of_int a \<le> r * of_int b" "fl64 r = r" "fl64 (r * 100) = r * 100"
  shows "percent a b \<le> r * 100"
proof -
  have "f_of_int a = of_int a" "f_of_int b = of_int b"
    using assms by (simp_all add: f_of_int_def fl64_int)
  moreover have "fl64 (of_int a / of_int b) \<le> r"
    using fl64_mono [of "of_int a / of_int b" r] assms by (simp add: field_simps)
  moreover have "0 \<le> fl64 (of_int a / of_int b)" using assms by (intro fl64_nonneg) simp
  ultimately show ?thesis
    using fl64_mono [of "fl64 (of_int a / of_int b) * 100" "r * 100"] assms
    by (simp add: percent_def f_mul_def f_div_def)
qed

lemma percent_ge:
  assumes "0 \<le> r" "0 < b" "0 \<le> a" "a \<le> 2 ^ 53" "b \<le> 2 ^ 53" "r * of_int b \<le> of_int a" "fl64 r = r" "fl64 (r * 100) = r * 100"
  shows "r * 100 \<le> percent a b"
proof -
  have "f_of_int a = of_int a" "f_of_int b = of_int b"
    using assms by (simp_all add: f_of_int_def fl64_int)
  moreover have "r \<le> fl64 (of_int a / of_int b)"
    using fl64_mono [of r "of_int a / of_int b"] assms by (simp add: field_simps)
  ultimately show ?thesis
    using fl64_mono [of "r * 100" "fl64 (of_int a / of_int b) * 100"] assms
    by (simp add: percent_def f_mul_def f_div_def)
qed

end
