(* ===== verification/Scaler.thy ===== *)
theory Scaler
  imports Float64
begin

text \<open>
  The autoscaler (scalersvc/main.go): every five seconds it asks the gateway for the busy and
  idle containers and the queue of each function, combines them with the metrics the agents
  reported, computes the wanted number of containers and asks for one more or one less. The
  replies of the gateway, the clock and \<open>strconv.ParseFloat\<close> are arguments; \<open>int\<close> sums wrap at 64
  bits. The text of a decision's reason is left out.
\<close>

section \<open>State\<close>

record container_metrics =
  cm_id :: string
  cm_timestamp :: time
  cm_invocations :: int
  cm_success :: int
  cm_errors :: int
  cm_p50 :: rat
  cm_p95 :: rat
  cm_p99 :: rat
  cm_memory :: int
  cm_cpu :: int

record policy =
  po_target :: int
  po_up_util :: threshold
  po_up_p99 :: threshold
  po_up_err :: threshold
  po_down_util :: threshold
  po_down_p99 :: threshold
  po_idle_minutes :: threshold

record scale_decision =
  sd_time :: time
  sd_func :: string
  sd_action :: string
  sd_busy :: int
  sd_idle :: int
  sd_desired :: int

record scale_status =
  ss_func :: string
  ss_busy :: int
  ss_idle :: int
  ss_queued :: int
  ss_total :: int
  ss_max :: int
  ss_min :: int
  ss_policy :: policy
  ss_decision :: "scale_decision option"
  ss_metrics :: "string \<rightharpoonup> container_metrics"

record scaler =
  sc_policy :: policy
  sc_metrics :: "string \<rightharpoonup> container_metrics"
  sc_decisions :: "string \<rightharpoonup> scale_decision"
  sc_max :: int
  sc_min :: int

definition env_float :: "(string \<Rightarrow> threshold option) \<Rightarrow> env \<Rightarrow> string \<Rightarrow> rat \<Rightarrow> threshold" where
  "env_float parse env key def =
     (if env key \<noteq> [] then (case parse (env key) of Some f \<Rightarrow> f | None \<Rightarrow> Fin def) else Fin def)"

definition defaultPolicy :: "(string \<Rightarrow> threshold option) \<Rightarrow> env \<Rightarrow> policy" where
  "defaultPolicy parse env =
     \<lparr>po_target = env_int env ''TARGET_CONCURRENCY'' 1,
      po_up_util = env_float parse env ''SCALE_UP_UTIL_PCT'' 80,
      po_up_p99 = env_float parse env ''SCALE_UP_P99_MS'' 500,
      po_up_err = env_float parse env ''SCALE_UP_ERR_PCT'' 10,
      po_down_util = env_float parse env ''SCALE_DOWN_UTIL_PCT'' 20,
      po_down_p99 = env_float parse env ''SCALE_DOWN_P99_MS'' 100,
      po_idle_minutes = env_float parse env ''IDLE_MINUTES'' 2\<rparr>"

text \<open>The maps are what the store has kept; the memory store keeps nothing.\<close>

definition newScaler ::
  "(string \<Rightarrow> threshold option) \<Rightarrow> env \<Rightarrow> (string \<rightharpoonup> container_metrics) \<Rightarrow> (string \<rightharpoonup> scale_decision) \<Rightarrow> scaler" where
  "newScaler parse env metrics decisions =
     \<lparr>sc_policy = defaultPolicy parse env, sc_metrics = metrics, sc_decisions = decisions,
      sc_max = env_int env ''MAX_REPLICAS'' 5, sc_min = env_int env ''MIN_REPLICAS'' 0\<rparr>"

section \<open>The wanted number of containers\<close>

definition ceilDiv :: "int \<Rightarrow> int \<Rightarrow> int" where
  "ceilDiv n d = (if n \<le> 0 then 0 else go_div (wrap64 (wrap64 (n + d) - 1)) d)"

definition scale_trigger :: "policy \<Rightarrow> rat \<Rightarrow> rat \<Rightarrow> rat \<Rightarrow> bool" where
  "scale_trigger pol util p99 errPct \<longleftrightarrow>
     f_ge util (po_up_util pol) \<or> f_gt p99 (po_up_p99 pol) \<or> f_ge errPct (po_up_err pol)"

definition desiredReplicas :: "scaler \<Rightarrow> int \<Rightarrow> int \<Rightarrow> int \<Rightarrow> rat \<Rightarrow> rat \<Rightarrow> int" where
  "desiredReplicas s tot busy queued p99 errPct =
     (let pol = sc_policy s;
          target = (if po_target pol \<le> 0 then 1 else po_target pol);
          desired = ceilDiv (wrap64 (busy + queued)) target;
          util = percent busy tot;
          desired = (if tot > 0 \<and> scale_trigger pol util p99 errPct \<and> desired \<le> tot
                     then wrap64 (tot + 1) else desired);
          desired = (if tot > 0 \<and> queued = 0 \<and> f_ge util (po_down_util pol) \<and> desired < tot
                     then tot else desired);
          desired = (if desired < sc_min s then sc_min s else desired);
          desired = (if desired > sc_max s then sc_max s else desired)
      in desired)"

text \<open>The loop of \<open>aggregateMetrics\<close> over the ids the gateway reports.\<close>

fun aggregate_loop ::
  "(string \<rightharpoonup> container_metrics) \<Rightarrow> time \<Rightarrow> string list \<Rightarrow> rat \<Rightarrow> int \<Rightarrow> int \<Rightarrow> rat \<times> int \<times> int" where
  "aggregate_loop ms cutoff [] p99 invs err = (p99, invs, err)"
| "aggregate_loop ms cutoff (i # is) p99 invs err =
     (case ms i of
        None \<Rightarrow> aggregate_loop ms cutoff is p99 invs err
      | Some m \<Rightarrow>
          if cm_timestamp m < cutoff then aggregate_loop ms cutoff is p99 invs err
          else aggregate_loop ms cutoff is (if cm_p99 m > p99 then cm_p99 m else p99)
                 (wrap64 (invs + cm_invocations m)) (wrap64 (err + cm_errors m)))"

definition aggregateMetrics :: "time \<Rightarrow> string list \<Rightarrow> scaler \<Rightarrow> rat \<times> rat" where
  "aggregateMetrics now ids s =
     (if ids = [] then (0, 0)
      else
        let (p99, invs, err) = aggregate_loop (sc_metrics s) (now - 30 * second) ids 0 0 0
        in (p99, if invs > 0 then percent err invs else 0))"

section \<open>Evaluation\<close>

definition scale_action :: "int \<Rightarrow> int \<Rightarrow> int \<Rightarrow> string" where
  "scale_action desired tot idle =
     (if desired > tot then ''scale-up''
      else if desired < tot \<and> idle > 0 then ''scale-down''
      else ''none'')"

definition scaler_status :: "scaler \<Rightarrow> string list \<Rightarrow> string \<Rightarrow> int \<Rightarrow> int \<Rightarrow> int \<Rightarrow> scale_decision option \<Rightarrow> scale_status" where
  "scaler_status s ids f busy idle queued dec =
     \<lparr>ss_func = f, ss_busy = busy, ss_idle = idle, ss_queued = queued, ss_total = wrap64 (busy + idle),
      ss_max = sc_max s, ss_min = sc_min s, ss_policy = sc_policy s, ss_decision = dec,
      ss_metrics = sc_metrics s |` set ids\<rparr>"

text \<open>The replies of the gateway to the questions one evaluation asks; a failed question counts as
  zero, an empty list.\<close>

record gateway_view =
  gv_stats :: "(int \<times> int) option"
  gv_queued :: "int option"
  gv_ids :: "string list option"
  gv_ids_status :: "string list option"

definition default_to :: "'a \<Rightarrow> 'a option \<Rightarrow> 'a" where
  "default_to d v = (case v of None \<Rightarrow> d | Some x \<Rightarrow> x)"

text \<open>\<open>evaluate\<close>: the status saved, the request made to the gateway if any, the new state.\<close>

definition evaluate :: "time \<Rightarrow> gateway_view \<Rightarrow> string \<Rightarrow> scaler \<Rightarrow> scale_status \<times> (string \<times> string) option \<times> scaler" where
  "evaluate now gv f s =
     (let (busy, idle) = default_to (0, 0) (gv_stats gv);
          queued = default_to 0 (gv_queued gv);
          tot = wrap64 (busy + idle);
          (p99, errPct) = aggregateMetrics now (default_to [] (gv_ids gv)) s;
          desired = desiredReplicas s tot busy queued p99 errPct;
          action = scale_action desired tot idle;
          d = \<lparr>sd_time = now, sd_func = f, sd_action = action, sd_busy = busy, sd_idle = idle, sd_desired = desired\<rparr>;
          s = s\<lparr>sc_decisions := (sc_decisions s)(f \<mapsto> d)\<rparr>;
          status = scaler_status s (default_to [] (gv_ids_status gv)) f busy idle queued (Some d)
      in (status,
          if action = ''scale-up'' then Some (''POST'', ''/internal/scale-up/'' @ f)
          else if action = ''scale-down'' then Some (''POST'', ''/internal/scale-down/'' @ f)
          else None, s))"

text \<open>One tick of \<open>evaluateLoop\<close>.\<close>

fun evaluate_all :: "time \<Rightarrow> (string \<Rightarrow> gateway_view) \<Rightarrow> string list \<Rightarrow> scaler \<Rightarrow> (string \<times> string) list \<times> scaler" where
  "evaluate_all now view [] s = ([], s)"
| "evaluate_all now view (f # fs) s =
     (let (_, call, s) = evaluate now (view f) f s; (calls, s) = evaluate_all now view fs s
      in ((case call of None \<Rightarrow> calls | Some c \<Rightarrow> c # calls), s))"

text \<open>The endpoints: the status code, and for a status request the body.\<close>

definition handleMetrics :: "string \<Rightarrow> string \<Rightarrow> container_metrics option \<Rightarrow> scaler \<Rightarrow> int \<times> scaler" where
  "handleMetrics meth path body s =
     (if meth \<noteq> ''POST'' then (405, s)
      else
        case body of
          None \<Rightarrow> (400, s)
        | Some m \<Rightarrow>
            (let m = m\<lparr>cm_id := (if cm_id m = [] then trim_prefix path ''/metrics/'' else cm_id m)\<rparr>
             in (204, s\<lparr>sc_metrics := (sc_metrics s)(cm_id m \<mapsto> m)\<rparr>)))"

definition handleStatus :: "string \<Rightarrow> string \<Rightarrow> gateway_view \<Rightarrow> scaler \<Rightarrow> int \<times> scale_status option" where
  "handleStatus meth path gv s =
     (if meth \<noteq> ''GET'' then (405, None)
      else
        let f = trim_prefix path ''/scale/''; (busy, idle) = default_to (0, 0) (gv_stats gv);
            queued = default_to 0 (gv_queued gv)
        in (200, Some (scaler_status s (default_to [] (gv_ids_status gv)) f busy idle queued (sc_decisions s f))))"

section \<open>Rounding up\<close>

lemma ceilDiv_exact:
  assumes "0 < d" "n + d < 2 ^ 63"
  shows "ceilDiv n d = (if n \<le> 0 then 0 else (n + d - 1) div d)"
proof (cases "n \<le> 0")
  case False
  then have "wrap64 (n + d) = n + d" "wrap64 (n + d - 1) = n + d - 1"
    using assms by (simp_all add: wrap64_id in_int64_def)
  then show ?thesis using assms False by (simp add: ceilDiv_def go_div_nonneg)
qed (simp add: ceilDiv_def)

lemma ceil_div_bounds:
  "0 < d \<Longrightarrow> n \<le> ((n + d - 1) div d) * d \<and> ((n + d - 1) div d - 1) * d < n" for n d :: int
proof -
  assume d: "0 < d"
  let ?q = "(n + d - 1) div d"
  have "n + d - 1 = ?q * d + (n + d - 1) mod d" by simp
  moreover have "0 \<le> (n + d - 1) mod d" "(n + d - 1) mod d < d" using d by simp_all
  moreover have "(?q - 1) * d = ?q * d - d" by (simp add: left_diff_distrib)
  ultimately show ?thesis by linarith
qed

text \<open>Rounding up is exact as long as the sum stays below the 64-bit limit: the result is the
  least number of containers whose slots suffice. With a target near the limit the sum wraps
  around and the result is negative, so demand is ignored.\<close>

theorem ceilDiv_spec:
  assumes "0 < d" "n + d < 2 ^ 63"
  shows "0 \<le> ceilDiv n d \<and> n \<le> ceilDiv n d * d \<and> (\<forall>k. 0 \<le> k \<and> n \<le> k * d \<longrightarrow> ceilDiv n d \<le> k) \<and>
    ceilDiv 2 (2 ^ 63 - 1) = - 1"
proof (intro conjI allI impI)
  note eq = ceilDiv_exact [OF assms]
  note b = ceil_div_bounds [OF assms(1), of n]
  show "0 \<le> ceilDiv n d" using assms(1) by (simp add: eq pos_imp_zdiv_nonneg_iff)
  show "n \<le> ceilDiv n d * d" using b by (simp add: eq)
  show "ceilDiv 2 (2 ^ 63 - 1) = - 1" by (simp add: ceilDiv_def wrap64_def go_div_def)
  fix k assume k: "0 \<le> k \<and> n \<le> k * d"
  show "ceilDiv n d \<le> k"
  proof (cases "n \<le> 0")
    case False
    then have "((n + d - 1) div d - 1) * d < k * d" using b k by linarith
    then show ?thesis using assms(1) False by (simp add: eq mult_less_cancel_right)
  qed (use k in \<open>simp add: eq\<close>)
qed

theorem ceilDiv_spec_witness: "ceilDiv 7 3 = 3 \<and> ceilDiv 2 (2 ^ 63 - 1) = - 1"
  using ceilDiv_spec [of 3 7] by (simp add: ceilDiv_def wrap64_def go_div_def)

section \<open>Bounds and decisions\<close>

text \<open>The wanted number never exceeds \<open>MAX_REPLICAS\<close> and never falls below \<open>MIN_REPLICAS\<close>
  (or below the maximum, where that is smaller); and an evaluation asks the gateway for at most one
  container more or one less: one more exactly when more are wanted than there are, one less
  exactly when fewer are wanted and one is idle.\<close>

theorem evaluate_spec:
  "evaluate now gv f s =
     (let (busy, idle) = default_to (0, 0) (gv_stats gv); queued = default_to 0 (gv_queued gv);
          (p99, err) = aggregateMetrics now (default_to [] (gv_ids gv)) s;
          tot = wrap64 (busy + idle); want = desiredReplicas s tot busy queued p99 err;
          (status, call, s') = evaluate now gv f s
      in (status, if tot < want then Some (''POST'', ''/internal/scale-up/'' @ f)
                  else if want < tot \<and> 0 < idle then Some (''POST'', ''/internal/scale-down/'' @ f) else None,
          s\<lparr>sc_decisions := sc_decisions s'\<rparr>)) \<and>
   min (sc_min s) (sc_max s) \<le> desiredReplicas s tot busy queued p99 err \<and>
   desiredReplicas s tot busy queued p99 err \<le> sc_max s"
proof (intro conjI)
  show "min (sc_min s) (sc_max s) \<le> desiredReplicas s tot busy queued p99 err"
    "desiredReplicas s tot busy queued p99 err \<le> sc_max s"
    by (auto simp: desiredReplicas_def Let_def)
qed (auto simp: evaluate_def scale_action_def Let_def split: prod.split)

text \<open>What is computed before the clamping, for numbers far from the limit.\<close>

definition wanted :: "policy \<Rightarrow> int \<Rightarrow> int \<Rightarrow> int \<Rightarrow> rat \<Rightarrow> rat \<Rightarrow> int" where
  "wanted pol tot busy queued p99 errPct =
     (let base = ceilDiv (wrap64 (busy + queued)) (if po_target pol \<le> 0 then 1 else po_target pol);
          util = percent busy tot;
          up = (if tot > 0 \<and> scale_trigger pol util p99 errPct \<and> base \<le> tot then wrap64 (tot + 1) else base)
      in if tot > 0 \<and> queued = 0 \<and> f_ge util (po_down_util pol) \<and> up < tot then tot else up)"

lemma desired_wanted:
  "desiredReplicas s tot busy queued p99 errPct =
     min (sc_max s) (max (sc_min s) (wanted (sc_policy s) tot busy queued p99 errPct))"
  by (simp add: desiredReplicas_def wanted_def Let_def)

lemma util_half:
  assumes "0 \<le> b" "b \<le> t" "0 < t" "t \<le> 2 ^ 52" "80 \<le> percent b t"
  shows "20 \<le> percent b (t + 1)"
proof -
  have h: "fl64 (1 / 2) = 1 / 2" "fl64 (1 / 4) = 1 / 4"
    using fl64_exact [of "1 / 2" 1 "- 1"] fl64_exact [of "1 / 4" 1 "- 2"] by (simp_all add: pow2_def)
  have "(of_int t :: rat) < of_int (2 * b)"
  proof (rule ccontr)
    assume "\<not> (of_int t :: rat) < of_int (2 * b)"
    then have "of_int b \<le> (1 / 2) * (of_int t :: rat)" by simp
    then have "percent b t \<le> (1 / 2) * 100"
      using assms h fl64_int [of 50] by (intro percent_le) simp_all
    with assms(5) show False by simp
  qed
  then have "t < 2 * b" by linarith
  then have "(1 / 4) * of_int (t + 1) \<le> (of_int b :: rat)" using assms by simp
  then have "(1 / 4) * 100 \<le> percent b (t + 1)"
    using assms h fl64_int [of 25] by (intro percent_ge) simp_all
  then show ?thesis by simp
qed

text \<open>C39. No flapping. With the default utilisation thresholds and an empty queue, a container
  that one evaluation adds is not taken away by the next one: with one more idle container and the
  same load and metrics it does not decide to scale down, whatever the other thresholds, the
  target and the limits are.\<close>

theorem no_flapping:
  assumes "po_up_util (sc_policy s) = Fin 80" "po_down_util (sc_policy s) = Fin 20"
    "0 \<le> busy" "0 \<le> idle" "busy + idle < 2 ^ 52"
    "scale_action (desiredReplicas s (busy + idle) busy 0 p99 err) (busy + idle) idle = ''scale-up''"
  shows "scale_action (desiredReplicas s (busy + (idle + 1)) busy 0 p99 err) (busy + (idle + 1)) (idle + 1)
    \<noteq> ''scale-down''"
proof -
  let ?t = "busy + idle" and ?pol = "sc_policy s"
  let ?base = "ceilDiv (wrap64 busy) (if po_target ?pol \<le> 0 then 1 else po_target ?pol)"
  have w: "wrap64 (?t + 1) = ?t + 1" "wrap64 (?t + 1 + 1) = ?t + 2" "wrap64 (2 + ?t) = ?t + 2"
    using assms(3-5) by (simp_all add: wrap64_id in_int64_def)
  have up: "?t < desiredReplicas s ?t busy 0 p99 err"
    using assms(6) by (simp add: scale_action_def split: if_splits)
  then have m: "?t + 1 \<le> sc_max s" "?t < sc_min s \<or> ?t < wanted ?pol ?t busy 0 p99 err"
    by (auto simp: desired_wanted)
  have "?t < sc_min s \<or> ?t + 1 \<le> wanted ?pol (?t + 1) busy 0 p99 err"
  proof (cases "?t < ?base")
    case True
    then show ?thesis using assms(3,4) by (simp add: wanted_def Let_def w)
  next
    case False
    show ?thesis
    proof (cases "?t < sc_min s")
      case False
      with m have want: "?t < wanted ?pol ?t busy 0 p99 err" by simp
      then have tr: "0 < ?t" "scale_trigger ?pol (percent busy ?t) p99 err"
        using \<open>\<not> ?t < ?base\<close> by (auto simp: wanted_def Let_def split: if_splits)
      consider "f_gt p99 (po_up_p99 ?pol) \<or> f_ge err (po_up_err ?pol)" | "80 \<le> percent busy ?t"
        using tr(2) assms(1) by (auto simp: scale_trigger_def)
      then show ?thesis
      proof cases
        case 1
        then have "scale_trigger ?pol (percent busy (?t + 1)) p99 err" by (auto simp: scale_trigger_def)
        then show ?thesis using \<open>\<not> ?t < ?base\<close> tr(1) by (simp add: wanted_def Let_def w)
      next
        case 2
        then have "20 \<le> percent busy (?t + 1)" using assms tr(1) by (intro util_half) simp_all
        then show ?thesis using assms(2) tr(1) by (simp add: wanted_def Let_def w)
      qed
    qed simp
  qed
  then have "?t + 1 \<le> desiredReplicas s (?t + 1) busy 0 p99 err" using m(1) by (auto simp: desired_wanted)
  then show ?thesis by (simp add: scale_action_def add.assoc)
qed

definition sample_scaler :: scaler where
  "sample_scaler = newScaler (\<lambda>_. None) (\<lambda>_. []) Map.empty Map.empty"

lemma sample_scaler_simps [simp]:
  "sc_max sample_scaler = 5" "sc_min sample_scaler = 0" "po_target (sc_policy sample_scaler) = 1"
  "po_up_util (sc_policy sample_scaler) = Fin 80" "po_down_util (sc_policy sample_scaler) = Fin 20"
  "po_up_p99 (sc_policy sample_scaler) = Fin 500" "po_up_err (sc_policy sample_scaler) = Fin 10"
  by (simp_all add: sample_scaler_def newScaler_def defaultPolicy_def env_int_def env_float_def)

theorem no_flapping_witness:
  "desiredReplicas sample_scaler 1 1 0 0 0 = 2 \<and>
   scale_action (desiredReplicas sample_scaler 2 1 0 0 0) 2 1 \<noteq> ''scale-down''"
proof -
  have "1 * 100 \<le> percent 1 1"
    using fl64_int [of 1] fl64_int [of 100] by (intro percent_ge) simp_all
  then have d: "desiredReplicas sample_scaler 1 1 0 0 0 = 2"
    by (simp add: desired_wanted wanted_def Let_def scale_trigger_def wrap64_def ceilDiv_def go_div_def)
  then have "scale_action (desiredReplicas sample_scaler (1 + 0) 1 0 0 0) (1 + 0) 0 = ''scale-up''"
    by (simp add: scale_action_def)
  from no_flapping [of sample_scaler 1 0, OF _ _ _ _ _ this] d show ?thesis by simp
qed

text \<open>What stops a scale-down. Unlike the log line at start-up says, a decision to scale down
  does not need an empty queue nor a low latency: with the default policy and one busy and four
  idle containers, one queued request and a p99 of 400 ms lead to a scale-down, while with an
  empty queue the same load holds the number. The thresholds \<open>SCALE_DOWN_P99_MS\<close> and
  \<open>IDLE_MINUTES\<close> have no influence on any decision.\<close>

theorem scale_down_conditions:
  "scale_action (desiredReplicas sample_scaler 5 1 1 400 0) 5 4 = ''scale-down'' \<and>
   desiredReplicas (s\<lparr>sc_policy := (sc_policy s)\<lparr>po_down_p99 := t, po_idle_minutes := u\<rparr>\<rparr>) tot busy queued p99 err =
     desiredReplicas s tot busy queued p99 err"
proof
  have "fl64 (1 / 4) = 1 / 4" using fl64_exact [of "1 / 4" 1 "- 2"] by (simp add: pow2_def)
  then have "percent 1 5 \<le> (1 / 4) * 100"
    using fl64_int [of 25] by (intro percent_le) simp_all
  then show "scale_action (desiredReplicas sample_scaler 5 1 1 400 0) 5 4 = ''scale-down''"
    by (simp add: scale_action_def desired_wanted wanted_def Let_def scale_trigger_def wrap64_def ceilDiv_def go_div_def)
  show "desiredReplicas (s\<lparr>sc_policy := (sc_policy s)\<lparr>po_down_p99 := t, po_idle_minutes := u\<rparr>\<rparr>) tot busy queued p99 err =
     desiredReplicas s tot busy queued p99 err"
  proof -
    let ?s = "s\<lparr>sc_policy := (sc_policy s)\<lparr>po_down_p99 := t, po_idle_minutes := u\<rparr>\<rparr>"
    have same: "sc_max ?s = sc_max s" "sc_min ?s = sc_min s"
      "po_target (sc_policy ?s) = po_target (sc_policy s)" "po_up_util (sc_policy ?s) = po_up_util (sc_policy s)"
      "po_up_p99 (sc_policy ?s) = po_up_p99 (sc_policy s)" "po_up_err (sc_policy ?s) = po_up_err (sc_policy s)"
      "po_down_util (sc_policy ?s) = po_down_util (sc_policy s)"
      by simp_all
    show ?thesis unfolding desired_wanted wanted_def scale_trigger_def same by (rule refl)
  qed
qed

section \<open>Metrics\<close>

definition fresh :: "scaler \<Rightarrow> time \<Rightarrow> string list \<Rightarrow> container_metrics list" where
  "fresh s cutoff ids = filter (\<lambda>m. \<not> cm_timestamp m < cutoff) (List.map_filter (sc_metrics s) ids)"

lemma wrap64_add_left: "wrap64 (wrap64 a + b) = wrap64 (a + b)"
  by (simp add: wrap64_def mod_simps algebra_simps)

lemma aggregate_loop_fresh:
  "aggregate_loop (sc_metrics s) cutoff ids p invs err =
     (foldl max p (map cm_p99 (fresh s cutoff ids)),
      foldl (\<lambda>a b. wrap64 (a + b)) invs (map cm_invocations (fresh s cutoff ids)),
      foldl (\<lambda>a b. wrap64 (a + b)) err (map cm_errors (fresh s cutoff ids)))"
proof (induction ids arbitrary: p invs err)
  case (Cons i ids)
  then show ?case
    by (cases "sc_metrics s i") (auto simp: fresh_def map_filter_simps max_def)
qed (simp add: fresh_def map_filter_simps)

lemma foldl_max_mem: "foldl max p xs = p \<or> foldl max p xs \<in> set xs" for p :: rat
  by (induction xs arbitrary: p) (auto simp: max_def)

lemma foldl_max_ge: "p \<le> foldl max p xs \<and> (\<forall>x \<in> set xs. x \<le> foldl max p xs)" for p :: rat
proof (induction xs arbitrary: p)
  case (Cons x xs)
  from this [of "max p x"] show ?case by auto
qed simp

lemma foldl_wrap_sum:
  "wrap64 a = a \<Longrightarrow> foldl (\<lambda>a b. wrap64 (a + b)) a xs = wrap64 (a + sum_list xs)"
proof (induction xs arbitrary: a)
  case (Cons x xs)
  have "wrap64 (wrap64 (a + x)) = wrap64 (a + x)" using wrap64_id wrap64_range by blast
  from Cons(1) [OF this] show ?case by (simp add: wrap64_add_left add.assoc)
qed simp

text \<open>Aggregation uses exactly the latest reports that are not older than thirty seconds, of
  the instances the gateway lists: the latency is their largest p99 (0 if none is positive), and
  the error rate is between 0 and 100 percent when every report has at most as many errors as
  invocations and the counts add up below the 64-bit limit.\<close>

theorem aggregateMetrics_spec:
  assumes "aggregateMetrics now ids s = (p99, errPct)"
    "\<forall>m \<in> set (fresh s (now - 30 * second) ids). 0 \<le> cm_errors m \<and> cm_errors m \<le> cm_invocations m"
    "sum_list (map cm_invocations (fresh s (now - 30 * second) ids)) \<le> 2 ^ 53"
  shows "(\<forall>m \<in> set (fresh s (now - 30 * second) ids). cm_p99 m \<le> p99) \<and>
    (p99 = 0 \<or> p99 \<in> cm_p99 ` set (fresh s (now - 30 * second) ids)) \<and> 0 \<le> errPct \<and> errPct \<le> 100"
proof -
  let ?fs = "fresh s (now - 30 * second) ids"
  have sums: "0 \<le> sum_list (map cm_errors ?fs) \<and>
      sum_list (map cm_errors ?fs) \<le> sum_list (map cm_invocations ?fs)"
    using assms(2) by (intro conjI sum_list_nonneg sum_list_mono) auto
  have w0: "wrap64 0 = 0" by (simp add: wrap64_def)
  have wid: "wrap64 (sum_list (map cm_errors ?fs)) = sum_list (map cm_errors ?fs)"
    "wrap64 (sum_list (map cm_invocations ?fs)) = sum_list (map cm_invocations ?fs)"
    using sums assms(3) by (intro wrap64_id; simp add: in_int64_def)+
  have p: "percent a b \<le> 100" if "0 \<le> a" "a \<le> b" "0 < b" "b \<le> 2 ^ 53" for a b
    using percent_le [of a b 1] that fl64_int [of 1] fl64_int [of 100] by simp
  have "p99 = foldl max 0 (map cm_p99 ?fs) \<and> 0 \<le> errPct \<and> errPct \<le> 100"
  proof (cases "ids = []")
    case True
    then show ?thesis using assms(1) by (simp add: aggregateMetrics_def fresh_def map_filter_simps)
  next
    case False
    then show ?thesis
      using assms(1,3) sums p percent_nonneg
      by (auto simp: aggregateMetrics_def aggregate_loop_fresh foldl_wrap_sum w0 wid)
  qed
  then show ?thesis
    using foldl_max_mem [of 0 "map cm_p99 ?fs"] foldl_max_ge [of 0 "map cm_p99 ?fs"] by auto
qed

theorem aggregateMetrics_spec_witness:
  "aggregateMetrics 0 [''a'', ''b''] sample_scaler = (0, 0)"
proof -
  have f: "fresh sample_scaler (0 - 30 * second) [''a'', ''b''] = []"
    by (simp add: fresh_def sample_scaler_def newScaler_def map_filter_simps)
  obtain p e where r: "aggregateMetrics 0 [''a'', ''b''] sample_scaler = (p, e)" by fastforce
  have "e = 0" using r by (simp add: aggregateMetrics_def sample_scaler_def newScaler_def)
  with aggregateMetrics_spec [OF r] f r show ?thesis by simp
qed

end
