(* ===== verification/Scaling_Loop.thy ===== *)
theory Scaling_Loop
  imports Gateway_Routes Scaler
begin

text \<open>
  The control loop that the scaler and the gateway form: the calls by which an evaluation learns
  the state of a function's pool (the gateway helpers of scalersvc/main.go) arrive at the
  gateway's internal mux, and the request that the evaluation makes changes the pool that the next
  one sees.
\<close>

section \<open>The gateway helpers\<close>

text \<open>\<open>sl_send\<close> takes the method, the path and the Authorization header and yields the body of the
  response, whatever its status code, or an error; the decoders keep what they could read of a
  body, and zeros otherwise.\<close>

record 'g scaler_link =
  sl_token :: string
  sl_send :: "string \<Rightarrow> string \<Rightarrow> string option \<Rightarrow> 'g \<Rightarrow> string option \<times> 'g"
  sl_names :: "string \<Rightarrow> string list"
  sl_stats :: "string \<Rightarrow> int \<times> int"
  sl_ids :: "string \<Rightarrow> string list option"
  sl_queued :: "string \<Rightarrow> int option"

definition scaler_authorize :: "string \<Rightarrow> string option" where
  "scaler_authorize token = (if token \<noteq> [] then Some (''Bearer '' @ token) else None)"

definition getGateway :: "'g scaler_link \<Rightarrow> string \<Rightarrow> 'g \<Rightarrow> string option \<times> 'g" where
  "getGateway lk path g = sl_send lk ''GET'' path (scaler_authorize (sl_token lk)) g"

definition callGateway :: "'g scaler_link \<Rightarrow> string \<Rightarrow> string \<Rightarrow> 'g \<Rightarrow> 'g" where
  "callGateway lk meth path g = snd (sl_send lk meth path (scaler_authorize (sl_token lk)) g)"

definition functionNames :: "'g scaler_link \<Rightarrow> 'g \<Rightarrow> string list \<times> 'g" where
  "functionNames lk g =
     (case getGateway lk ''/internal/functions'' g of
        (None, g) \<Rightarrow> ([], g)
      | (Some body, g) \<Rightarrow> (sl_names lk body, g))"

definition link_stats :: "'g scaler_link \<Rightarrow> string \<Rightarrow> 'g \<Rightarrow> (int \<times> int) option \<times> 'g" where
  "link_stats lk f g =
     (case getGateway lk (''/internal/stats/'' @ f) g of
        (None, g) \<Rightarrow> (None, g)
      | (Some body, g) \<Rightarrow> (Some (sl_stats lk body), g))"

definition link_containerIDs :: "'g scaler_link \<Rightarrow> string \<Rightarrow> 'g \<Rightarrow> string list option \<times> 'g" where
  "link_containerIDs lk f g =
     (case getGateway lk (''/internal/containers/'' @ f) g of
        (None, g) \<Rightarrow> (None, g)
      | (Some body, g) \<Rightarrow> (sl_ids lk body, g))"

definition link_queueStatus :: "'g scaler_link \<Rightarrow> string \<Rightarrow> 'g \<Rightarrow> int option \<times> 'g" where
  "link_queueStatus lk f g =
     (case getGateway lk (''/internal/queue/'' @ f) g of
        (None, g) \<Rightarrow> (None, g)
      | (Some body, g) \<Rightarrow> (sl_queued lk body, g))"

text \<open>\<open>evaluate\<close> with its calls in the order the code makes them.\<close>

definition link_evaluate :: "'g scaler_link \<Rightarrow> time \<Rightarrow> string \<Rightarrow> scaler \<times> 'g \<Rightarrow> scaler \<times> 'g" where
  "link_evaluate lk now f sg =
     (case sg of (s, g) \<Rightarrow>
        let (st, g) = link_stats lk f g; (queued, g) = link_queueStatus lk f g;
            (ids, g) = link_containerIDs lk f g; (ids', g) = link_containerIDs lk f g;
            (status, call, s) = evaluate now
              \<lparr>gv_stats = st, gv_queued = queued, gv_ids = ids, gv_ids_status = ids'\<rparr> f s
        in (s, case call of None \<Rightarrow> g | Some (meth, path) \<Rightarrow> callGateway lk meth path g))"

definition link_tick :: "'g scaler_link \<Rightarrow> time \<Rightarrow> scaler \<times> 'g \<Rightarrow> scaler \<times> 'g" where
  "link_tick lk now sg =
     (case sg of (s, g) \<Rightarrow> let (names, g) = functionNames lk g in fold (link_evaluate lk now) names (s, g))"

section \<open>The gateway at the other end\<close>

definition gateway_send ::
  "(payload \<Rightarrow> string) \<Rightarrow> string \<Rightarrow> string \<Rightarrow> world \<Rightarrow> string \<Rightarrow> string \<Rightarrow> string option \<Rightarrow> gateway \<Rightarrow> string option \<times> gateway" where
  "gateway_send json sa token w meth path auth g =
     (case NewInternalMux sa token w
         \<lparr>rq_method = meth, rq_path = path, rq_auth = (case auth of None \<Rightarrow> [] | Some a \<Rightarrow> a), rq_body = Some []\<rparr> g of
        (None, g) \<Rightarrow> (None, g)
      | (Some rsp, g) \<Rightarrow> (Some (json (rs_payload rsp)), g))"

text \<open>The scaler reads what the gateway writes, and both have the same token.\<close>

definition link_ok :: "(payload \<Rightarrow> string) \<Rightarrow> string \<Rightarrow> string \<Rightarrow> world \<Rightarrow> gateway scaler_link \<Rightarrow> bool" where
  "link_ok json sa token w lk \<longleftrightarrow>
     sl_token lk = token \<and> sl_send lk = gateway_send json sa token w \<and>
     (\<forall>b i. sl_stats lk (json (JsonStats b i)) = (int b, int i)) \<and>
     (\<forall>st. sl_queued lk (json (JsonQueue st)) = Some (qs_queued st)) \<and>
     (\<forall>ids. sl_ids lk (json (JsonStrings ids)) = Some ids \<and> sl_names lk (json (JsonStrings ids)) = ids)"

lemma link_served:
  assumes "link_ok json sa token w lk" "comp_ok f" "x \<in> set [''stats'', ''containers'', ''queue'', ''scale-up'', ''scale-down'']"
  shows "sl_send lk meth (''/internal/'' @ x @ ''/'' @ f) (scaler_authorize (sl_token lk)) g =
     (let req = \<lparr>rq_method = meth, rq_path = ''/internal/'' @ x @ ''/'' @ f,
                 rq_auth = (case scaler_authorize token of None \<Rightarrow> [] | Some a \<Rightarrow> a), rq_body = Some []\<rparr> in
      case internal_serve sa w req g of
        (None, g) \<Rightarrow> (None, g)
      | (Some rsp, g) \<Rightarrow> (Some (json (rs_payload rsp)), g))"
  using assms(1) route_named(1) [OF assms(2,3)]
  by (auto simp: link_ok_def gateway_send_def NewInternalMux_def withInternalAuth_def route_root scaler_authorize_def Let_def)

lemma served_stats:
  assumes "link_ok json sa token w lk" "comp_ok f"
  shows "link_stats lk f g = (Some (case Stats f (gw_sched g) of (b, i) \<Rightarrow> (int b, int i)), g)"
  using link_served [OF assms, of "''stats''" "''GET''" g] route_named(2) [OF assms(2), of "''stats''"] assms(1)
  by (simp add: link_stats_def getGateway_def internal_serve_def stats_handler_def trim_prefix_def write_header_def link_ok_def
    split: prod.split)

lemma served_ids:
  assumes "link_ok json sa token w lk" "comp_ok f"
  shows "link_containerIDs lk f g = (Some (ContainerIDs f (gw_sched g)), g)"
  using link_served [OF assms, of "''containers''" "''GET''" g] route_named(2) [OF assms(2), of "''containers''"] assms(1)
  by (simp add: link_containerIDs_def getGateway_def internal_serve_def containers_handler_def trim_prefix_def write_header_def
    link_ok_def)

lemma served_queue:
  assumes "link_ok json sa token w lk" "comp_ok f"
  shows "link_queueStatus lk f g =
    (case Status f (gw_queue g) of None \<Rightarrow> (None, g) | Some (st, m) \<Rightarrow> (Some (qs_queued st), g\<lparr>gw_queue := m\<rparr>))"
  using link_served [OF assms, of "''queue''" "''GET''" g] route_named(2) [OF assms(2), of "''queue''"] assms(1)
  by (simp add: link_queueStatus_def getGateway_def internal_serve_def queue_handler_def queue_response_def trim_prefix_def
    write_header_def link_ok_def split: option.split)

text \<open>What a scale-up request does at once: the port is taken and the goroutine runs.\<close>

definition begin_cold :: "string \<Rightarrow> gateway \<Rightarrow> gateway" where
  "begin_cold f g =
     (case s_functions (gw_sched g) f of
        None \<Rightarrow> g
      | Some cfg \<Rightarrow> g\<lparr>gw_sched := (gw_sched g)\<lparr>s_next_port := s_next_port (gw_sched g) + 1\<rparr>,
                     gw_cold := (f, cfg, s_next_port (gw_sched g)) # gw_cold g\<rparr>)"

lemma served_up:
  assumes "link_ok json sa token w lk" "comp_ok f"
  shows "callGateway lk ''POST'' (''/internal/scale-up/'' @ f) g = begin_cold f g"
  using link_served [OF assms, of "''scale-up''" "''POST''" g] route_named(2) [OF assms(2), of "''scale-up''"]
  by (simp add: callGateway_def internal_serve_def scale_up_handler_def trim_prefix_def write_header_def begin_cold_def
    coldstart_begin_def split: option.split)

lemma served_down:
  assumes "link_ok json sa token w lk" "comp_ok f"
  shows "callGateway lk ''POST'' (''/internal/scale-down/'' @ f) g =
    g\<lparr>gw_sched := snd (snd (RemoveIdle (w_t1 w) f (gw_sched g)))\<rparr>"
  using link_served [OF assms, of "''scale-down''" "''POST''" g] route_named(2) [OF assms(2), of "''scale-down''"]
  by (simp add: callGateway_def internal_serve_def scale_down_handler_def trim_prefix_def write_header_def split: prod.split)

section \<open>One evaluation\<close>

text \<open>What one evaluation does, given the number of replicas that it wants.\<close>

definition scaled :: "world \<Rightarrow> string \<Rightarrow> int \<Rightarrow> gateway \<Rightarrow> gateway" where
  "scaled w f want g =
     (let (busy, idle) = Stats f (gw_sched g) in
      if int busy + int idle < want then begin_cold f g
      else if want < int busy + int idle \<and> 0 < idle then g\<lparr>gw_sched := snd (snd (RemoveIdle (w_t1 w) f (gw_sched g)))\<rparr>
      else g)"

definition queued_of :: "string \<Rightarrow> gateway \<Rightarrow> int" where
  "queued_of f g = (case Status f (gw_queue g) of None \<Rightarrow> 0 | Some (st, m) \<Rightarrow> qs_queued st)"

definition wanted_of :: "time \<Rightarrow> string \<Rightarrow> scaler \<Rightarrow> gateway \<Rightarrow> int" where
  "wanted_of now f s g =
     (let (busy, idle) = Stats f (gw_sched g);
          (p99, err) = aggregateMetrics now (ContainerIDs f (gw_sched g)) s
      in desiredReplicas s (int busy + int idle) (int busy) (queued_of f g) p99 err)"

lemma count_if_disjoint: "(\<And>x. \<not> (P x \<and> Q x)) \<Longrightarrow> count_if P xs + count_if Q xs \<le> length xs"
  by (induction xs) auto

lemma stats_bound: "Stats f s = (busy, idle) \<Longrightarrow> busy + idle \<le> length (pool_of s f)"
  by (auto simp: Stats_def stats_loop_count intro!: count_if_disjoint)

lemma Status_again: "Status f m = Some (st, m') \<Longrightarrow> Status f m' = Some (st, m')"
  by (auto simp: Status_def get_queue_def Let_def split: option.splits)

lemma Status_queue:
  "Status f m = Some (st, m') \<Longrightarrow> m' = m\<lparr>mg_funcs := (mg_funcs m)(f := mg_funcs m' f)\<rparr> \<and> (mg_funcs m f \<noteq> None \<longrightarrow> m' = m)"
  by (cases m) (auto simp: Status_def get_queue_def Let_def split: option.splits)

text \<open>Asking for the queue's length makes the entry of the function, if there is none yet.\<close>

definition asked_queue :: "string \<Rightarrow> gateway \<Rightarrow> gateway" where
  "asked_queue f g = (case Status f (gw_queue g) of None \<Rightarrow> g | Some (st, m) \<Rightarrow> g\<lparr>gw_queue := m\<rparr>)"

lemma asked_queue_frame:
  "gw_sched (asked_queue f g) = gw_sched g" "gw_cold (asked_queue f g) = gw_cold g" "gw_dirs (asked_queue f g) = gw_dirs g"
  "Status f (gw_queue (asked_queue f g)) = Status f (gw_queue g)"
  "gw_queue (asked_queue f g) = (gw_queue g)\<lparr>mg_funcs := (mg_funcs (gw_queue g))(f := mg_funcs (gw_queue (asked_queue f g)) f)\<rparr>"
  "mg_funcs (gw_queue g) f \<noteq> None \<Longrightarrow> gw_queue (asked_queue f g) = gw_queue g"
proof -
  show "Status f (gw_queue (asked_queue f g)) = Status f (gw_queue g)"
  proof (cases "Status f (gw_queue g)")
    case (Some x)
    then show ?thesis using Status_again [of f "gw_queue g" "fst x" "snd x"] by (cases x) (simp add: asked_queue_def)
  qed (simp add: asked_queue_def)
  have same: "m\<lparr>mg_funcs := mg_funcs m\<rparr> = m" for m :: manager by (cases m) simp
  show "gw_queue (asked_queue f g) = (gw_queue g)\<lparr>mg_funcs := (mg_funcs (gw_queue g))(f := mg_funcs (gw_queue (asked_queue f g)) f)\<rparr>"
    "mg_funcs (gw_queue g) f \<noteq> None \<Longrightarrow> gw_queue (asked_queue f g) = gw_queue g"
    using Status_queue [of f "gw_queue g"] by (cases "Status f (gw_queue g)"; force simp: asked_queue_def same)+
qed (simp_all add: asked_queue_def split: option.split prod.split)

lemma begin_cold_frame: "gw_queue (begin_cold f g) = gw_queue g" "gw_dirs (begin_cold f g) = gw_dirs g"
  by (simp_all add: begin_cold_def split: option.split)

lemma evaluate_scaled:
  assumes "link_ok json sa token w lk" "label_ok n f" "length (pool_of (gw_sched g) f) < 2 ^ 62"
    "Stats f (gw_sched g) = (busy, idle)"
  shows "\<exists>d. link_evaluate lk now f (s, g) =
      (s\<lparr>sc_decisions := (sc_decisions s)(f \<mapsto> d)\<rparr>, scaled w f (wanted_of now f s g) (asked_queue f g)) \<and>
    sd_desired d = wanted_of now f s g \<and> sd_busy d = int busy \<and> sd_idle d = int idle"
proof -
  have f: "comp_ok f" using label_chars(3) [OF assms(2)] .
  let ?qd = "map_option (qs_queued \<circ> fst) (Status f (gw_queue g))" and ?sched = "gw_sched g"
  have "busy + idle \<le> length (pool_of ?sched f)" using stats_bound [OF assms(4)] .
  then have tot: "wrap64 (int busy + int idle) = int busy + int idle"
    using assms(3) by (intro wrap64_id) (simp add: in_int64_def)
  let ?view = "\<lparr>gv_stats = Some (int busy, int idle), gv_queued = ?qd,
      gv_ids = Some (ContainerIDs f ?sched), gv_ids_status = Some (ContainerIDs f ?sched)\<rparr>"
  have q: "link_queueStatus lk f g = (?qd, asked_queue f g)"
    by (simp add: served_queue [OF assms(1) f] asked_queue_def split: option.split)
  have qd: "default_to 0 ?qd = queued_of f g"
    by (cases "Status f (gw_queue g)") (auto simp: default_to_def queued_of_def)
  obtain st call s' where run: "evaluate now ?view f s = (st, call, s')" by (metis prod_cases3)
  have link: "link_evaluate lk now f (s, g) =
      (s', case call of None \<Rightarrow> asked_queue f g | Some (meth, path) \<Rightarrow> callGateway lk meth path (asked_queue f g))"
    by (simp add: link_evaluate_def Let_def served_stats [OF assms(1) f] assms(4) q served_ids [OF assms(1) f] run
      asked_queue_frame split: option.split)
  obtain d where s': "s' = s\<lparr>sc_decisions := (sc_decisions s)(f \<mapsto> d)\<rparr>" "sd_desired d = wanted_of now f s g"
    "sd_busy d = int busy" "sd_idle d = int idle"
    using run that by (auto simp: evaluate_def Let_def default_to_def [of "(0, 0)"] default_to_def [of "[]"] qd tot
      wanted_of_def assms(4) split: prod.splits)
  have call: "call = (if int busy + int idle < wanted_of now f s g then Some (''POST'', ''/internal/scale-up/'' @ f)
      else if wanted_of now f s g < int busy + int idle \<and> 0 < idle then Some (''POST'', ''/internal/scale-down/'' @ f)
      else None)"
    using run by (auto simp: evaluate_def Let_def default_to_def [of "(0, 0)"] default_to_def [of "[]"] qd tot scale_action_def
      wanted_of_def assms(4) split: prod.splits if_splits)
  have "(case call of None \<Rightarrow> asked_queue f g | Some (meth, path) \<Rightarrow> callGateway lk meth path (asked_queue f g)) =
      scaled w f (wanted_of now f s g) (asked_queue f g)"
    by (simp add: call scaled_def asked_queue_frame(1) assms(4) served_up [OF assms(1) f] served_down [OF assms(1) f]
      del: append_Cons)
  then show ?thesis using link s' by auto
qed

lemma finish_cold_sched:
  "gw_sched (finish_cold backend t (f, cfg, port) h) = gw_sched h \<or>
     (\<exists>c. c_state c = StateIdle \<and> gw_sched (finish_cold backend t (f, cfg, port) h) = snd (pool_append f c (gw_sched h)))"
proof (cases "(f, cfg, port) \<in> set (gw_cold h)")
  case True
  show ?thesis
  proof (cases "start backend cfg port StateIdle t")
    case (Inl e)
    with True show ?thesis by (simp add: finish_cold_def coldstart_finish_def)
  next
    case (Inr c)
    then have "c_state c = StateIdle" by (auto simp: start_def container_of_def split: sum.splits)
    moreover have "gw_sched (finish_cold backend t (f, cfg, port) h) = snd (pool_append f c (gw_sched h))"
      using True Inr by (simp add: finish_cold_def coldstart_finish_def)
    ultimately show ?thesis by blast
  qed
qed (simp add: finish_cold_def)

text \<open>C27. One evaluation against the real gateway. The scaler reads the true state of the pool and of
  the queue, and records its decision for the function and nothing else. When fewer containers exist
  than are wanted, the gateway takes the next port and a goroutine begins to start one container, if the function is registered; no pool changes before
  that goroutine ends, and then only by one idle container at the end of the function's pool, if the start succeeds. When there are more than are wanted and one is idle, the
  longest unused idle one leaves the pool, if it has been unused for two minutes, and otherwise nothing changes. Nothing else at the gateway changes but the
  entry of the function's queue, which is made if it was not there, and its queue length stays.\<close>

theorem evaluate_scales:
  assumes "link_ok json sa token w lk" "label_ok n f" "length (pool_of (gw_sched g) f) < 2 ^ 62"
    "Stats f (gw_sched g) = (busy, idle)" "link_evaluate lk now f (s, g) = (s', g')"
  shows "(\<exists>d. s' = s\<lparr>sc_decisions := (sc_decisions s)(f \<mapsto> d)\<rparr> \<and> sd_desired d = wanted_of now f s g \<and>
      sd_busy d = int busy \<and> sd_idle d = int idle) \<and>
    gw_dirs g' = gw_dirs g \<and> queued_of f g' = queued_of f g \<and>
    gw_queue g' = (gw_queue g)\<lparr>mg_funcs := (mg_funcs (gw_queue g))(f := mg_funcs (gw_queue g') f)\<rparr> \<and>
    (mg_funcs (gw_queue g) f \<noteq> None \<longrightarrow> gw_queue g' = gw_queue g) \<and>
    (if int busy + int idle < wanted_of now f s g then
       (case s_functions (gw_sched g) f of
          None \<Rightarrow> gw_sched g' = gw_sched g \<and> gw_cold g' = gw_cold g
        | Some cfg \<Rightarrow> gw_sched g' = (gw_sched g)\<lparr>s_next_port := s_next_port (gw_sched g) + 1\<rparr> \<and>
            gw_cold g' = (f, cfg, s_next_port (gw_sched g)) # gw_cold g)
     else gw_cold g' = gw_cold g \<and>
       (if wanted_of now f s g < int busy + int idle \<and> 0 < idle then
          (\<forall>r \<in> set (pool_of (gw_sched g) f). c_state (deref (gw_sched g) r) = StateIdle \<longrightarrow>
             w_t1 w - c_last_used (deref (gw_sched g) r) < 2 * minute) \<and> gw_sched g' = gw_sched g \<or>
          (\<exists>i < length (pool_of (gw_sched g) f). let r = pool_of (gw_sched g) f ! i in
             c_state (deref (gw_sched g) r) = StateIdle \<and> 2 * minute \<le> w_t1 w - c_last_used (deref (gw_sched g) r) \<and>
             (\<forall>r' \<in> set (pool_of (gw_sched g) f). c_state (deref (gw_sched g) r') = StateIdle \<longrightarrow>
                c_last_used (deref (gw_sched g) r) \<le> c_last_used (deref (gw_sched g) r')) \<and>
             gw_sched g' = (gw_sched g)\<lparr>s_pool := (s_pool (gw_sched g))
               (f \<mapsto> take i (pool_of (gw_sched g) f) @ drop (Suc i) (pool_of (gw_sched g) f))\<rparr>)
        else gw_sched g' = gw_sched g)) \<and>
    (\<forall>backend t cfg port h. gw_sched (finish_cold backend t (f, cfg, port) h) = gw_sched h \<or>
       (\<exists>c. c_state c = StateIdle \<and> gw_sched (finish_cold backend t (f, cfg, port) h) = snd (pool_append f c (gw_sched h))))"
proof (intro conjI)
  let ?want = "wanted_of now f s g" and ?q = "asked_queue f g"
  obtain d where d: "s' = s\<lparr>sc_decisions := (sc_decisions s)(f \<mapsto> d)\<rparr>" "g' = scaled w f ?want ?q"
    "sd_desired d = ?want" "sd_busy d = int busy" "sd_idle d = int idle"
    using evaluate_scaled [OF assms(1-4), of now s] assms(5) by auto
  then show "\<exists>d. s' = s\<lparr>sc_decisions := (sc_decisions s)(f \<mapsto> d)\<rparr> \<and> sd_desired d = ?want \<and> sd_busy d = int busy \<and> sd_idle d = int idle"
    by blast
  have same: "gw_queue g' = gw_queue ?q" "gw_dirs g' = gw_dirs ?q"
    by (simp_all add: d(2) scaled_def begin_cold_frame split: prod.split)
  show "gw_dirs g' = gw_dirs g" "gw_queue g' = (gw_queue g)\<lparr>mg_funcs := (mg_funcs (gw_queue g))(f := mg_funcs (gw_queue g') f)\<rparr>"
    "mg_funcs (gw_queue g) f \<noteq> None \<longrightarrow> gw_queue g' = gw_queue g"
    using same asked_queue_frame(3,5,6) by metis+
  show "queued_of f g' = queued_of f g" by (simp add: queued_of_def same asked_queue_frame(4))
  obtain ok stops t where rem: "RemoveIdle (w_t1 w) f (gw_sched g) = (ok, stops, t)" by (metis prod_cases3)
  let ?down = "(\<forall>r \<in> set (pool_of (gw_sched g) f). c_state (deref (gw_sched g) r) = StateIdle \<longrightarrow>
             w_t1 w - c_last_used (deref (gw_sched g) r) < 2 * minute) \<and> gw_sched g' = gw_sched g \<or>
          (\<exists>i < length (pool_of (gw_sched g) f). let r = pool_of (gw_sched g) f ! i in
             c_state (deref (gw_sched g) r) = StateIdle \<and> 2 * minute \<le> w_t1 w - c_last_used (deref (gw_sched g) r) \<and>
             (\<forall>r' \<in> set (pool_of (gw_sched g) f). c_state (deref (gw_sched g) r') = StateIdle \<longrightarrow>
                c_last_used (deref (gw_sched g) r) \<le> c_last_used (deref (gw_sched g) r')) \<and>
             gw_sched g' = (gw_sched g)\<lparr>s_pool := (s_pool (gw_sched g))
               (f \<mapsto> take i (pool_of (gw_sched g) f) @ drop (Suc i) (pool_of (gw_sched g) f))\<rparr>)"
  have g': "g' = (if int busy + int idle < ?want then begin_cold f ?q
      else if ?want < int busy + int idle \<and> 0 < idle then ?q\<lparr>gw_sched := t\<rparr> else ?q)"
    by (simp add: d(2) scaled_def asked_queue_frame(1) assms(4) rem)
  show "if int busy + int idle < ?want then
       (case s_functions (gw_sched g) f of
          None \<Rightarrow> gw_sched g' = gw_sched g \<and> gw_cold g' = gw_cold g
        | Some cfg \<Rightarrow> gw_sched g' = (gw_sched g)\<lparr>s_next_port := s_next_port (gw_sched g) + 1\<rparr> \<and>
            gw_cold g' = (f, cfg, s_next_port (gw_sched g)) # gw_cold g)
     else gw_cold g' = gw_cold g \<and>
       (if ?want < int busy + int idle \<and> 0 < idle then
          ?down
        else gw_sched g' = gw_sched g)"
  proof -
    consider (up) "int busy + int idle < ?want" | (down) "?want < int busy + int idle" "0 < idle"
      | (same) "\<not> int busy + int idle < ?want" "\<not> (?want < int busy + int idle \<and> 0 < idle)" by linarith
    then show ?thesis
    proof cases
      case up
      then show ?thesis by (simp add: g' asked_queue_frame(1,2) begin_cold_def split: option.split)
    next
      case down
      then have "g' = ?q\<lparr>gw_sched := t\<rparr>" by (simp add: g')
      then have "gw_sched g' = t" "gw_cold g' = gw_cold g" by (simp_all add: asked_queue_frame)
      moreover have "\<not> int busy + int idle < ?want" using down by linarith
      ultimately have part: ?thesis if "?down"
        using that down by simp
      from rem show ?thesis
      proof (cases rule: RemoveIdle_cases)
        case kept
        then show ?thesis by (intro part disjI1) (simp add: \<open>gw_sched g' = t\<close>)
      next
        case (removed i)
        then show ?thesis by (intro part disjI2 exI [of _ i]) (simp add: \<open>gw_sched g' = t\<close> Let_def)
      qed
    next
      case same
      then show ?thesis by (auto simp: g' asked_queue_frame(1,2))
    qed
  qed
qed (use finish_cold_sched in blast)

section \<open>Draining an idle pool\<close>












section \<open>A loop to run\<close>

text \<open>Payloads as text, in unary.\<close>

fun loop_json :: "payload \<Rightarrow> string" where
  "loop_json (JsonStats b i) = replicate b CHR ''b'' @ replicate i CHR ''i''"
| "loop_json (JsonQueue st) = replicate (nat (qs_queued st)) CHR ''+'' @ replicate (nat (- qs_queued st)) CHR ''-''"
| "loop_json (JsonStrings ids) = concat (map (\<lambda>s. concat (map (\<lambda>c. [CHR ''x'', c]) s) @ [CHR ''y'']) ids)"
| "loop_json _ = []"

fun loop_strings :: "string \<Rightarrow> string \<Rightarrow> string list" where
  "loop_strings acc (x # cs) =
     (if x = CHR ''y'' then acc # loop_strings [] cs else case cs of [] \<Rightarrow> [] | c # cs \<Rightarrow> loop_strings (acc @ [c]) cs)"
| "loop_strings acc [] = []"

lemma loop_strings_one: "loop_strings acc (concat (map (\<lambda>c. [CHR ''x'', c]) s) @ CHR ''y'' # rest) = (acc @ s) # loop_strings [] rest"
  by (induction s arbitrary: acc) simp_all

lemma loop_strings_all: "loop_strings [] (loop_json (JsonStrings ids)) = ids"
  by (induction ids) (simp_all add: loop_strings_one)

definition loop_world :: world where
  "loop_world = sample_world\<lparr>w_t1 := 3 * minute\<rparr>"

definition loop_link :: "gateway scaler_link" where
  "loop_link = \<lparr>sl_token = ''s3cret'', sl_send = gateway_send loop_json [] ''s3cret'' loop_world,
     sl_names = loop_strings [], sl_stats = \<lambda>b. (int (count_if ((=) CHR ''b'') b), int (count_if ((=) CHR ''i'') b)),
     sl_ids = \<lambda>b. Some (loop_strings [] b),
     sl_queued = \<lambda>b. Some (int (count_if ((=) CHR ''+'') b) - int (count_if ((=) CHR ''-'') b))\<rparr>"

lemma loop_link_ok: "link_ok loop_json [] ''s3cret'' loop_world loop_link"
  unfolding link_ok_def
proof (intro conjI allI)
  show "sl_ids loop_link (loop_json (JsonStrings ids)) = Some ids" "sl_names loop_link (loop_json (JsonStrings ids)) = ids" for ids
    using loop_strings_all [of ids] by (simp_all add: loop_link_def)
qed (simp_all add: loop_link_def count_if_def)

lemma loop_pool:
  "Stats ''f'' (gw_sched sample_gateway) = (0, 1)" "queued_of ''f'' sample_gateway = 0" "pool_of (gw_sched sample_gateway) ''f'' = [0]"
  by (simp_all add: sample_gateway_def sample_warm_def sample_container_def Stats_def queued_of_def Status_def get_queue_def
    sem_make_def Let_def)

theorem evaluate_scales_witness:
  "\<exists>s' g'. link_evaluate loop_link 0 ''f'' (sample_scaler, sample_gateway) = (s', g') \<and> gw_dirs g' = gw_dirs sample_gateway \<and>
     queued_of ''f'' g' = 0"
proof -
  obtain s' g' where run: "link_evaluate loop_link 0 ''f'' (sample_scaler, sample_gateway) = (s', g')" by fastforce
  have "length (pool_of (gw_sched sample_gateway) ''f'') < 2 ^ 62" by (simp add: loop_pool)
  from evaluate_scales [OF loop_link_ok sample_label this loop_pool(1) run] run show ?thesis by (auto simp: loop_pool(2))
qed




text \<open>A question to the gateway that fails reads as no container: with a positive minimum the scaler
  then asks for one more in every evaluation, whatever the pool holds.\<close>

lemma blind_scale_up:
  assumes "gv_stats gv = None" "0 < sc_min s" "0 < sc_max s"
  shows "fst (snd (evaluate now gv f s)) = Some (''POST'', ''/internal/scale-up/'' @ f)"
  using assms by (auto simp: evaluate_def default_to_def [of "(0, 0)"] desired_wanted scale_action_def Let_def wrap64_def
    split: prod.split)

end
