(* ===== verification/MQ_Rabbit.thy ===== *)
theory MQ_Rabbit
  imports MQ_Worker Semaphore Transition
begin

text \<open>
  The RabbitMQ consumer (mqsvc/rabbitmq.go): connection handling, the retry count in a message
  header, what is done with a delivery once it was handled, and the reconnect loop. The amqp091
  library answers through the record \<open>amqp\<close>, whose calls thread a state \<open>'w\<close>; a
  connection is known by a number.
\<close>

section \<open>Headers\<close>

text \<open>A header value: the Go types \<open>attemptsFromHeaders\<close> tells apart; of any other value
  only its \<open>fmt.Sprint\<close> text matters.\<close>

datatype amqp_value = VInt int | VInt32 int | VInt64 int | VString string | VOther string

type_synonym amqp_table = "string \<rightharpoonup> amqp_value"

record delivery =
  dv_message_id :: string
  dv_tag :: nat
  dv_content_type :: string
  dv_body :: string
  dv_headers :: amqp_table

record publishing =
  pb_content_type :: string
  pb_message_id :: string
  pb_body :: string
  pb_persistent :: bool
  pb_headers :: amqp_table

definition attemptsHeader :: string where
  "attemptsHeader = ''x-faas-attempts''"

fun sprint :: "amqp_value \<Rightarrow> string" where
  "sprint (VInt n) = itoa n"
| "sprint (VInt32 n) = itoa n"
| "sprint (VInt64 n) = itoa n"
| "sprint (VString s) = s"
| "sprint (VOther s) = s"

definition stringHeaders :: "amqp_table \<Rightarrow> (string \<rightharpoonup> string)" where
  "stringHeaders h = (\<lambda>k. map_option sprint (h k))"

definition attemptsFromHeaders :: "amqp_table \<Rightarrow> int" where
  "attemptsFromHeaders h =
     (case h attemptsHeader of
        None \<Rightarrow> 0
      | Some (VInt n) \<Rightarrow> n
      | Some (VInt32 n) \<Rightarrow> n
      | Some (VInt64 n) \<Rightarrow> n
      | Some (VString s) \<Rightarrow> fst (atoi s)
      | Some (VOther _) \<Rightarrow> 0)"

definition publishingForDelivery :: "delivery \<Rightarrow> string \<Rightarrow> int \<Rightarrow> string \<Rightarrow> publishing" where
  "publishingForDelivery d mid attempts reason =
     (let headers = (dv_headers d)(attemptsHeader \<mapsto> VInt32 (wrap32 attempts));
          headers = (if reason \<noteq> [] then headers(''x-faas-reason'' \<mapsto> VString reason) else headers)
      in \<lparr>pb_content_type = dv_content_type d, pb_message_id = mid, pb_body = dv_body d,
          pb_persistent = True, pb_headers = headers\<rparr>)"

section \<open>Connections\<close>

datatype confirm_event = Confirmed bool | ConfirmCtxDone go_error | ConfirmTimeout

datatype settlement = AckDelivery nat | NackDelivery nat bool

datatype arrival = Arrived delivery | ChannelClosed | ConsumeCtxDone go_error

record 'w amqp =
  aq_dial :: "string \<Rightarrow> 'w \<Rightarrow> (go_error + nat) \<times> 'w"
  aq_is_closed :: "nat \<Rightarrow> 'w \<Rightarrow> bool"
  aq_channel :: "nat \<Rightarrow> 'w \<Rightarrow> go_error option \<times> 'w"
  aq_close :: "nat \<Rightarrow> 'w \<Rightarrow> 'w"
  aq_close_channel :: "'w \<Rightarrow> 'w"
  aq_declare :: "string \<Rightarrow> 'w \<Rightarrow> go_error option \<times> 'w"
  aq_qos :: "int \<Rightarrow> 'w \<Rightarrow> go_error option \<times> 'w"
  aq_consume :: "string \<Rightarrow> 'w \<Rightarrow> go_error option \<times> 'w"
  aq_confirm :: "'w \<Rightarrow> go_error option \<times> 'w"
  aq_publish :: "string \<Rightarrow> publishing \<Rightarrow> 'w \<Rightarrow> go_error option \<times> 'w"
  aq_await :: "'w \<Rightarrow> confirm_event \<times> 'w"
  aq_settle :: "settlement \<Rightarrow> 'w \<Rightarrow> 'w"
  aq_sleep :: "duration \<Rightarrow> 'w \<Rightarrow> bool \<times> 'w"  \<comment> \<open>true when the context ended first\<close>
  aq_jitter :: "'w \<Rightarrow> int"                  \<comment> \<open>\<open>rand.Intn(250)\<close>\<close>

record rabbit =
  rb_inst :: mq_instance
  rb_conn :: "nat option"

definition connectLocked :: "'w amqp \<Rightarrow> rabbit \<Rightarrow> 'w \<Rightarrow> go_error option \<times> rabbit \<times> 'w" where
  "connectLocked q b w =
     (case aq_dial q (mi_url (rb_inst b)) w of
        (Inl e, w) \<Rightarrow> (Some e, b, w)
      | (Inr c, w) \<Rightarrow> (None, b\<lparr>rb_conn := Some c\<rparr>, w))"

definition NewRabbitMQBroker :: "'w amqp \<Rightarrow> mq_instance \<Rightarrow> 'w \<Rightarrow> (go_error + rabbit) \<times> 'w" where
  "NewRabbitMQBroker q inst w =
     (case connectLocked q \<lparr>rb_inst = inst, rb_conn = None\<rparr> w of
        (Some e, b, w) \<Rightarrow> (Inl e, w)
      | (None, b, w) \<Rightarrow> (Inr b, w))"

definition open_channel :: "'w amqp \<Rightarrow> rabbit \<Rightarrow> 'w \<Rightarrow> go_error option \<times> rabbit \<times> 'w" where
  "open_channel q b w =
     (let (err, b, w) =
        (case rb_conn b of
           None \<Rightarrow> connectLocked q b w
         | Some c \<Rightarrow> if aq_is_closed q c w then connectLocked q b w else (None, b, w))
      in case err of
           Some e \<Rightarrow> (Some e, b, w)
         | None \<Rightarrow>
             (case rb_conn b of
                None \<Rightarrow> (None, b, w)
              | Some c \<Rightarrow> (let (err, w) = aq_channel q c w in (err, b, w))))"

definition reconnect :: "'w amqp \<Rightarrow> rabbit \<Rightarrow> 'w \<Rightarrow> rabbit \<times> 'w" where
  "reconnect q b w =
     (case rb_conn b of
        None \<Rightarrow> (b, w)
      | Some c \<Rightarrow> (b\<lparr>rb_conn := None\<rparr>, aq_close q c w))"

definition Close :: "'w amqp \<Rightarrow> rabbit \<Rightarrow> 'w \<Rightarrow> 'w" where
  "Close q b w = (case rb_conn b of None \<Rightarrow> w | Some c \<Rightarrow> aq_close q c w)"

section \<open>Deliveries\<close>

text \<open>\<open>publishWithConfirm\<close> once its channel is open.\<close>

definition publish_on_channel :: "'w amqp \<Rightarrow> string \<Rightarrow> publishing \<Rightarrow> 'w \<Rightarrow> go_error option \<times> 'w" where
  "publish_on_channel q queue p w =
     (case aq_confirm q w of
        (Some e, w) \<Rightarrow> (Some e, w)
      | (None, w) \<Rightarrow>
          (case aq_publish q queue p w of
             (Some e, w) \<Rightarrow> (Some e, w)
           | (None, w) \<Rightarrow>
               (case aq_await q w of
                  (Confirmed True, w) \<Rightarrow> (None, w)
                | (Confirmed False, w) \<Rightarrow> (Some (errorf ''publish not confirmed''), w)
                | (ConfirmCtxDone e, w) \<Rightarrow> (Some e, w)
                | (ConfirmTimeout, w) \<Rightarrow> (Some (errorf ''publish confirm timeout''), w))))"

definition publishWithConfirm ::
  "'w amqp \<Rightarrow> string \<Rightarrow> delivery \<Rightarrow> string \<Rightarrow> int \<Rightarrow> string \<Rightarrow> rabbit \<Rightarrow> 'w \<Rightarrow> go_error option \<times> rabbit \<times> 'w" where
  "publishWithConfirm q queue d mid attempts reason b w =
     (case open_channel q b w of
        (Some e, b, w) \<Rightarrow> (Some e, b, w)
      | (None, b, w) \<Rightarrow>
          (case publish_on_channel q queue (publishingForDelivery d mid attempts reason) w of
             (err, w) \<Rightarrow> (err, b, aq_close_channel q w)))"

definition message_of :: "trigger \<Rightarrow> delivery \<Rightarrow> message" where
  "message_of t d =
     \<lparr>msg_id = (if dv_message_id d = [] then mt_id t @ ''-'' @ nat_digits (dv_tag d) else dv_message_id d),
      msg_body = dv_body d, msg_headers = stringHeaders (dv_headers d),
      msg_attempts = attemptsFromHeaders (dv_headers d)\<rparr>"

definition ackDelivery :: "'w amqp \<Rightarrow> delivery \<Rightarrow> 'w \<Rightarrow> 'w" where
  "ackDelivery q d w = aq_settle q (AckDelivery (dv_tag d)) w"

definition nackDelivery :: "'w amqp \<Rightarrow> delivery \<Rightarrow> bool \<Rightarrow> 'w \<Rightarrow> 'w" where
  "nackDelivery q d requeue w = aq_settle q (NackDelivery (dv_tag d) requeue) w"

definition retry_backoff :: "trigger \<Rightarrow> int \<Rightarrow> duration" where
  "retry_backoff t jitter = dur_add (wrap64 (mt_retry_backoff_ms t * 1000000)) (wrap64 (jitter * 1000000))"

text \<open>Publish a copy and settle the delivery: acknowledged once the copy is confirmed, given back
  to the queue otherwise.\<close>

definition move_to :: "'w amqp \<Rightarrow> string \<Rightarrow> delivery \<Rightarrow> message \<Rightarrow> string \<Rightarrow> rabbit \<Rightarrow> 'w \<Rightarrow> rabbit \<times> 'w" where
  "move_to q queue d msg reason b w =
     (case publishWithConfirm q queue d (msg_id msg) (wrap64 (msg_attempts msg + 1)) reason b w of
        (Some e, b, w) \<Rightarrow> (b, nackDelivery q d True w)
      | (None, b, w) \<Rightarrow> (b, ackDelivery q d w))"

definition handleDelivery ::
  "'w amqp \<Rightarrow> trigger \<Rightarrow> (message \<Rightarrow> 'w \<Rightarrow> message_result \<times> 'w) \<Rightarrow> delivery \<Rightarrow> rabbit \<Rightarrow> 'w \<Rightarrow> rabbit \<times> 'w" where
  "handleDelivery q t handler d b w =
     (let msg = message_of t d; (result, w) = handler msg w in
      if mr_ack result then (b, ackDelivery q d w)
      else if mr_dlq result then
        (if mt_dlq t = [] then (b, nackDelivery q d True w)
         else move_to q (mt_dlq t) d msg (mr_reason result) b w)
      else
        (let (ended, w) = aq_sleep q (retry_backoff t (aq_jitter q w)) w in
         if ended then (b, nackDelivery q d True w)
         else move_to q (mt_queue t) d msg (mr_reason result) b w))"

section \<open>Consuming\<close>

text \<open>\<open>subscribeOnce\<close> up to the loop: the channel, the queues, the prefetch and the consumer.
  The queues it declares are listed by \<open>declared_queues\<close>.\<close>

definition declared_queues :: "trigger \<Rightarrow> string list" where
  "declared_queues t = mt_queue t # (if mt_dlq t \<noteq> [] then [mt_dlq t] else [])"

fun declare_all :: "'w amqp \<Rightarrow> string list \<Rightarrow> 'w \<Rightarrow> go_error option \<times> 'w" where
  "declare_all q [] w = (None, w)"
| "declare_all q (name # names) w =
     (case aq_declare q name w of (Some e, w) \<Rightarrow> (Some e, w) | (None, w) \<Rightarrow> declare_all q names w)"

definition consume_setup :: "'w amqp \<Rightarrow> trigger \<Rightarrow> 'w \<Rightarrow> go_error option \<times> 'w" where
  "consume_setup q t w =
     (case declare_all q (declared_queues t) w of
        (Some e, w) \<Rightarrow> (Some e, w)
      | (None, w) \<Rightarrow>
          (case aq_qos q (mt_prefetch t) w of
             (Some e, w) \<Rightarrow> (Some e, w)
           | (None, w) \<Rightarrow> aq_consume q (mt_queue t) w))"

definition subscribe_setup :: "'w amqp \<Rightarrow> trigger \<Rightarrow> rabbit \<Rightarrow> 'w \<Rightarrow> go_error option \<times> rabbit \<times> 'w" where
  "subscribe_setup q t b w =
     (case open_channel q b w of
        (Some e, b, w) \<Rightarrow> (Some e, b, w)
      | (None, b, w) \<Rightarrow>
          (case consume_setup q t w of
             (Some e, w) \<Rightarrow> (Some e, b, aq_close_channel q w)
           | (None, w) \<Rightarrow> (None, b, w)))"

text \<open>The loop: one delivery is taken from the channel, waits for a slot, and is then handled by a
  goroutine of its own that gives the slot back. \<open>cn_pending\<close> is the delivery between the two
  selects.\<close>

record consumer_loop =
  cn_sem :: semaphore
  cn_pending :: "delivery option"
  cn_running :: "delivery list"
  cn_result :: "go_error option"

datatype loop_event = TakeDelivery arrival | TakeSlot | SlotCtxDone go_error | HandlerDone nat

definition start_loop :: "trigger \<Rightarrow> consumer_loop option" where
  "start_loop t = map_option (\<lambda>s. \<lparr>cn_sem = s, cn_pending = None, cn_running = [], cn_result = None\<rparr>)
     (sem_make (mt_max_concurrency t))"

fun drop_at :: "nat \<Rightarrow> 'a list \<Rightarrow> 'a list" where
  "drop_at i xs = take i xs @ drop (Suc i) xs"

fun loop_step :: "loop_event \<Rightarrow> consumer_loop \<Rightarrow> consumer_loop option" where
  "loop_step (TakeDelivery a) s =
     (if cn_result s \<noteq> None \<or> cn_pending s \<noteq> None then None
      else case a of
             Arrived d \<Rightarrow> Some (s\<lparr>cn_pending := Some d\<rparr>)
           | ChannelClosed \<Rightarrow> Some (s\<lparr>cn_result := Some (errorf ''delivery channel closed'')\<rparr>)
           | ConsumeCtxDone e \<Rightarrow> Some (s\<lparr>cn_result := Some e\<rparr>))"
| "loop_step TakeSlot s =
     (case (cn_pending s, sem_take (cn_sem s)) of
        (Some d, Some sem) \<Rightarrow> if cn_result s \<noteq> None then None
           else Some (s\<lparr>cn_sem := sem, cn_pending := None, cn_running := cn_running s @ [d]\<rparr>)
      | _ \<Rightarrow> None)"
| "loop_step (SlotCtxDone e) s =
     (if cn_pending s = None \<or> cn_result s \<noteq> None then None else Some (s\<lparr>cn_result := Some e\<rparr>))"
| "loop_step (HandlerDone i) s =
     (if i < length (cn_running s) then
        (case sem_give (cn_sem s) of
           None \<Rightarrow> None
         | Some sem \<Rightarrow> Some (s\<lparr>cn_sem := sem, cn_running := drop_at i (cn_running s)\<rparr>))
      else None)"

text \<open>\<open>Subscribe\<close>: the rounds, each with the error \<open>subscribeOnce\<close> returned and whether the
  context had ended by then or ended during the pause. \<open>Running\<close>: the rounds given are over and
  the loop goes on. \<open>subscribeOnce\<close> has no successful return.\<close>

record round_end =
  re_err :: go_error
  re_ctx :: "go_error option"
  re_pause_ctx :: "go_error option"

datatype subscribe_state = Running duration | Returned go_error

definition next_backoff :: "duration \<Rightarrow> duration" where
  "next_backoff backoff = (if backoff < 30 * second then wrap64 (backoff * 2) else backoff)"

fun subscribe_rounds :: "duration \<Rightarrow> round_end list \<Rightarrow> duration list \<times> subscribe_state" where
  "subscribe_rounds backoff [] = ([], Running backoff)"
| "subscribe_rounds backoff (r # rs) =
     (case re_ctx r of
        Some e \<Rightarrow> ([], Returned e)
      | None \<Rightarrow>
          (case re_pause_ctx r of
             Some e \<Rightarrow> ([backoff], Returned e)
           | None \<Rightarrow>
               (let (pauses, out) = subscribe_rounds (next_backoff backoff) rs
                in (backoff # pauses, out))))"

definition Subscribe :: "round_end list \<Rightarrow> duration list \<times> subscribe_state" where
  "Subscribe rounds = subscribe_rounds (2 * second) rounds"

section \<open>Recording what the broker is told\<close>

datatype broker_effect = EPublish string publishing | EConfirmed bool | ESettle settlement

definition on_fst :: "('w \<Rightarrow> 'a \<times> 'w) \<Rightarrow> 'w \<times> broker_effect list \<Rightarrow> 'a \<times> ('w \<times> broker_effect list)" where
  "on_fst f x = (fst (f (fst x)), (snd (f (fst x)), snd x))"

definition recording_amqp :: "'w amqp \<Rightarrow> ('w \<times> broker_effect list) amqp" where
  "recording_amqp q =
     \<lparr>aq_dial = \<lambda>u. on_fst (aq_dial q u), aq_is_closed = \<lambda>c x. aq_is_closed q c (fst x),
      aq_channel = \<lambda>c. on_fst (aq_channel q c), aq_close = \<lambda>c x. (aq_close q c (fst x), snd x),
      aq_close_channel = \<lambda>x. (aq_close_channel q (fst x), snd x),
      aq_declare = \<lambda>n. on_fst (aq_declare q n), aq_qos = \<lambda>n. on_fst (aq_qos q n),
      aq_consume = \<lambda>n. on_fst (aq_consume q n), aq_confirm = on_fst (aq_confirm q),
      aq_publish = \<lambda>n p x. (fst (aq_publish q n p (fst x)), (snd (aq_publish q n p (fst x)), snd x @ [EPublish n p])),
      aq_await = \<lambda>x. (fst (aq_await q (fst x)), (snd (aq_await q (fst x)),
        snd x @ [EConfirmed (fst (aq_await q (fst x)) = Confirmed True)])),
      aq_settle = \<lambda>s x. (aq_settle q s (fst x), snd x @ [ESettle s]),
      aq_sleep = \<lambda>d. on_fst (aq_sleep q d), aq_jitter = \<lambda>x. aq_jitter q (fst x)\<rparr>"

definition recording_handler ::
  "(message \<Rightarrow> 'w \<Rightarrow> message_result \<times> 'w) \<Rightarrow> message \<Rightarrow> 'w \<times> broker_effect list \<Rightarrow> message_result \<times> ('w \<times> broker_effect list)" where
  "recording_handler h m = on_fst (h m)"

lemma open_channel_log:
  "open_channel (recording_amqp q) b x = (err, b', x') \<Longrightarrow> snd x' = snd x"
  by (auto simp: open_channel_def connectLocked_def recording_amqp_def on_fst_def Let_def
    split: option.splits prod.splits sum.splits if_splits)

lemma publish_on_channel_log:
  "publish_on_channel (recording_amqp q) queue p x = (err, x') \<Longrightarrow>
   (err = None \<longrightarrow> snd x' = snd x @ [EPublish queue p, EConfirmed True]) \<and>
   (err \<noteq> None \<longrightarrow> snd x' \<in> {snd x, snd x @ [EPublish queue p], snd x @ [EPublish queue p, EConfirmed False]})"
  by (auto simp: publish_on_channel_def recording_amqp_def on_fst_def
    split: option.splits prod.splits confirm_event.splits bool.splits)

lemma publishWithConfirm_log:
  "publishWithConfirm (recording_amqp q) queue d mid n reason b x = (err, b', x') \<Longrightarrow>
   (let p = publishingForDelivery d mid n reason in
    (err = None \<longrightarrow> snd x' = snd x @ [EPublish queue p, EConfirmed True]) \<and>
    (err \<noteq> None \<longrightarrow> snd x' \<in> {snd x, snd x @ [EPublish queue p], snd x @ [EPublish queue p, EConfirmed False]}))"
  by (auto simp: publishWithConfirm_def Let_def recording_amqp_def [THEN arg_cong [where f = aq_close_channel]]
    dest!: open_channel_log publish_on_channel_log split: option.splits prod.splits)

definition settles :: "broker_effect list \<Rightarrow> settlement list" where
  "settles es = concat (map (\<lambda>e. case e of ESettle s \<Rightarrow> [s] | _ \<Rightarrow> []) es)"

lemma move_to_log:
  assumes "move_to (recording_amqp q) queue d msg reason b x = (b', x')"
  shows "\<exists>pre. settles pre = [] \<and>
    (snd x' = snd x @ pre @ [ESettle (NackDelivery (dv_tag d) True)] \<or>
     pre = [EPublish queue (publishingForDelivery d (msg_id msg) (wrap64 (msg_attempts msg + 1)) reason), EConfirmed True] \<and>
     snd x' = snd x @ pre @ [ESettle (AckDelivery (dv_tag d))])"
proof -
  obtain err b1 x1 where run: "publishWithConfirm (recording_amqp q) queue d (msg_id msg)
      (wrap64 (msg_attempts msg + 1)) reason b x = (err, b1, x1)"
    by (metis prod_cases3)
  note log = publishWithConfirm_log [OF run, unfolded Let_def]
  show ?thesis
  proof (cases err)
    case None
    with log run assms show ?thesis
      by (auto simp: move_to_def ackDelivery_def settles_def recording_amqp_def)
  next
    case (Some e)
    then obtain pre where pre: "snd x1 = snd x @ pre" "settles pre = []"
      using log by (fastforce simp: settles_def)
    with Some run assms show ?thesis
      by (auto simp: move_to_def nackDelivery_def recording_amqp_def intro!: exI [of _ pre])
  qed
qed

lemma settles_simps [simp]:
  "settles [] = []" "settles (EPublish n p # es) = settles es" "settles (EConfirmed c # es) = settles es"
  "settles (ESettle s # es) = s # settles es"
  by (simp_all add: settles_def)

section \<open>Properties\<close>

text \<open>C9. No message is lost. Every delivery is settled exactly once, as the last thing that
  happens to it, by an acknowledgement or by giving it back to its queue; nothing is rejected
  without requeueing. It is acknowledged only when the handler was done with it, or after the
  broker confirmed a persistent copy with the same body and id in the retry queue or, for a
  dead-lettered message, in the dead-letter queue.\<close>

theorem no_message_lost:
  assumes "handleDelivery (recording_amqp q) t (recording_handler h) d b (w, []) = (b', (w', effects))"
  defines "res \<equiv> fst (h (message_of t d) w)"
  shows "\<exists>pre. settles pre = [] \<and>
    (effects = pre @ [ESettle (NackDelivery (dv_tag d) True)] \<and> \<not> mr_ack res \<or>
     effects = pre @ [ESettle (AckDelivery (dv_tag d))] \<and>
       (if mr_ack res then pre = []
        else \<exists>p. pre = [EPublish (if mr_dlq res then mt_dlq t else mt_queue t) p, EConfirmed True] \<and>
          pb_persistent p \<and> pb_body p = dv_body d \<and> pb_message_id p = msg_id (message_of t d) \<and>
          pb_content_type p = dv_content_type d \<and> (mr_dlq res \<longrightarrow> mt_dlq t \<noteq> [])))"
proof -
  have h: "recording_handler h (message_of t d) (w, []) = (res, (snd (h (message_of t d) w), []))"
    by (simp add: recording_handler_def on_fst_def res_def)
  have pub: "pb_persistent p \<and> pb_body p = dv_body d \<and> pb_message_id p = mid \<and> pb_content_type p = dv_content_type d"
    if "p = publishingForDelivery d mid n r" for p mid n r
    using that by (simp add: publishingForDelivery_def Let_def)
  have nack: "nackDelivery (recording_amqp q) d True x =
      (aq_settle q (NackDelivery (dv_tag d) True) (fst x), snd x @ [ESettle (NackDelivery (dv_tag d) True)])"
    for x by (simp add: nackDelivery_def recording_amqp_def)
  consider (ack) "mr_ack res" | (dlq) "\<not> mr_ack res" "mr_dlq res" "mt_dlq t \<noteq> []"
    | (dlq_nack) "\<not> mr_ack res" "mr_dlq res" "mt_dlq t = []" | (retry) "\<not> mr_ack res" "\<not> mr_dlq res"
    by blast
  then show ?thesis
  proof cases
    case ack
    with assms(1) h show ?thesis
      by (auto simp: handleDelivery_def Let_def ackDelivery_def recording_amqp_def intro!: exI [of _ "[]"])
  next
    case dlq_nack
    with assms(1) h show ?thesis
      by (auto simp: handleDelivery_def Let_def nack intro!: exI [of _ "[]"])
  next
    case dlq
    with assms(1) h have "move_to (recording_amqp q) (mt_dlq t) d (message_of t d) (mr_reason res) b
        (snd (h (message_of t d) w), []) = (b', (w', effects))"
      by (simp add: handleDelivery_def Let_def)
    from move_to_log [OF this] pub dlq show ?thesis by fastforce
  next
    case retry
    obtain ended x1 where sl: "aq_sleep (recording_amqp q)
        (retry_backoff t (aq_jitter (recording_amqp q) (snd (h (message_of t d) w), [])))
        (snd (h (message_of t d) w), []) = (ended, x1)" by (metis prod.exhaust)
    then have x1: "snd x1 = []" by (auto simp: recording_amqp_def on_fst_def)
    show ?thesis
    proof (cases ended)
      case True
      with assms(1) h retry sl x1 show ?thesis
        by (auto simp: handleDelivery_def Let_def nack intro!: exI [of _ "[]"])
    next
      case False
      with assms(1) h retry sl have "move_to (recording_amqp q) (mt_queue t) d (message_of t d) (mr_reason res) b x1 =
          (b', (w', effects))"
        by (simp add: handleDelivery_def Let_def)
      from move_to_log [OF this] pub retry x1 show ?thesis by fastforce
    qed
  qed
qed

definition sample_amqp :: "unit amqp" where
  "sample_amqp =
     \<lparr>aq_dial = \<lambda>_ w. (Inr 1, w), aq_is_closed = \<lambda>_ _. False, aq_channel = \<lambda>_ w. (None, w), aq_close = \<lambda>_ w. w,
      aq_close_channel = \<lambda>w. w, aq_declare = \<lambda>_ w. (None, w), aq_qos = \<lambda>_ w. (None, w), aq_consume = \<lambda>_ w. (None, w),
      aq_confirm = \<lambda>w. (None, w), aq_publish = \<lambda>_ _ w. (None, w), aq_await = \<lambda>w. (Confirmed True, w),
      aq_settle = \<lambda>_ w. w, aq_sleep = \<lambda>_ w. (False, w), aq_jitter = \<lambda>_. 0\<rparr>"

definition sample_rabbit :: rabbit where
  "sample_rabbit = \<lparr>rb_inst = sample_instance, rb_conn = None\<rparr>"

definition sample_delivery :: delivery where
  "sample_delivery = \<lparr>dv_message_id = ''m1'', dv_tag = 7, dv_content_type = ''text/plain'', dv_body = ''hello'',
     dv_headers = Map.empty\<rparr>"

definition failing_handler :: "message \<Rightarrow> unit \<Rightarrow> message_result \<times> unit" where
  "failing_handler m w = (\<lparr>mr_ack = False, mr_dlq = False, mr_reason = ''boom''\<rparr>, w)"

theorem no_message_lost_witness:
  "\<exists>p. handleDelivery (recording_amqp sample_amqp) sample_mq_trigger (recording_handler failing_handler) sample_delivery
     sample_rabbit ((), []) = (sample_rabbit\<lparr>rb_conn := Some 1\<rparr>, ((),
       [EPublish ''orders'' p, EConfirmed True, ESettle (AckDelivery 7)])) \<and> pb_body p = ''hello''"
proof -
  obtain p where run: "handleDelivery (recording_amqp sample_amqp) sample_mq_trigger (recording_handler failing_handler)
      sample_delivery sample_rabbit ((), []) = (sample_rabbit\<lparr>rb_conn := Some 1\<rparr>, ((),
       [EPublish ''orders'' p, EConfirmed True, ESettle (AckDelivery 7)]))"
    by (simp add: handleDelivery_def move_to_def publishWithConfirm_def publish_on_channel_def open_channel_def
      connectLocked_def recording_amqp_def recording_handler_def on_fst_def sample_amqp_def sample_rabbit_def
      failing_handler_def ackDelivery_def Let_def sample_delivery_def)
  from no_message_lost [OF run] show ?thesis
    using run by (auto simp: failing_handler_def sample_delivery_def append_eq_Cons_conv)
qed

text \<open>The retry count survives the broker. A copy made for the next attempt keeps body, id and
  content type; from its header the next delivery reads exactly the count that was written, as
  long as it fits the 32-bit header, and every header other than the two of mqsvc is as it was.
  The first count that does not fit comes back negative.\<close>

theorem attempts_roundtrip:
  "attemptsFromHeaders (pb_headers (publishingForDelivery d mid n reason)) = wrap32 n \<and>
   (in_int32 n \<longleftrightarrow> attemptsFromHeaders (pb_headers (publishingForDelivery d mid n reason)) = n) \<and>
   attemptsFromHeaders (pb_headers (publishingForDelivery d mid (2 ^ 31) reason)) < 0 \<and>
   pb_headers (publishingForDelivery d mid n reason) ''x-faas-reason'' =
     (if reason = [] then dv_headers d ''x-faas-reason'' else Some (VString reason)) \<and>
   (\<forall>k. k \<in> {attemptsHeader, ''x-faas-reason''} \<or>
      pb_headers (publishingForDelivery d mid n reason) k = dv_headers d k)"
proof -
  have "wrap32 n = n \<longleftrightarrow> in_int32 n" using wrap32_id wrap32_range by metis
  then show ?thesis
    by (auto simp: publishingForDelivery_def attemptsFromHeaders_def attemptsHeader_def Let_def wrap32_def)
qed

text \<open>A broker that delivers what was published to it.\<close>

definition amqp_faithful :: "(publishing \<Rightarrow> delivery) \<Rightarrow> bool" where
  "amqp_faithful redeliver \<longleftrightarrow> (\<forall>p. dv_headers (redeliver p) = pb_headers p \<and> dv_body (redeliver p) = pb_body p \<and>
     dv_message_id (redeliver p) = pb_message_id p \<and> dv_content_type (redeliver p) = pb_content_type p)"

text \<open>The delivery of a message after \<open>k\<close> failed attempts.\<close>

fun nth_delivery :: "(publishing \<Rightarrow> delivery) \<Rightarrow> trigger \<Rightarrow> (nat \<Rightarrow> string) \<Rightarrow> delivery \<Rightarrow> nat \<Rightarrow> delivery" where
  "nth_delivery redeliver t reason d 0 = d"
| "nth_delivery redeliver t reason d (Suc k) =
     (let d' = nth_delivery redeliver t reason d k; msg = message_of t d'
      in redeliver (publishingForDelivery d' (msg_id msg) (wrap64 (msg_attempts msg + 1)) (reason k)))"

lemma message_id_nonempty: "msg_id (message_of t d) \<noteq> []"
  by (simp add: message_of_def nat_digits_nonempty)

lemma publishingForDelivery_sel:
  "pb_body (publishingForDelivery d mid n r) = dv_body d" "pb_message_id (publishingForDelivery d mid n r) = mid"
  by (simp_all add: publishingForDelivery_def Let_def)

lemma nth_delivery_message:
  assumes "amqp_faithful redeliver" "dv_headers d attemptsHeader = None" "k < 2 ^ 31"
  shows "msg_attempts (message_of t (nth_delivery redeliver t reason d k)) = int k \<and>
    msg_id (message_of t (nth_delivery redeliver t reason d k)) = msg_id (message_of t d) \<and>
    msg_body (message_of t (nth_delivery redeliver t reason d k)) = dv_body d"
  using assms(3)
proof (induction k)
  case 0
  with assms(2) show ?case by (simp add: message_of_def attemptsFromHeaders_def)
next
  case (Suc k)
  let ?d = "nth_delivery redeliver t reason d k"
  have IH: "msg_attempts (message_of t ?d) = int k" "msg_id (message_of t ?d) = msg_id (message_of t d)"
    "dv_body ?d = dv_body d" using Suc by (simp_all add: message_of_def)
  have n: "wrap64 (int k + 1) = int k + 1" "wrap32 (int k + 1) = int k + 1"
    using Suc.prems by (simp_all add: wrap64_id wrap32_id in_int64_def in_int32_def)
  have att: "attemptsFromHeaders (pb_headers (publishingForDelivery ?d mid (int k + 1) r)) = int k + 1" for mid r
    by (simp add: publishingForDelivery_def attemptsFromHeaders_def attemptsHeader_def Let_def n)
  have sel: "msg_attempts (message_of t e) = attemptsFromHeaders (dv_headers e)" "msg_body (message_of t e) = dv_body e"
    "dv_message_id e \<noteq> [] \<Longrightarrow> msg_id (message_of t e) = dv_message_id e" for e
    by (simp_all add: message_of_def)
  have "nth_delivery redeliver t reason d (Suc k) =
      redeliver (publishingForDelivery ?d (msg_id (message_of t d)) (int k + 1) (reason k))"
    by (simp add: Let_def IH n)
  then show ?case
    using assms(1) att message_id_nonempty [of t d]
    by (simp add: sel amqp_faithful_def IH publishingForDelivery_sel)
qed

text \<open>Retries are bounded exactly when a dead-letter queue exists. A message that arrives without a
  count and fails every time is dead-lettered at attempt \<open>MaxAttempts\<close> and at no earlier one,
  always under the same id and with the same body. Without a dead-letter queue, or with a limit
  of 0, no attempt is the last one.\<close>

theorem retries_bounded:
  assumes "amqp_faithful redeliver" "dv_headers d attemptsHeader = None" "k < 2 ^ 31"
  shows "(shouldDLQ t (message_of t (nth_delivery redeliver t reason d k)) \<longleftrightarrow>
      0 < mt_max_attempts t \<and> mt_max_attempts t \<le> int k + 1 \<and> mt_dlq t \<noteq> []) \<and>
    msg_id (message_of t (nth_delivery redeliver t reason d k)) = msg_id (message_of t d) \<and>
    msg_body (message_of t (nth_delivery redeliver t reason d k)) = msg_body (message_of t d)"
  using nth_delivery_message [OF assms, of t reason] assms(3)
  by (auto simp: shouldDLQ_def wrap64_id in_int64_def message_of_def)

definition sample_redeliver :: "publishing \<Rightarrow> delivery" where
  "sample_redeliver p = \<lparr>dv_message_id = pb_message_id p, dv_tag = 0, dv_content_type = pb_content_type p,
     dv_body = pb_body p, dv_headers = pb_headers p\<rparr>"

theorem retries_bounded_witness:
  "let m = (\<lambda>k. message_of sample_mq_trigger (nth_delivery sample_redeliver sample_mq_trigger (\<lambda>_. ''boom'') sample_delivery k))
   in \<not> shouldDLQ sample_mq_trigger (m 0) \<and> \<not> shouldDLQ sample_mq_trigger (m 1) \<and> shouldDLQ sample_mq_trigger (m 2)"
proof -
  have f: "amqp_faithful sample_redeliver" by (simp add: amqp_faithful_def sample_redeliver_def)
  have n: "dv_headers sample_delivery attemptsHeader = None" by (simp add: sample_delivery_def)
  show ?thesis unfolding Let_def
    using retries_bounded [OF f n, of 0 sample_mq_trigger "\<lambda>_. ''boom''"]
      retries_bounded [OF f n, of 1 sample_mq_trigger "\<lambda>_. ''boom''"]
      retries_bounded [OF f n, of 2 sample_mq_trigger "\<lambda>_. ''boom''"] by (simp del: nth_delivery.simps)
qed

lemma backoff_sequence: "(next_backoff ^^ n) (2 * second) = (if n < 4 then 2 ^ Suc n else 32) * second"
proof (induction n)
  case (Suc n)
  have step: "(next_backoff ^^ Suc n) (2 * second) = next_backoff ((if n < 4 then 2 ^ Suc n else 32) * second)"
    using Suc by simp
  have "n = 0 \<or> n = 1 \<or> n = 2 \<or> n = 3 \<or> \<not> n < 4" by linarith
  then show ?case unfolding step
    by (elim disjE) (simp_all add: next_backoff_def second_def wrap64_id in_int64_def)
qed simp

lemma subscribe_rounds_pauses:
  "i < length (fst (subscribe_rounds b rs)) \<Longrightarrow> fst (subscribe_rounds b rs) ! i = (next_backoff ^^ i) b"
proof (induction b rs arbitrary: i rule: subscribe_rounds.induct)
  case (2 b r rs)
  show ?case
  proof (cases "re_ctx r = None \<and> re_pause_ctx r = None")
    case True
    with 2 show ?thesis by (cases i) (auto simp: funpow_swap1 split: prod.splits)
  next
    case False
    with 2(2) show ?thesis by (cases i) (auto split: option.splits prod.splits)
  qed
qed simp

lemma subscribe_rounds_end:
  "(\<forall>e. snd (subscribe_rounds b rs) = Returned e \<longrightarrow> (\<exists>r \<in> set rs. re_ctx r = Some e \<or> re_pause_ctx r = Some e)) \<and>
   ((\<exists>b'. snd (subscribe_rounds b rs) = Running b') \<longrightarrow> length (fst (subscribe_rounds b rs)) = length rs)"
proof (induction b rs rule: subscribe_rounds.induct)
  case (2 b r rs)
  then show ?case
    by (cases "re_ctx r"; cases "re_pause_ctx r") (auto split: prod.splits)
qed simp

text \<open>Reconnecting backs off 2, 4, 8, 16 and from then on always 32 seconds, one pause after each
  failed round, and the loop ends only when its context has ended: \<open>Subscribe\<close> never gives up
  on a broker by itself, and never returns without an error.\<close>

theorem subscribe_backoff:
  "(\<forall>i < length (fst (Subscribe rounds)). fst (Subscribe rounds) ! i = (if i < 4 then 2 ^ Suc i else 32) * second) \<and>
   (case snd (Subscribe rounds) of
      Returned e \<Rightarrow> \<exists>r \<in> set rounds. re_ctx r = Some e \<or> re_pause_ctx r = Some e
    | Running _ \<Rightarrow> length (fst (Subscribe rounds)) = length rounds)"
  using subscribe_rounds_pauses [of _ "2 * second" rounds] subscribe_rounds_end [of "2 * second" rounds]
  by (auto simp: Subscribe_def backoff_sequence split: subscribe_state.split)

definition sample_rounds :: "round_end list" where
  "sample_rounds = replicate 6 \<lparr>re_err = errorf ''down'', re_ctx = None, re_pause_ctx = None\<rparr>"

theorem subscribe_backoff_witness:
  "fst (Subscribe sample_rounds) ! 5 = 32 * second \<and> 5 < length (fst (Subscribe sample_rounds))"
proof -
  have "length (fst (Subscribe sample_rounds)) = 6"
    by (simp add: sample_rounds_def Subscribe_def numeral_eq_Suc split: prod.splits)
  with subscribe_backoff [of sample_rounds] show ?thesis by simp
qed

section \<open>The consumer's slots\<close>

definition loop_ok :: "trigger \<Rightarrow> consumer_loop \<Rightarrow> bool" where
  "loop_ok t s \<longleftrightarrow> sm_used (cn_sem s) = length (cn_running s) \<and>
     sm_cap (cn_sem s) = nat (mt_max_concurrency t) \<and> sm_used (cn_sem s) \<le> sm_cap (cn_sem s)"

definition loop_start :: "trigger \<Rightarrow> consumer_loop \<Rightarrow> bool" where
  "loop_start t s \<longleftrightarrow> start_loop t = Some s"

inductive loop_next :: "consumer_loop \<Rightarrow> consumer_loop \<Rightarrow> bool" where
  loop_next: "loop_step ev s = Some s' \<Longrightarrow> loop_next s s'"

inductive_cases loop_nextE: "loop_next s s'"

lemma drop_at_length: "i < length xs \<Longrightarrow> Suc (length (drop_at i xs)) = length xs"
  by simp

lemma loop_step_ok:
  assumes "loop_ok t s" "loop_step ev s = Some s'"
  shows "loop_ok t s'"
proof (cases ev)
  case (TakeDelivery a)
  with assms show ?thesis by (auto simp: loop_ok_def split: if_splits arrival.splits)
next
  case TakeSlot
  then obtain sem where sem: "sem_take (cn_sem s) = Some sem" "cn_sem s' = sem"
    "length (cn_running s') = Suc (length (cn_running s))"
    using assms(2) by (auto split: option.splits if_splits)
  with assms(1) show ?thesis
    using chan_sem.take_used [OF sem(1)] chan_sem.take_bounded [OF sem(1)] by (simp add: loop_ok_def)
next
  case (SlotCtxDone e)
  with assms show ?thesis by (auto simp: loop_ok_def split: if_splits)
next
  case (HandlerDone i)
  then obtain sem where sem: "sem_give (cn_sem s) = Some sem" "cn_sem s' = sem"
    "Suc (length (cn_running s')) = length (cn_running s)"
    using assms(2) by (auto split: option.splits if_splits)
  with assms(1) show ?thesis using chan_sem.give_used [OF sem(1)] by (auto simp: loop_ok_def)
qed

lemma loop_start_ok: "loop_start t s \<Longrightarrow> loop_ok t s"
  by (auto simp: loop_start_def start_loop_def sem_make_def loop_ok_def split: if_splits)

interpretation consume: transition_system "loop_start t" loop_next "loop_ok t" for t
  by unfold_locales (auto intro: loop_start_ok loop_step_ok elim!: loop_nextE)

text \<open>C40. A consumer handles at most \<open>MaxConcurrency\<close> messages at once, and each of them holds
  exactly one slot, which it can always give back: no handler blocks at its end and no slot is
  lost. For a trigger as \<open>startConsumer\<close> receives it (normalised) the limit is at least one, so
  that the channel can be made and a message can be handled when none is.\<close>

theorem consumer_bounds:
  assumes "start_loop t = Some s0" "loop_next\<^sup>*\<^sup>* s0 s"
  shows "int (length (cn_running s)) \<le> mt_max_concurrency t \<and> sm_used (cn_sem s) = length (cn_running s) \<and>
    (\<forall>i < length (cn_running s). \<exists>s'. loop_step (HandlerDone i) s = Some s') \<and>
    (\<exists>s1. start_loop (normalizeTrigger t inst) = Some s1 \<and> 0 < sm_cap (cn_sem s1))"
proof -
  have ok: "loop_ok t s" using consume.reachable_good assms by (simp add: loop_start_def)
  have "0 \<le> mt_max_concurrency t" using assms(1) by (auto simp: start_loop_def sem_make_def split: if_splits)
  moreover have "\<exists>s'. loop_step (HandlerDone i) s = Some s'" if "i < length (cn_running s)" for i
    using that ok chan_sem.give_iff [of "cn_sem s"] by (auto simp: loop_ok_def)
  moreover have "\<exists>s1. start_loop (normalizeTrigger t inst) = Some s1 \<and> 0 < sm_cap (cn_sem s1)"
    using normalizeTrigger_positive(1) [of t inst] by (simp add: start_loop_def sem_make_def)
  ultimately show ?thesis using ok by (auto simp: loop_ok_def)
qed

theorem consumer_bounds_witness:
  "\<exists>s0 s. start_loop (normalizeTrigger sample_mq_trigger sample_instance) = Some s0 \<and> loop_next\<^sup>*\<^sup>* s0 s \<and>
     length (cn_running s) = 1 \<and> (\<exists>s'. loop_step (HandlerDone 0) s = Some s')"
proof -
  let ?t = "normalizeTrigger sample_mq_trigger sample_instance"
  have "mt_max_concurrency ?t = 1" by (simp add: normalizeTrigger_def Let_def)
  then obtain s0 where s0: "start_loop ?t = Some s0" "cn_sem s0 = \<lparr>sm_cap = 1, sm_used = 0\<rparr>" "cn_pending s0 = None"
    "cn_running s0 = []" "cn_result s0 = None"
    by (auto simp: start_loop_def sem_make_def intro: that)
  let ?s1 = "s0\<lparr>cn_pending := Some sample_delivery\<rparr>"
  let ?s2 = "?s1\<lparr>cn_sem := \<lparr>sm_cap = 1, sm_used = 1\<rparr>, cn_pending := None, cn_running := [sample_delivery]\<rparr>"
  have "loop_next s0 ?s1" "loop_next ?s1 ?s2"
    by (rule loop_next [of "TakeDelivery (Arrived sample_delivery)"], simp add: s0)
      (rule loop_next [of TakeSlot], simp add: s0 sem_take_def)
  then have run: "loop_next\<^sup>*\<^sup>* s0 ?s2" by (meson converse_rtranclp_into_rtranclp r_into_rtranclp)
  from consumer_bounds [OF s0(1) run, of sample_instance] run s0(1) show ?thesis
    by (intro exI [of _ s0] exI [of _ ?s2]) simp
qed

end
