(* ===== verification/MQ_Service.thy ===== *)
theory MQ_Service
  imports MQ_Rabbit
begin

text \<open>
  The service that keeps one consumer per trigger (mqsvc/main.go): it merges its own triggers
  with those of the gateway and reconciles the running consumers with the result. A consumer is a
  goroutine with a context of its own; a context is known by a number, and \<open>sv_cancelled\<close> holds
  those that were cancelled. \<open>sv_goroutines\<close> are the consumer goroutines that have not yet
  returned from \<open>Subscribe\<close>.
\<close>

record consumer_state =
  cs_trigger :: trigger
  cs_ctx :: nat

record goroutine =
  go_key :: string
  go_trigger :: trigger
  go_ctx :: nat

record service =
  sv_cfg :: mq_config
  sv_worker :: worker
  sv_triggers :: "trigger list"
  sv_brokers :: "string \<rightharpoonup> rabbit"
  sv_consumers :: "string \<rightharpoonup> consumer_state"
  sv_cancelled :: "nat list"
  sv_goroutines :: "goroutine list"
  sv_next_ctx :: nat

definition NewService :: "env \<Rightarrow> mq_config \<Rightarrow> service" where
  "NewService env cfg =
     \<lparr>sv_cfg = cfg,
      sv_worker = SetMetrics (Some NewMetrics) (NewWorker (NewGatewayClient env (mq_gateway_addr cfg))),
      sv_triggers = [], sv_brokers = Map.empty, sv_consumers = Map.empty, sv_cancelled = [],
      sv_goroutines = [], sv_next_ctx = 0\<rparr>"

definition triggerKey :: "trigger \<Rightarrow> string" where
  "triggerKey t = mt_mq_id t @ '':'' @ mt_function t @ '':'' @ mt_id t"

definition sameTrigger :: "trigger \<Rightarrow> trigger \<Rightarrow> bool" where
  "sameTrigger a b \<longleftrightarrow> mt_id a = mt_id b \<and> mt_type a = mt_type b \<and> mt_enabled a = mt_enabled b \<and>
     mt_mq_id a = mt_mq_id b \<and> mt_queue a = mt_queue b \<and> mt_function a = mt_function b \<and>
     mt_max_concurrency a = mt_max_concurrency b \<and> mt_prefetch a = mt_prefetch b \<and>
     mt_max_attempts a = mt_max_attempts b \<and> mt_retry_backoff_ms a = mt_retry_backoff_ms b \<and>
     mt_dlq a = mt_dlq b \<and> tr_broker a = tr_broker b"

fun hasEnabledTriggers :: "trigger list \<Rightarrow> bool" where
  "hasEnabledTriggers [] = False"
| "hasEnabledTriggers (t # ts) = (if mt_enabled t then True else hasEnabledTriggers ts)"

section \<open>Merging\<close>

definition put_triggers :: "trigger list \<Rightarrow> (string \<rightharpoonup> trigger) \<Rightarrow> (string \<rightharpoonup> trigger)" where
  "put_triggers ts m = fold (\<lambda>t m. m(triggerKey t \<mapsto> t)) ts m"

text \<open>Ranging over the merged map yields each of its keys once; then they are sorted.\<close>

definition mergeTriggers :: "trigger list \<Rightarrow> trigger list \<Rightarrow> trigger list" where
  "mergeTriggers local remote =
     (let merged = put_triggers remote (put_triggers local Map.empty);
          keys = sort (remdups (map triggerKey (local @ remote)))
      in map (\<lambda>k. the (merged k)) keys)"

section \<open>Brokers and consumers\<close>

datatype service_error =
    UnknownInstance string string | BrokerFailed go_error | BeingReplaced string | SyncFailed go_error

definition newBroker :: "'w amqp \<Rightarrow> mq_instance \<Rightarrow> 'w \<Rightarrow> (go_error + rabbit) \<times> 'w" where
  "newBroker q inst w =
     (if mi_broker inst = ''rabbitmq'' then NewRabbitMQBroker q inst w
      else (Inl (errorf ''feature not supported''), w))"

text \<open>\<open>brokerFor\<close>: a broker is made outside the lock; who finds another one in the map when it
  comes back closes its own.\<close>

definition keep_broker :: "'w amqp \<Rightarrow> mq_instance \<Rightarrow> rabbit \<Rightarrow> service \<Rightarrow> 'w \<Rightarrow> rabbit \<times> service \<times> 'w" where
  "keep_broker q inst created s w =
     (case sv_brokers s (mi_mq_id inst) of
        Some b \<Rightarrow> (b, s, Close q created w)
      | None \<Rightarrow> (created, s\<lparr>sv_brokers := (sv_brokers s)(mi_mq_id inst \<mapsto> created)\<rparr>, w))"

definition brokerFor :: "'w amqp \<Rightarrow> mq_instance \<Rightarrow> service \<Rightarrow> 'w \<Rightarrow> (service_error + rabbit) \<times> service \<times> 'w" where
  "brokerFor q inst s w =
     (case sv_brokers s (mi_mq_id inst) of
        Some b \<Rightarrow> (Inr b, s, w)
      | None \<Rightarrow>
          (case newBroker q inst w of
             (Inl e, w) \<Rightarrow> (Inl (BrokerFailed e), s, w)
           | (Inr created, w) \<Rightarrow> (let (b, s, w) = keep_broker q inst created s w in (Inr b, s, w))))"

text \<open>The second half of \<open>startConsumer\<close>: the entry is made and the goroutine started. The
  zero \<open>MQInstance\<close> stands for an id that is not configured.\<close>

definition zero_instance :: mq_instance where
  "zero_instance = \<lparr>mi_mq_id = [], mi_broker = [], mi_url = []\<rparr>"

definition instance_for :: "service \<Rightarrow> trigger \<Rightarrow> mq_instance" where
  "instance_for s t = (case instanceByID (sv_cfg s) (mt_mq_id t) of None \<Rightarrow> zero_instance | Some i \<Rightarrow> i)"

definition add_consumer :: "trigger \<Rightarrow> service \<Rightarrow> service_error option \<times> service" where
  "add_consumer t s =
     (let key = triggerKey t; ctx = sv_next_ctx s; s = s\<lparr>sv_next_ctx := Suc ctx\<rparr> in
      case sv_consumers s key of
        Some existing \<Rightarrow>
          (if sameTrigger (cs_trigger existing) t then None else Some (BeingReplaced (mt_id t)),
           s\<lparr>sv_cancelled := ctx # sv_cancelled s\<rparr>)
      | None \<Rightarrow>
          (None, s\<lparr>sv_consumers := (sv_consumers s)(key \<mapsto> \<lparr>cs_trigger = t, cs_ctx = ctx\<rparr>),
                   sv_goroutines := sv_goroutines s @ [\<lparr>go_key = key, go_trigger = t, go_ctx = ctx\<rparr>]\<rparr>))"

definition startConsumer :: "'w amqp \<Rightarrow> trigger \<Rightarrow> service \<Rightarrow> 'w \<Rightarrow> service_error option \<times> service \<times> 'w" where
  "startConsumer q t s w =
     (case brokerFor q (instance_for s t) s w of
        (Inl e, s, w) \<Rightarrow> (Some e, s, w)
      | (Inr _, s, w) \<Rightarrow> (let (err, s) = add_consumer t s in (err, s, w)))"

text \<open>A goroutine whose \<open>Subscribe\<close> has returned removes the entry of its key if that entry
  is for the same trigger.\<close>

definition remove_goroutine :: "goroutine \<Rightarrow> service \<Rightarrow> service" where
  "remove_goroutine g s = s\<lparr>sv_goroutines := remove1 g (sv_goroutines s)\<rparr>"

definition consumer_exit :: "goroutine \<Rightarrow> service \<Rightarrow> service" where
  "consumer_exit g s =
     (let s = remove_goroutine g s in
      case sv_consumers s (go_key g) of
        None \<Rightarrow> s
      | Some current \<Rightarrow>
          if sameTrigger (cs_trigger current) (go_trigger g)
          then s\<lparr>sv_consumers := (sv_consumers s)(go_key g := None)\<rparr> else s)"

section \<open>Reconciling\<close>

fun collect_desired ::
  "(string \<rightharpoonup> mq_instance) \<Rightarrow> trigger list \<Rightarrow> (string \<rightharpoonup> trigger) \<Rightarrow> string list
   \<Rightarrow> service_error + (string \<rightharpoonup> trigger) \<times> string list" where
  "collect_desired insts [] desired keys = Inr (desired, keys)"
| "collect_desired insts (t # ts) desired keys =
     (if \<not> mt_enabled t then collect_desired insts ts desired keys
      else case insts (mt_mq_id t) of
             None \<Rightarrow> Inl (UnknownInstance (mt_id t) (mt_mq_id t))
           | Some inst \<Rightarrow>
               (let t = normalizeTrigger t inst; key = triggerKey t
                in collect_desired insts ts (desired(key \<mapsto> t)) (keys @ [key])))"

definition still_wanted :: "(string \<rightharpoonup> trigger) \<Rightarrow> string \<Rightarrow> consumer_state \<Rightarrow> bool" where
  "still_wanted desired key c \<longleftrightarrow> (case desired key of None \<Rightarrow> False | Some t \<Rightarrow> sameTrigger (cs_trigger c) t)"

text \<open>The loop over the consumers, in the order \<open>ks\<close>.\<close>

fun drop_stale :: "(string \<rightharpoonup> trigger) \<Rightarrow> string list \<Rightarrow> service \<Rightarrow> service" where
  "drop_stale desired [] s = s"
| "drop_stale desired (k # ks) s =
     (case sv_consumers s k of
        None \<Rightarrow> drop_stale desired ks s
      | Some c \<Rightarrow>
          if still_wanted desired k c then drop_stale desired ks s
          else drop_stale desired ks
                 (s\<lparr>sv_cancelled := cs_ctx c # sv_cancelled s, sv_consumers := (sv_consumers s)(k := None)\<rparr>))"

definition to_start :: "(string \<rightharpoonup> trigger) \<Rightarrow> string list \<Rightarrow> service \<Rightarrow> trigger list" where
  "to_start desired keys s =
     map (\<lambda>k. the (desired k))
       (filter (\<lambda>k. case sv_consumers s k of None \<Rightarrow> True | Some c \<Rightarrow> \<not> still_wanted desired k c) keys)"

definition reconcile_locked ::
  "(string \<rightharpoonup> trigger) \<Rightarrow> string list \<Rightarrow> string list \<Rightarrow> service \<Rightarrow> trigger list \<times> service" where
  "reconcile_locked desired keys ks s =
     (let s = drop_stale desired ks s; starts = to_start desired keys s
      in (starts, s\<lparr>sv_triggers := map (\<lambda>k. the (desired k)) keys\<rparr>))"

fun start_all :: "'w amqp \<Rightarrow> trigger list \<Rightarrow> service \<Rightarrow> 'w \<Rightarrow> service_error option \<times> service \<times> 'w" where
  "start_all q [] s w = (None, s, w)"
| "start_all q (t # ts) s w =
     (case startConsumer q t s w of
        (Some e, s, w) \<Rightarrow> (Some e, s, w)
      | (None, s, w) \<Rightarrow> start_all q ts s w)"

definition reconcileTriggers ::
  "'w amqp \<Rightarrow> string list \<Rightarrow> trigger list \<Rightarrow> service \<Rightarrow> 'w \<Rightarrow> service_error option \<times> service \<times> 'w" where
  "reconcileTriggers q ks ts s w =
     (case collect_desired (instanceByID (sv_cfg s)) ts Map.empty [] of
        Inl e \<Rightarrow> (Some e, s, w)
      | Inr (desired, keys) \<Rightarrow>
          (let (starts, s) = reconcile_locked desired (sort keys) ks s in start_all q starts s w))"

definition syncTriggers ::
  "codec \<Rightarrow> 'w outside \<Rightarrow> 'w amqp \<Rightarrow> string list \<Rightarrow> service \<Rightarrow> 'w \<Rightarrow> service_error option \<times> service \<times> 'w" where
  "syncTriggers cd o' q ks s w =
     (let local = mq_triggers (sv_cfg s) in
      case client_Triggers cd o' (wk_gateway (sv_worker s)) w of
        (Inr discovered, w) \<Rightarrow> reconcileTriggers q ks (mergeTriggers local (map trigger_of_json discovered)) s w
      | (Inl e, w) \<Rightarrow> if local = [] then (Some (SyncFailed e), s, w) else reconcileTriggers q ks local s w)"

text \<open>\<open>Start\<close>: the error it returns; the loop of \<open>reconcile\<close> then calls \<open>syncTriggers\<close>
  once per interval.\<close>

definition Start ::
  "codec \<Rightarrow> 'w outside \<Rightarrow> 'w amqp \<Rightarrow> string list \<Rightarrow> service \<Rightarrow> 'w \<Rightarrow> service_error option \<times> service \<times> 'w" where
  "Start cd o' q ks s w =
     (case syncTriggers cd o' q ks s w of
        (Some e, s, w) \<Rightarrow> (if hasEnabledTriggers (mq_triggers (sv_cfg s)) then Some e else None, s, w)
      | (None, s, w) \<Rightarrow> (None, s, w))"

definition reconcile_interval :: "env \<Rightarrow> duration" where
  "reconcile_interval env =
     (let interval = wrap64 (env_int env ''MQ_TRIGGER_SYNC_INTERVAL_MS'' 5000 * 1000000)
      in if interval \<le> 0 then 5 * second else interval)"

definition Triggers :: "service \<Rightarrow> trigger list" where
  "Triggers s = sv_triggers s"

fun cancel_all :: "string list \<Rightarrow> service \<Rightarrow> service" where
  "cancel_all [] s = s"
| "cancel_all (k # ks) s =
     (case sv_consumers s k of
        None \<Rightarrow> cancel_all ks s
      | Some c \<Rightarrow> cancel_all ks (s\<lparr>sv_cancelled := cs_ctx c # sv_cancelled s\<rparr>))"

fun close_all :: "'w amqp \<Rightarrow> string list \<Rightarrow> service \<Rightarrow> 'w \<Rightarrow> 'w" where
  "close_all q [] s w = w"
| "close_all q (k # ks) s w =
     close_all q ks s (case sv_brokers s k of None \<Rightarrow> w | Some b \<Rightarrow> Close q b w)"

definition Close_service :: "'w amqp \<Rightarrow> string list \<Rightarrow> string list \<Rightarrow> service \<Rightarrow> 'w \<Rightarrow> service \<times> 'w" where
  "Close_service q ks bs s w = (cancel_all ks s, close_all q bs s w)"

section \<open>Merging\<close>

lemma sameTrigger_eq: "sameTrigger a b \<longleftrightarrow> a = b"
  by (cases a; cases b) (auto simp: sameTrigger_def)

lemma still_wanted_iff: "still_wanted desired k c \<longleftrightarrow> desired k = Some (cs_trigger c)"
  by (auto simp: still_wanted_def sameTrigger_eq split: option.split)

lemma triggerKey_normalize [simp]: "triggerKey (normalizeTrigger t i) = triggerKey t"
  by (simp add: triggerKey_def)

lemma put_triggers_snoc: "put_triggers (ts @ [t]) m = (put_triggers ts m)(triggerKey t \<mapsto> t)"
  by (simp add: put_triggers_def)

lemma put_triggers_append: "put_triggers (xs @ ys) m = put_triggers ys (put_triggers xs m)"
  by (simp add: put_triggers_def)

lemma put_triggers_Some:
  "put_triggers ts Map.empty k = Some t \<longleftrightarrow>
   (\<exists>pre post. ts = pre @ t # post \<and> triggerKey t = k \<and> k \<notin> triggerKey ` set post)"
proof (induction ts rule: rev_induct)
  case (snoc x ts)
  show ?case
  proof (cases "triggerKey x = k")
    case True
    then have "put_triggers (ts @ [x]) Map.empty k = Some t \<longleftrightarrow> t = x" by (auto simp: put_triggers_snoc)
    also have "\<dots> \<longleftrightarrow> (\<exists>pre post. ts @ [x] = pre @ t # post \<and> triggerKey t = k \<and> k \<notin> triggerKey ` set post)"
    proof
      assume "\<exists>pre post. ts @ [x] = pre @ t # post \<and> triggerKey t = k \<and> k \<notin> triggerKey ` set post"
      then obtain pre post where e: "ts @ [x] = pre @ t # post" "k \<notin> triggerKey ` set post" by blast
      then show "t = x" using True by (cases post rule: rev_cases) auto
    qed (use True in fastforce)
    finally show ?thesis .
  next
    case False
    then have "put_triggers (ts @ [x]) Map.empty k = put_triggers ts Map.empty k" by (auto simp: put_triggers_snoc)
    moreover have "(\<exists>pre post. ts @ [x] = pre @ t # post \<and> triggerKey t = k \<and> k \<notin> triggerKey ` set post) \<longleftrightarrow>
        (\<exists>pre post. ts = pre @ t # post \<and> triggerKey t = k \<and> k \<notin> triggerKey ` set post)"
    proof
      assume "\<exists>pre post. ts @ [x] = pre @ t # post \<and> triggerKey t = k \<and> k \<notin> triggerKey ` set post"
      then obtain pre post where e: "ts @ [x] = pre @ t # post" "triggerKey t = k" "k \<notin> triggerKey ` set post"
        by blast
      with False obtain post' where "post = post' @ [x]" by (cases post rule: rev_cases) auto
      with e show "\<exists>pre post. ts = pre @ t # post \<and> triggerKey t = k \<and> k \<notin> triggerKey ` set post"
        by fastforce
    next
      assume "\<exists>pre post. ts = pre @ t # post \<and> triggerKey t = k \<and> k \<notin> triggerKey ` set post"
      then obtain pre post where "ts = pre @ t # post" "triggerKey t = k" "k \<notin> triggerKey ` set post" by blast
      with False show "\<exists>pre post. ts @ [x] = pre @ t # post \<and> triggerKey t = k \<and> k \<notin> triggerKey ` set post"
        by (intro exI [of _ pre] exI [of _ "post @ [x]"]) auto
    qed
    ultimately show ?thesis using snoc.IH by simp
  qed
qed (simp add: put_triggers_def)

lemma put_triggers_key: "put_triggers ts Map.empty k = Some t \<Longrightarrow> triggerKey t = k \<and> t \<in> set ts"
  by (auto simp: put_triggers_Some)

lemma put_triggers_dom: "dom (put_triggers ts m) = triggerKey ` set ts \<union> dom m"
  by (induction ts arbitrary: m) (auto simp: put_triggers_def)

text \<open>Merging keeps one trigger per key and lets the gateway win. The merged list is strictly
  sorted by key, so its order does not depend on the order of the map; a trigger is in it
  exactly when it is the last one with its key in the service's own triggers followed by the
  gateway's.\<close>

theorem mergeTriggers_spec:
  "sorted_wrt (<) (map triggerKey (mergeTriggers local remote)) \<and>
   (t \<in> set (mergeTriggers local remote) \<longleftrightarrow>
      (\<exists>pre post. local @ remote = pre @ t # post \<and> triggerKey t \<notin> triggerKey ` set post))"
proof -
  let ?m = "put_triggers (local @ remote) Map.empty" and ?ks = "sort (remdups (map triggerKey (local @ remote)))"
  have dom: "dom ?m = set ?ks" by (auto simp: put_triggers_dom)
  have out: "mergeTriggers local remote = map (\<lambda>k. the (?m k)) ?ks"
    by (simp add: mergeTriggers_def Let_def put_triggers_append)
  have key: "triggerKey (the (?m k)) = k" if "k \<in> set ?ks" for k
    using that dom put_triggers_key by (metis domIff option.exhaust_sel)
  have "map triggerKey (mergeTriggers local remote) = ?ks"
    unfolding out map_map comp_def by (rule map_idI) (use key in blast)
  moreover have "sorted_wrt (<) ?ks" by (simp add: strict_sorted_iff)
  moreover have "t \<in> set (mergeTriggers local remote) \<longleftrightarrow> ?m (triggerKey t) = Some t"
  proof
    assume "t \<in> set (mergeTriggers local remote)"
    then obtain k where k: "k \<in> set ?ks" "t = the (?m k)" by (auto simp: out)
    with key dom show "?m (triggerKey t) = Some t" by (metis domIff option.exhaust_sel option.sel)
  next
    assume "?m (triggerKey t) = Some t"
    then have "triggerKey t \<in> set ?ks" "t = the (?m (triggerKey t))" using dom by auto
    then show "t \<in> set (mergeTriggers local remote)" unfolding out set_map by (rule image_eqI [rotated])
  qed
  ultimately show ?thesis by (simp add: put_triggers_Some)
qed

text \<open>A key names its trigger: function names and ids that passed validation hold no colon, so
  two triggers share a key only if they share instance, function and id; a function with a
  colon in it would already break this.\<close>

theorem triggerKey_injective:
  assumes "label_ok n (mt_function a)" "label_ok n (mt_id a)" "label_ok n (mt_function b)" "label_ok n (mt_id b)"
  shows "triggerKey a = triggerKey b \<longleftrightarrow>
    mt_mq_id a = mt_mq_id b \<and> mt_function a = mt_function b \<and> mt_id a = mt_id b"
proof -
  have cut: "x = y \<and> u = v" if "x @ CHR '':'' # u = y @ CHR '':'' # v" "CHR '':'' \<notin> set u" "CHR '':'' \<notin> set v"
    for x y u v :: string
  proof -
    from that(1) obtain us where "x = y @ us \<and> us @ CHR '':'' # u = CHR '':'' # v \<or>
        x @ us = y \<and> CHR '':'' # u = us @ CHR '':'' # v"
      by (auto simp: append_eq_append_conv2)
    then show ?thesis using that(2,3) by (cases us) auto
  qed
  have colon: "CHR '':'' \<notin> set s" if "label_ok n s" for s
    using that by (auto simp: label_ok_def list_all_iff dns_char_def is_lower_def is_digit_def)
  show ?thesis
    using assms [THEN colon] cut [of "mt_mq_id a @ '':'' @ mt_function a" "mt_id a" "mt_mq_id b @ '':'' @ mt_function b" "mt_id b"]
      cut [of "mt_mq_id a" "mt_function a" "mt_mq_id b" "mt_function b"]
    by (auto simp: triggerKey_def)
qed

section \<open>Reconciling\<close>

text \<open>What the service must run: the enabled triggers, normalised for their broker instance.\<close>

definition desired_list :: "(string \<rightharpoonup> mq_instance) \<Rightarrow> trigger list \<Rightarrow> trigger list" where
  "desired_list insts ts = map (\<lambda>t. normalizeTrigger t (the (insts (mt_mq_id t)))) (filter mt_enabled ts)"

definition instances_known :: "(string \<rightharpoonup> mq_instance) \<Rightarrow> trigger list \<Rightarrow> bool" where
  "instances_known insts ts \<longleftrightarrow> (\<forall>t \<in> set ts. mt_enabled t \<longrightarrow> insts (mt_mq_id t) \<noteq> None)"

definition desired_map :: "(string \<rightharpoonup> mq_instance) \<Rightarrow> trigger list \<Rightarrow> (string \<rightharpoonup> trigger)" where
  "desired_map insts ts = put_triggers (desired_list insts ts) Map.empty"

lemma collect_desired_known:
  "instances_known insts ts \<Longrightarrow> collect_desired insts ts m keys =
   Inr (put_triggers (desired_list insts ts) m, keys @ map triggerKey (desired_list insts ts))"
  by (induction insts ts m keys rule: collect_desired.induct)
    (auto simp: instances_known_def desired_list_def put_triggers_def Let_def)

lemma collect_desired_unknown:
  "\<not> instances_known insts ts \<Longrightarrow> \<exists>e. collect_desired insts ts m keys = Inl e"
  by (induction ts arbitrary: m keys) (auto simp: instances_known_def Let_def split: option.split)

lemma drop_stale_sel [simp]:
  "sv_cfg (drop_stale desired ks s) = sv_cfg s" "sv_brokers (drop_stale desired ks s) = sv_brokers s"
  "sv_next_ctx (drop_stale desired ks s) = sv_next_ctx s" "sv_goroutines (drop_stale desired ks s) = sv_goroutines s"
  "sv_worker (drop_stale desired ks s) = sv_worker s"
  by (induction desired ks s rule: drop_stale.induct) (auto split: option.split)

lemma drop_stale_consumers:
  "sv_consumers (drop_stale desired ks s) k =
     (case sv_consumers s k of None \<Rightarrow> None
      | Some c \<Rightarrow> if k \<in> set ks \<and> \<not> still_wanted desired k c then None else Some c)"
  by (induction desired ks s rule: drop_stale.induct) (auto split: option.splits)

definition stale_ctx :: "(string \<rightharpoonup> trigger) \<Rightarrow> (string \<rightharpoonup> consumer_state) \<Rightarrow> string list \<Rightarrow> nat \<Rightarrow> bool" where
  "stale_ctx desired m ks x \<longleftrightarrow> (\<exists>k \<in> set ks. \<exists>c. m k = Some c \<and> \<not> still_wanted desired k c \<and> cs_ctx c = x)"

lemma stale_ctx_drop:
  assumes "m k = Some c" "\<not> still_wanted desired k c"
  shows "stale_ctx desired m (k # ks) x \<longleftrightarrow> x = cs_ctx c \<or> stale_ctx desired (m(k := None)) ks x"
proof
  assume "stale_ctx desired m (k # ks) x"
  then obtain k' c' where "k' \<in> set (k # ks)" "m k' = Some c'" "\<not> still_wanted desired k' c'" "cs_ctx c' = x"
    by (auto simp: stale_ctx_def)
  with assms show "x = cs_ctx c \<or> stale_ctx desired (m(k := None)) ks x"
    by (cases "k' = k") (auto simp: stale_ctx_def)
qed (use assms in \<open>auto simp: stale_ctx_def split: if_splits\<close>)

lemma stale_ctx_keep:
  "m k = None \<Longrightarrow> stale_ctx desired m (k # ks) x \<longleftrightarrow> stale_ctx desired m ks x"
  "m k = Some c \<Longrightarrow> still_wanted desired k c \<Longrightarrow> stale_ctx desired m (k # ks) x \<longleftrightarrow> stale_ctx desired m ks x"
  by (auto simp: stale_ctx_def)

lemma drop_stale_cancelled:
  "x \<in> set (sv_cancelled (drop_stale desired ks s)) \<longleftrightarrow>
   x \<in> set (sv_cancelled s) \<or> stale_ctx desired (sv_consumers s) ks x"
proof (induction desired ks s rule: drop_stale.induct)
  case (2 desired k ks s)
  show ?case
  proof (cases "sv_consumers s k")
    case None
    with 2(1) show ?thesis by (simp add: stale_ctx_keep)
  next
    case (Some c)
    show ?thesis
    proof (cases "still_wanted desired k c")
      case True
      with 2(2) [OF Some] Some show ?thesis by (simp add: stale_ctx_keep)
    next
      case False
      with 2(3) [OF Some] Some show ?thesis by (simp add: stale_ctx_drop fun_upd_def) blast
    qed
  qed
qed (simp add: stale_ctx_def)

text \<open>The registry of consumers is consistent: entries sit under their own key, their contexts are
  distinct, not cancelled and already given out, and each has its goroutine, which runs the trigger of the entry. No two
  goroutines share a context. A goroutine may be without an entry.\<close>

definition entry_goroutine :: "string \<Rightarrow> consumer_state \<Rightarrow> goroutine" where
  "entry_goroutine k c = \<lparr>go_key = k, go_trigger = cs_trigger c, go_ctx = cs_ctx c\<rparr>"

definition service_ok :: "service \<Rightarrow> bool" where
  "service_ok s \<longleftrightarrow>
     (\<forall>k c. sv_consumers s k = Some c \<longrightarrow> triggerKey (cs_trigger c) = k \<and> cs_ctx c < sv_next_ctx s \<and>
        cs_ctx c \<notin> set (sv_cancelled s)) \<and>
     (\<forall>k k' c c'. sv_consumers s k = Some c \<longrightarrow> sv_consumers s k' = Some c' \<longrightarrow> cs_ctx c = cs_ctx c' \<longrightarrow> k = k') \<and>
     (\<forall>x \<in> set (sv_cancelled s). x < sv_next_ctx s) \<and>
     (\<forall>k c. sv_consumers s k = Some c \<longrightarrow> entry_goroutine k c \<in> set (sv_goroutines s)) \<and>
     distinct (map go_ctx (sv_goroutines s)) \<and> (\<forall>g \<in> set (sv_goroutines s). go_ctx g < sv_next_ctx s)"

lemma service_okD:
  assumes "service_ok s" "sv_consumers s k = Some c"
  shows "triggerKey (cs_trigger c) = k" "cs_ctx c < sv_next_ctx s" "cs_ctx c \<notin> set (sv_cancelled s)"
  using assms by (auto simp: service_ok_def)

lemma service_ok_ctx:
  "service_ok s \<Longrightarrow> sv_consumers s k = Some c \<Longrightarrow> sv_consumers s k' = Some c' \<Longrightarrow> cs_ctx c = cs_ctx c' \<Longrightarrow>
   k = k'"
  by (simp add: service_ok_def)

lemma service_ok_goroutine:
  assumes "service_ok s" "sv_consumers s k = Some c" "g \<in> set (sv_goroutines s)" "go_ctx g = cs_ctx c"
  shows "g = entry_goroutine k c"
proof -
  have "entry_goroutine k c \<in> set (sv_goroutines s)" "inj_on go_ctx (set (sv_goroutines s))"
    using assms(1,2) by (simp_all add: service_ok_def distinct_map)
  then show ?thesis using assms(3,4) inj_onD [of go_ctx "set (sv_goroutines s)" g "entry_goroutine k c"] by (simp add: entry_goroutine_def)
qed

lemma drop_stale_ok:
  assumes ok: "service_ok s"
  shows "service_ok (drop_stale desired ks s)"
proof -
  let ?s = "drop_stale desired ks s"
  have sub: "sv_consumers s k = Some c \<and> (k \<in> set ks \<longrightarrow> still_wanted desired k c)"
    if "sv_consumers ?s k = Some c" for k c
    using that by (auto simp: drop_stale_consumers split: option.splits if_splits)
  have live: "cs_ctx c \<notin> set (sv_cancelled ?s)" if "sv_consumers ?s k = Some c" for k c
  proof
    assume "cs_ctx c \<in> set (sv_cancelled ?s)"
    then have "stale_ctx desired (sv_consumers s) ks (cs_ctx c)"
      using service_okD(3) [OF ok] sub [OF that] by (auto simp: drop_stale_cancelled)
    then obtain k' c' where "k' \<in> set ks" "sv_consumers s k' = Some c'" "\<not> still_wanted desired k' c'" "cs_ctx c' = cs_ctx c"
      by (auto simp: stale_ctx_def)
    with sub [OF that] service_ok_ctx [OF ok] show False by (metis option.inject)
  qed
  have "x < sv_next_ctx s" if "x \<in> set (sv_cancelled ?s)" for x
    using that ok service_okD(2) [OF ok] by (auto simp: drop_stale_cancelled stale_ctx_def service_ok_def)
  moreover have "triggerKey (cs_trigger c) = k \<and> cs_ctx c < sv_next_ctx s" if "sv_consumers ?s k = Some c" for k c
    using sub [OF that] service_okD [OF ok] by blast
  moreover have "k = k'" if "sv_consumers ?s k = Some c" "sv_consumers ?s k' = Some c'" "cs_ctx c = cs_ctx c'" for k k' c c'
    using sub that service_ok_ctx [OF ok] by blast
  moreover have "entry_goroutine k c \<in> set (sv_goroutines s)" if "sv_consumers ?s k = Some c" for k c
    using sub [OF that] ok by (simp add: service_ok_def)
  ultimately show ?thesis using ok unfolding service_ok_def [of ?s] service_ok_def [of s] using live by simp
qed

lemma add_consumer_new:
  "sv_consumers s (triggerKey t) = None \<Longrightarrow> add_consumer t s =
     (None, s\<lparr>sv_next_ctx := Suc (sv_next_ctx s),
       sv_consumers := (sv_consumers s)(triggerKey t \<mapsto> \<lparr>cs_trigger = t, cs_ctx = sv_next_ctx s\<rparr>),
       sv_goroutines := sv_goroutines s @ [\<lparr>go_key = triggerKey t, go_trigger = t, go_ctx = sv_next_ctx s\<rparr>]\<rparr>)"
  by (simp add: add_consumer_def Let_def)

lemma add_consumer_old:
  "sv_consumers s (triggerKey t) = Some c \<Longrightarrow> add_consumer t s =
     (if cs_trigger c = t then None else Some (BeingReplaced (mt_id t)),
      s\<lparr>sv_next_ctx := Suc (sv_next_ctx s), sv_cancelled := sv_next_ctx s # sv_cancelled s\<rparr>)"
  by (simp add: add_consumer_def Let_def sameTrigger_eq)

lemma add_consumer_ok:
  assumes "service_ok s" "add_consumer t s = (e, s')"
  shows "service_ok s'"
proof (cases "sv_consumers s (triggerKey t)")
  case None
  with assms(2) have s': "s' = s\<lparr>sv_next_ctx := Suc (sv_next_ctx s),
       sv_consumers := (sv_consumers s)(triggerKey t \<mapsto> \<lparr>cs_trigger = t, cs_ctx = sv_next_ctx s\<rparr>),
       sv_goroutines := sv_goroutines s @ [\<lparr>go_key = triggerKey t, go_trigger = t, go_ctx = sv_next_ctx s\<rparr>]\<rparr>"
    by (simp add: add_consumer_new)
  have old: "cs_ctx c \<noteq> sv_next_ctx s" if "sv_consumers s k = Some c" for k c
    using service_okD(2) [OF assms(1) that] by simp
  have canc: "sv_next_ctx s \<notin> set (sv_cancelled s)" using assms(1) by (auto simp: service_ok_def)
  have gor: "entry_goroutine k c \<in> set (sv_goroutines s')" if "sv_consumers s' k = Some c" for k c
    using that assms(1) by (auto simp: s' service_ok_def entry_goroutine_def split: if_splits)
  have ctx: "distinct (map go_ctx (sv_goroutines s'))" "\<forall>g \<in> set (sv_goroutines s'). go_ctx g < sv_next_ctx s'"
    using assms(1) by (auto simp: s' service_ok_def less_Suc_eq)
  have "(\<forall>k c. sv_consumers s' k = Some c \<longrightarrow> triggerKey (cs_trigger c) = k \<and> cs_ctx c < sv_next_ctx s' \<and>
        cs_ctx c \<notin> set (sv_cancelled s')) \<and>
     (\<forall>k k' c c'. sv_consumers s' k = Some c \<longrightarrow> sv_consumers s' k' = Some c' \<longrightarrow> cs_ctx c = cs_ctx c' \<longrightarrow> k = k') \<and>
     (\<forall>x \<in> set (sv_cancelled s'). x < sv_next_ctx s')"
    using assms(1) canc old unfolding s' service_ok_def
    by (simp add: less_Suc_eq) (metis)
  then show ?thesis using gor ctx unfolding service_ok_def by blast
next
  case (Some c)
  then have s': "s' = s\<lparr>sv_next_ctx := Suc (sv_next_ctx s), sv_cancelled := sv_next_ctx s # sv_cancelled s\<rparr>"
    using assms(2) by (simp add: add_consumer_old)
  have old: "cs_ctx c \<noteq> sv_next_ctx s" if "sv_consumers s k = Some c" for k c
    using service_okD(2) [OF assms(1) that] by simp
  show ?thesis
    using assms(1) old unfolding s' service_ok_def by (simp add: less_Suc_eq)
qed

lemma brokerFor_sel:
  assumes "brokerFor q inst s w = (r, s', w')"
  shows "sv_consumers s' = sv_consumers s \<and> sv_cancelled s' = sv_cancelled s \<and> sv_next_ctx s' = sv_next_ctx s \<and>
    sv_goroutines s' = sv_goroutines s \<and> sv_triggers s' = sv_triggers s \<and> sv_cfg s' = sv_cfg s"
  using assms by (auto simp: brokerFor_def keep_broker_def Let_def split: option.splits prod.splits sum.splits)

lemma service_ok_cong:
  "sv_consumers s' = sv_consumers s \<Longrightarrow> sv_cancelled s' = sv_cancelled s \<Longrightarrow> sv_next_ctx s' = sv_next_ctx s \<Longrightarrow>
   sv_goroutines s' = sv_goroutines s \<Longrightarrow> service_ok s' = service_ok s"
  by (simp add: service_ok_def)

text \<open>Every entry is for the trigger that is desired under its key.\<close>

definition serves :: "(string \<rightharpoonup> trigger) \<Rightarrow> service \<Rightarrow> bool" where
  "serves desired s \<longleftrightarrow> (\<forall>k c. sv_consumers s k = Some c \<longrightarrow> desired k = Some (cs_trigger c))"

lemma startConsumer_spec:
  assumes "startConsumer q t s w = (err, s', w')" "service_ok s" "serves desired s" "desired (triggerKey t) = Some t"
  shows "service_ok s'" "serves desired s'"
    "\<And>k c. sv_consumers s k = Some c \<Longrightarrow> sv_consumers s' k = Some c"
    "err = None \<Longrightarrow> dom (sv_consumers s') = insert (triggerKey t) (dom (sv_consumers s))"
    "sv_cfg s' = sv_cfg s" "set (sv_cancelled s) \<subseteq> set (sv_cancelled s')" "sv_triggers s' = sv_triggers s"
proof -
  obtain r s1 w1 where b: "brokerFor q (instance_for s t) s w = (r, s1, w1)" by (metis prod_cases3)
  note sel = brokerFor_sel [OF b]
  have ok1: "service_ok s1" using assms(2) sel service_ok_cong by blast
  have "service_ok s' \<and> serves desired s' \<and> (\<forall>k c. sv_consumers s k = Some c \<longrightarrow> sv_consumers s' k = Some c) \<and>
    (err = None \<longrightarrow> dom (sv_consumers s') = insert (triggerKey t) (dom (sv_consumers s))) \<and> sv_cfg s' = sv_cfg s \<and>
    set (sv_cancelled s) \<subseteq> set (sv_cancelled s') \<and> sv_triggers s' = sv_triggers s"
  proof (cases r)
    case (Inl e)
    with assms b sel ok1 show ?thesis by (auto simp: startConsumer_def serves_def)
  next
    case (Inr br)
    with assms(1) b have add: "add_consumer t s1 = (err, s')" by (simp add: startConsumer_def split: prod.splits)
    from add_consumer_ok [OF ok1 add] have ok: "service_ok s'" .
    show ?thesis
    proof (cases "sv_consumers s1 (triggerKey t)")
      case None
      with add sel assms(3,4) ok show ?thesis by (auto simp: add_consumer_new serves_def split: if_splits)
    next
      case (Some c)
      then have "cs_trigger c = t" using sel assms(3,4) by (auto simp: serves_def)
      with Some add sel assms(3,4) ok show ?thesis by (auto simp: add_consumer_old serves_def)
    qed
  qed
  then show "service_ok s'" "serves desired s'" "\<And>k c. sv_consumers s k = Some c \<Longrightarrow> sv_consumers s' k = Some c"
    "err = None \<Longrightarrow> dom (sv_consumers s') = insert (triggerKey t) (dom (sv_consumers s))"
    "sv_cfg s' = sv_cfg s" "set (sv_cancelled s) \<subseteq> set (sv_cancelled s')" "sv_triggers s' = sv_triggers s" by blast+
qed

lemma start_all_spec:
  "start_all q ts s w = (err, s', w') \<Longrightarrow> service_ok s \<Longrightarrow> serves desired s \<Longrightarrow>
   (\<forall>t \<in> set ts. desired (triggerKey t) = Some t) \<Longrightarrow>
   service_ok s' \<and> serves desired s' \<and> (\<forall>k c. sv_consumers s k = Some c \<longrightarrow> sv_consumers s' k = Some c) \<and>
   (err = None \<longrightarrow> dom (sv_consumers s') = triggerKey ` set ts \<union> dom (sv_consumers s)) \<and> sv_cfg s' = sv_cfg s \<and>
   set (sv_cancelled s) \<subseteq> set (sv_cancelled s') \<and> sv_triggers s' = sv_triggers s"
proof (induction q ts s w rule: start_all.induct)
  case (2 q t ts s w)
  obtain e1 s1 w1 where st: "startConsumer q t s w = (e1, s1, w1)" by (metis prod_cases3)
  have "desired (triggerKey t) = Some t" using 2(5) by simp
  note one = startConsumer_spec [OF st 2(3,4) this]
  show ?case
  proof (cases e1)
    case (Some e)
    with 2(2) st one show ?thesis by auto
  next
    case None
    with 2(2) st have rest: "start_all q ts s1 w1 = (err, s', w')" by simp
    have "\<forall>t \<in> set ts. desired (triggerKey t) = Some t" using 2(5) by simp
    from 2(1) [OF st [symmetric] None refl rest one(1,2) this] one None show ?thesis by auto
  qed
qed auto

text \<open>What starting consumers adds: goroutines with new contexts and entries, and cancelled contexts that
  are new.\<close>

definition grown :: "service \<Rightarrow> service \<Rightarrow> bool" where
  "grown s s' \<longleftrightarrow>
     (\<exists>gs. sv_goroutines s' = sv_goroutines s @ gs \<and>
        (\<forall>g \<in> set gs. \<exists>c. sv_consumers s' (go_key g) = Some c \<and> g = entry_goroutine (go_key g) c)) \<and>
     (\<forall>x \<in> set (sv_cancelled s') - set (sv_cancelled s). sv_next_ctx s \<le> x) \<and> set (sv_cancelled s) \<subseteq> set (sv_cancelled s') \<and>
     sv_next_ctx s \<le> sv_next_ctx s' \<and> (\<forall>k c. sv_consumers s k = Some c \<longrightarrow> sv_consumers s' k = Some c) \<and>
     (\<forall>k c. sv_consumers s' k = Some c \<longrightarrow> sv_consumers s k = Some c \<or> sv_next_ctx s \<le> cs_ctx c)"

lemma grown_refl: "grown s s"
  by (simp add: grown_def)

lemma grown_trans:
  assumes "grown s s1" "grown s1 s2"
  shows "grown s s2"
proof -
  obtain gs1 gs2 where gs: "sv_goroutines s1 = sv_goroutines s @ gs1" "sv_goroutines s2 = sv_goroutines s1 @ gs2"
    "\<forall>g \<in> set gs1. \<exists>c. sv_consumers s1 (go_key g) = Some c \<and> g = entry_goroutine (go_key g) c"
    "\<forall>g \<in> set gs2. \<exists>c. sv_consumers s2 (go_key g) = Some c \<and> g = entry_goroutine (go_key g) c"
    using assms unfolding grown_def by blast
  then have "\<forall>g \<in> set (gs1 @ gs2). \<exists>c. sv_consumers s2 (go_key g) = Some c \<and> g = entry_goroutine (go_key g) c"
    using assms(2) unfolding grown_def by (metis Un_iff set_append)
  moreover have "sv_goroutines s2 = sv_goroutines s @ (gs1 @ gs2)" using gs by simp
  moreover have "\<forall>x \<in> set (sv_cancelled s2) - set (sv_cancelled s). sv_next_ctx s \<le> x"
    using assms unfolding grown_def by (meson DiffD1 DiffD2 DiffI le_trans)
  moreover have "set (sv_cancelled s) \<subseteq> set (sv_cancelled s2)" "sv_next_ctx s \<le> sv_next_ctx s2"
    "\<forall>k c. sv_consumers s k = Some c \<longrightarrow> sv_consumers s2 k = Some c"
    using assms unfolding grown_def by auto
  moreover have "\<forall>k c. sv_consumers s2 k = Some c \<longrightarrow> sv_consumers s k = Some c \<or> sv_next_ctx s \<le> cs_ctx c"
    using assms unfolding grown_def by (meson le_trans)
  ultimately show ?thesis unfolding grown_def by blast
qed

lemma startConsumer_grown:
  assumes "startConsumer q t s w = (err, s', w')"
  shows "grown s s'"
proof -
  obtain r s1 w1 where b: "brokerFor q (instance_for s t) s w = (r, s1, w1)" by (metis prod_cases3)
  note sel = brokerFor_sel [OF b]
  have "grown s s1" using sel by (simp add: grown_def)
  moreover have "grown s1 s'"
  proof (cases r)
    case (Inl e)
    then show ?thesis using assms b by (simp add: startConsumer_def grown_refl)
  next
    case (Inr br)
    with assms b have add: "add_consumer t s1 = (err, s')" by (simp add: startConsumer_def split: prod.splits)
    show ?thesis
    proof (cases "sv_consumers s1 (triggerKey t)")
      case None
      then show ?thesis using add by (auto simp: add_consumer_new grown_def entry_goroutine_def split: if_splits)
    next
      case (Some c)
      then show ?thesis using add by (auto simp: add_consumer_old grown_def)
    qed
  qed
  ultimately show ?thesis by (rule grown_trans)
qed

lemma start_all_grown: "start_all q ts s w = (err, s', w') \<Longrightarrow> grown s s'"
proof (induction q ts s w rule: start_all.induct)
  case (2 q t ts s w)
  obtain e1 s1 w1 where st: "startConsumer q t s w = (e1, s1, w1)" by (metis prod_cases3)
  show ?case
  proof (cases e1)
    case None
    then have "grown s1 s'" using 2(1) [OF st [symmetric] None refl] 2(2) st by simp
    then show ?thesis using startConsumer_grown [OF st] grown_trans by blast
  qed (use 2(2) st startConsumer_grown [OF st] in simp)
qed (simp add: grown_refl)

text \<open>The consumers that run: goroutines whose context is not cancelled. An orphan is one without an
  entry of its own.\<close>

definition running :: "service \<Rightarrow> goroutine set" where
  "running s = {g \<in> set (sv_goroutines s). go_ctx g \<notin> set (sv_cancelled s)}"

definition orphans :: "service \<Rightarrow> goroutine set" where
  "orphans s = {g \<in> running s. \<forall>c. sv_consumers s (go_key g) = Some c \<longrightarrow> cs_ctx c \<noteq> go_ctx g}"

lemma running_entries:
  assumes "service_ok s"
  shows "running s = {entry_goroutine k c | k c. sv_consumers s k = Some c} \<union> orphans s"
proof (intro equalityI subsetI)
  fix g assume g: "g \<in> running s"
  show "g \<in> {entry_goroutine k c | k c. sv_consumers s k = Some c} \<union> orphans s"
  proof (cases "g \<in> orphans s")
    case False
    then obtain c where "sv_consumers s (go_key g) = Some c" "cs_ctx c = go_ctx g" using g by (auto simp: orphans_def)
    then show ?thesis using service_ok_goroutine [OF assms, of "go_key g" c g] g by (auto simp: running_def)
  qed simp
next
  fix g assume "g \<in> {entry_goroutine k c | k c. sv_consumers s k = Some c} \<union> orphans s"
  then show "g \<in> running s" using assms by (auto simp: orphans_def running_def service_ok_def entry_goroutine_def)
qed

lemma orphans_kept:
  assumes "service_ok s" "range_order (sv_consumers s) ks" "grown (drop_stale desired ks s\<lparr>sv_triggers := ts\<rparr>) s'"
  shows "orphans s' = orphans s"
proof (rule set_eqI)
  let ?d = "drop_stale desired ks s"
  obtain gs where gs: "sv_goroutines s' = sv_goroutines s @ gs"
    "\<forall>g \<in> set gs. \<exists>c. sv_consumers s' (go_key g) = Some c \<and> g = entry_goroutine (go_key g) c"
    using assms(3) by (auto simp: grown_def)
  have canc: "x \<in> set (sv_cancelled s') \<longleftrightarrow> x \<in> set (sv_cancelled s) \<or> stale_ctx desired (sv_consumers s) ks x"
    if "x < sv_next_ctx s" for x
  proof -
    have "x \<in> set (sv_cancelled s') \<longleftrightarrow> x \<in> set (sv_cancelled ?d)"
      using assms(3) that by (auto simp: grown_def) (metis DiffI leD)
    then show ?thesis by (simp add: drop_stale_cancelled)
  qed
  have kept: "sv_consumers s' k = Some c" if "sv_consumers s k = Some c" "still_wanted desired k c" for k c
    using assms(3) that by (simp add: grown_def drop_stale_consumers)
  have stale: "stale_ctx desired (sv_consumers s) ks (cs_ctx c)"
    if "sv_consumers s k = Some c" "\<not> still_wanted desired k c" for k c
    using that assms(2) by (auto simp: stale_ctx_def range_order_def)
  fix g
  show "g \<in> orphans s' \<longleftrightarrow> g \<in> orphans s"
  proof
    assume o': "g \<in> orphans s'"
    then have "g \<notin> set gs" using gs(2) by (auto simp: orphans_def entry_goroutine_def) (metis goroutine.select_convs(3))
    then have g: "g \<in> set (sv_goroutines s)" using o' gs(1) by (auto simp: orphans_def running_def)
    then have x: "go_ctx g < sv_next_ctx s" using assms(1) by (auto simp: service_ok_def)
    have live: "go_ctx g \<notin> set (sv_cancelled s)" "\<not> stale_ctx desired (sv_consumers s) ks (go_ctx g)"
      using o' canc [OF x] by (auto simp: orphans_def running_def)
    have "cs_ctx c \<noteq> go_ctx g" if "sv_consumers s (go_key g) = Some c" for c
      using that stale kept live(2) o' by (metis (mono_tags, lifting) orphans_def mem_Collect_eq)
    then show "g \<in> orphans s" using g live by (simp add: orphans_def running_def)
  next
    assume o: "g \<in> orphans s"
    then have g: "g \<in> set (sv_goroutines s)" "go_ctx g \<notin> set (sv_cancelled s)" by (auto simp: orphans_def running_def)
    then have x: "go_ctx g < sv_next_ctx s" using assms(1) by (auto simp: service_ok_def)
    have entry: "cs_ctx c \<noteq> go_ctx g" if "sv_consumers s k = Some c" for k c
    proof
      assume "cs_ctx c = go_ctx g"
      then have "g = entry_goroutine k c" using service_ok_goroutine [OF assms(1) that g(1)] by simp
      then show False using o that by (simp add: orphans_def entry_goroutine_def)
    qed
    then have "go_ctx g \<notin> set (sv_cancelled s')" using canc [OF x] g(2) by (auto simp: stale_ctx_def)
    moreover have "cs_ctx c \<noteq> go_ctx g" if "sv_consumers s' (go_key g) = Some c" for c
    proof
      assume c: "cs_ctx c = go_ctx g"
      then have "sv_consumers ?d (go_key g) = Some c" using assms(3) that x by (fastforce simp: grown_def)
      then have "sv_consumers s (go_key g) = Some c" by (auto simp: drop_stale_consumers split: option.splits if_splits)
      then show False using entry c by simp
    qed
    ultimately show "g \<in> orphans s'" using g gs(1) by (simp add: orphans_def running_def)
  qed
qed

lemma reconcile_locked_spec:
  assumes "reconcile_locked desired keys ks s = (starts, s')" "service_ok s" "range_order (sv_consumers s) ks"
    "\<And>k t. desired k = Some t \<Longrightarrow> triggerKey t = k" "set keys = dom desired"
  shows "service_ok s'" "serves desired s'"
    "\<And>k. sv_consumers s' k = (case sv_consumers s k of None \<Rightarrow> None
       | Some c \<Rightarrow> if still_wanted desired k c then Some c else None)"
    "\<And>k c. sv_consumers s k = Some c \<Longrightarrow> \<not> still_wanted desired k c \<Longrightarrow> cs_ctx c \<in> set (sv_cancelled s')"
    "\<forall>t \<in> set starts. desired (triggerKey t) = Some t"
    "triggerKey ` set starts = dom desired - dom (sv_consumers s')"
    "sv_triggers s' = map (\<lambda>k. the (desired k)) keys" "sv_cfg s' = sv_cfg s"
proof -
  let ?d = "drop_stale desired ks s"
  have s': "s' = ?d\<lparr>sv_triggers := map (\<lambda>k. the (desired k)) keys\<rparr>" and starts: "starts = to_start desired keys ?d"
    using assms(1) by (auto simp: reconcile_locked_def Let_def)
  have cons: "sv_consumers ?d k = (case sv_consumers s k of None \<Rightarrow> None
      | Some c \<Rightarrow> if still_wanted desired k c then Some c else None)" for k
    using assms(3) by (auto simp: drop_stale_consumers range_order_def split: option.split)
  show "service_ok s'" using drop_stale_ok [OF assms(2), of desired ks] service_ok_cong [of s' ?d] by (simp add: s')
  show "serves desired s'" by (auto simp: serves_def s' cons still_wanted_iff split: option.splits if_splits)
  show "sv_consumers s' k = (case sv_consumers s k of None \<Rightarrow> None
      | Some c \<Rightarrow> if still_wanted desired k c then Some c else None)" for k by (simp add: s' cons)
  show "cs_ctx c \<in> set (sv_cancelled s')" if "sv_consumers s k = Some c" "\<not> still_wanted desired k c" for k c
    using that assms(3) by (auto simp: s' drop_stale_cancelled stale_ctx_def range_order_def)
  have st: "t \<in> set starts \<longleftrightarrow> (\<exists>k. desired k = Some t \<and> sv_consumers ?d k = None)" for t
  proof -
    have "\<exists>k. k \<in> set keys \<and> desired k = Some t \<and> sv_consumers ?d k = None" if "t \<in> set starts"
    proof -
      from that obtain k where k: "k \<in> set keys" "t = the (desired k)"
        "case sv_consumers ?d k of None \<Rightarrow> True | Some c \<Rightarrow> \<not> still_wanted desired k c"
        by (auto simp: starts to_start_def)
      moreover have "sv_consumers ?d k = None" using k(3) by (auto simp: cons split: option.splits if_splits)
      ultimately show ?thesis using assms(5) by auto
    qed
    moreover have "t \<in> set starts" if "desired k = Some t" "sv_consumers ?d k = None" for k
      using that assms(5) by (auto simp: starts to_start_def image_iff intro!: bexI [of _ k])
    ultimately show ?thesis by blast
  qed
  then show "\<forall>t \<in> set starts. desired (triggerKey t) = Some t" using assms(4) by auto
  show "triggerKey ` set starts = dom desired - dom (sv_consumers s')"
  proof (rule set_eqI)
    show "k \<in> triggerKey ` set starts \<longleftrightarrow> k \<in> dom desired - dom (sv_consumers s')" for k
      using st assms(4) by (auto simp: s' image_iff) (metis not_None_eq)
  qed
  show "sv_triggers s' = map (\<lambda>k. the (desired k)) keys" "sv_cfg s' = sv_cfg s" by (simp_all add: s')
qed

lemma desired_map_key: "desired_map insts ts k = Some t \<Longrightarrow> triggerKey t = k"
  unfolding desired_map_def using put_triggers_key by blast

lemma desired_map_dom: "dom (desired_map insts ts) = triggerKey ` set (filter mt_enabled ts)"
  by (simp add: desired_map_def put_triggers_dom desired_list_def image_image)

lemma reconcileTriggers_known:
  assumes "instances_known (instanceByID (sv_cfg s)) ts" "service_ok s" "range_order (sv_consumers s) ks"
    "reconcileTriggers q ks ts s w = (err, s', w')"
  defines "desired \<equiv> desired_map (instanceByID (sv_cfg s)) ts"
  shows "service_ok s' \<and> serves desired s' \<and> sv_cfg s' = sv_cfg s \<and>
    (err = None \<longrightarrow> dom (sv_consumers s') = dom desired) \<and>
    (\<forall>k c. sv_consumers s k = Some c \<longrightarrow> (if still_wanted desired k c then sv_consumers s' k = Some c
       else cs_ctx c \<in> set (sv_cancelled s'))) \<and>
    sv_triggers s' = map (\<lambda>k. the (desired k)) (sort (map triggerKey (filter mt_enabled ts))) \<and>
    orphans s' = orphans s \<and> set (sv_goroutines s) \<subseteq> set (sv_goroutines s')"
proof -
  let ?insts = "instanceByID (sv_cfg s)" and ?keys = "sort (map triggerKey (filter mt_enabled ts))"
  have ks: "map triggerKey (desired_list ?insts ts) = map triggerKey (filter mt_enabled ts)"
    by (simp add: desired_list_def)
  have col: "collect_desired ?insts ts Map.empty [] = Inr (desired, map triggerKey (filter mt_enabled ts))"
    using collect_desired_known [OF assms(1), of Map.empty "[]"] ks by (simp add: desired_def desired_map_def)
  obtain starts s1 where loc: "reconcile_locked desired ?keys ks s = (starts, s1)" by (metis prod.exhaust)
  have run: "start_all q starts s1 w = (err, s', w')"
    using assms(4) col loc by (simp add: reconcileTriggers_def)
  have key: "triggerKey t = k" if "desired k = Some t" for k t using that desired_map_key by (simp add: desired_def)
  have dom: "set ?keys = dom desired" by (simp add: desired_def desired_map_dom)
  note L = reconcile_locked_spec [OF loc assms(2,3) key dom]
  note S = start_all_spec [OF run L(1,2,5)]
  have "dom (sv_consumers s') = dom desired" if "err = None"
    using S that L(2,6) by (auto simp: serves_def dom_def)
  moreover have "if still_wanted desired k c then sv_consumers s' k = Some c else cs_ctx c \<in> set (sv_cancelled s')"
    if "sv_consumers s k = Some c" for k c
  proof (cases "still_wanted desired k c")
    case True
    with that L(3) [of k] S show ?thesis by simp
  next
    case False
    with that L(4) S show ?thesis by auto
  qed
  moreover have s1: "s1 = (drop_stale desired ks s)\<lparr>sv_triggers := map (\<lambda>k. the (desired k)) ?keys\<rparr>"
    using loc by (auto simp: reconcile_locked_def Let_def)
  have "orphans s' = orphans s"
    using orphans_kept [OF assms(2,3)] start_all_grown [OF run] by (simp add: s1)
  moreover have "set (sv_goroutines s) \<subseteq> set (sv_goroutines s')"
    using start_all_grown [OF run] by (auto simp: grown_def s1)
  ultimately show ?thesis using S L(7,8) by auto
qed

text \<open>The end of a goroutine keeps the registry consistent, even where it makes an orphan of another one.\<close>

lemma consumer_exit_ok:
  assumes "service_ok s" "g \<in> set (sv_goroutines s)" "go_key g = triggerKey (go_trigger g)"
  shows "service_ok (consumer_exit g s)"
proof -
  let ?e = "consumer_exit g s"
  have e: "sv_goroutines ?e = remove1 g (sv_goroutines s)" "sv_cancelled ?e = sv_cancelled s" "sv_next_ctx ?e = sv_next_ctx s"
    by (simp_all add: consumer_exit_def Let_def remove_goroutine_def split: option.split)
  have sub: "sv_consumers s k = Some c \<and> entry_goroutine k c \<noteq> g" if "sv_consumers ?e k = Some c" for k c
    using that by (auto simp: consumer_exit_def Let_def remove_goroutine_def sameTrigger_eq entry_goroutine_def
      split: option.splits if_splits)
  have "entry_goroutine k c \<in> set (sv_goroutines ?e)" if "sv_consumers ?e k = Some c" for k c
    using sub [OF that] assms(1) by (simp add: e service_ok_def)
  moreover have "distinct (map go_ctx (sv_goroutines ?e))"
    using assms(1) by (auto simp: e service_ok_def distinct_map dest: inj_on_subset [OF _ set_remove1_subset])
  moreover have "\<forall>h \<in> set (sv_goroutines ?e). go_ctx h < sv_next_ctx ?e"
    using assms(1) by (auto simp: e service_ok_def dest: subsetD [OF set_remove1_subset])
  moreover have "triggerKey (cs_trigger c) = k \<and> cs_ctx c < sv_next_ctx ?e \<and> cs_ctx c \<notin> set (sv_cancelled ?e)"
    if "sv_consumers ?e k = Some c" for k c
    using service_okD [OF assms(1), of k c] sub [OF that] by (auto simp: e)
  moreover have "k = k'" if "sv_consumers ?e k = Some c" "sv_consumers ?e k' = Some c'" "cs_ctx c = cs_ctx c'" for k k' c c'
    using service_ok_ctx [OF assms(1)] sub that by blast
  ultimately show ?thesis using assms(1) unfolding service_ok_def [of ?e] by (simp add: e service_ok_def)
qed

text \<open>C14. Reconciling makes the running consumers exactly the enabled triggers, up to the orphans there were. When
  it succeeds, and no consumer returns meanwhile, there is one entry per key of an enabled trigger and no other, for the
  trigger as it must be, normalised for its broker instance. The goroutines that run, those whose context is not
  cancelled, are exactly one for each entry, with its trigger and its context, and, besides, those that ran
  before without an entry of their own: reconciling neither makes nor stops such a one. Without them there is one consumer per
  key. A consumer whose trigger did not change keeps its entry, its context and its goroutine, every other entry's context
  is cancelled, and a goroutine is never dropped, only cancelled. Doing it again with the same triggers
  starts and cancels nothing.\<close>

theorem reconcileTriggers_exact:
  assumes "service_ok s" "range_order (sv_consumers s) ks" "reconcileTriggers q ks ts s w = (None, s', w')"
    "range_order (sv_consumers s') ks'"
  defines "desired \<equiv> desired_map (instanceByID (sv_cfg s)) ts"
  shows "(\<lambda>k. map_option cs_trigger (sv_consumers s' k)) = desired \<and> service_ok s' \<and>
    {g \<in> set (sv_goroutines s'). go_ctx g \<notin> set (sv_cancelled s')} =
      {\<lparr>go_key = k, go_trigger = cs_trigger c, go_ctx = cs_ctx c\<rparr> | k c. sv_consumers s' k = Some c} \<union>
      {g \<in> set (sv_goroutines s). go_ctx g \<notin> set (sv_cancelled s) \<and>
        (\<forall>c. sv_consumers s (go_key g) = Some c \<longrightarrow> cs_ctx c \<noteq> go_ctx g)} \<and>
    set (sv_goroutines s) \<subseteq> set (sv_goroutines s') \<and>
    (\<forall>k c. sv_consumers s k = Some c \<longrightarrow> (if desired k = Some (cs_trigger c) then sv_consumers s' k = Some c
       else cs_ctx c \<in> set (sv_cancelled s'))) \<and>
    reconcileTriggers q ks' ts s' w' = (None, s', w')"
proof -
  have known: "instances_known (instanceByID (sv_cfg s)) ts"
  proof (rule ccontr)
    assume "\<not> ?thesis"
    then obtain e where "collect_desired (instanceByID (sv_cfg s)) ts Map.empty [] = Inl e"
      using collect_desired_unknown by blast
    with assms(3) show False by (simp add: reconcileTriggers_def)
  qed
  note R = reconcileTriggers_known [OF known assms(1,2,3), folded desired_def]
  have cons: "map_option cs_trigger (sv_consumers s' k) = desired k" for k
  proof (cases "sv_consumers s' k")
    case None
    then have "k \<notin> dom desired" using R by (metis domIff)
    then have "desired k = None" by (simp add: domIff)
    with None show ?thesis by simp
  next
    case (Some c)
    with R show ?thesis by (auto simp: serves_def)
  qed
  have key: "triggerKey t = k" if "desired k = Some t" for k t using that desired_map_key by (simp add: desired_def)
  let ?keys = "sort (map triggerKey (filter mt_enabled ts))"
  have col: "collect_desired (instanceByID (sv_cfg s')) ts Map.empty [] = Inr (desired, map triggerKey (filter mt_enabled ts))"
    using collect_desired_known [OF known, of Map.empty "[]"] R
    by (simp add: desired_def desired_map_def desired_list_def comp_def)
  obtain starts s2 where loc: "reconcile_locked desired ?keys ks' s' = (starts, s2)" by (metis prod.exhaust)
  have same: "drop_stale desired ks' s' = s'" for ks'
  proof (induction ks')
    case (Cons k ks')
    have "sv_consumers s' k = Some c \<Longrightarrow> still_wanted desired k c" for c using R by (simp add: still_wanted_iff serves_def)
    with Cons show ?case by (simp split: option.split)
  qed simp
  have "to_start desired ?keys s' = []"
  proof -
    have "\<exists>c. sv_consumers s' k = Some c \<and> still_wanted desired k c" if "k \<in> set ?keys" for k
    proof -
      from that have "k \<in> dom desired" by (auto simp: desired_def desired_map_dom)
      then have "k \<in> dom (sv_consumers s')" using R by simp
      then obtain c where "sv_consumers s' k = Some c" by blast
      moreover from this have "still_wanted desired k c" using R by (simp add: still_wanted_iff serves_def)
      ultimately show ?thesis by blast
    qed
    then show ?thesis unfolding to_start_def map_is_Nil_conv filter_empty_conv by fastforce
  qed
  then have "reconcileTriggers q ks' ts s' w' = (None, s'\<lparr>sv_triggers := map (\<lambda>k. the (desired k)) ?keys\<rparr>, w')"
    by (simp add: reconcileTriggers_def col reconcile_locked_def Let_def same)
  moreover have "s'\<lparr>sv_triggers := map (\<lambda>k. the (desired k)) ?keys\<rparr> = s'"
    using R by (simp add: desired_def)
  moreover have "(\<lambda>k. map_option cs_trigger (sv_consumers s' k)) = desired" using cons by blast
  moreover have "running s' = {entry_goroutine k c | k c. sv_consumers s' k = Some c} \<union> orphans s"
    using running_entries [of s'] R by simp
  then have "{g \<in> set (sv_goroutines s'). go_ctx g \<notin> set (sv_cancelled s')} =
      {\<lparr>go_key = k, go_trigger = cs_trigger c, go_ctx = cs_ctx c\<rparr> | k c. sv_consumers s' k = Some c} \<union>
      {g \<in> set (sv_goroutines s). go_ctx g \<notin> set (sv_cancelled s) \<and>
        (\<forall>c. sv_consumers s (go_key g) = Some c \<longrightarrow> cs_ctx c \<noteq> go_ctx g)}"
    by (simp add: running_def orphans_def entry_goroutine_def conj_assoc)
  ultimately show ?thesis using R by (simp add: still_wanted_iff)
qed

definition sample_service :: service where
  "sample_service = NewService (\<lambda>_. []) sample_mq_config"

lemma sample_service_ok: "service_ok sample_service \<and> range_order (sv_consumers sample_service) []"
  by (simp add: sample_service_def NewService_def service_ok_def range_order_def)

lemma sample_key: "triggerKey sample_mq_trigger = ''rabbitmq-main:order-fn:orders''"
  by (simp add: triggerKey_def)

lemma sample_broker:
  "newBroker sample_amqp sample_instance () = (Inr \<lparr>rb_inst = sample_instance, rb_conn = Some 1\<rparr>, ())"
  by (simp add: newBroker_def NewRabbitMQBroker_def connectLocked_def sample_amqp_def)

lemma sample_service_sel [simp]:
  "sv_brokers sample_service = Map.empty" "sv_consumers sample_service = Map.empty"
  "sv_cancelled sample_service = []" "sv_goroutines sample_service = []" "sv_next_ctx sample_service = 0"
  "sv_cfg sample_service = sample_mq_config"
  by (simp_all add: sample_service_def NewService_def)

lemma sample_instances: "instanceByID sample_mq_config = [''rabbitmq-main'' \<mapsto> sample_instance]"
  by (simp add: instanceByID_def)

definition sample_started :: service where
  "sample_started = sample_service
     \<lparr>sv_triggers := [normalizeTrigger sample_mq_trigger sample_instance],
      sv_brokers := [''rabbitmq-main'' \<mapsto> \<lparr>rb_inst = sample_instance, rb_conn = Some 1\<rparr>],
      sv_next_ctx := 1,
      sv_consumers := [''rabbitmq-main:order-fn:orders'' \<mapsto>
        \<lparr>cs_trigger = normalizeTrigger sample_mq_trigger sample_instance, cs_ctx = 0\<rparr>],
      sv_goroutines := [\<lparr>go_key = ''rabbitmq-main:order-fn:orders'',
        go_trigger = normalizeTrigger sample_mq_trigger sample_instance, go_ctx = 0\<rparr>]\<rparr>"

lemma sample_reconciled:
  "reconcileTriggers sample_amqp [] [sample_mq_trigger] sample_service () = (None, sample_started, ())"
  by (simp add: reconcileTriggers_def reconcile_locked_def Let_def sample_instances to_start_def
    startConsumer_def brokerFor_def instance_for_def keep_broker_def sample_broker add_consumer_def sample_key
    sample_started_def)

theorem reconcileTriggers_exact_witness:
  "\<exists>s'. reconcileTriggers sample_amqp [] [sample_mq_trigger] sample_service () = (None, s', ()) \<and>
     reconcileTriggers sample_amqp [''rabbitmq-main:order-fn:orders''] [sample_mq_trigger] s' () = (None, s', ()) \<and>
     sv_consumers s' ''rabbitmq-main:order-fn:orders'' \<noteq> None"
proof -
  have "range_order (sv_consumers sample_started) [''rabbitmq-main:order-fn:orders'']"
    by (simp add: range_order_def sample_started_def)
  from reconcileTriggers_exact [OF _ _ sample_reconciled this] sample_service_ok sample_reconciled
  show ?thesis by (auto simp: sample_started_def)
qed

text \<open>One trigger can stop them all. If any enabled trigger, local or published by any user of the
  gateway, names a broker instance that this service does not have, reconciling fails before it
  changes anything: consumers of removed triggers keep running and no other new trigger is started,
  for as long as that one trigger is there. Otherwise only a broker that cannot be reached makes it
  fail, and even then the stale consumers are gone.\<close>

theorem reconcile_all_or_nothing:
  assumes "service_ok s" "range_order (sv_consumers s) ks" "reconcileTriggers q ks ts s w = (err, s', w')"
  shows "if \<exists>t \<in> set ts. mt_enabled t \<and> instanceByID (sv_cfg s) (mt_mq_id t) = None
    then err \<noteq> None \<and> s' = s \<and> w' = w
    else \<forall>k c. sv_consumers s' k = Some c \<longrightarrow> (\<exists>t \<in> set ts. mt_enabled t \<and> triggerKey t = k)"
proof (cases "instances_known (instanceByID (sv_cfg s)) ts")
  case True
  then have "\<not> (\<exists>t \<in> set ts. mt_enabled t \<and> instanceByID (sv_cfg s) (mt_mq_id t) = None)"
    by (auto simp: instances_known_def)
  moreover have "k \<in> dom (desired_map (instanceByID (sv_cfg s)) ts)" if "sv_consumers s' k = Some c" for k c
    using reconcileTriggers_known [OF True assms] that by (auto simp: serves_def)
  ultimately show ?thesis by (fastforce simp: desired_map_dom)
next
  case False
  then obtain e where "collect_desired (instanceByID (sv_cfg s)) ts Map.empty [] = Inl e"
    using collect_desired_unknown by blast
  with assms(3) False show ?thesis by (auto simp: reconcileTriggers_def instances_known_def)
qed

theorem reconcile_all_or_nothing_witness:
  "\<exists>e. reconcileTriggers sample_amqp [] [sample_mq_trigger, mt_mq_id_update (\<lambda>_. ''elsewhere'') sample_mq_trigger]
     sample_service () = (Some e, sample_service, ())"
proof -
  let ?bad = "mt_mq_id_update (\<lambda>_. ''elsewhere'') sample_mq_trigger"
  obtain err s' w' where run: "reconcileTriggers sample_amqp [] [sample_mq_trigger, ?bad] sample_service () = (err, s', w')"
    by (metis prod_cases3)
  have "\<exists>t \<in> set [sample_mq_trigger, ?bad]. mt_enabled t \<and> instanceByID (sv_cfg sample_service) (mt_mq_id t) = None"
    by (simp add: sample_instances)
  with reconcile_all_or_nothing [OF _ _ run] sample_service_ok run show ?thesis by auto
qed

text \<open>A late exit removes its successor. When a trigger is changed and changed back before the
  goroutine of the first version has returned, that goroutine still finds an entry for its own
  trigger and deletes it: the new consumer runs on without an entry, and the next reconciliation
  starts a second consumer beside it. Both contexts are live.\<close>

lemma consumer_exit_removes:
  "sv_consumers s (go_key g) = Some c \<Longrightarrow> cs_trigger c = go_trigger g \<Longrightarrow>
   consumer_exit g s = (remove_goroutine g s)\<lparr>sv_consumers := (sv_consumers s)(go_key g := None)\<rparr>"
  by (simp add: consumer_exit_def Let_def remove_goroutine_def sameTrigger_eq)

theorem late_exit_removes_successor:
  assumes "service_ok s" "g \<in> set (sv_goroutines s)" "g' \<in> set (sv_goroutines s)"
    "go_key g' = go_key g" "go_trigger g' = go_trigger g" "go_key g = triggerKey (go_trigger g)"
    "go_ctx g \<in> set (sv_cancelled s)" "go_ctx g' \<notin> set (sv_cancelled s)"
    "sv_consumers s (go_key g) = Some \<lparr>cs_trigger = go_trigger g', cs_ctx = go_ctx g'\<rparr>"
    "sv_brokers s (mt_mq_id (go_trigger g)) = Some b" "mi_mq_id (instance_for s (go_trigger g)) = mt_mq_id (go_trigger g)"
  shows "\<exists>s2 g''. startConsumer q (go_trigger g) (consumer_exit g s) w = (None, s2, w) \<and>
    g' \<in> set (sv_goroutines s2) \<and> g'' \<in> set (sv_goroutines s2) \<and> go_ctx g'' \<noteq> go_ctx g' \<and>
    go_trigger g'' = go_trigger g' \<and> go_ctx g' \<notin> set (sv_cancelled s2) \<and> go_ctx g'' \<notin> set (sv_cancelled s2)"
proof -
  let ?e = "consumer_exit g s" and ?t = "go_trigger g"
  have e: "?e = (remove_goroutine g s)\<lparr>sv_consumers := (sv_consumers s)(go_key g := None)\<rparr>"
    using assms(5,9) by (simp add: consumer_exit_removes)
  have "g' \<noteq> g" using assms(7,8) by auto
  then have g': "g' \<in> set (remove1 g (sv_goroutines s))" using assms(3) by simp
  have fresh: "go_ctx g' < sv_next_ctx s" "sv_next_ctx s \<notin> set (sv_cancelled s)"
    using service_okD(2) [OF assms(1,9)] assms(1) by (auto simp: service_ok_def)
  have inst: "instance_for ?e ?t = instance_for s ?t" by (simp add: e remove_goroutine_def instance_for_def)
  have brk: "brokerFor q (instance_for s ?t) ?e w = (Inr b, ?e, w)"
    using assms(10,11) by (simp add: brokerFor_def e remove_goroutine_def)
  have none: "sv_consumers ?e (triggerKey ?t) = None" using assms(6) by (simp add: e)
  have "startConsumer q ?t ?e w = (None, snd (add_consumer ?t ?e), w)"
    using none by (simp add: startConsumer_def inst brk add_consumer_new)
  moreover have "g' \<in> set (sv_goroutines (snd (add_consumer ?t ?e)))"
    "\<lparr>go_key = triggerKey ?t, go_trigger = ?t, go_ctx = sv_next_ctx s\<rparr> \<in> set (sv_goroutines (snd (add_consumer ?t ?e)))"
    "sv_cancelled (snd (add_consumer ?t ?e)) = sv_cancelled s"
    unfolding add_consumer_new [OF none] using g' by (simp_all add: e remove_goroutine_def)
  ultimately show ?thesis
    using fresh assms(5,8)
    by (intro exI [of _ "snd (add_consumer ?t ?e)"]
      exI [of _ "\<lparr>go_key = triggerKey ?t, go_trigger = ?t, go_ctx = sv_next_ctx s\<rparr>"]) auto
qed

text \<open>The run that leads there: the trigger is reconciled, changed, and changed back.\<close>

definition replaced :: "trigger \<Rightarrow> service \<Rightarrow> service" where
  "replaced t s = s
     \<lparr>sv_triggers := [t], sv_next_ctx := Suc (sv_next_ctx s),
      sv_consumers := [triggerKey t \<mapsto> \<lparr>cs_trigger = t, cs_ctx = sv_next_ctx s\<rparr>],
      sv_cancelled := cs_ctx (the (sv_consumers s (triggerKey t))) # sv_cancelled s,
      sv_goroutines := sv_goroutines s @ [\<lparr>go_key = triggerKey t, go_trigger = t, go_ctx = sv_next_ctx s\<rparr>]\<rparr>"

lemma reconcile_replaces:
  assumes "mt_enabled t" "instanceByID (sv_cfg s) (mt_mq_id t) = Some i" "sv_brokers s (mt_mq_id t) = Some b"
    "sv_consumers s = [triggerKey t \<mapsto> c]" "cs_trigger c \<noteq> normalizeTrigger t i"
  shows "reconcileTriggers q [triggerKey t] [t] s w = (None, replaced (normalizeTrigger t i) s, w)"
proof -
  have "mi_mq_id i = mt_mq_id t" using instanceByID_Some assms(2) by blast
  with assms show ?thesis
    by (simp add: reconcileTriggers_def reconcile_locked_def Let_def to_start_def still_wanted_iff startConsumer_def
      brokerFor_def instance_for_def add_consumer_def replaced_def)
qed

definition sample_changed :: trigger where
  "sample_changed = mt_queue_update (\<lambda>_. ''orders-v2'') sample_mq_trigger"

definition sample_back :: service where
  "sample_back = replaced (normalizeTrigger sample_mq_trigger sample_instance)
     (replaced (normalizeTrigger sample_changed sample_instance) sample_started)"

lemma sample_changed_sel [simp]:
  "mt_queue sample_changed = ''orders-v2''" "mt_mq_id sample_changed = ''rabbitmq-main''" "mt_enabled sample_changed"
  "mt_function sample_changed = ''order-fn''" "mt_id sample_changed = ''orders''"
  by (simp_all add: sample_changed_def)

lemma sample_changed_key [simp]: "triggerKey sample_changed = ''rabbitmq-main:order-fn:orders''"
  by (simp add: triggerKey_def)

lemma sample_normalize_neq: "normalizeTrigger sample_mq_trigger i \<noteq> normalizeTrigger sample_changed i"
proof
  assume "normalizeTrigger sample_mq_trigger i = normalizeTrigger sample_changed i"
  then have "mt_queue (normalizeTrigger sample_mq_trigger i) = mt_queue (normalizeTrigger sample_changed i)" by simp
  then show False by simp
qed

lemma sample_started_sel:
  "sv_cfg sample_started = sample_mq_config"
  "sv_brokers sample_started = [''rabbitmq-main'' \<mapsto> \<lparr>rb_inst = sample_instance, rb_conn = Some 1\<rparr>]"
  "sv_consumers sample_started = [''rabbitmq-main:order-fn:orders'' \<mapsto>
     \<lparr>cs_trigger = normalizeTrigger sample_mq_trigger sample_instance, cs_ctx = 0\<rparr>]"
  "sv_next_ctx sample_started = 1"
  by (simp_all add: sample_started_def)

lemma replaced_sel:
  "sv_cfg (replaced t s) = sv_cfg s" "sv_brokers (replaced t s) = sv_brokers s"
  "sv_consumers (replaced t s) = [triggerKey t \<mapsto> \<lparr>cs_trigger = t, cs_ctx = sv_next_ctx s\<rparr>]"
  by (simp_all add: replaced_def)

lemma sample_back_run:
  "reconcileTriggers sample_amqp [''rabbitmq-main:order-fn:orders''] [sample_changed] sample_started () =
     (None, replaced (normalizeTrigger sample_changed sample_instance) sample_started, ())"
  "reconcileTriggers sample_amqp [''rabbitmq-main:order-fn:orders''] [sample_mq_trigger]
     (replaced (normalizeTrigger sample_changed sample_instance) sample_started) () = (None, sample_back, ())"
proof -
  have "reconcileTriggers sample_amqp [triggerKey sample_changed] [sample_changed] sample_started () =
     (None, replaced (normalizeTrigger sample_changed sample_instance) sample_started, ())"
    by (rule reconcile_replaces [where b = "\<lparr>rb_inst = sample_instance, rb_conn = Some 1\<rparr>" and
        c = "\<lparr>cs_trigger = normalizeTrigger sample_mq_trigger sample_instance, cs_ctx = 0\<rparr>"])
      (simp_all add: sample_started_sel sample_instances sample_normalize_neq)
  then show "reconcileTriggers sample_amqp [''rabbitmq-main:order-fn:orders''] [sample_changed] sample_started () =
     (None, replaced (normalizeTrigger sample_changed sample_instance) sample_started, ())" by simp
  have "reconcileTriggers sample_amqp [triggerKey sample_mq_trigger] [sample_mq_trigger]
     (replaced (normalizeTrigger sample_changed sample_instance) sample_started) () = (None, sample_back, ())"
    unfolding sample_back_def
    by (rule reconcile_replaces [where b = "\<lparr>rb_inst = sample_instance, rb_conn = Some 1\<rparr>" and
        c = "\<lparr>cs_trigger = normalizeTrigger sample_changed sample_instance, cs_ctx = 1\<rparr>"])
      (simp_all add: replaced_sel sample_started_sel sample_instances sample_normalize_neq [symmetric] sample_key)
  then show "reconcileTriggers sample_amqp [''rabbitmq-main:order-fn:orders''] [sample_mq_trigger]
     (replaced (normalizeTrigger sample_changed sample_instance) sample_started) () = (None, sample_back, ())"
    by (simp add: sample_key)
qed

lemma sample_back_ok: "service_ok sample_back"
proof -
  have ord: "range_order (sv_consumers sample_started) [''rabbitmq-main:order-fn:orders'']"
    "range_order (sv_consumers (replaced (normalizeTrigger sample_changed sample_instance) sample_started))
      [''rabbitmq-main:order-fn:orders'']"
    by (simp_all add: range_order_def sample_started_def replaced_def)
  have known: "instances_known (instanceByID (sv_cfg s)) [t]"
    if "sv_cfg s = sample_mq_config" "mt_mq_id t = ''rabbitmq-main''" for s t
    using that by (simp add: instances_known_def sample_instances)
  have "service_ok sample_started"
    using reconcileTriggers_known [OF known conjunct1 [OF sample_service_ok] conjunct2 [OF sample_service_ok]
      sample_reconciled] by simp
  then have "service_ok (replaced (normalizeTrigger sample_changed sample_instance) sample_started)"
    using reconcileTriggers_known [OF known _ ord(1) sample_back_run(1)] by (simp add: sample_started_def)
  then show ?thesis
    using reconcileTriggers_known [OF known _ ord(2) sample_back_run(2)]
    by (simp add: sample_started_def replaced_def)
qed

theorem late_exit_removes_successor_witness:
  "\<exists>g s2 g' g''. startConsumer sample_amqp (normalizeTrigger sample_mq_trigger sample_instance)
       (consumer_exit g sample_back) () = (None, s2, ()) \<and>
     g \<in> set (sv_goroutines sample_back) \<and> g' \<in> set (sv_goroutines s2) \<and> g'' \<in> set (sv_goroutines s2) \<and>
     go_ctx g'' \<noteq> go_ctx g' \<and> go_trigger g'' = go_trigger g'"
proof -
  let ?t = "normalizeTrigger sample_mq_trigger sample_instance" and ?k = "''rabbitmq-main:order-fn:orders''"
  let ?g = "\<lparr>go_key = ?k, go_trigger = ?t, go_ctx = 0\<rparr>" and ?g' = "\<lparr>go_key = ?k, go_trigger = ?t, go_ctx = 2\<rparr>"
  let ?b = "\<lparr>rb_inst = sample_instance, rb_conn = Some 1\<rparr>"
  have mem: "?g \<in> set (sv_goroutines sample_back)" "?g' \<in> set (sv_goroutines sample_back)"
    by (simp_all add: sample_back_def replaced_def sample_started_def sample_key)
  have "\<exists>s2 g''. startConsumer sample_amqp (go_trigger ?g) (consumer_exit ?g sample_back) () = (None, s2, ()) \<and>
    ?g' \<in> set (sv_goroutines s2) \<and> g'' \<in> set (sv_goroutines s2) \<and> go_ctx g'' \<noteq> go_ctx ?g' \<and>
    go_trigger g'' = go_trigger ?g' \<and> go_ctx ?g' \<notin> set (sv_cancelled s2) \<and> go_ctx g'' \<notin> set (sv_cancelled s2)"
    by (rule late_exit_removes_successor [OF sample_back_ok mem, where b = ?b])
      (simp_all add: sample_back_def replaced_def sample_started_def sample_key instance_for_def sample_instances)
  then obtain s2 g'' where "startConsumer sample_amqp ?t (consumer_exit ?g sample_back) () = (None, s2, ())"
    "?g' \<in> set (sv_goroutines s2)" "g'' \<in> set (sv_goroutines s2)" "go_ctx g'' \<noteq> go_ctx ?g'"
    "go_trigger g'' = go_trigger ?g'" by auto
  with mem(1) show ?thesis by blast
qed

end
