(* ===== verification/Log_Ring.thy ===== *)
theory Log_Ring
  imports Faas_Prelude
begin

text \<open>
  The ring buffer of the log daemon (\<open>ring\<close> in logdaemon/shared.go): a fixed array of entries, the
  slot written next, and a count, with the channels of the streams that follow it. The array is
  shown to be a queue of the latest entries, which is the contract \<open>log_buffer\<close> that the daemon uses.
\<close>

section \<open>The ring\<close>

record log_entry =
  le_time :: time
  le_function :: string
  le_stream :: string
  le_line :: string

definition ring_size :: nat where
  "ring_size = 1000"

definition zero_entry :: log_entry where
  "zero_entry = \<lparr>le_time = 0, le_function = [], le_stream = [], le_line = []\<rparr>"

text \<open>A channel is a number; \<open>rg_chans\<close> holds what is buffered in each, and \<open>rg_made\<close> counts those
  that were made.\<close>

record ring =
  rg_entries :: "log_entry list"
  rg_head :: nat
  rg_count :: nat
  rg_subs :: "nat list"
  rg_chans :: "nat \<Rightarrow> log_entry list"
  rg_made :: nat

definition new_ring :: ring where
  "new_ring = \<lparr>rg_entries = replicate ring_size zero_entry, rg_head = 0, rg_count = 0, rg_subs = [],
     rg_chans = (\<lambda>_. []), rg_made = 0\<rparr>"

text \<open>\<open>push\<close>: the locked section, then, without the lock, a send to each channel of the copied list, which is
  dropped when the 64 places of the channel are taken. The definition \<open>push\<close> has these steps with nothing in between,
  which is enough for what the ring itself holds (\<open>pushed_contents\<close> below); for the streams \<open>ring_step\<close> has them apart.\<close>

definition push_locked :: "log_entry \<Rightarrow> ring \<Rightarrow> ring \<times> nat list" where
  "push_locked e r =
     (let r' = r\<lparr>rg_entries := (rg_entries r)[rg_head r := e], rg_head := (rg_head r + 1) mod ring_size,
                 rg_count := (if rg_count r < ring_size then rg_count r + 1 else rg_count r)\<rparr>
      in (r', rg_subs r'))"

definition chan_cap :: nat where
  "chan_cap = 64"

definition send :: "log_entry \<Rightarrow> nat \<Rightarrow> ring \<Rightarrow> ring" where
  "send e ch r =
     (if length (rg_chans r ch) < chan_cap then r\<lparr>rg_chans := (rg_chans r)(ch := rg_chans r ch @ [e])\<rparr> else r)"

definition push :: "log_entry \<Rightarrow> ring \<Rightarrow> ring" where
  "push e r = (case push_locked e r of (r', subs) \<Rightarrow> fold (send e) subs r')"

definition tail :: "int \<Rightarrow> ring \<Rightarrow> log_entry list" where
  "tail n r =
     (if rg_count r = 0 then []
      else
        let n = (if n \<le> 0 \<or> n > int (rg_count r) then rg_count r else nat n);
            start = (rg_head r + ring_size - n) mod ring_size
        in map (\<lambda>i. rg_entries r ! ((start + i) mod ring_size)) [0..<n])"

definition subscribe :: "ring \<Rightarrow> nat \<times> ring" where
  "subscribe r = (rg_made r, r\<lparr>rg_subs := rg_subs r @ [rg_made r], rg_made := rg_made r + 1\<rparr>)"

fun drop_sub :: "nat \<Rightarrow> nat list \<Rightarrow> nat list" where
  "drop_sub x [] = []"
| "drop_sub x (y # ys) = (if y = x then ys else y # drop_sub x ys)"

definition unsubscribe :: "nat \<Rightarrow> ring \<Rightarrow> ring" where
  "unsubscribe ch r = r\<lparr>rg_subs := drop_sub ch (rg_subs r)\<rparr>"

definition receive :: "nat \<Rightarrow> ring \<Rightarrow> (log_entry \<times> ring) option" where
  "receive ch r =
     (case rg_chans r ch of
        [] \<Rightarrow> None
      | e # es \<Rightarrow> Some (e, r\<lparr>rg_chans := (rg_chans r)(ch := es)\<rparr>))"

section \<open>The entries in order\<close>

definition ring_ok :: "ring \<Rightarrow> bool" where
  "ring_ok r \<longleftrightarrow> length (rg_entries r) = ring_size \<and> rg_head r < ring_size \<and> rg_count r \<le> ring_size \<and>
     distinct (rg_subs r) \<and> (\<forall>ch \<in> set (rg_subs r). ch < rg_made r) \<and> (\<forall>ch. length (rg_chans r ch) \<le> chan_cap)"

definition contents :: "ring \<Rightarrow> log_entry list" where
  "contents r = map (\<lambda>i. rg_entries r ! ((rg_head r + ring_size - rg_count r + i) mod ring_size)) [0..<rg_count r]"

lemma contents_length [simp]: "length (contents r) = rg_count r"
  by (simp add: contents_def)

lemma contents_nth: "i < rg_count r \<Longrightarrow> contents r ! i = rg_entries r ! ((rg_head r + ring_size - rg_count r + i) mod ring_size)"
  by (simp add: contents_def)

lemma ring_size_pos [simp]: "0 < ring_size"
  by (simp add: ring_size_def)

lemma send_same [simp]:
  "rg_entries (send e ch r) = rg_entries r" "rg_head (send e ch r) = rg_head r" "rg_count (send e ch r) = rg_count r"
  "rg_subs (send e ch r) = rg_subs r" "rg_made (send e ch r) = rg_made r"
  by (simp_all add: send_def)

lemma sends_same [simp]:
  "rg_entries (fold (send e) cs r) = rg_entries r" "rg_head (fold (send e) cs r) = rg_head r"
  "rg_count (fold (send e) cs r) = rg_count r" "rg_subs (fold (send e) cs r) = rg_subs r"
  "rg_made (fold (send e) cs r) = rg_made r"
  by (induction cs arbitrary: r) simp_all

lemma push_fields:
  "rg_entries (push e r) = (rg_entries r)[rg_head r := e]" "rg_head (push e r) = (rg_head r + 1) mod ring_size"
  "rg_count (push e r) = (if rg_count r < ring_size then rg_count r + 1 else rg_count r)"
  "rg_subs (push e r) = rg_subs r" "rg_made (push e r) = rg_made r"
  by (simp_all add: push_def push_locked_def Let_def)

text \<open>The slot just behind \<open>k\<close> others, counted from the one written next, is not that one.\<close>

lemma slot_other: "h < N \<Longrightarrow> 0 < k \<Longrightarrow> k < N \<Longrightarrow> (h + k) mod N \<noteq> h" for h k N :: nat
  by (cases "h + k < N") (auto simp: mod_if)

theorem contents_push:
  assumes "ring_ok r"
  shows "contents (push e r) = take_last ring_size (contents r @ [e])"
proof (cases "rg_count r < ring_size")
  case True
  let ?h = "rg_head r" and ?c = "rg_count r"
  have h: "?h < ring_size" and len: "length (rg_entries r) = ring_size" using assms by (simp_all add: ring_ok_def)
  have "contents (push e r) ! i = (contents r @ [e]) ! i" if i: "i < ?c + 1" for i
  proof -
    have "((?h + 1) mod ring_size + ring_size - (?c + 1) + i) mod ring_size
        = ((?h + 1) mod ring_size + (ring_size - (?c + 1) + i)) mod ring_size"
      using True by (simp add: add.assoc)
    also have "\<dots> = (?h + 1 + (ring_size - (?c + 1) + i)) mod ring_size" by (rule mod_add_left_eq)
    also have "?h + 1 + (ring_size - (?c + 1) + i) = ?h + (ring_size - ?c + i)" using True by simp
    finally have ix: "((?h + 1) mod ring_size + ring_size - (?c + 1) + i) mod ring_size = (?h + (ring_size - ?c + i)) mod ring_size" .
    have "contents (push e r) ! i = rg_entries (push e r) ! ((rg_head (push e r) + ring_size - rg_count (push e r) + i) mod ring_size)"
      using i True by (intro contents_nth) (simp add: push_fields)
    also have "\<dots> = (rg_entries r)[?h := e] ! ((?h + (ring_size - ?c + i)) mod ring_size)"
      using True by (simp only: push_fields if_True ix)
    also have "\<dots> = (contents r @ [e]) ! i"
    proof (cases "i < ?c")
      case True
      have "(?h + (ring_size - ?c + i)) mod ring_size \<noteq> ?h"
        using True \<open>?c < ring_size\<close> by (intro slot_other [OF h]) simp_all
      then show ?thesis using True \<open>?c < ring_size\<close> by (simp add: nth_append contents_nth add.assoc)
    next
      case False
      then have "ring_size - ?c + i = ring_size" using i True by simp
      then show ?thesis using False i h len by (simp add: nth_append)
    qed
    finally show ?thesis .
  qed
  then show ?thesis
    using True by (intro nth_equalityI) (simp_all add: push_fields take_last_all)
next
  case False
  let ?h = "rg_head r"
  have c: "rg_count r = ring_size" and h: "?h < ring_size" and len: "length (rg_entries r) = ring_size"
    using assms False by (simp_all add: ring_ok_def)
  have "contents (push e r) ! i = (contents r @ [e]) ! Suc i" if i: "i < ring_size" for i
  proof -
    have "contents (push e r) ! i = (rg_entries r)[?h := e] ! (((?h + 1) mod ring_size + i) mod ring_size)"
      using i c by (subst contents_nth) (simp_all add: push_fields)
    also have "((?h + 1) mod ring_size + i) mod ring_size = (?h + 1 + i) mod ring_size" by (rule mod_add_left_eq)
    also have "(rg_entries r)[?h := e] ! ((?h + 1 + i) mod ring_size) = (contents r @ [e]) ! Suc i"
    proof (cases "Suc i < ring_size")
      case True
      then have "(?h + Suc i) mod ring_size \<noteq> ?h" by (intro slot_other [OF h]) simp_all
      then show ?thesis using True c by (simp add: nth_append contents_nth)
    next
      case False
      then have "?h + 1 + i = ?h + ring_size" using i by simp
      then have "(?h + 1 + i) mod ring_size = ?h" using h by (simp only: mod_add_self2 mod_less)
      then show ?thesis using False i c h len by (simp add: nth_append)
    qed
    finally show ?thesis .
  qed
  moreover have "take_last ring_size (contents r @ [e]) = drop 1 (contents r @ [e])"
    using c by (simp add: take_last_def del: drop_append)
  ultimately show ?thesis
    using c by (intro nth_equalityI) (simp_all add: push_fields del: drop_append)
qed

theorem tail_contents:
  assumes "ring_ok r"
  shows "tail n r = (if n \<le> 0 then contents r else take_last (nat n) (contents r))"
proof (cases "rg_count r = 0")
  case True
  then have "contents r = []" by (simp add: contents_def)
  then show ?thesis using True by (simp add: tail_def take_last_def)
next
  case False
  define k where "k = (if n \<le> 0 \<or> n > int (rg_count r) then rg_count r else nat n)"
  have k: "k \<le> rg_count r" "rg_count r \<le> ring_size" using assms by (auto simp: k_def ring_ok_def)
  have "tail n r = map (\<lambda>i. rg_entries r ! (((rg_head r + ring_size - k) mod ring_size + i) mod ring_size)) [0..<k]"
    using False by (simp add: tail_def k_def Let_def)
  also have "\<dots> = drop (rg_count r - k) (contents r)"
  proof (rule nth_equalityI)
    fix i
    assume "i < length (map (\<lambda>i. rg_entries r ! (((rg_head r + ring_size - k) mod ring_size + i) mod ring_size)) [0..<k])"
    then have i: "i < k" by simp
    have "((rg_head r + ring_size - k) mod ring_size + i) mod ring_size = (rg_head r + ring_size - k + i) mod ring_size"
      by (rule mod_add_left_eq)
    also have "rg_head r + ring_size - k + i = rg_head r + ring_size - rg_count r + (rg_count r - k + i)"
      using k by simp
    finally show "map (\<lambda>i. rg_entries r ! (((rg_head r + ring_size - k) mod ring_size + i) mod ring_size)) [0..<k] ! i =
        drop (rg_count r - k) (contents r) ! i"
      using i k by (simp add: contents_nth)
  qed (use k in simp)
  also have "\<dots> = (if n \<le> 0 then contents r else take_last (nat n) (contents r))"
    by (auto simp: k_def take_last_def)
  finally show ?thesis .
qed

lemma contents_new [simp]: "contents new_ring = []"
  by (simp add: contents_def new_ring_def)

lemma ring_ok_new [simp]: "ring_ok new_ring"
  by (simp add: ring_ok_def new_ring_def)

lemma sends_bounded: "\<forall>ch. length (rg_chans r ch) \<le> chan_cap \<Longrightarrow> length (rg_chans (fold (send e) cs r) ch) \<le> chan_cap"
  by (induction cs arbitrary: r) (auto simp: send_def)

lemma ring_ok_push: "ring_ok r \<Longrightarrow> ring_ok (push e r)"
  by (auto simp: ring_ok_def push_fields) (simp add: push_def push_locked_def Let_def sends_bounded)

lemma ring_ok_subscribe: "ring_ok r \<Longrightarrow> ring_ok (snd (subscribe r))"
  by (auto simp: ring_ok_def subscribe_def)

lemma remove_first_set: "set (drop_sub x xs) \<subseteq> set xs" "distinct xs \<Longrightarrow> set (drop_sub x xs) = set xs - {x}"
  "distinct xs \<Longrightarrow> distinct (drop_sub x xs)"
  by (induction xs) auto

lemma ring_ok_unsubscribe: "ring_ok r \<Longrightarrow> ring_ok (unsubscribe ch r)"
  using remove_first_set by (auto simp: ring_ok_def unsubscribe_def)

lemma ring_ok_receive: "ring_ok r \<Longrightarrow> receive ch r = Some (e, r') \<Longrightarrow> ring_ok r'"
  by (force simp: ring_ok_def receive_def split: list.splits)

lemma contents_same:
  "contents (snd (subscribe r)) = contents r" "contents (unsubscribe ch r) = contents r"
  "receive ch r = Some (e, r') \<Longrightarrow> contents r' = contents r"
  by (auto simp: contents_def subscribe_def unsubscribe_def receive_def split: list.splits)

section \<open>The contract\<close>

text \<open>What the daemon relies on: a buffer whose contents after a push are the latest entries, and
  whose tail is the end of its contents.\<close>

locale log_buffer =
  fixes empty :: 'r
    and ins :: "'e \<Rightarrow> 'r \<Rightarrow> 'r"
    and last_n :: "int \<Rightarrow> 'r \<Rightarrow> 'e list"
    and items :: "'r \<Rightarrow> 'e list"
    and valid :: "'r \<Rightarrow> bool"
    and cap :: nat
  assumes valid_empty: "valid empty" and items_empty: "items empty = []" and cap_pos: "0 < cap"
    and valid_ins: "valid r \<Longrightarrow> valid (ins e r)"
    and items_ins: "valid r \<Longrightarrow> items (ins e r) = take_last cap (items r @ [e])"
    and last_n_items: "valid r \<Longrightarrow> last_n n r = (if n \<le> 0 then items r else take_last (nat n) (items r))"
begin

lemma valid_fold: "valid r \<Longrightarrow> valid (fold ins es r)"
  by (induction es arbitrary: r) (simp_all add: valid_ins)

lemma items_bounded:
  assumes "valid r" "length (items r) \<le> cap"
  shows "length (items (fold ins es r)) \<le> cap"
  using assms by (induction es arbitrary: r) (simp_all add: valid_ins items_ins)

lemma items_fold:
  assumes "valid r" "length (items r) \<le> cap"
  shows "items (fold ins es r) = take_last cap (items r @ es)"
proof (induction es rule: rev_induct)
  case Nil
  then show ?case using assms(2) by (simp add: take_last_all)
next
  case (snoc e es)
  then show ?case
    using valid_fold [OF assms(1)] take_last_snoc [OF cap_pos, of "items r @ es" e] by (simp add: items_ins)
qed

text \<open>From empty, the buffer shows the end of everything that was ever pushed.\<close>

lemma last_n_history:
  "last_n n (fold ins es empty) = (if n \<le> 0 then take_last cap es else take_last (min (nat n) cap) es)"
proof -
  have "items (fold ins es empty) = take_last cap es"
    using items_fold [OF valid_empty, of es] by (simp add: items_empty)
  moreover have "take_last k (take_last cap es) = take_last (min k cap) es" for k
    by (cases "k \<le> cap") (simp_all add: take_last_take_last take_last_all min_def)
  ultimately show ?thesis using last_n_items [OF valid_fold [OF valid_empty]] by simp
qed

end

interpretation log_ring: log_buffer new_ring push tail contents ring_ok ring_size
  by unfold_locales (simp_all add: ring_ok_push contents_push tail_contents)

section \<open>A stream\<close>

text \<open>Between the locked section of a push and its sends, and between two of these, other goroutines run. The steps
  of the pushers, of the readers and of streams that join and leave are interleaved in any way. A pusher has the entry
  that it is sending and the channels that are left, and begins its next push when none is.\<close>

datatype ring_op = Locks nat log_entry | Sends nat | Receives nat | Joins | Leaves nat

type_synonym pushers = "nat \<Rightarrow> log_entry \<times> nat list"

fun ring_step :: "ring_op \<Rightarrow> ring \<times> pushers \<Rightarrow> ring \<times> pushers" where
  "ring_step (Locks p e) (r, ps) =
     (if snd (ps p) \<noteq> [] then (r, ps) else case push_locked e r of (r', subs) \<Rightarrow> (r', ps(p := (e, subs))))"
| "ring_step (Sends p) (r, ps) =
     (case ps p of (e, []) \<Rightarrow> (r, ps) | (e, ch # chs) \<Rightarrow> (send e ch r, ps(p := (e, chs))))"
| "ring_step (Receives ch) (r, ps) = (case receive ch r of None \<Rightarrow> (r, ps) | Some (e, r') \<Rightarrow> (r', ps))"
| "ring_step Joins (r, ps) = (snd (subscribe r), ps)"
| "ring_step (Leaves ch) (r, ps) = (unsubscribe ch r, ps)"

text \<open>What a step takes out of a channel, and what a step pushes and who pushes it.\<close>

definition taken :: "nat \<Rightarrow> ring_op \<Rightarrow> ring \<times> pushers \<Rightarrow> log_entry list" where
  "taken ch op y = (if op = Receives ch then take 1 (rg_chans (fst y) ch) else [])"

fun locks :: "ring_op \<Rightarrow> ring \<times> pushers \<Rightarrow> (nat \<times> log_entry) list" where
  "locks (Locks p e) y = (if snd (snd y p) \<noteq> [] then [] else [(p, e)])"
| "locks _ y = []"

fun pushed :: "ring_op list \<Rightarrow> ring \<times> pushers \<Rightarrow> (nat \<times> log_entry) list" where
  "pushed [] y = []"
| "pushed (op # ops) y = locks op y @ pushed ops (ring_step op y)"

text \<open>The reader keeps up: whenever an entry is sent to its channel, the channel has a free place.\<close>

fun has_place :: "nat \<Rightarrow> ring_op \<Rightarrow> ring \<times> pushers \<Rightarrow> bool" where
  "has_place ch (Sends p) y = (take 1 (snd (snd y p)) = [ch] \<longrightarrow> length (rg_chans (fst y) ch) < chan_cap)"
| "has_place ch _ y = True"

fun keeps_up :: "nat \<Rightarrow> ring_op list \<Rightarrow> ring \<times> pushers \<Rightarrow> bool" where
  "keeps_up ch [] y = True"
| "keeps_up ch (op # ops) y = (has_place ch op y \<and> keeps_up ch ops (ring_step op y))"

text \<open>The receiving loop of \<open>handleStream\<close> among the other steps.\<close>

fun stream_run :: "nat \<Rightarrow> ring_op list \<Rightarrow> ring \<times> pushers \<Rightarrow> log_entry list \<times> ring \<times> pushers" where
  "stream_run ch [] y = ([], y)"
| "stream_run ch (op # ops) y = (case stream_run ch ops (ring_step op y) of (out, y') \<Rightarrow> (taken ch op y @ out, y'))"

text \<open>\<open>handleStream\<close>: the subscription, the steps of others that come before the replay, the replay of the
  last 20 entries, then the loop.\<close>

definition handleStream ::
  "ring_op list \<Rightarrow> ring_op list \<Rightarrow> ring \<times> pushers \<Rightarrow> log_entry list \<times> nat \<times> ring \<times> pushers" where
  "handleStream mid ops y =
     (case subscribe (fst y) of
        (ch, r) \<Rightarrow>
          (let y = fold ring_step mid (r, snd y)
           in case stream_run ch ops y of (out, y') \<Rightarrow> (tail 20 (fst y) @ out, ch, y')))"

text \<open>The steps of one pusher without others in between are \<open>push\<close>; and the sends do not touch the entries, so
  the ring is the same as if they were always so.\<close>

lemma sends_alone:
  "ps p = (e, chs) \<Longrightarrow> fold ring_step (replicate (length chs) (Sends p)) (r, ps) = (fold (send e) chs r, ps(p := (e, [])))"
  by (induction chs arbitrary: r ps) auto

lemma push_alone:
  assumes "snd (ps p) = []"
  shows "fold ring_step (Locks p e # replicate (length (rg_subs r)) (Sends p)) (r, ps) = (push e r, ps(p := (e, [])))"
proof -
  obtain r' where r': "push_locked e r = (r', rg_subs r)" by (simp add: push_locked_def Let_def)
  then show ?thesis using assms sends_alone [of "ps(p := (e, rg_subs r))" p e "rg_subs r" r'] by (simp add: push_def)
qed

lemma push_locked_contents: "push_locked e r = (r', subs) \<Longrightarrow> contents r' = contents (push e r)"
  by (auto simp: push_def contents_def)

lemma send_contents [simp]: "contents (send e ch r) = contents r"
  by (simp add: contents_def)

lemma ring_ok_locked: "ring_ok r \<Longrightarrow> push_locked e r = (r', subs) \<Longrightarrow> ring_ok r'"
  by (auto simp: ring_ok_def push_locked_def Let_def)

lemma ring_ok_send: "ring_ok r \<Longrightarrow> ring_ok (send e ch r)"
  by (auto simp: ring_ok_def) (auto simp: send_def)

lemma ring_step_ok: "ring_ok r \<Longrightarrow> ring_ok (fst (ring_step op (r, ps)))"
  by (cases op) (auto simp: ring_ok_send ring_ok_subscribe ring_ok_unsubscribe dest: ring_ok_locked ring_ok_receive
    split: prod.split list.split option.split)

lemma ring_run_ok: "ring_ok (fst y) \<Longrightarrow> ring_ok (fst (fold ring_step ops y))"
proof (induction ops arbitrary: y)
  case (Cons op ops)
  then show ?case using ring_step_ok [of "fst y" op "snd y"] by simp
qed simp

lemma ring_step_contents:
  assumes "ring_ok r"
  shows "contents (fst (ring_step op (r, ps))) = take_last ring_size (contents r @ map snd (locks op (r, ps)))"
proof -
  have len: "take_last ring_size (contents r) = contents r" using assms by (simp add: take_last_all ring_ok_def)
  show ?thesis
  proof (cases op)
    case (Locks p e)
    obtain r' subs where l: "push_locked e r = (r', subs)" by fastforce
    then show ?thesis using Locks len push_locked_contents [OF l] contents_push [OF assms] by simp
  qed (auto simp: len contents_same split: prod.split list.split option.split)
qed

lemma take_last_append: "take_last n (take_last n xs @ ys) = take_last n (xs @ ys)"
  by (cases "n \<le> length xs"; cases "n \<le> length ys") (simp_all add: take_last_def add.commute)

lemma pushed_contents:
  assumes "ring_ok (fst y)"
  shows "contents (fst (fold ring_step ops y)) = take_last ring_size (contents (fst y) @ map snd (pushed ops y))"
  using assms
proof (induction ops arbitrary: y)
  case Nil
  then show ?case by (simp add: take_last_all ring_ok_def)
next
  case (Cons op ops)
  obtain r ps where y: "y = (r, ps)" by fastforce
  have "ring_ok (fst (ring_step op y))" using Cons.prems ring_step_ok y by auto
  from Cons.IH [OF this] show ?case
    using ring_step_contents [of r op ps] Cons.prems take_last_append [of ring_size "contents r @ map snd (locks op y)" "map snd (pushed ops (ring_step op y))"]
    by (simp add: y)
qed

section \<open>Nothing is lost\<close>

text \<open>The entry that a pusher has still to send to a channel.\<close>

definition waiting :: "nat \<Rightarrow> log_entry \<times> nat list \<Rightarrow> log_entry list" where
  "waiting ch x = (if ch \<in> set (snd x) then [fst x] else [])"

definition by_pusher :: "nat \<Rightarrow> (nat \<times> log_entry) list \<Rightarrow> log_entry list" where
  "by_pusher p xs = map snd (filter (\<lambda>x. fst x = p) xs)"

lemma by_pusher_simps [simp]:
  "by_pusher p [] = []" "by_pusher p (x # xs) = (if fst x = p then [snd x] else []) @ by_pusher p xs"
  "by_pusher p (xs @ ys) = by_pusher p xs @ by_pusher p ys"
  by (simp_all add: by_pusher_def)

definition follows :: "nat \<Rightarrow> ring \<times> pushers \<Rightarrow> bool" where
  "follows ch y \<longleftrightarrow> ring_ok (fst y) \<and> ch \<in> set (rg_subs (fst y)) \<and> (\<forall>p. distinct (snd (snd y p)))"

lemma follows_step:
  assumes "follows ch y" "op \<noteq> Leaves ch"
  shows "follows ch (ring_step op y)"
proof -
  obtain r ps where y: "y = (r, ps)" by fastforce
  have "ring_ok (fst (ring_step op y))" using assms(1) ring_step_ok by (auto simp: follows_def y)
  moreover have rest: "distinct chs" if "ps p = (e, c # chs)" for p e c chs
    using assms(1) that by (auto simp: follows_def y dest: spec [of _ p])
  have "distinct (rg_subs r)" using assms(1) by (simp add: follows_def ring_ok_def y)
  then have "ch \<in> set (rg_subs (fst (ring_step op y))) \<and> (\<forall>p. distinct (snd (snd (ring_step op y) p)))"
    using assms remove_first_set(2) [of "rg_subs r"]
    by (cases op) (auto simp: follows_def y push_locked_def Let_def subscribe_def unsubscribe_def receive_def
      split: prod.split list.split option.split dest: rest)
  ultimately show ?thesis by (simp add: follows_def)
qed

text \<open>One step: what is taken from the channel and what is then in it are what was in it before and what was sent to
  it; and a pusher's sent entry was waiting.\<close>

lemma step_chan:
  assumes "follows ch y" "op \<noteq> Leaves ch" "has_place ch op y"
  shows "\<exists>hist. taken ch op y @ rg_chans (fst (ring_step op y)) ch = rg_chans (fst y) ch @ map snd hist \<and>
    (\<forall>p. by_pusher p hist @ waiting ch (snd (ring_step op y) p) = waiting ch (snd y p) @ by_pusher p (locks op y))"
proof -
  obtain r ps where y: "y = (r, ps)" by fastforce
  show ?thesis
  proof (cases op)
    case (Locks p e)
    then show ?thesis using assms(1)
      by (intro exI [of _ "[]"]) (auto simp: y taken_def push_locked_def Let_def waiting_def follows_def)
  next
    case (Sends p)
    obtain e chs where p: "ps p = (e, chs)" by fastforce
    show ?thesis
    proof (cases "take 1 chs = [ch]")
      case True
      then obtain rest where r: "chs = ch # rest" by (cases chs) auto
      then have "ch \<notin> set rest" using assms(1) p by (auto simp: follows_def y dest: spec [of _ p])
      moreover have "length (rg_chans r ch) < chan_cap" using assms(3) True by (simp add: Sends y p)
      ultimately show ?thesis
        by (intro exI [of _ "[(p, e)]"]) (auto simp: y Sends p r taken_def send_def waiting_def)
    next
      case False
      then show ?thesis
        by (intro exI [of _ "[]"]) (cases chs; auto simp: y Sends p taken_def send_def waiting_def)
    qed
  next
    case (Receives c)
    then show ?thesis
      by (intro exI [of _ "[]"]) (auto simp: y taken_def receive_def split: list.split)
  qed (auto intro!: exI [of _ "[]"] simp: y taken_def subscribe_def unsubscribe_def)
qed

lemma stream_run_exact:
  assumes "follows ch y" "keeps_up ch ops y" "Leaves ch \<notin> set ops" "stream_run ch ops y = (out, y')"
  shows "\<exists>hist. out @ rg_chans (fst y') ch = rg_chans (fst y) ch @ map snd hist \<and>
    (\<forall>p. by_pusher p hist @ waiting ch (snd y' p) = waiting ch (snd y p) @ by_pusher p (pushed ops y))"
  using assms
proof (induction ops arbitrary: y out)
  case Nil
  then show ?case by (intro exI [of _ "[]"]) simp
next
  case (Cons op ops)
  let ?y = "ring_step op y"
  obtain out1 where run: "stream_run ch ops ?y = (out1, y')" "out = taken ch op y @ out1"
    using Cons.prems(4) by (auto split: prod.splits)
  obtain h1 where h1: "taken ch op y @ rg_chans (fst ?y) ch = rg_chans (fst y) ch @ map snd h1"
    "\<And>p. by_pusher p h1 @ waiting ch (snd ?y p) = waiting ch (snd y p) @ by_pusher p (locks op y)"
    using step_chan [of ch y op] Cons.prems by auto
  obtain h2 where h2: "out1 @ rg_chans (fst y') ch = rg_chans (fst ?y) ch @ map snd h2"
    "\<And>p. by_pusher p h2 @ waiting ch (snd y' p) = waiting ch (snd ?y p) @ by_pusher p (pushed ops ?y)"
    using Cons.IH [OF _ _ _ run(1)] Cons.prems follows_step [of ch y op] by auto
  have "out @ rg_chans (fst y') ch = rg_chans (fst y) ch @ map snd (h1 @ h2)"
    using h1(1) h2(1) run(2) by (metis append_assoc map_append)
  moreover have "by_pusher p (h1 @ h2) @ waiting ch (snd y' p) = waiting ch (snd y p) @ by_pusher p (pushed (op # ops) y)" for p
    using h1(2) [of p] h2(2) [of p] by (metis append_assoc by_pusher_simps(3) pushed.simps(2))
  ultimately show ?case by blast
qed

lemma stream_run_append:
  "Receives ch \<notin> set mid \<Longrightarrow> stream_run ch (mid @ ops) y = stream_run ch ops (fold ring_step mid y)"
  by (induction mid arbitrary: y) (auto simp: taken_def split: prod.split)

text \<open>C30. A stream whose reader keeps up loses nothing. It gets the last 20 entries of the ring as they are at the
  replay, in the order in which they were put there, and then every entry pushed after its subscription, each
  once: what it has received and what is in its channel is an interleaving of what the pushers pushed, each pusher's
  entries in their order, where at the end a pusher may still have to send its last one. Entries of
  different pushers may come in another order than the ring has, since a push sends after its locked section.
  An entry pushed between the subscription and the replay comes twice.\<close>

theorem stream_lossless:
  assumes "ring_ok r" "\<forall>ch \<ge> rg_made r. rg_chans r ch = []"
    "\<forall>p. distinct (snd (ps p)) \<and> (\<forall>ch \<in> set (snd (ps p)). ch < rg_made r)"
    "handleStream mid ops (r, ps) = (out, ch, r', ps')" "y = (snd (subscribe r), ps)"
    "Receives ch \<notin> set mid" "Leaves ch \<notin> set (mid @ ops)" "keeps_up ch (mid @ ops) y"
  shows "\<exists>hist. out @ rg_chans r' ch = take_last 20 (contents r @ map snd (pushed mid y)) @ map snd hist \<and>
    (\<forall>p. map snd (filter (\<lambda>x. fst x = p) hist) @ (if ch \<in> set (snd (ps' p)) then [fst (ps' p)] else []) =
       map snd (filter (\<lambda>x. fst x = p) (pushed (mid @ ops) y)))"
proof -
  let ?y = "fold ring_step mid y"
  have run: "handleStream mid ops (r, ps) =
      (case stream_run (rg_made r) ops ?y of (out, y') \<Rightarrow> (tail 20 (fst ?y) @ out, rg_made r, y'))"
    by (simp add: handleStream_def assms(5) subscribe_def Let_def)
  have ok: "ring_ok (fst y)" using ring_ok_subscribe [OF assms(1)] by (simp add: assms(5))
  have new: "rg_made r \<in> set (rg_subs (fst y))" "rg_chans (fst y) (rg_made r) = []" "contents (fst y) = contents r" "snd y = ps"
    using assms(2) by (simp_all add: assms(5) subscribe_def contents_def)
  obtain out1 where o: "stream_run ch ops ?y = (out1, r', ps')" "out = tail 20 (fst ?y) @ out1" "ch = rg_made r"
    using assms(4) unfolding run by (auto split: prod.splits)
  have "follows ch y" using ok new assms(3) by (simp add: follows_def o(3))
  moreover have "stream_run ch (mid @ ops) y = (out1, r', ps')" using o(1) by (simp add: stream_run_append assms(6))
  ultimately obtain hist where h: "out1 @ rg_chans r' ch = rg_chans (fst y) ch @ map snd hist"
    "\<forall>p. by_pusher p hist @ waiting ch (ps' p) = waiting ch (snd y p) @ by_pusher p (pushed (mid @ ops) y)"
    using stream_run_exact [of ch y "mid @ ops" out1 "(r', ps')"] assms(7,8) by auto
  have "waiting ch (snd y p) = []" for p using assms(3) by (auto simp: waiting_def new(4) o(3))
  moreover have "tail 20 (fst ?y) = take_last 20 (contents r @ map snd (pushed mid y))"
  proof -
    have "tail 20 (fst ?y) = take_last 20 (contents (fst ?y))" using ring_run_ok [OF ok] tail_contents [of "fst ?y" 20] by simp
    then show ?thesis using pushed_contents [OF ok, of mid] new(3) by (simp add: take_last_take_last ring_size_def)
  qed
  ultimately show ?thesis using h o(2) new(2) by (intro exI [of _ hist]) (simp add: by_pusher_def waiting_def o(3))
qed

definition idle_pushers :: pushers where
  "idle_pushers = (\<lambda>_. (zero_entry, []))"

definition entry_of :: "string \<Rightarrow> log_entry" where
  "entry_of l = zero_entry\<lparr>le_line := l\<rparr>"

theorem stream_lossless_witness:
  "\<exists>hist out ch r' ps'. handleStream [] [Locks 0 (entry_of ''a''), Sends 0, Receives 0] (new_ring, idle_pushers) = (out, ch, r', ps') \<and>
     out @ rg_chans r' ch = map snd hist \<and> map snd (filter (\<lambda>x. fst x = (0 :: nat)) hist) @ (if ch \<in> set (snd (ps' 0)) then [fst (ps' 0)] else []) = [entry_of ''a'']"
proof -
  let ?ops = "[Locks 0 (entry_of ''a''), Sends 0, Receives 0]"
  obtain out ch r' ps' where h: "handleStream [] ?ops (new_ring, idle_pushers) = (out, ch, r', ps')"
    by (metis prod.exhaust)
  have ch: "ch = 0" using h by (auto simp: handleStream_def subscribe_def new_ring_def Let_def split: prod.splits)
  have "keeps_up ch ([] @ ?ops) (snd (subscribe new_ring), idle_pushers)"
    by (simp add: ch subscribe_def new_ring_def chan_cap_def idle_pushers_def push_locked_def Let_def)
  then obtain hist where "out @ rg_chans r' ch = take_last 20 (contents new_ring @ map snd (pushed [] (snd (subscribe new_ring), idle_pushers))) @ map snd hist"
    "\<forall>p. map snd (filter (\<lambda>x. fst x = p) hist) @ (if ch \<in> set (snd (ps' p)) then [fst (ps' p)] else []) =
       map snd (filter (\<lambda>x. fst x = p) (pushed ([] @ ?ops) (snd (subscribe new_ring), idle_pushers)))"
    using stream_lossless [OF ring_ok_new _ _ h refl] by (auto simp: new_ring_def idle_pushers_def)
  note hist = this
  have "pushed ([] @ ?ops) (snd (subscribe new_ring), idle_pushers) = [(0, entry_of ''a'')]"
    by (simp add: idle_pushers_def push_locked_def Let_def)
  then have "map snd (filter (\<lambda>x. fst x = (0 :: nat)) hist) @ (if ch \<in> set (snd (ps' 0)) then [fst (ps' 0)] else []) = [entry_of ''a'']"
    using spec [OF hist(2), of 0] by simp
  moreover have "out @ rg_chans r' ch = map snd hist" using hist(1) by (simp add: take_last_def)
  ultimately show ?thesis using h by blast
qed

text \<open>Two containers of one function: the ring has the lines as they came, the stream the other way round.\<close>

theorem stream_order_differs:
  "\<exists>r' ps'. handleStream [] [Locks 0 (entry_of ''a''), Locks 1 (entry_of ''b''), Sends 1, Sends 0, Receives 0, Receives 0]
     (new_ring, idle_pushers) = ([entry_of ''b'', entry_of ''a''], 0, r', ps') \<and> tail 20 r' = [entry_of ''a'', entry_of ''b'']"
  by (simp add: handleStream_def subscribe_def new_ring_def Let_def push_locked_def idle_pushers_def send_def receive_def
    chan_cap_def taken_def tail_def ring_size_def)

text \<open>The ring refines the history of what was pushed: after any pushes, \<open>tail n\<close> returns the last \<open>n\<close>
  of them in order, or all that are kept when \<open>n\<close> is not positive, and never more than the ring
  holds.\<close>

theorem tail_history:
  "tail n (fold push es new_ring) = (if n \<le> 0 then take_last ring_size es else take_last (min (nat n) ring_size) es)"
  by (rule log_ring.last_n_history)

end
