(* ===== verification/Log_Daemon.thy ===== *)
theory Log_Daemon
  imports Log_Ring Gateway_Http "HOL-Library.Multiset"
begin

text \<open>
  The log daemon (logdaemon/shared.go, main.go): a ring and a file for every function, the HTTP
  queries over them, and the proxy that merges what the collectors of the nodes return. The
  histories of the rings come from the contract \<open>log_buffer\<close>. The collectors' answers, the instance
  list and the pod list reach the proxy through the record \<open>log_proxy\<close>.
\<close>

section \<open>Rings and files\<close>

record daemon =
  dm_rings :: "string \<rightharpoonup> ring"
  dm_files :: "string \<rightharpoonup> log_entry list"   \<comment> \<open>what was appended, one JSON line for each entry\<close>

definition newDaemon :: daemon where
  "newDaemon = \<lparr>dm_rings = Map.empty, dm_files = Map.empty\<rparr>"

definition logDir :: string where
  "logDir = ''/tmp/faas-logs''"

definition log_path :: "string \<Rightarrow> string" where
  "log_path fn = abs_clean (logDir @ ''/'' @ fn @ ''.log'')"

text \<open>\<open>ringFor\<close>; \<open>can_open\<close> says which paths open. The second lookup under the write lock makes the
  creation one step.\<close>

definition ringFor :: "(string \<Rightarrow> bool) \<Rightarrow> string \<Rightarrow> daemon \<Rightarrow> ring \<times> daemon" where
  "ringFor can_open fn d =
     (case dm_rings d fn of
        Some r \<Rightarrow> (r, d)
      | None \<Rightarrow>
          (let d = d\<lparr>dm_rings := (dm_rings d)(fn \<mapsto> new_ring)\<rparr>
           in (new_ring, if can_open (log_path fn) then d\<lparr>dm_files := (dm_files d)(fn \<mapsto> [])\<rparr> else d)))"

definition daemon_write :: "(string \<Rightarrow> bool) \<Rightarrow> log_entry \<Rightarrow> daemon \<Rightarrow> daemon" where
  "daemon_write can_open e d =
     (case ringFor can_open (le_function e) d of
        (r, d) \<Rightarrow>
          (let d = d\<lparr>dm_rings := (dm_rings d)(le_function e \<mapsto> push e r)\<rparr>
           in case dm_files d (le_function e) of
                None \<Rightarrow> d
              | Some f \<Rightarrow> d\<lparr>dm_files := (dm_files d)(le_function e \<mapsto> f @ [e])\<rparr>))"

definition localEntries :: "string \<Rightarrow> int \<Rightarrow> string \<Rightarrow> daemon \<Rightarrow> log_entry list" where
  "localEntries fn n filter_stream d =
     (case dm_rings d fn of
        None \<Rightarrow> []
      | Some r \<Rightarrow>
          (let entries = tail n r
           in if filter_stream = [] then entries else filter (\<lambda>e. le_stream e = filter_stream) entries))"

section \<open>The proxy\<close>

record pod_item =
  pi_node :: string
  pi_name :: string

record log_proxy =
  px_instances :: "string \<Rightarrow> instance_info list option"
  px_pods :: "pod_item list option"
  px_fetch :: "string \<Rightarrow> string \<Rightarrow> int \<Rightarrow> string \<Rightarrow> log_entry list option"   \<comment> \<open>\<open>fetchCollectorLogs\<close>\<close>
  px_sort :: "log_entry list \<Rightarrow> log_entry list"   \<comment> \<open>\<open>sort.Slice\<close> by time\<close>

definition collectorsByNode :: "pod_item list \<Rightarrow> string \<rightharpoonup> string" where
  "collectorsByNode pods =
     fold (\<lambda>p m. if pi_node p = [] \<or> pi_name p = [] then m else m(pi_node p \<mapsto> pi_name p)) pods Map.empty"

text \<open>The loop of \<open>fetchLogs\<close> over the instances: the entries so far and the pods asked.\<close>

fun fetch_loop ::
  "(string \<rightharpoonup> string) \<Rightarrow> (string \<Rightarrow> log_entry list option) \<Rightarrow> instance_info list \<Rightarrow> string list \<Rightarrow> log_entry list \<Rightarrow>
     log_entry list \<times> string list" where
  "fetch_loop collectors fetch [] seen acc = (acc, seen)"
| "fetch_loop collectors fetch (i # is) seen acc =
     (if ii_node_name i = [] then fetch_loop collectors fetch is seen acc
      else
        case collectors (ii_node_name i) of
          None \<Rightarrow> fetch_loop collectors fetch is seen acc
        | Some pod \<Rightarrow>
            if pod = [] \<or> pod \<in> set seen then fetch_loop collectors fetch is seen acc
            else
              (case fetch pod of
                 None \<Rightarrow> fetch_loop collectors fetch is (seen @ [pod]) acc
               | Some es \<Rightarrow> fetch_loop collectors fetch is (seen @ [pod]) (acc @ es)))"

definition cut_tail :: "int \<Rightarrow> log_entry list \<Rightarrow> log_entry list" where
  "cut_tail n es = (if n > 0 \<and> int (length es) > n then drop (length es - nat n) es else es)"

definition fetchLogs :: "log_proxy \<Rightarrow> string \<Rightarrow> int \<Rightarrow> string \<Rightarrow> log_entry list option" where
  "fetchLogs px fn n filter_stream =
     (case px_instances px fn of
        None \<Rightarrow> None
      | Some instances \<Rightarrow>
          (case px_pods px of
             None \<Rightarrow> None
           | Some pods \<Rightarrow>
               (let es = fst (fetch_loop (collectorsByNode pods) (\<lambda>pod. px_fetch px pod fn n filter_stream) instances [] [])
                in if es = [] then Some [] else Some (cut_tail n (px_sort px es)))))"

text \<open>The zero \<open>time.Time\<close>, in nanoseconds since 1970.\<close>

definition zero_time :: time where
  "zero_time = - 62135596800 * second"

text \<open>The lines that one round of \<open>streamLogs\<close> writes, and the time it keeps.\<close>

fun stream_round :: "log_entry list \<Rightarrow> time \<Rightarrow> log_entry list \<times> time" where
  "stream_round [] prev = ([], prev)"
| "stream_round (e # es) prev =
     (if \<not> le_time e > prev then stream_round es prev
      else (case stream_round es (le_time e) of (out, l) \<Rightarrow> (e # out, l)))"

text \<open>The rounds, with what \<open>fetchLogs\<close> returned in each.\<close>

fun streamLogs :: "log_entry list option list \<Rightarrow> time \<Rightarrow> log_entry list" where
  "streamLogs [] prev = []"
| "streamLogs (None # rounds) prev = streamLogs rounds prev"
| "streamLogs (Some es # rounds) prev =
     (case stream_round es prev of (out, l) \<Rightarrow> out @ streamLogs rounds l)"

section \<open>Queries\<close>

definition entriesFor ::
  "(string \<Rightarrow> bool) \<Rightarrow> log_proxy option \<Rightarrow> string \<Rightarrow> int \<Rightarrow> string \<Rightarrow> string \<Rightarrow> daemon \<Rightarrow> log_entry list option \<times> daemon" where
  "entriesFor can_open px fn n filter_stream mode d =
     (case (if mode = ''proxy'' then px else None) of
        Some p \<Rightarrow>
          (case fetchLogs p fn n filter_stream of
             None \<Rightarrow> (None, d)
           | Some es \<Rightarrow> (Some es, fold (daemon_write can_open) es d))
      | None \<Rightarrow> (Some (localEntries fn n filter_stream d), d))"

definition parseTail :: "string \<Rightarrow> int \<Rightarrow> int" where
  "parseTail v def = (if v \<noteq> [] then (case atoi v of (n, None) \<Rightarrow> n | (_, Some _) \<Rightarrow> def) else def)"

record log_query =
  lq_path :: string
  lq_tail :: string
  lq_stream :: string

datatype log_answer =
    LogEntries "log_entry list"
  | LogFailed int string
  | LogStream string   \<comment> \<open>follows the ring of this function\<close>
  | ProxyStream string
  | LogOk
  | LogRedirect string

text \<open>\<open>handleStream\<close> up to its loop, which is \<open>Log_Ring.handleStream\<close> or \<open>streamLogs\<close>.\<close>

definition open_stream :: "(string \<Rightarrow> bool) \<Rightarrow> log_proxy option \<Rightarrow> string \<Rightarrow> string \<Rightarrow> daemon \<Rightarrow> log_answer \<times> daemon" where
  "open_stream can_open px fn mode d =
     (if mode = ''proxy'' \<and> px \<noteq> None then (ProxyStream fn, d)
      else (LogStream fn, snd (ringFor can_open fn d)))"

definition logs_route :: "(string \<Rightarrow> bool) \<Rightarrow> log_proxy option \<Rightarrow> string \<Rightarrow> log_query \<Rightarrow> daemon \<Rightarrow> log_answer \<times> daemon" where
  "logs_route can_open px mode q d =
     (let path = trim_prefix (lq_path q) ''/logs/'' in
      if has_suffix path ''/stream'' then open_stream can_open px (trim_suffix path ''/stream'') mode d
      else
        case entriesFor can_open px path (parseTail (lq_tail q) 50) (lq_stream q) mode d of
          (None, d) \<Rightarrow> (LogFailed 502 ''error'', d)
        | (Some [], d) \<Rightarrow> (LogFailed 404 (''no logs for function '' @ path), d)
        | (Some (e # es), d) \<Rightarrow> (LogEntries (e # es), d))"

definition local_route :: "(string \<Rightarrow> bool) \<Rightarrow> log_proxy option \<Rightarrow> log_query \<Rightarrow> daemon \<Rightarrow> log_answer \<times> daemon" where
  "local_route can_open px q d =
     (let path = trim_prefix (lq_path q) ''/local/logs/'' in
      if has_suffix path ''/stream'' then open_stream can_open px (trim_suffix path ''/stream'') ''collector'' d
      else
        case localEntries path (parseTail (lq_tail q) 50) (lq_stream q) d of
          [] \<Rightarrow> (LogFailed 404 (''no local logs for function '' @ path), d)
        | e # es \<Rightarrow> (LogEntries (e # es), d))"

definition daemon_serve :: "(string \<Rightarrow> bool) \<Rightarrow> log_proxy option \<Rightarrow> string \<Rightarrow> log_query \<Rightarrow> daemon \<Rightarrow> log_answer \<times> daemon" where
  "daemon_serve can_open px mode q d =
     (case mux_dispatch [''/logs/'', ''/local/logs/'', ''/health''] (lq_path q) of
        Route p \<Rightarrow>
          (if p = ''/logs/'' then logs_route can_open px mode q d
           else if p = ''/local/logs/'' then local_route can_open px q d
           else (LogOk, d))
      | RedirectTo c \<Rightarrow> (LogRedirect c, d)
      | NoRoute \<Rightarrow> (LogFailed 404 ''404 page not found'', d))"

text \<open>The mode the daemon starts in, \<open>None\<close> when it refuses to start.\<close>

definition defaultLogdaemonMode :: "env \<Rightarrow> string" where
  "defaultLogdaemonMode env = (if env ''FAAS_BACKEND'' \<in> set [''k8s'', ''kubernetes''] then ''proxy'' else ''docker'')"

definition daemon_mode :: "env \<Rightarrow> string option" where
  "daemon_mode env =
     (let mode = (if env ''LOGDAEMON_MODE'' = [] then defaultLogdaemonMode env else env ''LOGDAEMON_MODE'')
      in if mode \<in> set [''docker'', ''collector'', ''proxy''] then Some mode else None)"

section \<open>What the rings and files hold\<close>

definition of_function :: "string \<Rightarrow> log_entry list \<Rightarrow> log_entry list" where
  "of_function fn es = filter (\<lambda>e. le_function e = fn) es"

lemma of_function_simps [simp]:
  "of_function fn [] = []" "of_function fn (es @ fs) = of_function fn es @ of_function fn fs"
  "of_function fn [e] = (if le_function e = fn then [e] else [])"
  by (simp_all add: of_function_def)

lemma daemon_write_rings:
  "dm_rings (daemon_write can_open e d) fn =
     (if fn = le_function e then Some (push e (case dm_rings d fn of None \<Rightarrow> new_ring | Some r \<Rightarrow> r)) else dm_rings d fn)"
  by (cases "dm_rings d (le_function e)")
    (auto simp: daemon_write_def ringFor_def Let_def split: option.split)

lemma daemon_write_files:
  "dm_files (daemon_write can_open e d) fn =
     (if fn = le_function e
      then map_option (\<lambda>f. f @ [e]) (if dm_rings d fn = None \<and> can_open (log_path fn) then Some [] else dm_files d fn)
      else dm_files d fn)"
  by (cases "dm_rings d (le_function e)")
    (auto simp: daemon_write_def ringFor_def Let_def split: option.split)

lemma daemon_state:
  "dm_rings (fold (daemon_write can_open) es newDaemon) fn =
     (if of_function fn es = [] then None else Some (fold push (of_function fn es) new_ring)) \<and>
   dm_files (fold (daemon_write can_open) es newDaemon) fn =
     (if of_function fn es \<noteq> [] \<and> can_open (log_path fn) then Some (of_function fn es) else None)"
proof (induction es rule: rev_induct)
  case (snoc e es)
  show ?case
    by (cases "le_function e = fn"; cases "of_function fn es = []")
      (simp_all add: daemon_write_rings daemon_write_files snoc.IH)
qed (simp add: newDaemon_def)

text \<open>C29. The daemon refines the history of the entries written to it: a query for a function returns
  the last entries of that function alone, in the order written, at most as many as asked and as the
  ring holds, of which those of the asked stream are kept; and the function's file holds all of
  them.\<close>

theorem daemon_history:
  "localEntries fn n s (fold (daemon_write can_open) es newDaemon) =
     filter (\<lambda>e. s = [] \<or> le_stream e = s)
       (take_last (if n \<le> 0 then ring_size else min (nat n) ring_size) (of_function fn es)) \<and>
   dm_files (fold (daemon_write can_open) es newDaemon) fn =
     (if of_function fn es \<noteq> [] \<and> can_open (log_path fn) then Some (of_function fn es) else None)"
proof -
  have "localEntries fn n s (fold (daemon_write can_open) es newDaemon) =
     filter (\<lambda>e. s = [] \<or> le_stream e = s) (tail n (fold push (of_function fn es) new_ring))"
    using daemon_state [of can_open es fn] log_ring.last_n_history [of n "[]"]
    by (cases "of_function fn es = []") (simp_all add: localEntries_def Let_def take_last_def)
  then show ?thesis using daemon_state [of can_open es fn] log_ring.last_n_history by simp
qed

text \<open>In proxy mode every query appends what it fetched to the function's file, so a line that two
  queries return is in the file twice, however often it was written.\<close>

theorem proxy_query_appends:
  assumes "fetchLogs px fn n s = Some es" "of_function fn es = es" "es \<noteq> []" "can_open (log_path fn)"
  shows "dm_files (snd (entriesFor can_open (Some px) fn n s ''proxy''
             (snd (entriesFor can_open (Some px) fn n s ''proxy'' newDaemon)))) fn = Some (es @ es)"
proof -
  have "snd (entriesFor can_open (Some px) fn n s ''proxy''
             (snd (entriesFor can_open (Some px) fn n s ''proxy'' newDaemon)))
     = fold (daemon_write can_open) (es @ es) newDaemon"
    by (simp add: entriesFor_def assms(1))
  then show ?thesis using daemon_state [of can_open "es @ es" fn] assms by simp
qed

section \<open>The merge of the proxy\<close>

definition sorts_by_time :: "(log_entry list \<Rightarrow> log_entry list) \<Rightarrow> bool" where
  "sorts_by_time srt \<longleftrightarrow> (\<forall>es. mset (srt es) = mset es \<and> sorted (map le_time (srt es)))"

lemma fetch_loop_spec:
  assumes "fetch_loop collectors fetch is seen acc = (es, asked)" "distinct seen"
  shows "\<exists>new. asked = seen @ new \<and> distinct asked \<and>
    set asked = set seen \<union> {pod. pod \<noteq> [] \<and> (\<exists>i \<in> set is. ii_node_name i \<noteq> [] \<and> collectors (ii_node_name i) = Some pod)} \<and>
    es = acc @ concat (map (\<lambda>pod. case fetch pod of None \<Rightarrow> [] | Some fs \<Rightarrow> fs) new)"
  using assms
proof (induction "is" arbitrary: seen acc)
  case (Cons i "is")
  show ?case
  proof (cases "ii_node_name i = [] \<or> collectors (ii_node_name i) = None \<or>
      (\<exists>pod. collectors (ii_node_name i) = Some pod \<and> (pod = [] \<or> pod \<in> set seen))")
    case True
    then have "fetch_loop collectors fetch is seen acc = (es, asked)"
      using Cons.prems(1) by (auto split: if_splits option.splits)
    then obtain new where n: "asked = seen @ new" "distinct asked"
      "set asked = set seen \<union> {pod. pod \<noteq> [] \<and> (\<exists>i \<in> set is. ii_node_name i \<noteq> [] \<and> collectors (ii_node_name i) = Some pod)}"
      "es = acc @ concat (map (\<lambda>pod. case fetch pod of None \<Rightarrow> [] | Some fs \<Rightarrow> fs) new)"
      using Cons.IH [OF _ Cons.prems(2)] by blast
    then have "set asked = set seen \<union> {pod. pod \<noteq> [] \<and> (\<exists>i \<in> set (i # is). ii_node_name i \<noteq> [] \<and> collectors (ii_node_name i) = Some pod)}"
      using True by auto
    then show ?thesis using n by blast
  next
    case False
    then obtain pod where pod: "ii_node_name i \<noteq> []" "collectors (ii_node_name i) = Some pod" "pod \<noteq> []" "pod \<notin> set seen"
      by auto
    define fs where "fs = (case fetch pod of None \<Rightarrow> [] | Some fs \<Rightarrow> fs)"
    have "fetch_loop collectors fetch is (seen @ [pod]) (acc @ fs) = (es, asked)"
      using Cons.prems(1) pod by (simp add: fs_def split: option.splits)
    moreover have "distinct (seen @ [pod])" using Cons.prems(2) pod(4) by simp
    ultimately obtain new where n: "asked = (seen @ [pod]) @ new" "distinct asked"
      "set asked = set (seen @ [pod]) \<union> {pod. pod \<noteq> [] \<and> (\<exists>i \<in> set is. ii_node_name i \<noteq> [] \<and> collectors (ii_node_name i) = Some pod)}"
      "es = (acc @ fs) @ concat (map (\<lambda>pod. case fetch pod of None \<Rightarrow> [] | Some fs \<Rightarrow> fs) new)"
      using Cons.IH by blast
    have "asked = seen @ (pod # new)" "es = acc @ concat (map (\<lambda>pod. case fetch pod of None \<Rightarrow> [] | Some fs \<Rightarrow> fs) (pod # new))"
      using n by (simp_all add: fs_def)
    moreover have "set asked = set seen \<union> {pod. pod \<noteq> [] \<and> (\<exists>i \<in> set (i # is). ii_node_name i \<noteq> [] \<and> collectors (ii_node_name i) = Some pod)}"
      using n(3) pod by auto
    ultimately show ?thesis using n(2) by blast
  qed
qed simp

lemma merge_spec:
  assumes "sorts_by_time (px_sort px)" "fetchLogs px fn n s = Some out"
  shows "\<exists>instances pods asked rest.
    px_instances px fn = Some instances \<and> px_pods px = Some pods \<and> distinct asked \<and>
    set asked = {pod. pod \<noteq> [] \<and> (\<exists>i \<in> set instances. ii_node_name i \<noteq> [] \<and> collectorsByNode pods (ii_node_name i) = Some pod)} \<and>
    mset (rest @ out) = mset (concat (map (\<lambda>pod. case px_fetch px pod fn n s of None \<Rightarrow> [] | Some es \<Rightarrow> es) asked)) \<and>
    sorted (map le_time (rest @ out)) \<and> (rest = [] \<or> n > 0 \<and> int (length out) = n)"
proof -
  obtain instances pods where ip: "px_instances px fn = Some instances" "px_pods px = Some pods"
    using assms(2) by (auto simp: fetchLogs_def split: option.splits)
  obtain es asked where l: "fetch_loop (collectorsByNode pods) (\<lambda>pod. px_fetch px pod fn n s) instances [] [] = (es, asked)"
    by fastforce
  obtain new where new: "asked = [] @ new" "distinct asked"
    "set asked = set [] \<union> {pod. pod \<noteq> [] \<and> (\<exists>i \<in> set instances. ii_node_name i \<noteq> [] \<and> collectorsByNode pods (ii_node_name i) = Some pod)}"
    "es = [] @ concat (map (\<lambda>pod. case px_fetch px pod fn n s of None \<Rightarrow> [] | Some fs \<Rightarrow> fs) new)"
    using fetch_loop_spec [OF l] by auto
  have srt: "mset (px_sort px es) = mset es" "sorted (map le_time (px_sort px es))"
    using assms(1) by (simp_all add: sorts_by_time_def)
  have out: "out = (if es = [] then [] else cut_tail n (px_sort px es))"
    using assms(2) ip l by (cases "es = []") (simp_all add: fetchLogs_def Let_def)
  define rest where "rest = take (length (px_sort px es) - length out) (px_sort px es)"
  have "rest @ out = px_sort px es \<and> (rest = [] \<or> n > 0 \<and> int (length out) = n)"
    using srt(1) by (auto simp: out rest_def cut_tail_def)
  then show ?thesis
    using ip new srt by (intro exI [of _ instances] exI [of _ pods] exI [of _ asked] exI [of _ rest]) simp
qed

text \<open>C31. A proxy query asks the collector of every node that has an instance of the function exactly
  once, and returns the latest of all their entries in the order of their times: what it leaves out
  is no later than anything it returns, and it leaves something out only to keep to the asked
  number.\<close>

theorem fetchLogs_spec:
  assumes "sorts_by_time (px_sort px)" "fetchLogs px fn n s = Some out"
  shows "\<exists>instances pods asked rest.
    px_instances px fn = Some instances \<and> px_pods px = Some pods \<and> distinct asked \<and>
    set asked = {pod. pod \<noteq> [] \<and> (\<exists>i \<in> set instances. ii_node_name i \<noteq> [] \<and> collectorsByNode pods (ii_node_name i) = Some pod)} \<and>
    mset (rest @ out) = mset (concat (map (\<lambda>pod. case px_fetch px pod fn n s of None \<Rightarrow> [] | Some es \<Rightarrow> es) asked)) \<and>
    sorted (map le_time (rest @ out)) \<and> (rest = [] \<or> n > 0 \<and> int (length out) = n)"
  using merge_spec [OF assms] .

lemma stream_round_spec:
  assumes "stream_round es prev = (out, l)"
  shows "sorted_wrt (<) (prev # map le_time out) \<and> set out \<subseteq> set es \<and> prev \<le> l \<and>
    l = (if out = [] then prev else le_time (last out)) \<and> (\<forall>e \<in> set es. le_time e \<le> l)"
  using assms
proof (induction es arbitrary: prev out)
  case (Cons e es)
  show ?case
  proof (cases "le_time e > prev")
    case True
    then obtain out' where o: "stream_round es (le_time e) = (out', l)" "out = e # out'"
      using Cons.prems by (auto split: prod.splits)
    show ?thesis using Cons.IH [OF o(1)] o(2) True by (auto split: if_splits)
  next
    case False
    then have "stream_round es prev = (out, l)" using Cons.prems by simp
    then show ?thesis using Cons.IH [of prev out] False by fastforce
  qed
qed simp

text \<open>The polling stream of the proxy writes lines with strictly increasing times, all of them
  fetched, so no line comes twice; but of two different lines with the same time only the first is
  written.\<close>

theorem streamLogs_increasing:
  "sorted_wrt (<) (map le_time (streamLogs rounds prev)) \<and>
   set (streamLogs rounds prev) \<subseteq> {e. prev < le_time e \<and> (\<exists>es. Some es \<in> set rounds \<and> e \<in> set es)} \<and>
   (\<exists>a b. le_time a = le_time b \<and> a \<noteq> b \<and> streamLogs [Some [a, b]] zero_time = [a])"
proof (intro conjI)
  have inc: "sorted_wrt (<) (prev # map le_time (streamLogs rounds prev)) \<and>
    set (streamLogs rounds prev) \<subseteq> {e. \<exists>es. Some es \<in> set rounds \<and> e \<in> set es}"
  proof (induction rounds arbitrary: prev)
    case (Cons r rounds)
    show ?case
    proof (cases r)
      case None
      then show ?thesis using Cons.IH [of prev] by auto
    next
      case (Some es)
      obtain out l where o: "stream_round es prev = (out, l)" by fastforce
      note sp = stream_round_spec [OF o]
      have "\<forall>e \<in> set out. le_time e \<le> l" using sp by auto
      then have "sorted_wrt (<) (prev # map le_time out @ map le_time (streamLogs rounds l))"
        using sp Cons.IH [of l] by (fastforce simp: sorted_wrt_append)
      then show ?thesis using Some o sp Cons.IH [of l] by auto
    qed
  qed simp
  then show "sorted_wrt (<) (map le_time (streamLogs rounds prev))" by simp
  show "set (streamLogs rounds prev) \<subseteq> {e. prev < le_time e \<and> (\<exists>es. Some es \<in> set rounds \<and> e \<in> set es)}"
    using inc by auto
  show "\<exists>a b. le_time a = le_time b \<and> a \<noteq> b \<and> streamLogs [Some [a, b]] zero_time = [a]"
    by (rule exI [of _ "\<lparr>le_time = 0, le_function = ''f'', le_stream = ''stdout'', le_line = ''a''\<rparr>"],
        rule exI [of _ "\<lparr>le_time = 0, le_function = ''f'', le_stream = ''stdout'', le_line = ''b''\<rparr>"])
      (simp add: zero_time_def second_def)
qed

section \<open>Witnesses\<close>

definition line_at :: "time \<Rightarrow> string \<Rightarrow> log_entry" where
  "line_at t l = \<lparr>le_time = t, le_function = ''f'', le_stream = ''stdout'', le_line = l\<rparr>"

definition instance_on :: "string \<Rightarrow> instance_info" where
  "instance_on node = \<lparr>ii_id = ''c'', ii_func_name = ''f'', ii_node_name = node, ii_state = ''idle''\<rparr>"

definition sample_proxy :: log_proxy where
  "sample_proxy = \<lparr>px_instances = (\<lambda>fn. Some [instance_on ''n1'', instance_on ''n2'', instance_on ''n1'']),
     px_pods = Some [\<lparr>pi_node = ''n1'', pi_name = ''p1''\<rparr>, \<lparr>pi_node = ''n2'', pi_name = ''p2''\<rparr>],
     px_fetch = (\<lambda>pod fn n s. if pod = ''p1'' then Some [line_at 1 ''a'', line_at 3 ''c''] else Some [line_at 2 ''b'']),
     px_sort = sort_key le_time\<rparr>"

lemma sample_sorts: "sorts_by_time (px_sort sample_proxy)"
  by (simp add: sorts_by_time_def sample_proxy_def)

lemma sample_fetch: "fetchLogs sample_proxy ''f'' 2 [] = Some [line_at 2 ''b'', line_at 3 ''c'']"
  by (simp add: fetchLogs_def sample_proxy_def collectorsByNode_def instance_on_def line_at_def cut_tail_def)

theorem fetchLogs_spec_witness:
  "\<exists>asked rest. distinct asked \<and> sorted (map le_time (rest @ [line_at 2 ''b'', line_at 3 ''c''])) \<and>
    mset (rest @ [line_at 2 ''b'', line_at 3 ''c'']) =
      mset (concat (map (\<lambda>pod. case px_fetch sample_proxy pod ''f'' 2 [] of None \<Rightarrow> [] | Some es \<Rightarrow> es) asked))"
  using fetchLogs_spec [OF sample_sorts sample_fetch] by blast

theorem proxy_query_appends_witness:
  "dm_files (snd (entriesFor (\<lambda>_. True) (Some sample_proxy) ''f'' 2 [] ''proxy''
     (snd (entriesFor (\<lambda>_. True) (Some sample_proxy) ''f'' 2 [] ''proxy'' newDaemon)))) ''f''
   = Some [line_at 2 ''b'', line_at 3 ''c'', line_at 2 ''b'', line_at 3 ''c'']"
  using proxy_query_appends [OF sample_fetch, of "\<lambda>_. True"] by (simp add: of_function_def line_at_def)

end
