(* ===== verification/Log_Sources.thy ===== *)
theory Log_Sources
  imports Log_Daemon
begin

text \<open>
  Where the log daemon's lines come from: the multiplexed streams of the Docker daemon
  (logdaemon/docker_source.go) and the pod logs that the collector of a node follows
  (logdaemon/k8s_collector.go). The Docker daemon and the Kubernetes API appear through what they
  answer: the bytes of a log stream, the lists of containers and pods, the events, the lines of a
  pod's log with the times they are written. \<open>parse\<close> is \<open>time.Parse\<close> for RFC 3339.
\<close>

section \<open>Timestamped lines\<close>

definition stamped :: "(string \<Rightarrow> time option) \<Rightarrow> time \<Rightarrow> string \<Rightarrow> time \<times> string" where
  "stamped parse now line =
     (let w = takeWhile (\<lambda>c. c \<noteq> CHR '' '') line; idx = length w in
      if idx < length line \<and> idx > 0
      then (case parse w of Some t \<Rightarrow> (t, drop (idx + 1) line) | None \<Rightarrow> (now, line))
      else (now, line))"

section \<open>Docker streams\<close>

definition be_uint32 :: "string \<Rightarrow> nat" where
  "be_uint32 bs = fold (\<lambda>c n. 256 * n + of_char c) bs 0"

text \<open>The loop of \<open>collectLogs\<close>: headers of eight bytes, each with a stream type and the size of the
  payload behind it. A stream that ends within a frame ends the loop.\<close>

function read_frames :: "string \<Rightarrow> (char \<times> string) list" where
  "read_frames bs =
     (if length bs < 8 then []
      else
        (let size = be_uint32 (take 4 (drop 4 bs)); body = drop 8 bs in
         if length body < size then []
         else (hd bs, take size body) # read_frames (drop size body)))"
  by pat_completeness auto
termination by (relation "measure length") auto

declare read_frames.simps [simp del]

definition frame_entry :: "(string \<Rightarrow> time option) \<Rightarrow> string \<Rightarrow> time \<Rightarrow> char \<times> string \<Rightarrow> log_entry" where
  "frame_entry parse fn now f =
     (case stamped parse now (trim_right_char CHR 0x0A (snd f)) of
        (t, l) \<Rightarrow> \<lparr>le_time = t, le_function = fn, le_stream = (if fst f = CHR 0x02 then ''stderr'' else ''stdout''), le_line = l\<rparr>)"

text \<open>\<open>collectLogs\<close> for the stream's bytes (\<open>None\<close> when it could not be opened); \<open>clock\<close> is read
  once for a frame.\<close>

definition collectLogs :: "(string \<Rightarrow> time option) \<Rightarrow> (nat \<Rightarrow> time) \<Rightarrow> string \<Rightarrow> string option \<Rightarrow> log_entry list" where
  "collectLogs parse clock fn bytes =
     (case bytes of
        None \<Rightarrow> []
      | Some bs \<Rightarrow> map (\<lambda>(i, f). frame_entry parse fn (clock i) f) (enumerate 0 (read_frames bs)))"

definition labelKey :: string where
  "labelKey = ''faas.function''"

record docker_event =
  de_status :: string
  de_id :: string
  de_labels :: "string \<rightharpoonup> string"

definition label_of :: "(string \<rightharpoonup> string) \<Rightarrow> string" where
  "label_of m = (case m labelKey of None \<Rightarrow> [] | Some v \<Rightarrow> v)"

text \<open>The containers to which \<open>watchEvents\<close> attaches for one connection's lines (\<open>None\<close> for a line
  that is no JSON); \<open>None\<close> when slicing a short id panics.\<close>

fun watchEvents :: "docker_event option list \<Rightarrow> (string \<times> string) list option" where
  "watchEvents [] = Some []"
| "watchEvents (None # evs) = watchEvents evs"
| "watchEvents (Some ev # evs) =
     (if label_of (de_labels ev) = [] \<or> de_status ev \<noteq> ''start'' \<and> de_status ev \<noteq> ''die'' then watchEvents evs
      else if length (de_id ev) < 12 then None
      else if de_status ev = ''start'' then map_option (\<lambda>as. (de_id ev, label_of (de_labels ev)) # as) (watchEvents evs)
      else watchEvents evs)"

record docker_container =
  dc_id :: string
  dc_labels :: "string \<rightharpoonup> string"

fun attach_existing :: "docker_container list \<Rightarrow> (string \<times> string) list option" where
  "attach_existing [] = Some []"
| "attach_existing (c # cs) =
     (if label_of (dc_labels c) = [] then attach_existing cs
      else if length (dc_id c) < 12 then None
      else map_option (\<lambda>as. (dc_id c, label_of (dc_labels c)) # as) (attach_existing cs))"

definition collectExisting :: "docker_container list option \<Rightarrow> (string \<times> string) list option" where
  "collectExisting reply = (case reply of None \<Rightarrow> Some [] | Some cs \<Rightarrow> attach_existing cs)"

section \<open>The collector of a node\<close>

record pod_info =
  po_name :: string
  po_function :: string
  po_node :: string
  po_phase :: string

record collector_state =
  cs_namespace :: string
  cs_node :: string
  cs_seen :: "string list"

text \<open>\<open>newCollectorState\<close>; \<open>creds\<close> holds when the service account's token and a usable certificate
  could be read.\<close>

definition newCollectorState :: "env \<Rightarrow> bool \<Rightarrow> collector_state option" where
  "newCollectorState env creds =
     (if env ''MY_NODE_NAME'' = [] \<or> \<not> creds then None
      else Some \<lparr>cs_namespace = (if env ''K8S_NAMESPACE'' = [] then ''default'' else env ''K8S_NAMESPACE''),
                cs_node = env ''MY_NODE_NAME'', cs_seen = []\<rparr>)"

record pod_json =
  pj_name :: string
  pj_labels :: "string \<rightharpoonup> string"
  pj_node :: string
  pj_phase :: string

text \<open>The API's reply: a status code and the decoded items, if they decode; \<open>None\<close> for a failed
  call.\<close>

definition listLocalFunctionPods :: "(int \<times> pod_json list option) option \<Rightarrow> pod_info list option" where
  "listLocalFunctionPods reply =
     (case reply of
        None \<Rightarrow> None
      | Some (code, items) \<Rightarrow>
          if code \<noteq> 200 then None
          else map_option (map (\<lambda>p. \<lparr>po_name = pj_name p, po_function = label_of (pj_labels p), po_node = pj_node p,
                                     po_phase = pj_phase p\<rparr>)) items)"

fun sync_loop :: "pod_info list \<Rightarrow> collector_state \<Rightarrow> pod_info list \<times> collector_state" where
  "sync_loop [] s = ([], s)"
| "sync_loop (p # ps) s =
     (if po_node p \<noteq> cs_node s \<or> po_phase p \<noteq> ''Running'' \<or> po_function p = [] then sync_loop ps s
      else if po_name p \<in> set (cs_seen s) then sync_loop ps s
      else (case sync_loop ps (s\<lparr>cs_seen := po_name p # cs_seen s\<rparr>) of (fs, s') \<Rightarrow> (p # fs, s')))"

text \<open>\<open>syncPods\<close>: the pods for which \<open>followPod\<close> is started.\<close>

definition syncPods :: "(int \<times> pod_json list option) option \<Rightarrow> collector_state \<Rightarrow> pod_info list \<times> collector_state" where
  "syncPods reply s = (case listLocalFunctionPods reply of None \<Rightarrow> ([], s) | Some pods \<Rightarrow> sync_loop pods s)"

text \<open>\<open>runCollector\<close>: a list every two seconds, with the time of each.\<close>

fun runCollector :: "(time \<times> (int \<times> pod_json list option) option) list \<Rightarrow> collector_state \<Rightarrow> (pod_info \<times> time) list" where
  "runCollector [] s = []"
| "runCollector ((now, reply) # rounds) s =
     (case syncPods reply s of (fs, s') \<Rightarrow> map (\<lambda>p. (p, now)) fs @ runCollector rounds s')"

text \<open>\<open>streamLines\<close>: \<open>bufio.Scanner\<close> drops a carriage return at the end of a line and gives up at a
  line of 64 KiB. The body of \<open>followPod\<close>'s request can be read for the 15 s of the client's
  \<open>Timeout\<close>, which covers the body too.\<close>

definition max_token :: nat where
  "max_token = 65536"

definition client_timeout :: duration where
  "client_timeout = 15 * second"

definition readable :: "time \<Rightarrow> (time \<times> string) list \<Rightarrow> (time \<times> string) list" where
  "readable t0 written = takeWhile (\<lambda>(t, l). t < t0 + client_timeout \<and> length l < max_token) written"

definition streamLines :: "(time \<times> string) list \<Rightarrow> (time \<times> string) list" where
  "streamLines ls = map (\<lambda>(t, l). (t, if has_suffix l [CHR 0x0D] then butlast l else l)) ls"

definition followPod :: "(string \<Rightarrow> time option) \<Rightarrow> time \<Rightarrow> int option \<Rightarrow> (time \<times> string) list \<Rightarrow> pod_info \<Rightarrow> log_entry list" where
  "followPod parse t0 reply written pod =
     (if reply \<noteq> Some 200 then []
      else map (\<lambda>(t, l). case stamped parse (max t t0) l of
                  (ts, payload) \<Rightarrow> \<lparr>le_time = ts, le_function = po_function pod, le_stream = ''stdout'', le_line = payload\<rparr>)
             (streamLines (readable t0 written)))"

section \<open>Properties of the Docker source\<close>

definition be_bytes :: "nat \<Rightarrow> string" where
  "be_bytes n = [char_of (n div 16777216 mod 256), char_of (n div 65536 mod 256), char_of (n div 256 mod 256), char_of (n mod 256)]"

definition encode_frame :: "char \<times> string \<Rightarrow> string" where
  "encode_frame f = [fst f, CHR 0x00, CHR 0x00, CHR 0x00] @ be_bytes (length (snd f)) @ snd f"

lemma be_uint32_bytes: "n < 2 ^ 32 \<Longrightarrow> be_uint32 (be_bytes n) = n"
proof -
  assume n: "n < 2 ^ 32"
  have "n div 16777216 < 256" using n by (simp add: less_mult_imp_div_less)
  moreover have "256 * (n div 16777216) + n div 65536 mod 256 = n div 65536"
    using div_mult_mod_eq [of "n div 65536" 256] by (simp add: div_mult2_eq [symmetric])
  moreover have "256 * (n div 65536) + n div 256 mod 256 = n div 256"
    using div_mult_mod_eq [of "n div 256" 256] by (simp add: div_mult2_eq [symmetric])
  moreover have "256 * (n div 256) + n mod 256 = n" by simp
  ultimately show ?thesis by (simp add: be_uint32_def be_bytes_def)
qed

lemma encode_frame_parts:
  "length (encode_frame f) = 8 + length (snd f)" "hd (encode_frame f @ bs) = fst f"
  "take 4 (drop 4 (encode_frame f @ bs)) = be_bytes (length (snd f))" "drop 8 (encode_frame f @ bs) = snd f @ bs"
  by (simp_all add: encode_frame_def be_bytes_def)

lemma read_frames_encode:
  assumes "length (snd f) < 2 ^ 32"
  shows "read_frames (encode_frame f @ bs) = f # read_frames bs"
  using assms encode_frame_parts(2-4) [of f bs] encode_frame_parts(1) [of f] be_uint32_bytes [OF assms]
  by (subst read_frames.simps) (simp add: Let_def)

lemma read_frames_partial:
  assumes "length (snd f) < 2 ^ 32" "strict_prefix bs (encode_frame f)"
  shows "read_frames bs = []"
proof (cases "length bs < 8")
  case True
  then show ?thesis by (simp add: read_frames.simps)
next
  case False
  obtain cs where cs: "encode_frame f = bs @ cs" "cs \<noteq> []" using assms(2) by (auto simp: strict_prefix_def prefix_def)
  have "take 4 (drop 4 bs) = take 4 (drop 4 (encode_frame f @ []))"
    using False cs(1) by simp
  then have "be_uint32 (take 4 (drop 4 bs)) = length (snd f)"
    using encode_frame_parts(3) [where f = f and bs = "[]"] be_uint32_bytes [OF assms(1)] by simp
  moreover have "length bs < 8 + length (snd f)" using arg_cong [OF cs(1), of length] cs(2) encode_frame_parts(1) [of f] by (cases cs) simp_all
  ultimately show ?thesis using False by (subst read_frames.simps) (simp add: Let_def)
qed

lemma collectLogs_encode:
  assumes "\<forall>f \<in> set fs. length (snd f) < 2 ^ 32" "length (snd g) < 2 ^ 32" "strict_prefix rest (encode_frame g)"
  shows "collectLogs parse clock fn (Some (concat (map encode_frame fs) @ rest)) =
    map (\<lambda>i. frame_entry parse fn (clock i) (fs ! i)) [0..<length fs]"
proof -
  have "read_frames (concat (map encode_frame fs) @ rest) = fs"
    using assms by (induction fs) (simp_all add: read_frames_encode read_frames_partial)
  then show ?thesis
    by (intro nth_equalityI) (simp_all add: collectLogs_def nth_enumerate_eq)
qed

text \<open>A payload without its newline; and the lines that carry a time in front of them.\<close>

lemma trim_newline: "l = [] \<or> last l \<noteq> c \<Longrightarrow> trim_right_char c (l @ [c]) = l"
  by (cases l rule: rev_cases) (simp_all add: trim_right_char_def)

lemma stamped_time:
  assumes "parse ts = Some t" "ts \<noteq> []" "CHR '' '' \<notin> set ts"
  shows "stamped parse now (ts @ CHR '' '' # l) = (t, l)"
proof -
  have "takeWhile (\<lambda>c. c \<noteq> CHR '' '') (ts @ CHR '' '' # l) = ts" using assms(3) by (induction ts) auto
  then show ?thesis using assms(1,2) by (simp add: stamped_def Let_def)
qed

lemma stamped_none:
  assumes "\<forall>ts r. l = ts @ CHR '' '' # r \<and> CHR '' '' \<notin> set ts \<longrightarrow> ts = [] \<or> parse ts = None"
  shows "stamped parse now l = (now, l)"
proof -
  let ?w = "takeWhile (\<lambda>c. c \<noteq> CHR '' '') l"
  have "CHR '' '' \<notin> set ?w" by (auto dest: set_takeWhileD)
  moreover have "l = ?w @ CHR '' '' # drop (length ?w + 1) l" if "length ?w < length l"
  proof -
    have "l ! length ?w = CHR '' ''" using nth_length_takeWhile [OF that] by simp
    then show ?thesis
      using id_take_nth_drop [OF that] takeWhile_eq_take [of "\<lambda>c. c \<noteq> CHR '' ''" l] by simp
  qed
  ultimately have "?w = [] \<or> parse ?w = None" if "length ?w < length l" using assms that by metis
  then show ?thesis by (auto simp: stamped_def Let_def)
qed

text \<open>C32. Reading the multiplexed stream inverts its framing: from frames that the Docker daemon wrote,
  followed by a part of another, \<open>collectLogs\<close> makes exactly one entry for each whole frame, in
  order, and none for the part. An entry is the function's, on \<open>stderr\<close> for a frame of type 2 and on
  \<open>stdout\<close> for any other. The entry of a line that begins with a time, a space behind it, has this time and the rest of the line; that
  of any other line has the time of its reading and the whole line.\<close>

theorem collectLogs_frames:
  assumes "\<forall>f \<in> set fs. length (snd f) < 2 ^ 32" "length (snd g) < 2 ^ 32" "strict_prefix rest (encode_frame g)"
  shows "length (collectLogs parse clock fn (Some (concat (map encode_frame fs) @ rest))) = length fs \<and>
    (\<forall>i < length fs. \<forall>l.
       let e = collectLogs parse clock fn (Some (concat (map encode_frame fs) @ rest)) ! i in
       le_function e = fn \<and> le_stream e = (if fst (fs ! i) = CHR 0x02 then ''stderr'' else ''stdout'') \<and>
       (l = [] \<or> last l \<noteq> CHR 0x0A \<longrightarrow>
          (\<forall>ts t. snd (fs ! i) = ts @ CHR '' '' # l @ [CHR 0x0A] \<and> parse ts = Some t \<and> ts \<noteq> [] \<and> CHR '' '' \<notin> set ts \<longrightarrow>
             le_time e = t \<and> le_line e = l) \<and>
          (snd (fs ! i) = l @ [CHR 0x0A] \<and>
           (\<forall>ts r. l = ts @ CHR '' '' # r \<and> CHR '' '' \<notin> set ts \<longrightarrow> ts = [] \<or> parse ts = None) \<longrightarrow>
             le_time e = clock i \<and> le_line e = l)))"
proof (intro conjI allI impI)
  note entries = collectLogs_encode [OF assms, of parse clock fn]
  show "length (collectLogs parse clock fn (Some (concat (map encode_frame fs) @ rest))) = length fs"
    by (simp add: entries)
  fix i l
  assume i: "i < length fs"
  let ?e = "collectLogs parse clock fn (Some (concat (map encode_frame fs) @ rest)) ! i"
  have e: "?e = frame_entry parse fn (clock i) (fs ! i)" using i by (simp add: entries)
  have "le_time ?e = t \<and> le_line ?e = l"
    if "l = [] \<or> last l \<noteq> CHR 0x0A" "snd (fs ! i) = ts @ CHR '' '' # l @ [CHR 0x0A]" "parse ts = Some t" "ts \<noteq> []"
      "CHR '' '' \<notin> set ts" for ts t
    using trim_newline [of "ts @ CHR '' '' # l" "CHR 0x0A"] that stamped_time [where parse = parse and now = "clock i", OF that(3-5)]
    unfolding e by (cases "l = []") (simp_all add: frame_entry_def)
  moreover have "le_time ?e = clock i \<and> le_line ?e = l"
    if "l = [] \<or> last l \<noteq> CHR 0x0A" "snd (fs ! i) = l @ [CHR 0x0A]"
      "\<forall>ts r. l = ts @ CHR '' '' # r \<and> CHR '' '' \<notin> set ts \<longrightarrow> ts = [] \<or> parse ts = None"
    using trim_newline [OF that(1)] stamped_none [OF that(3)] that(2) unfolding e by (simp add: frame_entry_def)
  moreover have "le_function ?e = fn \<and> le_stream ?e = (if fst (fs ! i) = CHR 0x02 then ''stderr'' else ''stdout'')"
    unfolding e by (simp add: frame_entry_def split: prod.split)
  ultimately show "let e = ?e in le_function e = fn \<and> le_stream e = (if fst (fs ! i) = CHR 0x02 then ''stderr'' else ''stdout'') \<and>
       (l = [] \<or> last l \<noteq> CHR 0x0A \<longrightarrow>
          (\<forall>ts t. snd (fs ! i) = ts @ CHR '' '' # l @ [CHR 0x0A] \<and> parse ts = Some t \<and> ts \<noteq> [] \<and> CHR '' '' \<notin> set ts \<longrightarrow>
             le_time e = t \<and> le_line e = l) \<and>
          (snd (fs ! i) = l @ [CHR 0x0A] \<and>
           (\<forall>ts r. l = ts @ CHR '' '' # r \<and> CHR '' '' \<notin> set ts \<longrightarrow> ts = [] \<or> parse ts = None) \<longrightarrow>
             le_time e = clock i \<and> le_line e = l))"
    unfolding Let_def by blast
qed

text \<open>A container that is in the list of running containers and whose start event is delivered as
  well gets two readers, so each of its lines is stored twice: nothing remembers which containers are
  attached.\<close>

theorem docker_attaches_twice:
  assumes "collectExisting (Some cs) = Some as" "watchEvents evs = Some bs"
    "c \<in> set cs" "Some ev \<in> set evs" "de_status ev = ''start''" "de_id ev = dc_id c"
    "label_of (dc_labels c) = fn" "label_of (de_labels ev) = fn" "fn \<noteq> []"
  shows "count (mset (as @ bs)) (dc_id c, fn) \<ge> 2"
proof -
  have "(dc_id c, fn) \<in> set as" using assms(1,3,7,9) unfolding collectExisting_def option.case
  proof (induction cs arbitrary: as)
    case (Cons d cs)
    then show ?case by (auto split: if_splits)
  qed simp
  moreover have "(dc_id c, fn) \<in> set bs" using assms(2,4,5,6,8,9)
  proof (induction evs arbitrary: bs)
    case (Cons e evs)
    then show ?case by (cases e) (auto split: if_splits)
  qed simp
  ultimately have "count (mset as) (dc_id c, fn) \<ge> 1" "count (mset bs) (dc_id c, fn) \<ge> 1"
    by (simp_all add: count_greater_eq_one_iff)
  then show ?thesis unfolding mset_append count_union by linarith
qed

section \<open>Properties of the collector\<close>

lemma sync_loop_spec:
  assumes "sync_loop ps s = (fs, s')"
  shows "set (cs_seen s') = set (cs_seen s) \<union> po_name ` set fs \<and> distinct (map po_name fs) \<and>
    po_name ` set fs \<inter> set (cs_seen s) = {} \<and> cs_node s' = cs_node s \<and>
    (\<forall>p \<in> set ps. po_node p = cs_node s \<and> po_phase p = ''Running'' \<and> po_function p \<noteq> [] \<longrightarrow> po_name p \<in> set (cs_seen s'))"
  using assms
proof (induction ps arbitrary: s fs)
  case (Cons p ps)
  show ?case
  proof (cases "po_node p \<noteq> cs_node s \<or> po_phase p \<noteq> ''Running'' \<or> po_function p = [] \<or> po_name p \<in> set (cs_seen s)")
    case True
    then have "sync_loop ps s = (fs, s')" using Cons.prems by (auto split: if_splits)
    note ih = Cons.IH [OF this]
    have "\<forall>q \<in> set ps. po_node q = cs_node s \<and> po_phase q = ''Running'' \<and> po_function q \<noteq> [] \<longrightarrow> po_name q \<in> set (cs_seen s')"
      using ih by blast
    moreover have "po_node p = cs_node s \<and> po_phase p = ''Running'' \<and> po_function p \<noteq> [] \<longrightarrow> po_name p \<in> set (cs_seen s')"
      using True ih by blast
    ultimately have "\<forall>q \<in> set (p # ps). po_node q = cs_node s \<and> po_phase q = ''Running'' \<and> po_function q \<noteq> [] \<longrightarrow>
        po_name q \<in> set (cs_seen s')" by simp
    then show ?thesis using ih by blast
  next
    case False
    then obtain gs where g: "sync_loop ps (s\<lparr>cs_seen := po_name p # cs_seen s\<rparr>) = (gs, s')" "fs = p # gs"
      using Cons.prems by (auto split: prod.splits)
    show ?thesis using Cons.IH [OF g(1)] g(2) False by auto
  qed
qed simp

lemma runCollector_once:
  "distinct (map (po_name \<circ> fst) (runCollector rounds s)) \<and>
   (po_name \<circ> fst) ` set (runCollector rounds s) \<inter> set (cs_seen s) = {}"
proof (induction rounds arbitrary: s)
  case (Cons r rounds)
  obtain now reply where r: "r = (now, reply)" by fastforce
  obtain fs s' where fs: "syncPods reply s = (fs, s')" by fastforce
  have sp: "set (cs_seen s') = set (cs_seen s) \<union> po_name ` set fs" "distinct (map po_name fs)"
    "po_name ` set fs \<inter> set (cs_seen s) = {}"
    using fs sync_loop_spec [of _ s fs s'] by (auto simp: syncPods_def split: option.splits)
  have "distinct (map (po_name \<circ> fst) (map (\<lambda>p. (p, now)) fs))" using sp(2) by (simp add: comp_def)
  then show ?case using Cons.IH [of s'] sp by (auto simp: r fs image_iff comp_def)
qed simp

text \<open>The collector follows a pod at most once, in whatever rounds it is listed, and reads its log for
  15 s: a line that the pod writes later than that after its first listing is never stored, though
  the pod still runs.\<close>

theorem collector_stops_following:
  assumes "(p, t0) \<in> set (runCollector rounds s)" "(t, l) \<in> set written" "t \<ge> t0 + 15 * second"
  shows "\<forall>(q, t1) \<in> set (runCollector rounds s). po_name q = po_name p \<longrightarrow> t1 = t0 \<and> (t, l) \<notin> set (readable t1 written)"
proof -
  have d: "distinct (map (po_name \<circ> fst) (runCollector rounds s))" using runCollector_once by blast
  have "t1 = t0" if "(q, t1) \<in> set (runCollector rounds s)" "po_name q = po_name p" for q t1
  proof -
    have "inj_on (po_name \<circ> fst) (set (runCollector rounds s))" using d by (simp add: distinct_map)
    then have "(q, t1) = (p, t0)" using that assms(1) inj_onD [of "po_name \<circ> fst" _ "(q, t1)" "(p, t0)"] by simp
    then show ?thesis by simp
  qed
  moreover have "(t, l) \<notin> set (readable t0 written)"
    using assms(3) by (auto simp: readable_def client_timeout_def dest!: set_takeWhileD)
  ultimately show ?thesis by blast
qed

section \<open>Witnesses\<close>

definition sample_stream :: string where
  "sample_stream = concat (map encode_frame [(CHR 0x01, ''hi'' @ [CHR 0x0A]), (CHR 0x02, ''no'' @ [CHR 0x0A])]) @ ''x''"

theorem collectLogs_frames_witness:
  "length (collectLogs (\<lambda>_. None) (\<lambda>_. 7) ''f'' (Some sample_stream)) = 2 \<and>
   le_stream (collectLogs (\<lambda>_. None) (\<lambda>_. 7) ''f'' (Some sample_stream) ! 0) = ''stdout'' \<and>
   le_line (collectLogs (\<lambda>_. None) (\<lambda>_. 7) ''f'' (Some sample_stream) ! 1) = ''no'' \<and>
   le_stream (collectLogs (\<lambda>_. None) (\<lambda>_. 7) ''f'' (Some sample_stream) ! 1) = ''stderr''"
proof -
  have "strict_prefix ''x'' (encode_frame (CHR ''x'', ''abc''))"
    by (simp add: encode_frame_def strict_prefix_def)
  then show ?thesis
    using collectLogs_frames [of "[(CHR 0x01, ''hi'' @ [CHR 0x0A]), (CHR 0x02, ''no'' @ [CHR 0x0A])]" "(CHR ''x'', ''abc'')" "''x''"
        "\<lambda>_. None" "\<lambda>_. 7" "''f''"]
    by (simp add: sample_stream_def Let_def All_less_Suc)
qed

definition sample_id :: string where
  "sample_id = ''0123456789abcdef''"

theorem docker_attaches_twice_witness:
  "\<exists>as bs. collectExisting (Some [\<lparr>dc_id = sample_id, dc_labels = [labelKey \<mapsto> ''f'']\<rparr>]) = Some as \<and>
     watchEvents [Some \<lparr>de_status = ''start'', de_id = sample_id, de_labels = [labelKey \<mapsto> ''f'']\<rparr>] = Some bs \<and>
     count (mset (as @ bs)) (sample_id, ''f'') \<ge> 2"
proof -
  let ?c = "\<lparr>dc_id = sample_id, dc_labels = [labelKey \<mapsto> ''f'']\<rparr>"
  let ?ev = "\<lparr>de_status = ''start'', de_id = sample_id, de_labels = [labelKey \<mapsto> ''f'']\<rparr>"
  have a: "collectExisting (Some [?c]) = Some [(sample_id, ''f'')]" "watchEvents [Some ?ev] = Some [(sample_id, ''f'')]"
    by (simp_all add: collectExisting_def label_of_def sample_id_def)
  have "count (mset ([(sample_id, ''f'')] @ [(sample_id, ''f'')])) (dc_id ?c, ''f'') \<ge> 2"
    by (rule docker_attaches_twice [OF a, where ev = ?ev]) (simp_all add: label_of_def)
  then show ?thesis using a by simp
qed

definition sample_pod :: pod_json where
  "sample_pod = \<lparr>pj_name = ''p'', pj_labels = [labelKey \<mapsto> ''f''], pj_node = ''n'', pj_phase = ''Running''\<rparr>"

theorem collector_stops_following_witness:
  "\<forall>(q, t1) \<in> set (runCollector [(0, Some (200, Some [sample_pod])), (2 * second, Some (200, Some [sample_pod]))]
        \<lparr>cs_namespace = ''default'', cs_node = ''n'', cs_seen = []\<rparr>).
     (20 * second, ''late'') \<notin> set (readable t1 [(0, ''early''), (20 * second, ''late'')])"
proof -
  let ?s = "\<lparr>cs_namespace = ''default'', cs_node = ''n'', cs_seen = []\<rparr>"
  let ?p = "\<lparr>po_name = ''p'', po_function = ''f'', po_node = ''n'', po_phase = ''Running''\<rparr>"
  let ?rounds = "[(0, Some (200, Some [sample_pod])), (2 * second, Some (200, Some [sample_pod]))]"
  have run: "runCollector ?rounds ?s = [(?p, 0)]"
    by (simp add: syncPods_def listLocalFunctionPods_def sample_pod_def label_of_def)
  have "\<forall>(q, t1) \<in> set (runCollector ?rounds ?s). po_name q = po_name ?p \<longrightarrow>
      t1 = 0 \<and> (20 * second, ''late'') \<notin> set (readable t1 [(0, ''early''), (20 * second, ''late'')])"
  proof (rule collector_stops_following)
    show "(?p, 0) \<in> set (runCollector ?rounds ?s)" unfolding run by simp
  qed (simp_all add: second_def)
  then show ?thesis unfolding run by simp
qed

end
