(* ===== verification/Runtime_Server.thy ===== *)
theory Runtime_Server
  imports Wire_Text Registry Transition
begin

text \<open>
  The server inside a function's container (runtime/cmd/runtime/main.go). An HTTP request becomes
  an invocation that waits in a queue; the function's bootstrap polls \<open>/runtime/invocation/next\<close>
  for it and posts the result back under the invocation's id, which wakes the request. The first
  part has the pure steps of the handlers, the second the machine of all handlers together, cut
  where another goroutine may run: at the lock, at the concurrent map \<open>inflight\<close>, at the channel
  \<open>notify\<close> and at the waits.
\<close>

section \<open>Data\<close>

record invoke_result =
  ir_status :: int
  ir_body :: string

record invocation =
  iv_id :: string
  iv_payload :: string
  iv_event_type :: string
  iv_deadline :: time

definition maxRequestBytes :: "env \<Rightarrow> int" where
  "maxRequestBytes env = env_int env ''RUNTIME_MAX_REQUEST_BYTES'' 1048576"

definition maxQueueSize :: "env \<Rightarrow> int" where
  "maxQueueSize env = (let m = env_int env ''RUNTIME_MAX_QUEUE'' 128 in if m \<le> 0 then 128 else m)"

definition clampTimeout :: "env \<Rightarrow> duration \<Rightarrow> duration" where
  "clampTimeout env timeout =
     (if timeout \<le> 0 then 30 * second
      else
        let maxSeconds = env_int env ''MAX_FUNCTION_TIMEOUT_SECONDS'' 300;
            maxSeconds = (if maxSeconds \<le> 0 then 300 else maxSeconds);
            maxTimeout = dur_seconds maxSeconds
        in if timeout > maxTimeout then maxTimeout else timeout)"

section \<open>Requests\<close>

text \<open>The outcome of decoding the first JSON value of a request body that is cut off at the
  size limit.\<close>

datatype body_read = BodyJson string | BodyTooLarge | BodyInvalid

record rt_request =
  rr_method :: string
  rr_path :: string
  rr_timeout :: string      \<comment> \<open>the header \<open>X-Function-Timeout\<close>\<close>
  rr_body :: body_read

text \<open>The part of \<open>handleInvocation\<close> before the lock: a status code, or the invocation and its
  timeout. \<open>parse\<close> is \<open>time.ParseDuration\<close>, \<open>uuid\<close> the new id and \<open>now\<close> the clock.\<close>

definition request_timeout :: "(string \<Rightarrow> duration option) \<Rightarrow> env \<Rightarrow> string \<Rightarrow> duration" where
  "request_timeout parse env t =
     (if t \<noteq> [] then (case parse (t @ ''s'') of Some d \<Rightarrow> clampTimeout env d | None \<Rightarrow> 30 * second)
      else 30 * second)"

definition read_invocation ::
  "(string \<Rightarrow> duration option) \<Rightarrow> env \<Rightarrow> string \<Rightarrow> time \<Rightarrow> string \<Rightarrow> rt_request \<Rightarrow> int + invocation \<times> duration" where
  "read_invocation parse env uuid now eventType r =
     (if rr_method r \<noteq> ''POST'' then Inl 405
      else
        case (case rr_body r of
                BodyJson p \<Rightarrow> Inr p
              | BodyTooLarge \<Rightarrow> Inl 413
              | BodyInvalid \<Rightarrow> if eventType = ''mq'' then Inl 400 else Inr ''{}'') of
          Inl code \<Rightarrow> Inl code
        | Inr payload \<Rightarrow>
            (let timeout = request_timeout parse env (rr_timeout r)
             in Inr (\<lparr>iv_id = uuid, iv_payload = payload, iv_event_type = eventType, iv_deadline = now + timeout\<rparr>,
                     timeout)))"

definition handleInvoke ::
  "(string \<Rightarrow> duration option) \<Rightarrow> env \<Rightarrow> string \<Rightarrow> time \<Rightarrow> rt_request \<Rightarrow> int + invocation \<times> duration" where
  "handleInvoke parse env uuid now r = read_invocation parse env uuid now ''http'' r"

definition handleEvents ::
  "(string \<Rightarrow> duration option) \<Rightarrow> env \<Rightarrow> string \<Rightarrow> time \<Rightarrow> rt_request \<Rightarrow> int + invocation \<times> duration" where
  "handleEvents parse env uuid now r = read_invocation parse env uuid now ''mq'' r"

text \<open>The part of \<open>handleResponse\<close> before the lookup; a body that could not be read whole is
  \<open>None\<close>.\<close>

definition read_response :: "string \<Rightarrow> string \<Rightarrow> string option \<Rightarrow> int + string \<times> invoke_result" where
  "read_response meth path body =
     (if meth \<noteq> ''POST'' then Inl 405
      else
        case split_first CHR ''/'' (trim_prefix path ''/runtime/invocation/'') of
          None \<Rightarrow> Inl 400
        | Some (requestID, action) \<Rightarrow>
            if action \<noteq> ''response'' \<and> action \<noteq> ''error'' then Inl 400
            else
              case body of
                None \<Rightarrow> Inl 400
              | Some b \<Rightarrow>
                  if \<not> json_valid b then Inl 400
                  else Inr (requestID, \<lparr>ir_status = (if action = ''error'' then 500 else 200), ir_body = b\<rparr>))"

definition bootstrapCommand :: "string \<Rightarrow> string list option" where
  "bootstrapCommand rt =
     (if rt = [] \<or> rt = ''python3'' then Some [''python3'', ''/runtime/bootstrap/python3_bootstrap.py'']
      else if rt = ''go'' then Some [''/runtime/bootstrap/go-bootstrap'']
      else if rt = ''nodejs'' then Some [''node'', ''/runtime/bootstrap/nodejs_bootstrap.js'']
      else if rt = ''java'' then Some [''java'', ''-cp'', ''/runtime/bootstrap/java-bootstrap.jar'', ''JavaBootstrap'']
      else None)"

text \<open>\<open>startFunction\<close>: the command, directory and added environment of every start, and the
  pauses, for the given exits (true for a clean one) of the process.\<close>

datatype start_action = RunBootstrap "string list" string "(string \<times> string) list" | SleepSecond

definition start_env :: "env \<Rightarrow> string \<times> string \<times> string" where
  "start_env env =
     (let handler = env ''FUNCTION_HANDLER''; rt = env ''FUNCTION_RUNTIME''; dir = env ''FUNCTION_DIR''
      in (if handler = [] then ''handler.handler'' else handler, if rt = [] then ''python3'' else rt,
          if dir = [] then ''/function'' else dir))"

fun startFunction :: "env \<Rightarrow> bool list \<Rightarrow> start_action list" where
  "startFunction env [] = []"
| "startFunction env (clean # exits) =
     (case start_env env of
        (handler, rt, dir) \<Rightarrow>
          (case bootstrapCommand rt of
             None \<Rightarrow> SleepSecond # startFunction env exits
           | Some cmd \<Rightarrow>
               RunBootstrap cmd dir [(''RUNTIME_API'', ''http://localhost:9000''), (''FUNCTION_HANDLER'', handler),
                 (''FUNCTION_DIR'', dir)] #
               (if clean then [] else [SleepSecond]) @ startFunction env exits))"

section \<open>The machine\<close>

text \<open>Where a request is: it has left the lock and not yet signalled; it waits for its result or
  its timer; its timer fired; it has left \<open>inflight\<close>; it is answered. A result channel holds one
  value, so it is the option that \<open>rq_chan\<close> carries.\<close>

datatype req_phase = Queued | Waiting | TimerFired | Unregistered | Answered int

record rt_req =
  rq_inv :: invocation
  rq_phase :: req_phase
  rq_chan :: "invoke_result option"

datatype poll_phase = Polling | PollWaiting | DroppingExpired string | Dispatched invocation | NoContent | PollerGone

record runtime =
  rt_max :: nat
  rt_queue :: "invocation list"
  rt_inflight :: "string list"
  rt_notify :: bool
  rt_reqs :: "rt_req list"
  rt_polls :: "poll_phase list"
  rt_accepted :: "(string \<times> invoke_result) list"   \<comment> \<open>the results answered with 202, latest first\<close>

definition rt_init :: "nat \<Rightarrow> runtime" where
  "rt_init m = \<lparr>rt_max = m, rt_queue = [], rt_inflight = [], rt_notify = False, rt_reqs = [], rt_polls = [],
     rt_accepted = []\<rparr>"

datatype rt_event =
    Enqueue invocation | Notify nat | TakeResult nat | TimerFires nat | Unregister nat | RemoveQueued nat
  | PollArrives | PollTake nat time | PollDrop nat | PollWake nat | PollTimeout nat | PollCtxDone nat
  | Respond string invoke_result

definition set_req :: "nat \<Rightarrow> req_phase \<Rightarrow> runtime \<Rightarrow> runtime" where
  "set_req i p s = s\<lparr>rt_reqs := (rt_reqs s)[i := (rt_reqs s ! i)\<lparr>rq_phase := p\<rparr>]\<rparr>"

definition set_poll :: "nat \<Rightarrow> poll_phase \<Rightarrow> runtime \<Rightarrow> runtime" where
  "set_poll i p s = s\<lparr>rt_polls := (rt_polls s)[i := p]\<rparr>"

definition req_at :: "nat \<Rightarrow> req_phase \<Rightarrow> runtime \<Rightarrow> bool" where
  "req_at i p s \<longleftrightarrow> i < length (rt_reqs s) \<and> rq_phase (rt_reqs s ! i) = p"

definition poll_at :: "nat \<Rightarrow> poll_phase \<Rightarrow> runtime \<Rightarrow> bool" where
  "poll_at i p s \<longleftrightarrow> i < length (rt_polls s) \<and> rt_polls s ! i = p"

definition req_id :: "rt_req \<Rightarrow> string" where
  "req_id r = iv_id (rq_inv r)"

text \<open>\<open>removeQueuedInvocation\<close>.\<close>

fun remove_queued :: "string \<Rightarrow> invocation list \<Rightarrow> invocation list" where
  "remove_queued k [] = []"
| "remove_queued k (v # vs) = (if iv_id v = k then vs else v # remove_queued k vs)"

text \<open>The locked section of \<open>handleInvocation\<close>.\<close>

definition enqueue :: "invocation \<Rightarrow> runtime \<Rightarrow> runtime" where
  "enqueue v s =
     (if length (rt_queue s) \<ge> rt_max s
      then s\<lparr>rt_reqs := rt_reqs s @ [\<lparr>rq_inv = v, rq_phase = Answered 503, rq_chan = None\<rparr>]\<rparr>
      else s\<lparr>rt_inflight := iv_id v # rt_inflight s, rt_queue := rt_queue s @ [v],
             rt_reqs := rt_reqs s @ [\<lparr>rq_inv = v, rq_phase = Queued, rq_chan = None\<rparr>]\<rparr>)"

definition put_result :: "string \<Rightarrow> invoke_result \<Rightarrow> rt_req list \<Rightarrow> rt_req list" where
  "put_result k res rs = map (\<lambda>r. if req_id r = k then r\<lparr>rq_chan := Some res\<rparr> else r) rs"

text \<open>The locked section of \<open>handleNext\<close>, with the clock reading of its expiry check.\<close>

definition poll_take :: "nat \<Rightarrow> time \<Rightarrow> runtime \<Rightarrow> runtime" where
  "poll_take i now s =
     (case rt_queue s of
        [] \<Rightarrow> set_poll i PollWaiting s
      | v # vs \<Rightarrow> set_poll i (if now > iv_deadline v then DroppingExpired (iv_id v) else Dispatched v) (s\<lparr>rt_queue := vs\<rparr>))"

definition forget :: "string \<Rightarrow> string list \<Rightarrow> string list" where
  "forget k ks = filter (\<lambda>j. j \<noteq> k) ks"

text \<open>A step, or \<open>None\<close> when it cannot be taken. The ids are fresh, as \<open>uuid.NewString\<close> makes
  them. \<open>Respond\<close> for an id that is not in \<open>inflight\<close> is answered with 404 and changes nothing.\<close>

fun rt_step :: "rt_event \<Rightarrow> runtime \<Rightarrow> runtime option" where
  "rt_step (Enqueue v) s = (if iv_id v \<in> req_id ` set (rt_reqs s) then None else Some (enqueue v s))"
| "rt_step (Notify i) s = (if req_at i Queued s then Some (set_req i Waiting (s\<lparr>rt_notify := True\<rparr>)) else None)"
| "rt_step (TakeResult i) s =
     (if req_at i Waiting s \<and> rq_chan (rt_reqs s ! i) \<noteq> None then Some (set_req i (Answered 200) s) else None)"
| "rt_step (TimerFires i) s = (if req_at i Waiting s then Some (set_req i TimerFired s) else None)"
| "rt_step (Unregister i) s =
     (if req_at i TimerFired s
      then Some (set_req i Unregistered (s\<lparr>rt_inflight := forget (req_id (rt_reqs s ! i)) (rt_inflight s)\<rparr>)) else None)"
| "rt_step (RemoveQueued i) s =
     (if req_at i Unregistered s
      then Some (set_req i (Answered 504) (s\<lparr>rt_queue := remove_queued (req_id (rt_reqs s ! i)) (rt_queue s)\<rparr>)) else None)"
| "rt_step PollArrives s = Some (s\<lparr>rt_polls := rt_polls s @ [Polling]\<rparr>)"
| "rt_step (PollTake i now) s = (if poll_at i Polling s then Some (poll_take i now s) else None)"
| "rt_step (PollDrop i) s =
     (if i < length (rt_polls s) then
        (case rt_polls s ! i of
           DroppingExpired k \<Rightarrow> Some (set_poll i Polling (s\<lparr>rt_inflight := forget k (rt_inflight s)\<rparr>))
         | _ \<Rightarrow> None)
      else None)"
| "rt_step (PollWake i) s =
     (if poll_at i PollWaiting s \<and> rt_notify s then Some (set_poll i Polling (s\<lparr>rt_notify := False\<rparr>)) else None)"
| "rt_step (PollTimeout i) s = (if poll_at i PollWaiting s then Some (set_poll i NoContent s) else None)"
| "rt_step (PollCtxDone i) s = (if poll_at i PollWaiting s then Some (set_poll i PollerGone s) else None)"
| "rt_step (Respond k res) s =
     (if k \<in> set (rt_inflight s)
      then Some (s\<lparr>rt_inflight := forget k (rt_inflight s), rt_reqs := put_result k res (rt_reqs s),
                   rt_accepted := (k, res) # rt_accepted s\<rparr>)
      else Some s)"

definition respond_status :: "string \<Rightarrow> runtime \<Rightarrow> int" where
  "respond_status k s = (if k \<in> set (rt_inflight s) then 202 else 404)"

text \<open>The whole of \<open>handleResponse\<close>: a body over the limit cannot be read, and an id that is not in
  \<open>inflight\<close>, because its result is there or its timer has fired, is not found.\<close>

definition handleResponse :: "int \<Rightarrow> string \<Rightarrow> string \<Rightarrow> string \<Rightarrow> runtime \<Rightarrow> int \<times> runtime" where
  "handleResponse limit meth path body s =
     (case read_response meth path (if length body \<le> nat limit then Some body else None) of
        Inl code \<Rightarrow> (code, s)
      | Inr (k, res) \<Rightarrow>
          (case rt_step (Respond k res) s of None \<Rightarrow> (500, s) | Some s' \<Rightarrow> (respond_status k s, s')))"

inductive rt_next :: "runtime \<Rightarrow> runtime \<Rightarrow> bool" where
  rt_next: "rt_step ev s = Some s' \<Longrightarrow> rt_next s s'"

inductive_cases rt_nextE: "rt_next s s'"

section \<open>The invariant\<close>

definition queue_ids :: "runtime \<Rightarrow> string list" where
  "queue_ids s = map iv_id (rt_queue s)"

definition req_ids :: "runtime \<Rightarrow> string set" where
  "req_ids s = req_id ` set (rt_reqs s)"

definition dispatched :: "poll_phase list \<Rightarrow> string list" where
  "dispatched ps = concat (map (\<lambda>p. case p of Dispatched v \<Rightarrow> [iv_id v] | _ \<Rightarrow> []) ps)"

definition answered :: "req_phase \<Rightarrow> bool" where
  "answered p \<longleftrightarrow> (\<exists>c. p = Answered c)"

definition req_ok :: "runtime \<Rightarrow> rt_req \<Rightarrow> bool" where
  "req_ok s r \<longleftrightarrow>
     map_of (rt_accepted s) (req_id r) = rq_chan r \<and>
     (rq_chan r \<noteq> None \<longrightarrow> req_id r \<notin> set (rt_inflight s)) \<and>
     (rq_phase r = Answered 200 \<longrightarrow> rq_chan r \<noteq> None) \<and>
     (rq_phase r = Unregistered \<or> rq_phase r = Answered 504 \<longrightarrow> req_id r \<notin> set (rt_inflight s)) \<and>
     (rq_phase r = Answered 503 \<longrightarrow> rq_chan r = None \<and> req_id r \<notin> set (queue_ids s) \<and> req_id r \<notin> set (rt_inflight s)) \<and>
     (rq_phase r = Answered 504 \<longrightarrow> req_id r \<notin> set (queue_ids s)) \<and>
     (answered (rq_phase r) \<longrightarrow> rq_phase r \<in> {Answered 200, Answered 503, Answered 504})"

definition rt_ok :: "runtime \<Rightarrow> bool" where
  "rt_ok s \<longleftrightarrow>
     distinct (map req_id (rt_reqs s)) \<and> (\<forall>r \<in> set (rt_reqs s). req_ok s r) \<and>
     length (rt_queue s) \<le> rt_max s \<and> distinct (queue_ids s) \<and>
     set (rt_queue s) \<subseteq> rq_inv ` set (rt_reqs s) \<and> set (rt_inflight s) \<subseteq> req_ids s \<and>
     distinct (map fst (rt_accepted s)) \<and> fst ` set (rt_accepted s) \<subseteq> req_ids s \<and>
     distinct (dispatched (rt_polls s)) \<and> set (dispatched (rt_polls s)) \<subseteq> req_ids s \<and>
     set (dispatched (rt_polls s)) \<inter> set (queue_ids s) = {}"

lemma dispatched_simps [simp]:
  "dispatched [] = []" "dispatched (p # ps) = (case p of Dispatched v \<Rightarrow> iv_id v # dispatched ps | _ \<Rightarrow> dispatched ps)"
  "dispatched (ps @ qs) = dispatched ps @ dispatched qs"
  by (simp_all add: dispatched_def split: poll_phase.split)

lemma dispatched_update:
  assumes "i < length ps" "\<And>v. ps ! i \<noteq> Dispatched v" "\<And>v. p \<noteq> Dispatched v"
  shows "dispatched (ps[i := p]) = dispatched ps"
  using assms
proof (induction ps arbitrary: i)
  case (Cons q ps)
  then show ?case by (cases i) (auto split: poll_phase.split)
qed simp

lemma dispatched_add:
  assumes "i < length ps" "\<And>v. ps ! i \<noteq> Dispatched v"
  shows "\<exists>xs ys. dispatched ps = xs @ ys \<and> dispatched (ps[i := Dispatched v]) = xs @ iv_id v # ys"
proof -
  have "ps = take i ps @ ps ! i # drop (Suc i) ps" using assms(1) by (rule id_take_nth_drop)
  moreover have "dispatched (take i ps @ ps ! i # drop (Suc i) ps) = dispatched (take i ps) @ dispatched (drop (Suc i) ps)"
    using assms(2) by (cases "ps ! i") auto
  moreover have "ps[i := Dispatched v] = take i ps @ Dispatched v # drop (Suc i) ps"
    using assms(1) by (rule upd_conv_take_nth_drop)
  ultimately have "dispatched ps = dispatched (take i ps) @ dispatched (drop (Suc i) ps)"
    "dispatched (ps[i := Dispatched v]) = dispatched (take i ps) @ iv_id v # dispatched (drop (Suc i) ps)"
    by simp_all
  then show ?thesis by blast
qed

lemma remove_queued_set: "set (remove_queued k vs) \<subseteq> set vs"
  by (induction vs) auto

lemma remove_queued_length: "length (remove_queued k vs) \<le> length vs"
  by (induction vs) auto

lemma remove_queued_filter:
  "distinct (map iv_id vs) \<Longrightarrow> remove_queued k vs = filter (\<lambda>v. iv_id v \<noteq> k) vs"
proof (induction vs)
  case (Cons v vs)
  have "filter (\<lambda>w. iv_id w \<noteq> iv_id v) vs = vs"
    unfolding filter_id_conv using Cons.prems by (metis distinct.simps(2) image_eqI list.map(2) set_map)
  with Cons show ?case by (cases "iv_id v = k") simp_all
qed simp

lemma remove_queued_distinct:
  "distinct (map iv_id vs) \<Longrightarrow> distinct (map iv_id (remove_queued k vs))"
  by (simp add: remove_queued_filter distinct_map_filter)

lemma remove_queued_gone: "distinct (map iv_id vs) \<Longrightarrow> k \<notin> iv_id ` set (remove_queued k vs)"
  by (auto simp: remove_queued_filter)

lemma forget_set [simp]: "set (forget k ks) = set ks - {k}"
  by (auto simp: forget_def)

text \<open>A request keeps its id and invocation; what changes with it is its phase.\<close>

lemma set_req_ids [simp]: "i < length rs \<Longrightarrow> map req_id (rs[i := (rs ! i)\<lparr>rq_phase := p\<rparr>]) = map req_id rs"
  by (simp add: map_update req_id_def list_update_same_conv)

lemma set_req_invs [simp]: "i < length rs \<Longrightarrow> map rq_inv (rs[i := (rs ! i)\<lparr>rq_phase := p\<rparr>]) = map rq_inv rs"
  by (simp add: map_update list_update_same_conv)

lemma put_result_ids [simp]: "map req_id (put_result k res rs) = map req_id rs"
  "map rq_inv (put_result k res rs) = map rq_inv rs"
  by (simp_all add: put_result_def req_id_def)

lemma put_result_set: "r \<in> set (put_result k res rs) \<longleftrightarrow>
  (\<exists>q \<in> set rs. r = (if req_id q = k then q\<lparr>rq_chan := Some res\<rparr> else q))"
  unfolding put_result_def set_map image_iff by (rule refl)

lemma req_id_update [simp]: "req_id (r\<lparr>rq_phase := p\<rparr>) = req_id r" "req_id (r\<lparr>rq_chan := c\<rparr>) = req_id r"
  by (simp_all add: req_id_def)

lemma rt_okD:
  assumes "rt_ok s"
  shows "distinct (map req_id (rt_reqs s))" "\<And>r. r \<in> set (rt_reqs s) \<Longrightarrow> req_ok s r"
    "length (rt_queue s) \<le> rt_max s" "distinct (queue_ids s)"
    "set (rt_queue s) \<subseteq> rq_inv ` set (rt_reqs s)" "set (rt_inflight s) \<subseteq> req_ids s"
    "distinct (map fst (rt_accepted s))" "fst ` set (rt_accepted s) \<subseteq> req_ids s"
    "distinct (dispatched (rt_polls s))" "set (dispatched (rt_polls s)) \<subseteq> req_ids s"
    "set (dispatched (rt_polls s)) \<inter> set (queue_ids s) = {}"
  using assms by (auto simp: rt_ok_def)

lemma req_ok_mono:
  assumes "req_ok s r" "rt_accepted t = rt_accepted s"
    "set (rt_inflight t) \<subseteq> set (rt_inflight s)" "set (rt_queue t) \<subseteq> set (rt_queue s)"
  shows "req_ok t r"
proof -
  have q: "set (queue_ids t) \<subseteq> set (queue_ids s)" using assms(4) by (auto simp: queue_ids_def)
  have "req_id r \<notin> set (rt_inflight s) \<Longrightarrow> req_id r \<notin> set (rt_inflight t)"
    "req_id r \<notin> set (queue_ids s) \<Longrightarrow> req_id r \<notin> set (queue_ids t)" using assms(3) q by blast+
  then show ?thesis using assms(1,2) unfolding req_ok_def by auto
qed

text \<open>Steps that only take ids out of \<open>inflight\<close> and out of the queue.\<close>

lemma rt_ok_shrink:
  assumes ok: "rt_ok s"
    and same: "rt_reqs t = rt_reqs s" "rt_max t = rt_max s" "rt_accepted t = rt_accepted s"
    and sub: "set (rt_inflight t) \<subseteq> set (rt_inflight s)" "set (rt_queue t) \<subseteq> set (rt_queue s)"
    and q: "length (rt_queue t) \<le> length (rt_queue s)" "distinct (queue_ids t)"
    and d: "distinct (dispatched (rt_polls t))" "set (dispatched (rt_polls t)) \<subseteq> req_ids s"
      "set (dispatched (rt_polls t)) \<inter> set (queue_ids t) = {}"
  shows "rt_ok t"
proof -
  note o = rt_okD [OF ok]
  have "\<forall>r \<in> set (rt_reqs t). req_ok t r"
    using o(2) req_ok_mono [OF _ _ sub] same by simp
  moreover have "set (rt_queue t) \<subseteq> rq_inv ` set (rt_reqs t)" using sub(2) o(5) same(1) by auto
  moreover have "req_ids t = req_ids s" by (simp add: req_ids_def same)
  moreover have "set (rt_inflight t) \<subseteq> req_ids s" using sub(1) o(6) by blast
  moreover have "length (rt_queue t) \<le> rt_max t" using q(1) o(3) same by simp
  ultimately show ?thesis unfolding rt_ok_def using o(1,7,8) q d same by simp
qed

lemma rt_ok_set_req:
  assumes ok: "rt_ok s" and i: "i < length (rt_reqs s)"
    and r: "req_ok s ((rt_reqs s ! i)\<lparr>rq_phase := p\<rparr>)"
  shows "rt_ok (set_req i p s)"
proof -
  note o = rt_okD [OF ok]
  let ?rs = "(rt_reqs s)[i := (rt_reqs s ! i)\<lparr>rq_phase := p\<rparr>]"
  have ids: "req_id ` set ?rs = req_id ` set (rt_reqs s)" "rq_inv ` set ?rs = rq_inv ` set (rt_reqs s)"
    using arg_cong [OF set_req_ids [OF i, of p], of set] arg_cong [OF set_req_invs [OF i, of p], of set]
    by simp_all
  have "\<forall>q \<in> set ?rs. req_ok s q"
    using o(2) r set_update_subset_insert [of "rt_reqs s" i] by blast
  then have "\<forall>q \<in> set ?rs. req_ok (set_req i p s) q"
    using req_ok_mono [of s _ "set_req i p s"] by (simp add: set_req_def)
  then show ?thesis
    using o i ids unfolding rt_ok_def set_req_def by (simp add: req_ids_def queue_ids_def)
qed

lemma rt_ok_polls:
  assumes ok: "rt_ok s" and i: "i < length (rt_polls s)"
    and p: "\<And>v. rt_polls s ! i \<noteq> Dispatched v" "\<And>v. p \<noteq> Dispatched v"
    and sub: "set ks \<subseteq> set (rt_inflight s)" and vs: "rt_queue s = us @ vs"
  shows "rt_ok (set_poll i p (s\<lparr>rt_inflight := ks, rt_queue := vs, rt_notify := b\<rparr>))"
proof -
  note o = rt_okD [OF ok]
  show ?thesis
    by (rule rt_ok_shrink [OF ok])
      (use o sub vs dispatched_update [OF i p] in \<open>auto simp: set_poll_def queue_ids_def\<close>)
qed

lemma rt_ok_init: "rt_ok (rt_init m)"
  by (simp add: rt_ok_def rt_init_def queue_ids_def)

lemma rt_ok_enqueue:
  assumes ok: "rt_ok s" and fresh: "iv_id v \<notin> req_id ` set (rt_reqs s)"
  shows "rt_ok (enqueue v s)"
proof -
  note o = rt_okD [OF ok]
  have new: "iv_id v \<notin> set (queue_ids s)" "iv_id v \<notin> set (rt_inflight s)" "iv_id v \<notin> fst ` set (rt_accepted s)"
    "iv_id v \<notin> set (dispatched (rt_polls s))"
    using o(5,6,8,10) fresh by (auto simp: queue_ids_def req_ids_def req_id_def)
  have old: "req_ok (enqueue v s) r" if r: "r \<in> set (rt_reqs s)" for r
  proof -
    have "req_id r \<noteq> iv_id v" using r fresh by (metis image_eqI)
    then show ?thesis using o(2) [OF r] unfolding req_ok_def enqueue_def queue_ids_def by simp
  qed
  show ?thesis
  proof (cases "length (rt_queue s) \<ge> rt_max s")
    case True
    then have e: "enqueue v s = s\<lparr>rt_reqs := rt_reqs s @ [\<lparr>rq_inv = v, rq_phase = Answered 503, rq_chan = None\<rparr>]\<rparr>"
      by (simp add: enqueue_def)
    have "req_ok (enqueue v s) \<lparr>rq_inv = v, rq_phase = Answered 503, rq_chan = None\<rparr>"
      using new by (simp add: req_ok_def e req_id_def queue_ids_def answered_def map_of_eq_None_iff)
    then show ?thesis
      using old o(1,3-11) fresh unfolding rt_ok_def e by (auto simp: req_ids_def queue_ids_def req_id_def)
  next
    case False
    then have e: "enqueue v s = s\<lparr>rt_inflight := iv_id v # rt_inflight s, rt_queue := rt_queue s @ [v],
             rt_reqs := rt_reqs s @ [\<lparr>rq_inv = v, rq_phase = Queued, rq_chan = None\<rparr>]\<rparr>"
      by (simp add: enqueue_def)
    have "req_ok (enqueue v s) \<lparr>rq_inv = v, rq_phase = Queued, rq_chan = None\<rparr>"
      using new by (simp add: req_ok_def e req_id_def answered_def map_of_eq_None_iff)
    then show ?thesis
      using old o(1,3-11) fresh new False unfolding rt_ok_def e by (auto simp: req_ids_def queue_ids_def req_id_def)
  qed
qed

lemma rt_ok_respond:
  assumes ok: "rt_ok s" and k: "k \<in> set (rt_inflight s)"
  shows "rt_ok (s\<lparr>rt_inflight := forget k (rt_inflight s), rt_reqs := put_result k res (rt_reqs s),
                  rt_accepted := (k, res) # rt_accepted s\<rparr>)" (is "rt_ok ?t")
proof -
  note o = rt_okD [OF ok]
  obtain r0 where r0: "r0 \<in> set (rt_reqs s)" "req_id r0 = k" using o(6) k by (auto simp: req_ids_def)
  have k': "k \<notin> fst ` set (rt_accepted s)"
    using o(2) [OF r0(1)] r0(2) k unfolding req_ok_def by (auto simp: map_of_eq_None_iff [symmetric])
  have ids: "req_id ` set (put_result k res (rt_reqs s)) = req_id ` set (rt_reqs s)"
    "rq_inv ` set (put_result k res (rt_reqs s)) = rq_inv ` set (rt_reqs s)"
    by (metis put_result_ids(1) set_map, metis put_result_ids(2) set_map)
  have "req_ok ?t q" if q: "q \<in> set (put_result k res (rt_reqs s))" for q
  proof -
    obtain r where r: "r \<in> set (rt_reqs s)" "q = (if req_id r = k then r\<lparr>rq_chan := Some res\<rparr> else r)"
      using q unfolding put_result_set by blast
    show ?thesis
    proof (cases "req_id r = k")
      case True
      then show ?thesis using r(2) o(2) [OF r(1)] k unfolding req_ok_def queue_ids_def by auto
    next
      case False
      then show ?thesis using r(2) o(2) [OF r(1)] unfolding req_ok_def queue_ids_def by auto
    qed
  qed
  then show ?thesis
    using o(1,3-11) ids k' k unfolding rt_ok_def
    by (auto simp: req_ids_def queue_ids_def)
qed

lemma rt_ok_dispatch:
  assumes ok: "rt_ok s" and i: "poll_at i Polling s" and q: "rt_queue s = v # vs"
  shows "rt_ok (set_poll i (Dispatched v) (s\<lparr>rt_queue := vs\<rparr>))"
proof -
  note o = rt_okD [OF ok]
  have i': "i < length (rt_polls s)" "\<And>w. rt_polls s ! i \<noteq> Dispatched w" using i by (auto simp: poll_at_def)
  obtain xs ys where d: "dispatched (rt_polls s) = xs @ ys"
    "dispatched ((rt_polls s)[i := Dispatched v]) = xs @ iv_id v # ys"
    using dispatched_add [OF i', of v] by blast
  have v: "iv_id v \<in> req_ids s" "iv_id v \<notin> set (xs @ ys)"
    using o(5,11) q d(1) by (auto simp: req_ids_def req_id_def queue_ids_def)
  show ?thesis
    by (rule rt_ok_shrink [OF ok]) (use o(4,9,10,11) v d q in \<open>auto simp: set_poll_def queue_ids_def\<close>)
qed

lemma rt_ok_step:
  assumes ok: "rt_ok s" and st: "rt_step ev s = Some s'"
  shows "rt_ok s'"
proof -
  note o = rt_okD [OF ok]
  have at: "rt_reqs s ! i \<in> set (rt_reqs s)" if "req_at i p s" for i p using that by (simp add: req_at_def)
  show ?thesis
  proof (cases ev)
    case (Notify i)
    then have i: "req_at i Queued s" "s' = set_req i Waiting (s\<lparr>rt_notify := True\<rparr>)" using st by (auto split: if_splits)
    have "rt_ok (s\<lparr>rt_notify := True\<rparr>)" by (rule rt_ok_shrink [OF ok]) (use o in \<open>auto simp: queue_ids_def\<close>)
    then show ?thesis unfolding i(2)
      by (rule rt_ok_set_req) (use i(1) o(2) [OF at [OF i(1)]] in \<open>auto simp: req_at_def req_ok_def queue_ids_def answered_def\<close>)
  next
    case (TakeResult i)
    then have i: "req_at i Waiting s" "rq_chan (rt_reqs s ! i) \<noteq> None" "s' = set_req i (Answered 200) s"
      using st by (auto split: if_splits)
    show ?thesis unfolding i(3)
      by (rule rt_ok_set_req [OF ok]) (use i(1,2) o(2) [OF at [OF i(1)]] in \<open>auto simp: req_at_def req_ok_def answered_def\<close>)
  next
    case (TimerFires i)
    then have i: "req_at i Waiting s" "s' = set_req i TimerFired s" using st by (auto split: if_splits)
    show ?thesis unfolding i(2)
      by (rule rt_ok_set_req [OF ok]) (use i(1) o(2) [OF at [OF i(1)]] in \<open>auto simp: req_at_def req_ok_def answered_def\<close>)
  next
    case (Unregister i)
    then have i: "req_at i TimerFired s"
      "s' = set_req i Unregistered (s\<lparr>rt_inflight := forget (req_id (rt_reqs s ! i)) (rt_inflight s)\<rparr>)"
      using st by (auto split: if_splits)
    have "rt_ok (s\<lparr>rt_inflight := forget (req_id (rt_reqs s ! i)) (rt_inflight s)\<rparr>)"
      by (rule rt_ok_shrink [OF ok]) (use o in \<open>auto simp: queue_ids_def\<close>)
    then show ?thesis unfolding i(2)
      by (rule rt_ok_set_req) (use i(1) o(2) [OF at [OF i(1)]] in \<open>auto simp: req_at_def req_ok_def queue_ids_def answered_def\<close>)
  next
    case (RemoveQueued i)
    let ?k = "req_id (rt_reqs s ! i)"
    have i: "req_at i Unregistered s"
      "s' = set_req i (Answered 504) (s\<lparr>rt_queue := remove_queued ?k (rt_queue s)\<rparr>)"
      using RemoveQueued st by (auto split: if_splits)
    have dq: "distinct (map iv_id (rt_queue s))" using o(4) by (simp add: queue_ids_def)
    have "rt_ok (s\<lparr>rt_queue := remove_queued ?k (rt_queue s)\<rparr>)"
      by (rule rt_ok_shrink [OF ok])
        (use o(9,10,11) remove_queued_set [of ?k "rt_queue s"] remove_queued_length remove_queued_distinct [OF dq]
          in \<open>auto simp: queue_ids_def\<close>)
    then show ?thesis unfolding i(2)
      by (rule rt_ok_set_req)
        (use i(1) o(2) [OF at [OF i(1)]] remove_queued_gone [OF dq, of ?k]
          in \<open>auto simp: req_at_def req_ok_def queue_ids_def answered_def\<close>)
  next
    case PollArrives
    then have s': "s' = s\<lparr>rt_polls := rt_polls s @ [Polling]\<rparr>" using st by simp
    show ?thesis by (rule rt_ok_shrink [OF ok]) (use o in \<open>auto simp: s' queue_ids_def\<close>)
  next
    case (PollTake i now)
    then have i: "poll_at i Polling s" "s' = poll_take i now s" using st by (auto split: if_splits)
    have np: "\<And>v. rt_polls s ! i \<noteq> Dispatched v" "i < length (rt_polls s)" using i(1) by (auto simp: poll_at_def)
    show ?thesis
    proof (cases "rt_queue s")
      case Nil
      have "rt_ok (set_poll i PollWaiting (s\<lparr>rt_inflight := rt_inflight s, rt_queue := rt_queue s, rt_notify := rt_notify s\<rparr>))"
        by (rule rt_ok_polls [OF ok np(2,1), of _ _ "[]"]) simp_all
      moreover have "s\<lparr>rt_inflight := rt_inflight s, rt_queue := rt_queue s, rt_notify := rt_notify s\<rparr> = s" by simp
      ultimately show ?thesis using i(2) Nil by (simp only: poll_take_def list.case)
    next
      case (Cons v vs)
      have "rt_ok (set_poll i (DroppingExpired (iv_id v)) (s\<lparr>rt_inflight := rt_inflight s, rt_queue := vs, rt_notify := rt_notify s\<rparr>))"
        by (rule rt_ok_polls [OF ok np(2,1), of _ _ "[v]"]) (simp_all add: Cons)
      then show ?thesis using i(2) Cons rt_ok_dispatch [OF ok i(1) Cons] by (simp add: poll_take_def)
    qed
  next
    case (PollDrop i)
    then obtain k where k: "i < length (rt_polls s)" "rt_polls s ! i = DroppingExpired k"
      "s' = set_poll i Polling (s\<lparr>rt_inflight := forget k (rt_inflight s)\<rparr>)"
      using st by (auto split: if_splits poll_phase.splits)
    have "rt_ok (set_poll i Polling (s\<lparr>rt_inflight := forget k (rt_inflight s), rt_queue := rt_queue s, rt_notify := rt_notify s\<rparr>))"
      by (rule rt_ok_polls [OF ok k(1), of _ _ "[]"]) (auto simp: k(2))
    then show ?thesis by (simp add: k(3))
  next
    case (PollWake i)
    then have i: "poll_at i PollWaiting s" "s' = set_poll i Polling (s\<lparr>rt_notify := False\<rparr>)" using st by (auto split: if_splits)
    have "rt_ok (set_poll i Polling (s\<lparr>rt_inflight := rt_inflight s, rt_queue := rt_queue s, rt_notify := False\<rparr>))"
      by (rule rt_ok_polls [OF ok, of _ _ _ "[]"]) (use i(1) in \<open>auto simp: poll_at_def\<close>)
    then show ?thesis by (simp add: i(2))
  next
    case (PollTimeout i)
    then have i: "poll_at i PollWaiting s" "s' = set_poll i NoContent s" using st by (auto split: if_splits)
    have "rt_ok (set_poll i NoContent (s\<lparr>rt_inflight := rt_inflight s, rt_queue := rt_queue s, rt_notify := rt_notify s\<rparr>))"
      by (rule rt_ok_polls [OF ok, of _ _ _ "[]"]) (use i(1) in \<open>auto simp: poll_at_def\<close>)
    then show ?thesis by (simp add: i(2))
  next
    case (PollCtxDone i)
    then have i: "poll_at i PollWaiting s" "s' = set_poll i PollerGone s" using st by (auto split: if_splits)
    have "rt_ok (set_poll i PollerGone (s\<lparr>rt_inflight := rt_inflight s, rt_queue := rt_queue s, rt_notify := rt_notify s\<rparr>))"
      by (rule rt_ok_polls [OF ok, of _ _ _ "[]"]) (use i(1) in \<open>auto simp: poll_at_def\<close>)
    then show ?thesis by (simp add: i(2))
  next
    case (Enqueue v)
    then have "iv_id v \<notin> req_id ` set (rt_reqs s)" "s' = enqueue v s" using st by (auto split: if_splits)
    then show ?thesis using rt_ok_enqueue [OF ok] by simp
  next
    case (Respond k res)
    then show ?thesis using st ok rt_ok_respond [OF ok, of k res] by (auto split: if_splits)
  qed
qed

text \<open>A request that was refused with 503 is never handed to a poller.\<close>

definition refused_ok :: "runtime \<Rightarrow> bool" where
  "refused_ok s \<longleftrightarrow> (\<forall>r \<in> set (rt_reqs s). rq_phase r = Answered 503 \<longrightarrow> req_id r \<notin> set (dispatched (rt_polls s)))"

lemma refused_ok_set_req:
  assumes "refused_ok s" "i < length (rt_reqs s)" "p \<noteq> Answered 503"
  shows "refused_ok (set_req i p s)"
  using assms set_update_subset_insert [of "rt_reqs s" i "(rt_reqs s ! i)\<lparr>rq_phase := p\<rparr>"]
  by (auto simp: refused_ok_def set_req_def)

lemma refused_ok_polls:
  assumes "refused_ok s" "rt_reqs t = rt_reqs s" "dispatched (rt_polls t) = dispatched (rt_polls s)"
  shows "refused_ok t"
  using assms by (simp add: refused_ok_def)

lemma refused_ok_take:
  assumes ok: "rt_ok s" and r: "refused_ok s" and i: "poll_at i Polling s"
  shows "refused_ok (poll_take i now s)"
proof (cases "rt_queue s")
  case Nil
  then show ?thesis
    using i by (intro refused_ok_polls [OF r]) (auto simp: poll_take_def set_poll_def poll_at_def dispatched_update)
next
  case (Cons v vs)
  have i': "i < length (rt_polls s)" "\<And>w. rt_polls s ! i \<noteq> Dispatched w" using i by (auto simp: poll_at_def)
  show ?thesis
  proof (cases "now > iv_deadline v")
    case True
    then show ?thesis
      using i' Cons by (intro refused_ok_polls [OF r]) (auto simp: poll_take_def set_poll_def dispatched_update)
  next
    case False
    obtain xs ys where d: "dispatched (rt_polls s) = xs @ ys"
      "dispatched ((rt_polls s)[i := Dispatched v]) = xs @ iv_id v # ys"
      using dispatched_add [OF i', of v] by blast
    have "req_id q \<noteq> iv_id v" if "q \<in> set (rt_reqs s)" "rq_phase q = Answered 503" for q
      using rt_okD(2) [OF ok that(1)] that(2) Cons by (auto simp: req_ok_def queue_ids_def)
    then show ?thesis
      using r d Cons False by (auto simp: refused_ok_def poll_take_def set_poll_def)
  qed
qed

lemma refused_ok_step:
  assumes ok: "rt_ok s" and r: "refused_ok s" and st: "rt_step ev s = Some s'"
  shows "refused_ok s'"
proof (cases ev)
  case (Enqueue v)
  then have "iv_id v \<notin> req_id ` set (rt_reqs s)" "s' = enqueue v s" using st by (auto split: if_splits)
  moreover from this have "iv_id v \<notin> set (dispatched (rt_polls s))"
    using rt_okD(10) [OF ok] by (auto simp: req_ids_def)
  ultimately show ?thesis using r by (auto simp: refused_ok_def enqueue_def req_id_def)
next
  case (Notify i)
  then show ?thesis
    using st r by (auto simp: req_at_def refused_ok_def [of "s\<lparr>rt_notify := True\<rparr>"] refused_ok_def [of s]
        intro!: refused_ok_set_req split: if_splits)
next
  case (PollTake i now)
  then show ?thesis using st refused_ok_take [OF ok r] by (auto split: if_splits)
next
  case (PollDrop i)
  then obtain k where "i < length (rt_polls s)" "rt_polls s ! i = DroppingExpired k"
    "s' = set_poll i Polling (s\<lparr>rt_inflight := forget k (rt_inflight s)\<rparr>)"
    using st by (auto split: if_splits poll_phase.splits)
  then show ?thesis by (intro refused_ok_polls [OF r]) (auto simp: set_poll_def dispatched_update)
next
  case (Respond k res)
  then show ?thesis using st r by (auto simp: refused_ok_def put_result_set split: if_splits)
next
  case (Unregister i)
  then show ?thesis
    using st r by (auto simp: req_at_def refused_ok_def [of "s\<lparr>rt_inflight := x\<rparr>" for x] refused_ok_def [of s]
        intro!: refused_ok_set_req split: if_splits)
next
  case (RemoveQueued i)
  then show ?thesis
    using st r by (auto simp: req_at_def refused_ok_def [of "s\<lparr>rt_queue := x\<rparr>" for x] refused_ok_def [of s]
        intro!: refused_ok_set_req split: if_splits)
qed (use st r in \<open>auto simp: req_at_def poll_at_def set_poll_def dispatched_update
       intro: refused_ok_set_req refused_ok_polls [OF r] split: if_splits\<close>)

interpretation rt: transition_system "\<lambda>s. s = rt_init m" rt_next
    "\<lambda>s. rt_max s = m \<and> rt_ok s \<and> refused_ok s" for m
proof unfold_locales
  fix s t
  assume s: "rt_max s = m \<and> rt_ok s \<and> refused_ok s" and st: "rt_next s t"
  then obtain ev where ev: "rt_step ev s = Some t" by (auto elim: rt_nextE)
  have "rt_max t = rt_max s"
    using ev by (cases ev) (auto simp: enqueue_def set_req_def set_poll_def poll_take_def
        split: if_splits list.splits poll_phase.splits)
  then show "rt_max t = m \<and> rt_ok t \<and> refused_ok t" using s ev rt_ok_step refused_ok_step by metis
qed (use rt_ok_init [of m] in \<open>auto simp: refused_ok_def rt_init_def\<close>)

section \<open>Runs\<close>

fun rt_run :: "rt_event list \<Rightarrow> runtime \<Rightarrow> runtime option" where
  "rt_run [] s = Some s"
| "rt_run (ev # evs) s = (case rt_step ev s of None \<Rightarrow> None | Some t \<Rightarrow> rt_run evs t)"

lemma rt_run_steps: "rt_run evs s = Some t \<Longrightarrow> rt_next\<^sup>*\<^sup>* s t"
proof (induction evs arbitrary: s)
  case (Cons ev evs)
  then obtain u where "rt_step ev s = Some u" "rt_run evs u = Some t" by (auto split: option.splits)
  then show ?case using Cons.IH [of u] rt_next [of ev s u] by (meson converse_rtranclp_into_rtranclp)
qed simp

text \<open>A step leaves the invocations and answers of the requests it does not concern.\<close>

definition same_answer :: "rt_req \<Rightarrow> rt_req \<Rightarrow> bool" where
  "same_answer r q \<longleftrightarrow> rq_inv q = rq_inv r \<and> (answered (rq_phase r) \<longrightarrow> rq_phase q = rq_phase r) \<and>
     (rq_chan r \<noteq> None \<longrightarrow> rq_chan q = rq_chan r)"

definition keeps_reqs :: "rt_req list \<Rightarrow> rt_req list \<Rightarrow> bool" where
  "keeps_reqs rs qs \<longleftrightarrow> length rs \<le> length qs \<and> (\<forall>i < length rs. same_answer (rs ! i) (qs ! i))"

lemma keeps_reqs_refl [simp]: "keeps_reqs rs rs"
  by (simp add: keeps_reqs_def same_answer_def)

lemma keeps_reqs_trans: "keeps_reqs a b \<Longrightarrow> keeps_reqs b c \<Longrightarrow> keeps_reqs a c"
  unfolding keeps_reqs_def same_answer_def by (metis order_trans order_less_le_trans)

lemma keeps_reqs_append [simp]: "keeps_reqs rs (rs @ qs)"
  by (simp add: keeps_reqs_def same_answer_def nth_append)

lemma keeps_reqs_set_req:
  "req_at i q s \<Longrightarrow> \<not> answered q \<Longrightarrow> keeps_reqs (rt_reqs s) (rt_reqs (set_req i p s))"
  by (auto simp: keeps_reqs_def same_answer_def set_req_def req_at_def nth_list_update)

lemma keeps_reqs_put:
  assumes "rt_ok s" "k \<in> set (rt_inflight s)"
  shows "keeps_reqs (rt_reqs s) (put_result k res (rt_reqs s))"
proof -
  have "rq_chan (rt_reqs s ! i) = None" if "i < length (rt_reqs s)" "req_id (rt_reqs s ! i) = k" for i
    using rt_okD(2) [OF assms(1), of "rt_reqs s ! i"] that assms(2) by (auto simp: req_ok_def)
  then show ?thesis by (auto simp: keeps_reqs_def same_answer_def put_result_def)
qed

lemma rt_step_keeps:
  assumes ok: "rt_ok s" and st: "rt_step ev s = Some t"
  shows "keeps_reqs (rt_reqs s) (rt_reqs t)"
  using st keeps_reqs_put [OF ok] keeps_reqs_set_req [of _ _ s]
  by (cases ev) (auto simp: enqueue_def poll_take_def set_poll_def set_req_def answered_def
      split: if_splits list.splits poll_phase.splits)

interpretation rt_answers: monotone_system "\<lambda>s. s = rt_init m" rt_next
    "\<lambda>s. rt_max s = m \<and> rt_ok s \<and> refused_ok s" "\<lambda>s. length (rt_reqs s)" for m
  by unfold_locales (auto elim!: rt_nextE dest: rt_step_keeps simp: keeps_reqs_def)

lemma rt_steps_keep:
  assumes "rt_next\<^sup>*\<^sup>* s t" "rt_ok s"
  shows "keeps_reqs (rt_reqs s) (rt_reqs t) \<and> rt_ok t"
  using assms
proof (induction rule: rtranclp_induct)
  case (step u v)
  then obtain ev where "rt_step ev u = Some v" by (auto elim: rt_nextE)
  then show ?case using step rt_step_keeps [of u ev v] rt_ok_step [of u ev v] keeps_reqs_trans by blast
qed simp

text \<open>The steps that the goroutine of request \<open>i\<close> takes itself.\<close>

fun own_step :: "nat \<Rightarrow> rt_event \<Rightarrow> bool" where
  "own_step i (Notify j) = (j = i)"
| "own_step i (TakeResult j) = (j = i)"
| "own_step i (TimerFires j) = (j = i)"
| "own_step i (Unregister j) = (j = i)"
| "own_step i (RemoveQueued j) = (j = i)"
| "own_step i _ = False"

fun phase_rank :: "req_phase \<Rightarrow> nat" where
  "phase_rank Queued = 4"
| "phase_rank Waiting = 3"
| "phase_rank TimerFired = 2"
| "phase_rank Unregistered = 1"
| "phase_rank (Answered c) = 0"

definition rank_at :: "nat \<Rightarrow> runtime \<Rightarrow> nat" where
  "rank_at i s = phase_rank (rq_phase (rt_reqs s ! i))"

lemma rank_at_set_req:
  "j < length (rt_reqs s) \<Longrightarrow> rank_at i (set_req j p s) = (if i = j then phase_rank p else rank_at i s)"
  by (auto simp: rank_at_def set_req_def)

lemma rank_at_same [simp]:
  "rank_at i (s\<lparr>rt_notify := b\<rparr>) = rank_at i s" "rank_at i (s\<lparr>rt_inflight := ks\<rparr>) = rank_at i s"
  "rank_at i (s\<lparr>rt_queue := vs\<rparr>) = rank_at i s" "rank_at i (s\<lparr>rt_polls := ps\<rparr>) = rank_at i s"
  by (simp_all add: rank_at_def)

lemma own_step_enabled:
  assumes "i < length (rt_reqs s)" "\<not> answered (rq_phase (rt_reqs s ! i))"
  shows "\<exists>ev. own_step i ev \<and> rt_step ev s \<noteq> None"
proof (cases "rq_phase (rt_reqs s ! i)")
  case Queued
  then show ?thesis using assms(1) by (intro exI [of _ "Notify i"]) (simp add: req_at_def)
next
  case Waiting
  then show ?thesis using assms(1) by (intro exI [of _ "TimerFires i"]) (simp add: req_at_def)
next
  case TimerFired
  then show ?thesis using assms(1) by (intro exI [of _ "Unregister i"]) (simp add: req_at_def)
next
  case Unregistered
  then show ?thesis using assms(1) by (intro exI [of _ "RemoveQueued i"]) (simp add: req_at_def)
next
  case (Answered c)
  then show ?thesis using assms(2) by (simp add: answered_def)
qed

lemma rank_at_step:
  assumes st: "rt_step ev s = Some t" and i: "i < length (rt_reqs s)"
  shows "rank_at i t \<le> rank_at i s \<and> (own_step i ev \<longrightarrow> rank_at i t < rank_at i s) \<and> i < length (rt_reqs t)"
proof (cases ev)
  case (Enqueue v)
  then show ?thesis using st i by (auto simp: rank_at_def enqueue_def nth_append split: if_splits)
next
  case (Respond k res)
  then show ?thesis using st i by (auto simp: rank_at_def put_result_def split: if_splits)
next
  case (PollTake j now)
  then show ?thesis using st i by (auto simp: rank_at_def poll_take_def set_poll_def split: if_splits list.splits)
next
  case (PollDrop j)
  then show ?thesis using st i by (auto simp: rank_at_def set_poll_def split: if_splits poll_phase.splits)
qed (use st i in \<open>auto simp: req_at_def rank_at_set_req set_poll_def split: if_splits\<close>,
     (simp add: rank_at_def set_req_def)+)

lemma rank_at_run:
  "rt_run evs s = Some t \<Longrightarrow> i < length (rt_reqs s) \<Longrightarrow>
     i < length (rt_reqs t) \<and> rank_at i t + length (filter (own_step i) evs) \<le> rank_at i s"
proof (induction evs arbitrary: s)
  case (Cons ev evs)
  then obtain u where u: "rt_step ev s = Some u" "rt_run evs u = Some t" by (auto split: option.splits)
  then show ?case using rank_at_step [OF u(1) Cons.prems(2)] Cons.IH [OF u(2)] by (cases "own_step i ev") auto
qed simp

lemma rank_at_answered: "rank_at i s = 0 \<longleftrightarrow> answered (rq_phase (rt_reqs s ! i))"
  by (cases "rq_phase (rt_reqs s ! i)") (simp_all add: rank_at_def answered_def)

text \<open>One poller at a time: the bootstraps poll again only after the last poll has returned.\<close>

definition active :: "poll_phase \<Rightarrow> bool" where
  "active p \<longleftrightarrow> (case p of Polling \<Rightarrow> True | PollWaiting \<Rightarrow> True | DroppingExpired k \<Rightarrow> True | _ \<Rightarrow> False)"

inductive rt_next1 :: "runtime \<Rightarrow> runtime \<Rightarrow> bool" where
  rt_next1: "rt_step ev s = Some s' \<Longrightarrow> (ev = PollArrives \<longrightarrow> (\<forall>p \<in> set (rt_polls s). \<not> active p)) \<Longrightarrow> rt_next1 s s'"

inductive_cases rt_next1E: "rt_next1 s s'"

definition one_active :: "runtime \<Rightarrow> bool" where
  "one_active s \<longleftrightarrow> (\<forall>i j. i < length (rt_polls s) \<longrightarrow> j < length (rt_polls s) \<longrightarrow>
     active (rt_polls s ! i) \<longrightarrow> active (rt_polls s ! j) \<longrightarrow> i = j)"

definition wake_pending :: "runtime \<Rightarrow> bool" where
  "wake_pending s \<longleftrightarrow> rt_notify s \<or> (\<exists>r \<in> set (rt_reqs s). rq_phase r = Queued)"

definition no_lost_wakeup :: "runtime \<Rightarrow> bool" where
  "no_lost_wakeup s \<longleftrightarrow> (PollWaiting \<in> set (rt_polls s) \<and> rt_queue s \<noteq> [] \<longrightarrow> wake_pending s)"

lemma one_active_set_poll:
  assumes "one_active s" "i < length (rt_polls s)" "active (rt_polls s ! i)"
  shows "one_active (set_poll i p s)"
  using assms unfolding one_active_def set_poll_def by (auto simp: nth_list_update split: if_splits)

lemma waiting_is_only_one:
  assumes "one_active s" "i < length (rt_polls s)" "active (rt_polls s ! i)" "p \<noteq> PollWaiting"
  shows "PollWaiting \<notin> set ((rt_polls s)[i := p])"
proof
  assume "PollWaiting \<in> set ((rt_polls s)[i := p])"
  then obtain j where j: "j < length (rt_polls s)" "(rt_polls s)[i := p] ! j = PollWaiting"
    by (auto simp: in_set_conv_nth)
  then have "j \<noteq> i" "rt_polls s ! j = PollWaiting" using assms(2,4) by (auto simp: nth_list_update split: if_splits)
  then show False using assms(1-3) j(1) unfolding one_active_def by (auto simp: active_def)
qed

lemma wake_pending_set_req:
  assumes "wake_pending s" "req_at i q s" "q \<noteq> Queued"
  shows "wake_pending (set_req i p s)"
proof -
  have "\<exists>r \<in> set ((rt_reqs s)[i := r']). rq_phase r = Queued"
    if queued: "\<exists>r \<in> set (rt_reqs s). rq_phase r = Queued" for r'
  proof -
    obtain j where j: "j < length (rt_reqs s)" "rq_phase (rt_reqs s ! j) = Queued"
      using queued by (auto simp: in_set_conv_nth)
    then have "(rt_reqs s)[i := r'] ! j = rt_reqs s ! j"
      using assms(2,3) by (auto simp: req_at_def nth_list_update)
    then show ?thesis using j nth_mem [of j "(rt_reqs s)[i := r']"] by auto
  qed
  then show ?thesis using assms(1) by (auto simp: wake_pending_def set_req_def)
qed

definition poller_ok :: "runtime \<Rightarrow> bool" where
  "poller_ok s \<longleftrightarrow> one_active s \<and> no_lost_wakeup s"

lemma poller_ok_poll:
  assumes ok: "poller_ok s" and i: "i < length (rt_polls s)" "active (rt_polls s ! i)"
    and p: "p = PollWaiting \<Longrightarrow> rt_queue t = []" and t: "rt_polls t = rt_polls s"
  shows "poller_ok (set_poll i p t)"
proof -
  have one: "one_active s" using ok by (simp add: poller_ok_def)
  then have "one_active t" by (simp add: one_active_def t)
  then have "one_active (set_poll i p t)" using i t by (intro one_active_set_poll) simp_all
  moreover have "no_lost_wakeup (set_poll i p t)"
    using waiting_is_only_one [OF one i, of p] p by (auto simp: no_lost_wakeup_def set_poll_def t)
  ultimately show ?thesis by (simp add: poller_ok_def)
qed

lemma poller_ok_req:
  assumes ok: "poller_ok s" and i: "req_at i q s" and q: "q = Queued \<Longrightarrow> rt_notify t"
    and t: "rt_polls t = rt_polls s" "rt_reqs t = rt_reqs s" "rt_notify s \<Longrightarrow> rt_notify t"
      "rt_queue s = [] \<Longrightarrow> rt_queue t = []"
  shows "poller_ok (set_req i p t)"
proof -
  have "wake_pending (set_req i p t)" if w: "wake_pending s"
  proof (cases "q = Queued")
    case True
    then show ?thesis using q by (simp add: wake_pending_def set_req_def)
  next
    case False
    have "wake_pending t" using w t(2,3) by (auto simp: wake_pending_def)
    then show ?thesis using False i t(2) by (intro wake_pending_set_req [of t i q]) (simp_all add: req_at_def)
  qed
  then have "no_lost_wakeup (set_req i p t)"
    using ok t(1,4) by (auto simp: poller_ok_def no_lost_wakeup_def set_req_def)
  moreover have "one_active (set_req i p t)"
    using ok t(1) by (simp add: poller_ok_def one_active_def set_req_def)
  ultimately show ?thesis by (simp add: poller_ok_def)
qed

lemma phase_image: "(\<exists>r \<in> A. rq_phase r = p) \<longleftrightarrow> p \<in> rq_phase ` A"
  by force

lemma poller_ok_step:
  assumes ok: "poller_ok s" and st: "rt_step ev s = Some t"
    and one: "ev = PollArrives \<longrightarrow> (\<forall>p \<in> set (rt_polls s). \<not> active p)"
  shows "poller_ok t"
proof (cases ev)
  case (Enqueue v)
  then have "t = enqueue v s" using st by (auto split: if_splits)
  then show ?thesis using ok by (auto simp: poller_ok_def one_active_def no_lost_wakeup_def enqueue_def wake_pending_def)
next
  case (Notify i)
  then show ?thesis using st by (auto intro!: poller_ok_req [OF ok] split: if_splits)
next
  case (TakeResult i)
  then show ?thesis using st by (auto intro!: poller_ok_req [OF ok, of _ Waiting] split: if_splits)
next
  case (TimerFires i)
  then show ?thesis using st by (auto intro!: poller_ok_req [OF ok, of _ Waiting] split: if_splits)
next
  case (Unregister i)
  then show ?thesis using st by (auto intro!: poller_ok_req [OF ok, of _ TimerFired] split: if_splits)
next
  case (RemoveQueued i)
  then show ?thesis using st by (auto intro!: poller_ok_req [OF ok, of _ Unregistered] split: if_splits)
next
  case PollArrives
  then have "one_active t" "PollWaiting \<in> set (rt_polls t) \<Longrightarrow> PollWaiting \<in> set (rt_polls s)"
    "rt_queue t = rt_queue s" "wake_pending t = wake_pending s"
    using st one by (auto simp: one_active_def nth_append wake_pending_def less_Suc_eq)
  then show ?thesis using ok by (auto simp: poller_ok_def no_lost_wakeup_def)
next
  case (PollTake i now)
  then show ?thesis
    using st by (auto simp: poll_take_def poll_at_def active_def intro!: poller_ok_poll [OF ok] split: if_splits list.splits)
next
  case (PollDrop i)
  then show ?thesis
    using st by (auto simp: active_def intro!: poller_ok_poll [OF ok] split: if_splits poll_phase.splits)
next
  case (PollWake i)
  then show ?thesis using st by (auto simp: poll_at_def active_def intro!: poller_ok_poll [OF ok] split: if_splits)
next
  case (PollTimeout i)
  then show ?thesis using st by (auto simp: poll_at_def active_def intro!: poller_ok_poll [OF ok] split: if_splits)
next
  case (PollCtxDone i)
  then show ?thesis using st by (auto simp: poll_at_def active_def intro!: poller_ok_poll [OF ok] split: if_splits)
next
  case (Respond k res)
  have "map rq_phase (put_result k res (rt_reqs s)) = map rq_phase (rt_reqs s)" by (simp add: put_result_def)
  then have "rq_phase ` set (put_result k res (rt_reqs s)) = rq_phase ` set (rt_reqs s)" by (metis set_map)
  then have "(\<exists>r \<in> set (put_result k res (rt_reqs s)). rq_phase r = Queued) \<longleftrightarrow> (\<exists>r \<in> set (rt_reqs s). rq_phase r = Queued)"
    using phase_image [of "set (put_result k res (rt_reqs s))" Queued] phase_image [of "set (rt_reqs s)" Queued] by simp
  then have "wake_pending t = wake_pending s" "rt_polls t = rt_polls s" "rt_queue t = rt_queue s"
    using Respond st by (auto simp: wake_pending_def split: if_splits)
  then show ?thesis using ok by (simp add: poller_ok_def one_active_def no_lost_wakeup_def)
qed

interpretation poller: transition_system "\<lambda>s. s = rt_init m" rt_next1 poller_ok for m
proof unfold_locales
  fix s t
  assume "poller_ok s" "rt_next1 s t"
  then show "poller_ok t" using poller_ok_step by (auto elim!: rt_next1E)
qed (simp add: poller_ok_def one_active_def no_lost_wakeup_def rt_init_def)

section \<open>Properties\<close>

text \<open>C6. In every state the runtime reaches, the queue is within its bound, no invocation was
  dispatched twice and no id had two results accepted; a request answered 200 carries the result
  that was accepted for its own id; one answered 503 was neither dispatched nor queued; one
  answered 504 is no longer queued and a result posted for it is refused with 404.\<close>

theorem runtime_invariant:
  assumes "rt_next\<^sup>*\<^sup>* (rt_init m) s"
  shows "length (rt_queue s) \<le> m \<and> distinct (dispatched (rt_polls s)) \<and> distinct (map fst (rt_accepted s)) \<and>
    (\<forall>i c. i < length (rt_reqs s) \<and> rq_phase (rt_reqs s ! i) = Answered c \<longrightarrow>
       (let k = req_id (rt_reqs s ! i) in
        (c = 200 \<and> (\<exists>res. rq_chan (rt_reqs s ! i) = Some res \<and> (k, res) \<in> set (rt_accepted s))) \<or>
        (c = 503 \<and> k \<notin> set (dispatched (rt_polls s)) \<and> k \<notin> set (queue_ids s)) \<or>
        (c = 504 \<and> k \<notin> set (queue_ids s) \<and> respond_status k s = 404)))"
proof (intro conjI allI impI)
  have ok: "rt_max s = m" "rt_ok s" "refused_ok s" using rt.reachable_good [OF refl assms] by auto
  show "length (rt_queue s) \<le> m" "distinct (dispatched (rt_polls s))" "distinct (map fst (rt_accepted s))"
    using rt_okD [OF ok(2)] ok(1) by simp_all
  fix i c
  assume i: "i < length (rt_reqs s) \<and> rq_phase (rt_reqs s ! i) = Answered c"
  define r where "r = rt_reqs s ! i"
  have r: "req_ok s r" "r \<in> set (rt_reqs s)" "rq_phase r = Answered c"
    using rt_okD(2) [OF ok(2)] i by (simp_all add: r_def)
  then have "c \<in> {200, 503, 504}" by (auto simp: req_ok_def answered_def)
  then show "let k = req_id (rt_reqs s ! i) in
        (c = 200 \<and> (\<exists>res. rq_chan (rt_reqs s ! i) = Some res \<and> (k, res) \<in> set (rt_accepted s))) \<or>
        (c = 503 \<and> k \<notin> set (dispatched (rt_polls s)) \<and> k \<notin> set (queue_ids s)) \<or>
        (c = 504 \<and> k \<notin> set (queue_ids s) \<and> respond_status k s = 404)"
    using r ok(3) unfolding r_def [symmetric] Let_def
    by (auto simp: req_ok_def refused_ok_def respond_status_def dest: map_of_SomeD)
qed

text \<open>C19. A request that was answered keeps that answer, and a result that was accepted for it is
  never replaced, whatever the other goroutines do afterwards.\<close>

theorem runtime_answer_final:
  assumes "rt_next\<^sup>*\<^sup>* (rt_init m) s" "rt_next\<^sup>*\<^sup>* s t" "i < length (rt_reqs s)"
  shows "i < length (rt_reqs t) \<and> rq_inv (rt_reqs t ! i) = rq_inv (rt_reqs s ! i) \<and>
    (answered (rq_phase (rt_reqs s ! i)) \<longrightarrow> rq_phase (rt_reqs t ! i) = rq_phase (rt_reqs s ! i)) \<and>
    (rq_chan (rt_reqs s ! i) \<noteq> None \<longrightarrow> rq_chan (rt_reqs t ! i) = rq_chan (rt_reqs s ! i))"
proof -
  have "rt_ok s" using rt.reachable_good [OF refl assms(1)] by auto
  then have "keeps_reqs (rt_reqs s) (rt_reqs t)" using rt_steps_keep [OF assms(2)] by blast
  then show ?thesis using assms(3) by (auto simp: keeps_reqs_def same_answer_def)
qed

text \<open>C7. Every request is answered: while it is not, its own goroutine can take a step, no step of
  another undoes its progress, and any interleaving in which it takes as many steps of its own as
  its phase has left (at most four, from \<open>Queued\<close>) ends with the answer.\<close>

theorem runtime_answers:
  assumes "i < length (rt_reqs s)"
  shows "(\<not> answered (rq_phase (rt_reqs s ! i)) \<longrightarrow> (\<exists>ev. own_step i ev \<and> rt_step ev s \<noteq> None)) \<and>
    (\<forall>evs t. rt_run evs s = Some t \<and> length (filter (own_step i) evs) \<ge> phase_rank (rq_phase (rt_reqs s ! i)) \<longrightarrow>
       answered (rq_phase (rt_reqs t ! i)))"
proof (intro conjI impI allI)
  show "\<exists>ev. own_step i ev \<and> rt_step ev s \<noteq> None" if "\<not> answered (rq_phase (rt_reqs s ! i))"
    using own_step_enabled assms that by blast
  fix evs t
  assume run: "rt_run evs s = Some t \<and> length (filter (own_step i) evs) \<ge> phase_rank (rq_phase (rt_reqs s ! i))"
  then have "rank_at i t = 0" using rank_at_run [of evs s t i] assms by (simp add: rank_at_def)
  then show "answered (rq_phase (rt_reqs t ! i))" by (simp add: rank_at_answered)
qed

text \<open>With one poller at a time, a poll that waits beside a queue that is not empty has its wakeup
  pending: the token is in \<open>notify\<close>, or a request that was just queued will put it there.\<close>

theorem single_poller_woken:
  assumes "rt_next1\<^sup>*\<^sup>* (rt_init m) s" "PollWaiting \<in> set (rt_polls s)" "rt_queue s \<noteq> []"
  shows "rt_notify s \<or> (\<exists>r \<in> set (rt_reqs s). rq_phase r = Queued)"
proof -
  have "poller_ok s" using poller.reachable_good [OF refl assms(1)] .
  then show ?thesis using assms(2,3) by (simp add: poller_ok_def no_lost_wakeup_def wake_pending_def)
qed

definition two_pollers_run :: "rt_event list" where
  "two_pollers_run =
     (let v = (\<lambda>k. \<lparr>iv_id = k, iv_payload = ''{}'', iv_event_type = ''http'', iv_deadline = 30 * second\<rparr>)
      in [PollArrives, PollArrives, PollTake 0 0, PollTake 1 0, Enqueue (v ''a''), Enqueue (v ''b''), Notify 0, Notify 1,
          PollWake 0, PollTake 0 0])"

text \<open>With two pollers a wakeup is lost: \<open>notify\<close> holds one token, so after two requests and one
  dispatch the second poll still waits beside a queued invocation, and no wakeup is pending.\<close>

theorem two_pollers_lose_wakeup:
  "case rt_run two_pollers_run (rt_init 128) of
     None \<Rightarrow> False
   | Some s \<Rightarrow> rt_next\<^sup>*\<^sup>* (rt_init 128) s \<and> rt_polls s ! 1 = PollWaiting \<and> queue_ids s = [''b''] \<and>
       \<not> rt_notify s \<and> map rq_phase (rt_reqs s) = [Waiting, Waiting]"
proof -
  define t where "t = rt_run two_pollers_run (rt_init 128)"
  have "t \<noteq> None \<and> rt_polls (the t) ! 1 = PollWaiting \<and> queue_ids (the t) = [''b''] \<and>
       \<not> rt_notify (the t) \<and> map rq_phase (rt_reqs (the t)) = [Waiting, Waiting]"
    unfolding t_def by code_simp
  then show ?thesis using rt_run_steps unfolding t_def [symmetric] by (auto simp: t_def)
qed

text \<open>The runtimes the gateway accepts are those the server has a bootstrap for, with the empty name
  that stands for Python.\<close>

lemma bootstrapCommand_supported: "bootstrapCommand rt \<noteq> None \<longleftrightarrow> rt = [] \<or> isSupportedRuntime rt"
  by (auto simp: bootstrapCommand_def isSupportedRuntime_def)

text \<open>The time a request gets: positive, and within the configured maximum unless the header gave
  nothing usable, when it is 30 s whatever the maximum.\<close>

lemma request_timeout_bounds:
  assumes "0 < env_int env ''MAX_FUNCTION_TIMEOUT_SECONDS'' 300" "env_int env ''MAX_FUNCTION_TIMEOUT_SECONDS'' 300 \<le> 9000000000"
  shows "0 < request_timeout parse env t \<and>
    request_timeout parse env t \<le> max (30 * second) (env_int env ''MAX_FUNCTION_TIMEOUT_SECONDS'' 300 * second)"
  using assms by (auto simp: request_timeout_def clampTimeout_def Let_def second_def dur_seconds_exact split: option.split)

text \<open>A run for the witnesses: three requests on a queue of two places; one is answered, one times
  out, one is refused.\<close>

definition sample_run :: "rt_event list" where
  "sample_run =
     (let v = (\<lambda>k. \<lparr>iv_id = k, iv_payload = ''{}'', iv_event_type = ''http'', iv_deadline = 30 * second\<rparr>);
          res = \<lparr>ir_status = 200, ir_body = ''1''\<rparr>
      in [PollArrives, PollTake 0 0, Enqueue (v ''a''), Enqueue (v ''b''), Enqueue (v ''c''), Notify 0, Notify 1, PollWake 0,
          PollTake 0 0, Respond ''a'' res, TakeResult 0, TimerFires 1, Unregister 1, RemoveQueued 1])"

lemma sample_run_state:
  obtains s where "rt_run sample_run (rt_init 2) = Some s"
    "map rq_phase (rt_reqs s) = [Answered 200, Answered 504, Answered 503]" "length (rt_reqs s) = 3"
proof -
  have "rt_run sample_run (rt_init 2) \<noteq> None \<and>
      map rq_phase (rt_reqs (the (rt_run sample_run (rt_init 2)))) = [Answered 200, Answered 504, Answered 503] \<and>
      length (rt_reqs (the (rt_run sample_run (rt_init 2)))) = 3"
    by code_simp
  then show ?thesis using that by (cases "rt_run sample_run (rt_init 2)") auto
qed

theorem runtime_invariant_witness:
  "\<exists>s. rt_next\<^sup>*\<^sup>* (rt_init 2) s \<and> length (rt_reqs s) = 3 \<and> length (rt_queue s) \<le> 2"
proof -
  obtain s where s: "rt_run sample_run (rt_init 2) = Some s" "length (rt_reqs s) = 3" by (rule sample_run_state)
  then have "rt_next\<^sup>*\<^sup>* (rt_init 2) s" by (intro rt_run_steps)
  then show ?thesis using runtime_invariant [of 2 s] s(2) by blast
qed

theorem runtime_answer_final_witness:
  "\<exists>s t. rt_next\<^sup>*\<^sup>* s t \<and> rq_phase (rt_reqs s ! 1) = Answered 504 \<and> rq_phase (rt_reqs t ! 1) = Answered 504"
proof -
  obtain s where s: "rt_run sample_run (rt_init 2) = Some s" "length (rt_reqs s) = 3"
    "map rq_phase (rt_reqs s) = [Answered 200, Answered 504, Answered 503]" by (rule sample_run_state)
  have p: "rq_phase (rt_reqs s ! 1) = Answered 504"
    using arg_cong [OF s(3), of "\<lambda>xs. xs ! 1"] s(2) by simp
  have st: "rt_next\<^sup>*\<^sup>* (rt_init 2) s" using s(1) by (rule rt_run_steps)
  have "rt_next s (s\<lparr>rt_polls := rt_polls s @ [Polling]\<rparr>)" by (rule rt_next [of PollArrives]) simp
  then have "rt_next\<^sup>*\<^sup>* s (s\<lparr>rt_polls := rt_polls s @ [Polling]\<rparr>)" by blast
  then show ?thesis using runtime_answer_final [OF st, of _ 1] p s(2) by (auto simp: answered_def)
qed

theorem runtime_answers_witness:
  "\<exists>t. rt_run sample_run (rt_init 2) = Some t \<and>
     (let s = enqueue \<lparr>iv_id = ''a'', iv_payload = [], iv_event_type = [], iv_deadline = 0\<rparr> (rt_init 2)
      in \<exists>ev. own_step 0 ev \<and> rt_step ev s \<noteq> None)"
proof -
  define s where "s = enqueue \<lparr>iv_id = ''a'', iv_payload = [], iv_event_type = [], iv_deadline = 0\<rparr> (rt_init 2)"
  have "0 < length (rt_reqs s)" "\<not> answered (rq_phase (rt_reqs s ! 0))"
    by (simp_all add: s_def enqueue_def rt_init_def answered_def)
  then have "\<exists>ev. own_step 0 ev \<and> rt_step ev s \<noteq> None" using runtime_answers [of 0 s] by blast
  then show ?thesis using sample_run_state unfolding s_def by (metis (no_types, lifting))
qed

theorem single_poller_woken_witness:
  "\<exists>s :: runtime. PollWaiting \<in> set (rt_polls s) \<and> rt_queue s \<noteq> [] \<and>
     (rt_notify s \<or> (\<exists>r \<in> set (rt_reqs s). rq_phase r = Queued))"
proof -
  define s0 where "s0 = rt_init 1"
  define s1 where "s1 = s0\<lparr>rt_polls := [Polling]\<rparr>"
  define s2 where "s2 = s0\<lparr>rt_polls := [PollWaiting]\<rparr>"
  define s3 where "s3 = enqueue \<lparr>iv_id = ''a'', iv_payload = [], iv_event_type = [], iv_deadline = 0\<rparr> s2"
  have "rt_next1 s0 s1" by (rule rt_next1 [of PollArrives]) (simp_all add: s0_def s1_def rt_init_def)
  moreover have "rt_next1 s1 s2"
    by (rule rt_next1 [of "PollTake 0 0"]) (simp_all add: s0_def s1_def s2_def rt_init_def poll_at_def poll_take_def set_poll_def)
  moreover have "rt_next1 s2 s3"
    by (rule rt_next1 [of "Enqueue \<lparr>iv_id = ''a'', iv_payload = [], iv_event_type = [], iv_deadline = 0\<rparr>"])
      (simp_all add: s0_def s2_def s3_def rt_init_def)
  ultimately have "rt_next1\<^sup>*\<^sup>* (rt_init 1) s3" unfolding s0_def [symmetric]
    by (blast intro: r_into_rtranclp rtranclp_trans)
  moreover have "PollWaiting \<in> set (rt_polls s3)" "rt_queue s3 \<noteq> []"
    by (simp_all add: s3_def s2_def s0_def rt_init_def enqueue_def)
  ultimately show ?thesis using single_poller_woken [of 1 s3] by metis
qed

end
