(* ===== verification/Bootstrap.thy ===== *)
theory Bootstrap
  imports Runtime_Server Paths
begin

text \<open>
  The bootstrap for Go functions (runtime/cmd/go-bootstrap/main.go): it polls the runtime server
  for an invocation, runs the function's binary on it and posts the result or the error. The replies
  of the server and the outcome of the binary are arguments; \<open>strconv.Quote\<close>, which only shapes error
  texts, is the argument \<open>quote\<close>.
\<close>

section \<open>Error texts in JSON\<close>

definition error_json :: "string \<Rightarrow> string \<Rightarrow> string" where
  "error_json ty msg =
     ''{'' @ json_string ''errorType'' @ '':'' @ json_string ty @ '','' @ json_string ''errorMessage'' @ '':'' @ json_string msg @ ''}''"

section \<open>One round\<close>

record invocation_context =
  ic_request_id :: string
  ic_deadline_ms :: string

datatype next_reply = NextFailed | NextReply int "string option" string string   \<comment> \<open>status, body, the two headers\<close>

datatype next_error = CallError | NoInvocation | UnexpectedStatus int | BodyError | MissingRequestId

definition nextInvocation :: "next_reply \<Rightarrow> next_error + string \<times> invocation_context" where
  "nextInvocation r =
     (case r of
        NextFailed \<Rightarrow> Inl CallError
      | NextReply status body request_id deadline \<Rightarrow>
          if status = 204 then Inl NoInvocation
          else if status \<noteq> 200 then Inl (UnexpectedStatus status)
          else
            case body of
              None \<Rightarrow> Inl BodyError
            | Some payload \<Rightarrow>
                if request_id = [] then Inl MissingRequestId
                else Inr (payload, \<lparr>ic_request_id = request_id, ic_deadline_ms = deadline\<rparr>))"

datatype run_outcome = RunFailed string bool | RunDone string   \<comment> \<open>the flag: the deadline has passed\<close>

datatype run_error = MissingDeadline | InvalidDeadline string num_error | TimedOut | ExecError string | InvalidOutput

definition run_error_text :: "(string \<Rightarrow> string) \<Rightarrow> run_error \<Rightarrow> string" where
  "run_error_text quote e =
     (case e of
        MissingDeadline \<Rightarrow> ''missing deadline''
      | InvalidDeadline d n \<Rightarrow>
          ''invalid deadline '' @ quote d @ '': strconv.ParseInt: parsing '' @ quote d @ '': '' @
          (case n of ErrSyntax \<Rightarrow> ''invalid syntax'' | ErrRange \<Rightarrow> ''value out of range'')
      | TimedOut \<Rightarrow> ''function timed out''
      | ExecError msg \<Rightarrow> msg
      | InvalidOutput \<Rightarrow> ''function output is not valid JSON'')"

text \<open>\<open>runFunctionBinary\<close>; \<open>run\<close> is the process: its input, its deadline in milliseconds and the
  variables added to its environment.\<close>

definition runFunctionBinary ::
  "(string \<Rightarrow> int \<Rightarrow> (string \<times> string) list \<Rightarrow> run_outcome) \<Rightarrow> string \<Rightarrow> invocation_context \<Rightarrow> run_error + string" where
  "runFunctionBinary run payload ctx =
     (if ic_deadline_ms ctx = [] then Inl MissingDeadline
      else
        case atoi (ic_deadline_ms ctx) of
          (_, Some e) \<Rightarrow> Inl (InvalidDeadline (ic_deadline_ms ctx) e)
        | (deadline, None) \<Rightarrow>
            (case run payload deadline [(''AWS_REQUEST_ID'', ic_request_id ctx), (''DEADLINE_MS'', ic_deadline_ms ctx)] of
               RunFailed msg late \<Rightarrow> Inl (if late then TimedOut else ExecError msg)
             | RunDone out \<Rightarrow> if json_valid out then Inr out else Inl InvalidOutput))"

definition post_path :: "string \<Rightarrow> string \<Rightarrow> string" where
  "post_path request_id action = ''/runtime/invocation/'' @ request_id @ ''/'' @ action"

text \<open>\<open>postInvocation\<close> succeeds with 202 only.\<close>

definition postInvocation :: "int option \<Rightarrow> bool" where
  "postInvocation reply = (reply = Some 202)"

record post =
  ps_path :: string
  ps_action :: string
  ps_id :: string
  ps_body :: string

text \<open>One round of the loop in \<open>main\<close>: the post it makes, if any.\<close>

definition boot_round ::
  "(string \<Rightarrow> string) \<Rightarrow> (string \<Rightarrow> int \<Rightarrow> (string \<times> string) list \<Rightarrow> run_outcome) \<Rightarrow> next_reply \<Rightarrow> post option" where
  "boot_round quote run reply =
     (case nextInvocation reply of
        Inl _ \<Rightarrow> None
      | Inr (payload, ctx) \<Rightarrow>
          (let make = (\<lambda>action body. Some \<lparr>ps_path = post_path (ic_request_id ctx) action, ps_action = action,
                          ps_id = ic_request_id ctx, ps_body = body\<rparr>)
           in case runFunctionBinary run payload ctx of
                Inl e \<Rightarrow> make ''error'' (error_json ''FunctionError'' (run_error_text quote e))
              | Inr out \<Rightarrow> make ''response'' out))"

text \<open>The binary's path; the directory is an absolute one.\<close>

definition bootstrap_path :: "env \<Rightarrow> string" where
  "bootstrap_path env = (let dir = env ''FUNCTION_DIR'' in abs_clean ((if dir = [] then ''/function'' else dir) @ ''/bootstrap''))"

section \<open>What it posts is valid\<close>

lemma error_json_valid: "json_valid (error_json ty msg)"
  unfolding json_valid_def error_json_def
  by (simp add: json_run_append json_string_run json_key_run json_begin_value_def json_space_def json_push_def
      max_nesting_def json_end_value_def json_pop_def)

text \<open>What the server makes of a post with a path of \<open>postInvocation\<close> and valid JSON.\<close>

lemma handleResponse_post:
  assumes "CHR ''/'' \<notin> set rid" "action = ''response'' \<or> action = ''error''" "json_valid body"
  shows "handleResponse limit ''POST'' (post_path rid action) body s =
    (if length body > nat limit then (400, s)
     else if rid \<notin> set (rt_inflight s) then (404, s)
     else (202, s\<lparr>rt_inflight := forget rid (rt_inflight s),
             rt_reqs := put_result rid \<lparr>ir_status = (if action = ''error'' then 500 else 200), ir_body = body\<rparr> (rt_reqs s),
             rt_accepted := (rid, \<lparr>ir_status = (if action = ''error'' then 500 else 200), ir_body = body\<rparr>) # rt_accepted s\<rparr>))"
proof -
  have "split_first CHR ''/'' (trim_prefix (post_path rid action) ''/runtime/invocation/'') = Some (rid, action)"
    using split_first_at [OF assms(1), of action] by (simp add: post_path_def trim_prefix_def)
  then show ?thesis using assms(2,3) by (auto simp: handleResponse_def read_response_def respond_status_def)
qed

text \<open>C33. Whatever the function does, the bootstrap answers an invocation it was given with exactly one
  post, for the id of the invocation. When the deadline is a number and the binary, run on the payload until that time, ends well
  and prints JSON, the post has the action \<open>response\<close> and this output; in every other case it has the action
  \<open>error\<close> and a JSON object with the type \<open>FunctionError\<close> and a message, which for a binary that failed says that
  the function timed out, if the deadline has passed, and else what the failure was. The server accepts the
  post (202), as the result of that request with the status 200 or 500, if it is within the limit of a body
  and the request still waits; a longer body is refused with 400 and a post that comes after the
  timer of the request with 404, and neither changes anything.\<close>

theorem bootstrap_post_accepted:
  assumes "rid \<noteq> []" "CHR ''/'' \<notin> set rid"
  shows "\<exists>p res. boot_round quote run (NextReply 200 (Some payload) rid deadline) = Some p \<and> ps_id p = rid \<and>
    (\<forall>d. atoi deadline = (d, None) \<and> deadline \<noteq> [] \<longrightarrow>
       (case run payload d [(''AWS_REQUEST_ID'', rid), (''DEADLINE_MS'', deadline)] of
          RunDone out \<Rightarrow>
            if json_valid out then res = \<lparr>ir_status = 200, ir_body = out\<rparr>
            else res = \<lparr>ir_status = 500, ir_body = error_json ''FunctionError'' ''function output is not valid JSON''\<rparr>
        | RunFailed msg late \<Rightarrow>
            res = \<lparr>ir_status = 500, ir_body = error_json ''FunctionError'' (if late then ''function timed out'' else msg)\<rparr>)) \<and>
    (deadline = [] \<or> snd (atoi deadline) \<noteq> None \<longrightarrow> (\<exists>msg. res = \<lparr>ir_status = 500, ir_body = error_json ''FunctionError'' msg\<rparr>)) \<and>
    ps_action p = (if ir_status res = 200 then ''response'' else ''error'') \<and> ps_body p = ir_body res \<and>
    handleResponse limit ''POST'' (ps_path p) (ps_body p) s =
      (if length (ir_body res) > nat limit then (400, s)
       else if rid \<notin> set (rt_inflight s) then (404, s)
       else (202, s\<lparr>rt_inflight := forget rid (rt_inflight s), rt_reqs := put_result rid res (rt_reqs s),
                    rt_accepted := (rid, res) # rt_accepted s\<rparr>))"
proof -
  define ctx where "ctx = \<lparr>ic_request_id = rid, ic_deadline_ms = deadline\<rparr>"
  have ctx: "ic_request_id ctx = rid" "ic_deadline_ms ctx = deadline" by (simp_all add: ctx_def)
  have next_ok: "nextInvocation (NextReply 200 (Some payload) rid deadline) = Inr (payload, ctx)"
    using assms(1) by (simp add: nextInvocation_def ctx_def)
  define body where "body = (case runFunctionBinary run payload ctx of
      Inl e \<Rightarrow> error_json ''FunctionError'' (run_error_text quote e) | Inr out \<Rightarrow> out)"
  define action where "action = (case runFunctionBinary run payload ctx of Inl e \<Rightarrow> ''error'' | Inr out \<Rightarrow> ''response'')"
  let ?p = "\<lparr>ps_path = post_path rid action, ps_action = action, ps_id = rid, ps_body = body\<rparr>"
  let ?res = "\<lparr>ir_status = (if action = ''error'' then 500 else 200), ir_body = body\<rparr>"
  have round: "boot_round quote run (NextReply 200 (Some payload) rid deadline) = Some ?p"
    using next_ok by (simp add: boot_round_def ctx body_def action_def split: sum.split)
  have act: "action = ''response'' \<or> action = ''error''" by (simp add: action_def split: sum.split)
  have "json_valid body"
    by (auto simp: body_def error_json_valid runFunctionBinary_def split: sum.splits if_splits prod.splits option.splits run_outcome.splits)
  note posted = handleResponse_post [OF assms(2) act this, of limit s]
  have result: "case run payload d [(''AWS_REQUEST_ID'', rid), (''DEADLINE_MS'', deadline)] of
          RunDone out \<Rightarrow>
            if json_valid out then ?res = \<lparr>ir_status = 200, ir_body = out\<rparr>
            else ?res = \<lparr>ir_status = 500, ir_body = error_json ''FunctionError'' ''function output is not valid JSON''\<rparr>
        | RunFailed msg late \<Rightarrow>
            ?res = \<lparr>ir_status = 500, ir_body = error_json ''FunctionError'' (if late then ''function timed out'' else msg)\<rparr>"
    if "atoi deadline = (d, None)" "deadline \<noteq> []" for d
    using that by (simp add: body_def action_def runFunctionBinary_def ctx run_error_text_def split: run_outcome.split)
  have failed: "\<exists>msg. ?res = \<lparr>ir_status = 500, ir_body = error_json ''FunctionError'' msg\<rparr>"
    if "deadline = [] \<or> snd (atoi deadline) \<noteq> None"
    using that by (cases "atoi deadline") (auto simp: body_def action_def runFunctionBinary_def ctx split: option.split)
  show ?thesis
    by (rule exI [of _ ?p], rule exI [of _ ?res]) (use round act posted result failed in auto)
qed

definition sample_waiting :: runtime where
  "sample_waiting = (rt_init 1)\<lparr>rt_inflight := [''id-1'']\<rparr>"

theorem bootstrap_post_accepted_witness:
  "\<exists>p res. boot_round (\<lambda>s. s) (\<lambda>_ _ _. RunDone ''{}'') (NextReply 200 (Some ''{}'') ''id-1'' ''17'') = Some p \<and>
    res = \<lparr>ir_status = 200, ir_body = ''{}''\<rparr> \<and>
    fst (handleResponse 100 ''POST'' (ps_path p) (ps_body p) sample_waiting) = 202"
proof -
  have "json_valid ''{}''" "atoi ''17'' = (17, None)" by (simp_all add: json_valid_examples(1)) code_simp
  then show ?thesis
    using bootstrap_post_accepted [of "''id-1''" "\<lambda>s. s" "\<lambda>_ _ _. RunDone ''{}''" "''{}''" "''17''" 100 sample_waiting]
    by (auto simp: sample_waiting_def rt_init_def)
qed

end
