(* ===== verification/Agent.thy ===== *)
theory Agent
  imports Scaler Runtime_Server Gateway_Http
begin

text \<open>
  The agent beside the runtime server in a function's container (runtime/cmd/agent/main.go): it
  passes invocations on to the server, counts their outcomes, keeps the latest latencies and
  reports them. The server's answer to a forwarded request, the files under \<open>/sys\<close> and \<open>/proc\<close> and
  the clock are arguments.
\<close>

section \<open>Counting\<close>

definition maxLatencyWindow :: nat where
  "maxLatencyWindow = 1000"

record agent =
  ag_invocations :: int
  ag_successes :: int
  ag_errors :: int
  ag_latencies :: "rat list"

definition newAgent :: agent where
  "newAgent = \<lparr>ag_invocations = 0, ag_successes = 0, ag_errors = 0, ag_latencies = []\<rparr>"

definition agentHTTPTimeout :: "env \<Rightarrow> duration" where
  "agentHTTPTimeout env =
     (let s = env_int env ''RUNTIME_AGENT_HTTP_TIMEOUT_SECONDS'' 305; s = (if s \<le> 0 then 305 else s) in dur_seconds s)"

definition agent_record :: "rat \<Rightarrow> bool \<Rightarrow> agent \<Rightarrow> agent" where
  "agent_record latency success a =
     (let a = a\<lparr>ag_invocations := incr (ag_invocations a)\<rparr>;
          a = (if success then a\<lparr>ag_successes := incr (ag_successes a)\<rparr> else a\<lparr>ag_errors := incr (ag_errors a)\<rparr>);
          ls = ag_latencies a @ [latency]
      in a\<lparr>ag_latencies := (if length ls > maxLatencyWindow then drop (length ls - maxLatencyWindow) ls else ls)\<rparr>)"

text \<open>\<open>percentile\<close> of a sorted list; \<open>int\<close> cuts off the fraction.\<close>

definition percentile_index :: "nat \<Rightarrow> int \<Rightarrow> int" where
  "percentile_index n p = \<lfloor>f_div (f_mul (f_of_int (int n - 1)) (of_int p)) 100\<rfloor>"

definition percentile :: "rat list \<Rightarrow> int \<Rightarrow> rat" where
  "percentile xs p = (if xs = [] then 0 else xs ! nat (percentile_index (length xs) p))"

definition readMemoryBytes :: "string option \<Rightarrow> int" where
  "readMemoryBytes file = (case file of None \<Rightarrow> 0 | Some data \<Rightarrow> fst (atoi (trim_space data)))"

fun usage_line :: "string list \<Rightarrow> int" where
  "usage_line [] = 0"
| "usage_line (l # ls) =
     (if has_prefix l ''usage_usec '' then fst (atoi (trim_space (trim_prefix l ''usage_usec ''))) else usage_line ls)"

definition readCPUUsageUs :: "string option \<Rightarrow> int" where
  "readCPUUsageUs file = (case file of None \<Rightarrow> 0 | Some data \<Rightarrow> usage_line (split_on CHR 0x0A data))"

definition agent_snapshot :: "string \<Rightarrow> time \<Rightarrow> string option \<Rightarrow> string option \<Rightarrow> agent \<Rightarrow> container_metrics" where
  "agent_snapshot container now memory_file cpu_file a =
     (let ls = sort (ag_latencies a) in
      \<lparr>cm_id = container, cm_timestamp = now, cm_invocations = ag_invocations a, cm_success = ag_successes a,
       cm_errors = ag_errors a, cm_p50 = percentile ls 50, cm_p95 = percentile ls 95, cm_p99 = percentile ls 99,
       cm_memory = readMemoryBytes memory_file, cm_cpu = readCPUUsageUs cpu_file\<rparr>)"

section \<open>Passing on\<close>

datatype upstream = UpBuildFailed | UpFailed | UpReply int headers string

datatype agent_reply = AgentError int string | AgentRelay int headers string

text \<open>The headers of the forwarded request; \<open>get\<close> reads the original's.\<close>

definition forwarded_headers :: "(string \<Rightarrow> string) \<Rightarrow> (string \<times> string) list" where
  "forwarded_headers get =
     map (\<lambda>k. (k, get k)) [''Content-Type'', ''X-Function-Name'', ''X-Function-Timeout'', ''X-Event-Type'', ''X-Trigger-ID'',
       ''X-Message-ID'']"

definition latency_ms :: "int \<Rightarrow> rat" where
  "latency_ms us = f_div (f_of_int us) 1000"

fun relay_headers :: "headers \<Rightarrow> headers \<Rightarrow> headers" where
  "relay_headers dst [] = dst"
| "relay_headers dst ((k, vs) # src) = relay_headers (add_values k vs dst) src"

text \<open>\<open>proxyInvocation\<close>; \<open>body\<close> is \<open>None\<close> when it cannot be read within the limit, \<open>us\<close> the time the
  call took. The call is made for the method POST only.\<close>

definition proxyInvocation ::
  "string \<Rightarrow> string option \<Rightarrow> (string \<Rightarrow> string \<Rightarrow> upstream) \<Rightarrow> int \<Rightarrow> string \<Rightarrow> agent \<Rightarrow> agent_reply \<times> agent" where
  "proxyInvocation meth body call us path a =
     (if meth \<noteq> ''POST'' then (AgentError 405 ''method not allowed'', a)
      else
        case body of
          None \<Rightarrow> (AgentError 400 ''failed to read body'', a)
        | Some b \<Rightarrow>
            (case call (''http://localhost:9000'' @ path) b of
               UpBuildFailed \<Rightarrow> (AgentError 500 ''failed to build upstream request'', a)
             | UpFailed \<Rightarrow> (AgentError 502 ''upstream unavailable'', agent_record (latency_ms us) False a)
             | UpReply code hs reply \<Rightarrow>
                 (AgentRelay code (relay_headers [] hs) reply, agent_record (latency_ms us) (code < 500) a)))"

definition agent_handleInvoke where
  "agent_handleInvoke meth body call us a = proxyInvocation meth body call us ''/invoke'' a"

definition agent_handleEvents where
  "agent_handleEvents meth body call us a = proxyInvocation meth body call us ''/events'' a"

text \<open>\<open>handleHealth\<close>: at most three calls, with the replies to them; a pause of 200 ms after each that
  fails. The result has the pauses made.\<close>

fun health_tries :: "upstream list \<Rightarrow> nat \<Rightarrow> agent_reply \<times> nat" where
  "health_tries [] n = (AgentError 503 ''runtime unavailable'', n)"
| "health_tries (UpBuildFailed # rs) n = (AgentError 500 ''failed to build health request'', n)"
| "health_tries (UpReply code hs body # rs) n = (AgentRelay code [] body, n)"
| "health_tries (UpFailed # rs) n = health_tries rs (n + 1)"

definition agent_handleHealth :: "upstream \<Rightarrow> upstream \<Rightarrow> upstream \<Rightarrow> agent_reply \<times> nat" where
  "agent_handleHealth r1 r2 r3 = health_tries [r1, r2, r3] 0"

definition agent_handleMetrics :: "env \<Rightarrow> string \<Rightarrow> time \<Rightarrow> string option \<Rightarrow> string option \<Rightarrow> agent \<Rightarrow> int + container_metrics" where
  "agent_handleMetrics env meth now mem cpu a =
     (if meth \<noteq> ''GET'' then Inl 405 else Inr (agent_snapshot (env ''CONTAINER_ID'') now mem cpu a))"

section \<open>Reporting\<close>

record report =
  rp_url :: string
  rp_headers :: "(string \<times> string) list"
  rp_metrics :: container_metrics

text \<open>What \<open>startReporter\<close> sends at each tick.\<close>

definition report_at :: "env \<Rightarrow> string \<Rightarrow> string \<Rightarrow> time \<Rightarrow> string option \<Rightarrow> string option \<Rightarrow> agent \<Rightarrow> report" where
  "report_at env gatewayAddr container now mem cpu a =
     \<lparr>rp_url = ''http://'' @ gatewayAddr @ ''/containers/'' @ container @ ''/metrics'',
      rp_headers = (''Content-Type'', ''application/json'') #
        (if env ''INTERNAL_API_TOKEN'' \<noteq> [] then [(''Authorization'', ''Bearer '' @ env ''INTERNAL_API_TOKEN'')] else []),
      rp_metrics = agent_snapshot container now mem cpu a\<rparr>"

text \<open>\<open>selfContainerID\<close>, line by line.\<close>

definition cgroup_id :: "string \<Rightarrow> string option" where
  "cgroup_id l =
     (let parts = split_on CHR ''/'' l; n = length parts;
          v1 = (if n \<ge> 3 \<and> parts ! (n - 2) = ''docker'' \<and> length (parts ! (n - 1)) = 64 then Some (parts ! (n - 1)) else None)
      in case index_of l ''docker-'' of
           None \<Rightarrow> v1
         | Some i \<Rightarrow>
             (let rest = drop (i + 7) l in
              case index_of rest ''.scope'' of None \<Rightarrow> v1 | Some j \<Rightarrow> Some (take j rest)))"

fun first_cgroup_id :: "string list \<Rightarrow> string" where
  "first_cgroup_id [] = []"
| "first_cgroup_id (l # ls) = (case cgroup_id l of None \<Rightarrow> first_cgroup_id ls | Some i \<Rightarrow> i)"

definition selfContainerID :: "string option \<Rightarrow> string" where
  "selfContainerID file = (case file of None \<Rightarrow> [] | Some data \<Rightarrow> first_cgroup_id (split_on CHR 0x0A data))"

definition agent_container :: "env \<Rightarrow> string option \<Rightarrow> string \<Rightarrow> string" where
  "agent_container env cgroup hostname =
     (let i = env ''CONTAINER_ID''; i = (if i = [] then selfContainerID cgroup else i) in if i = [] then hostname else i)"

definition agent_gateway :: "env \<Rightarrow> string" where
  "agent_gateway env =
     (let g = env ''GATEWAY_INTERNAL_ADDR''; g = (if g = [] then env ''GATEWAY_ADDR'' else g)
      in if g = [] then ''host.docker.internal:8081'' else g)"

section \<open>Lemmas\<close>

definition record_all :: "(rat \<times> bool) list \<Rightarrow> agent" where
  "record_all rs = fold (\<lambda>(l, ok). agent_record l ok) rs newAgent"

lemma agent_record_latencies: "ag_latencies (agent_record l ok a) = take_last maxLatencyWindow (ag_latencies a @ [l])"
  by (simp add: agent_record_def Let_def take_last_def)

lemma agent_record_counts:
  "ag_invocations (agent_record l ok a) = incr (ag_invocations a)"
  "ag_successes (agent_record l ok a) = (if ok then incr (ag_successes a) else ag_successes a)"
  "ag_errors (agent_record l ok a) = (if ok then ag_errors a else incr (ag_errors a))"
  by (simp_all add: agent_record_def Let_def)

lemma record_all_snoc: "record_all (rs @ [(l, ok)]) = agent_record l ok (record_all rs)"
  by (simp add: record_all_def)

lemma incr_wrap: "incr (wrap64 n) = wrap64 (n + 1)"
  by (simp add: incr_def wrap64_wrap)

text \<open>After any sequence of invocations the agent's counters are the numbers of invocations, of
  successes and of errors (modulo \<open>2 ^ 64\<close>), so the first is the sum of the others, and the window
  holds the latencies of the last 1000 in order.\<close>

theorem agent_counts_exact:
  "ag_invocations (record_all rs) = wrap64 (int (length rs)) \<and>
   ag_successes (record_all rs) = wrap64 (int (length (filter snd rs))) \<and>
   ag_errors (record_all rs) = wrap64 (int (length rs) - int (length (filter snd rs))) \<and>
   ag_latencies (record_all rs) = take_last 1000 (map fst rs)"
proof (induction rs rule: rev_induct)
  case Nil
  then show ?case by (simp add: record_all_def newAgent_def wrap64_def take_last_def)
next
  case (snoc r rs)
  obtain l ok where r: "r = (l, ok)" by fastforce
  have "take_last 1000 (take_last 1000 (map fst rs) @ [l]) = take_last 1000 (map fst rs @ [l])"
    by (rule take_last_snoc) simp
  then show ?case
    using snoc.IH
    by (simp add: r record_all_snoc agent_record_counts agent_record_latencies maxLatencyWindow_def incr_wrap algebra_simps)
qed

lemma percentile_index_exact:
  assumes "0 < n" "n \<le> 1000" "0 \<le> p" "p \<le> 100"
  shows "percentile_index n p = (int n - 1) * p div 100"
proof -
  define m where "m = int n - 1"
  define k where "k = m * p div 100"
  have m: "0 \<le> m" "m \<le> 999" using assms by (simp_all add: m_def)
  have mp: "0 \<le> m * p" "m * p \<le> 99900" using m assms mult_mono [of m 999 p 100] by simp_all
  have k: "0 \<le> k" "k \<le> 999" "100 * k \<le> m * p" "m * p \<le> 100 * k + 99"
    using mp by (simp_all add: k_def)
  have mul: "f_mul (f_of_int m) (of_int p) = of_int (m * p)"
    using m mp fl64_int [of m] fl64_int [of "m * p"] by (simp add: f_mul_def f_of_int_def)
  define x :: rat where "x = of_int (m * p) / 100"
  have idx: "percentile_index n p = \<lfloor>fl64 x\<rfloor>"
    unfolding percentile_index_def f_div_def m_def [symmetric] mul x_def by (rule refl)
  have "(of_int (100 * k) :: rat) \<le> of_int (m * p)" "(of_int (m * p) :: rat) \<le> of_int (100 * k + 99)"
    using k(3,4) by (simp_all only: of_int_le_iff)
  then have x: "of_int k \<le> x" "x \<le> of_int k + 127 / 128" by (simp_all add: x_def field_simps)
  have xpos: "0 \<le> x" using x(1) k(1) by (meson of_int_0_le_iff order_trans)
  have "fl64 (of_int k) = of_int k" using k by (intro fl64_int) simp_all
  then have lo: "of_int k \<le> fl64 x" using fl64_mono [of "of_int k" x] x(1) k(1) by simp
  have "of_int k + 127 / 128 = of_int (128 * k + 127) * pow2 (- 7)" by (simp add: pow2_def field_simps)
  then have "fl64 (of_int k + 127 / 128) = of_int k + 127 / 128"
    using k by (intro fl64_exact [where m = "128 * k + 127" and k = "- 7"]) simp_all
  then have hi: "fl64 x \<le> of_int k + 127 / 128"
    using fl64_mono [of x "of_int k + 127 / 128"] x(2) xpos by simp
  have "\<lfloor>fl64 x\<rfloor> = k" using lo hi by (intro floor_unique) simp_all
  then show ?thesis using idx by (simp add: k_def m_def)
qed

lemma percentile_sorted:
  assumes "0 < length xs" "length xs \<le> 1000" "0 \<le> p" "p \<le> 100"
  shows "percentile xs p = xs ! ((length xs - 1) * nat p div 100) \<and> (length xs - 1) * nat p div 100 < length xs"
proof -
  have "int (length xs) - 1 = int (length xs - 1)" "p = int (nat p)" using assms(1,3) by (simp_all add: of_nat_diff Suc_leI)
  then have "(int (length xs) - 1) * p = int ((length xs - 1) * nat p)" by (metis of_nat_mult)
  then have e: "(int (length xs) - 1) * p div 100 = int ((length xs - 1) * nat p div 100)"
    by (simp only: zdiv_int of_nat_numeral)
  have "(length xs - 1) * nat p \<le> (length xs - 1) * 100" using assms by (intro mult_le_mono) simp_all
  then have "(length xs - 1) * nat p div 100 \<le> length xs - 1"
    using div_le_mono [of "(length xs - 1) * nat p" "(length xs - 1) * 100" 100] by simp
  then have "(length xs - 1) * nat p div 100 < length xs" using assms(1) by linarith
  moreover have "percentile_index (length xs) p = int ((length xs - 1) * nat p div 100)"
    using percentile_index_exact [OF assms] e by (simp only:)
  moreover have "xs \<noteq> []" using assms(1) by auto
  ultimately show ?thesis by (simp only: percentile_def if_False nat_int simp_thms)
qed

lemma percentile_mono:
  assumes "0 \<le> p" "p \<le> q" "q \<le> 100" "length xs \<le> 1000" "sorted xs"
  shows "percentile xs p \<le> percentile xs q"
proof (cases "xs = []")
  case False
  have "(length xs - 1) * nat p div 100 \<le> (length xs - 1) * nat q div 100"
    using assms by (intro div_le_mono mult_le_mono) simp_all
  then show ?thesis
    using percentile_sorted [of xs p] percentile_sorted [of xs q] assms False by (auto intro: sorted_nth_mono)
qed (simp add: percentile_def)

text \<open>C38. The percentiles a snapshot reports are order statistics of the latest latencies: with \<open>n\<close> of
  them in the window, the \<open>p\<close>-th is the one of rank \<open>(n - 1) * p div 100\<close> in sorted order, the rounding
  of the floating-point index notwithstanding, so they are in order; with none recorded they are 0.\<close>

theorem agent_percentiles:
  "let xs = sort (take_last 1000 (map fst rs)); m = agent_snapshot container now mem cpu (record_all rs);
       rank = (\<lambda>p. if xs = [] then 0 else xs ! ((length xs - 1) * p div 100))
   in cm_p50 m = rank 50 \<and> cm_p95 m = rank 95 \<and> cm_p99 m = rank 99 \<and> cm_p50 m \<le> cm_p95 m \<and> cm_p95 m \<le> cm_p99 m"
proof -
  define xs where "xs = sort (take_last 1000 (map fst rs))"
  have len: "length xs \<le> 1000" and srt: "sorted xs" by (simp_all add: xs_def)
  have p: "percentile xs (int p) = (if xs = [] then 0 else xs ! ((length xs - 1) * p div 100))" if "p \<le> 100" for p
    using percentile_sorted [of xs "int p"] len that by (auto simp: percentile_def)
  have "ag_latencies (record_all rs) = take_last 1000 (map fst rs)"
    by (induction rs rule: rev_induct)
      (auto simp: record_all_snoc agent_record_latencies maxLatencyWindow_def take_last_snoc
        record_all_def [of "[]"] newAgent_def take_last_def [of _ "[]"])
  then have "cm_p50 (agent_snapshot container now mem cpu (record_all rs)) = percentile xs 50"
    "cm_p95 (agent_snapshot container now mem cpu (record_all rs)) = percentile xs 95"
    "cm_p99 (agent_snapshot container now mem cpu (record_all rs)) = percentile xs 99"
    by (simp_all add: agent_snapshot_def Let_def xs_def)
  then show ?thesis
    using p [of 50] p [of 95] p [of 99] percentile_mono [OF _ _ _ len srt, of 50 95] percentile_mono [OF _ _ _ len srt, of 95 99]
    unfolding xs_def [symmetric] Let_def by simp
qed

text \<open>A run in which the function reports an error for its invocation.\<close>

definition error_result :: invoke_result where
  "error_result = \<lparr>ir_status = 500, ir_body = ''{}''\<rparr>"

definition error_run :: "rt_event list" where
  "error_run = [Enqueue \<lparr>iv_id = ''a'', iv_payload = ''{}'', iv_event_type = ''http'', iv_deadline = 0\<rparr>, Notify 0,
     Respond ''a'' error_result, TakeResult 0]"

lemma error_run_state:
  obtains s where "rt_next\<^sup>*\<^sup>* (rt_init 1) s" "length (rt_reqs s) = 1" "rq_phase (rt_reqs s ! 0) = Answered 200"
    "rq_chan (rt_reqs s ! 0) = Some error_result"
proof -
  have "rt_run error_run (rt_init 1) \<noteq> None \<and> length (rt_reqs (the (rt_run error_run (rt_init 1)))) = 1 \<and>
      rq_phase (rt_reqs (the (rt_run error_run (rt_init 1))) ! 0) = Answered 200 \<and>
      rq_chan (rt_reqs (the (rt_run error_run (rt_init 1))) ! 0) = Some error_result"
    by code_simp
  then show ?thesis using that rt_run_steps by (cases "rt_run error_run (rt_init 1)") auto
qed

text \<open>What the scaler's error rate is computed from never sees an error of the function itself: of the
  runtime server's answers the agent counts every 200 as a success and only refusals and timeouts as
  errors, and a 200 is also the answer that carries the status 500 of a posted error.\<close>

theorem function_errors_count_as_success:
  assumes "rt_next\<^sup>*\<^sup>* (rt_init m) s" "i < length (rt_reqs s)" "rq_phase (rt_reqs s ! i) = Answered code"
  shows "snd (proxyInvocation ''POST'' (Some body) (\<lambda>_ _. UpReply code hs out) us path a) =
      agent_record (latency_ms us) (rq_phase (rt_reqs s ! i) = Answered 200) a \<and>
    read_response ''POST'' ''/runtime/invocation/a/error'' (Some ''{}'') = Inr (''a'', error_result) \<and>
    (\<exists>t. rt_next\<^sup>*\<^sup>* (rt_init 1) t \<and> rq_phase (rt_reqs t ! 0) = Answered 200 \<and> rq_chan (rt_reqs t ! 0) = Some error_result)"
proof (intro conjI)
  have "req_ok s (rt_reqs s ! i)"
    using rt.reachable_good [OF refl assms(1)] rt_okD(2) [of s "rt_reqs s ! i"] assms(2) by auto
  then have "code = 200 \<or> code = 503 \<or> code = 504" using assms(3) by (auto simp: req_ok_def answered_def)
  then show "snd (proxyInvocation ''POST'' (Some body) (\<lambda>_ _. UpReply code hs out) us path a) =
      agent_record (latency_ms us) (rq_phase (rt_reqs s ! i) = Answered 200) a"
    using assms(3) by (auto simp: proxyInvocation_def)
  show "read_response ''POST'' ''/runtime/invocation/a/error'' (Some ''{}'') = Inr (''a'', error_result)"
    by code_simp
  show "\<exists>t. rt_next\<^sup>*\<^sup>* (rt_init 1) t \<and> rq_phase (rt_reqs t ! 0) = Answered 200 \<and> rq_chan (rt_reqs t ! 0) = Some error_result"
    by (rule error_run_state) blast
qed

theorem function_errors_count_as_success_witness:
  "\<exists>s. rt_next\<^sup>*\<^sup>* (rt_init 1) s \<and> rq_chan (rt_reqs s ! 0) = Some error_result \<and>
     snd (proxyInvocation ''POST'' (Some ''{}'') (\<lambda>_ _. UpReply 200 [] []) 5 ''/invoke'' newAgent) =
       agent_record (latency_ms 5) (rq_phase (rt_reqs s ! 0) = Answered 200) newAgent"
proof -
  obtain s where s: "rt_next\<^sup>*\<^sup>* (rt_init 1) s" "length (rt_reqs s) = 1" "rq_phase (rt_reqs s ! 0) = Answered 200"
    "rq_chan (rt_reqs s ! 0) = Some error_result" by (rule error_run_state)
  then show ?thesis
    using function_errors_count_as_success [OF s(1) _ s(3), of "''{}''" "[]" "[]" 5 "''/invoke''" newAgent] by auto
qed

section \<open>The id in the control group file\<close>

lemma index_of_at:
  "\<forall>j < length a. \<not> has_prefix (drop j (a @ p @ b)) p \<Longrightarrow> index_of (a @ p @ b) p = Some (length a)"
proof (induction a)
  case Nil
  then show ?case by (cases "p @ b") (auto, metis prefixI)
next
  case (Cons x a)
  have "\<not> has_prefix (x # a @ p @ b) p" using Cons.prems by (metis append_Cons drop0 length_Cons zero_less_Suc)
  moreover have "\<forall>j < length a. \<not> has_prefix (drop j (a @ p @ b)) p"
    using Cons.prems by (metis Suc_less_eq append_Cons drop_Suc_Cons length_Cons)
  ultimately show ?case using Cons.IH by simp
qed

lemma has_prefix_nth: "has_prefix (drop j s) p \<Longrightarrow> i < length p \<Longrightarrow> j \<le> length s \<Longrightarrow> j + i < length s \<and> s ! (j + i) = p ! i"
  by (auto simp: prefix_def) (metis append_take_drop_id drop_eq_Nil2 length_append length_drop less_diff_conv linorder_not_less
    nth_append nth_drop add.commute trans_less_add1)+

text \<open>A text that ends with a byte which occurs neither in it before nor in front of it.\<close>

lemma index_of_ends:
  assumes "c \<notin> set a" "c \<notin> set q"
  shows "index_of (a @ (q @ [c]) @ b) (q @ [c]) = Some (length a)"
proof (rule index_of_at, intro allI impI notI)
  fix j
  assume j: "j < length a" "has_prefix (drop j (a @ (q @ [c]) @ b)) (q @ [c])"
  then have "(a @ (q @ [c]) @ b) ! (j + length q) = c"
    using has_prefix_nth [OF j(2), of "length q"] by (simp add: nth_append)
  moreover have "(a @ (q @ [c]) @ b) ! (j + length q) = (a @ q) ! (j + length q)"
    using j(1) nth_append [of "a @ q" "c # b" "j + length q"] by simp
  moreover have "(a @ q) ! (j + length q) \<in> set (a @ q)" using j(1) by (intro nth_mem) simp
  ultimately show False using assms by simp
qed

lemma index_of_starts:
  assumes "c \<notin> set a"
  shows "index_of (a @ (c # q) @ b) (c # q) = Some (length a)"
proof (rule index_of_at, intro allI impI notI)
  fix j
  assume j: "j < length a" "has_prefix (drop j (a @ (c # q) @ b)) (c # q)"
  then have "a ! j = c" using has_prefix_nth [OF j(2), of 0] by (simp add: nth_append)
  then show False using assms nth_mem [OF j(1)] by simp
qed

lemma index_of_absent: "c \<in> set p \<Longrightarrow> c \<notin> set s \<Longrightarrow> index_of s p = None"
proof (induction s p rule: index_of.induct)
  case (2 d cs p)
  have "\<not> has_prefix (d # cs) p" using 2(2,3) set_mono_prefix by blast
  then show ?case using 2 by simp
qed auto

text \<open>The two forms of a line that names a container: under systemd with the second version of the
  control groups, and below \<open>/docker\<close> with the first.\<close>

lemma cgroup_scope:
  assumes "CHR ''-'' \<notin> set pre" "CHR ''.'' \<notin> set i"
  shows "cgroup_id (pre @ ''docker-'' @ i @ ''.scope'') = Some i"
  using index_of_ends [OF assms(1), of "''docker''" "i @ ''.scope''"] index_of_starts [OF assms(2), of "''scope''" "[]"]
  by (simp add: cgroup_id_def Let_def)

lemma cgroup_docker:
  assumes "CHR ''-'' \<notin> set (hier @ i)" "CHR ''/'' \<notin> set (hier @ i)" "length i = 64"
  shows "cgroup_id (hier @ ''/docker/'' @ i) = Some i"
proof -
  have "index_of (hier @ ''/docker/'' @ i) ''docker-'' = None"
    using assms(1) by (intro index_of_absent [of "CHR ''-''"]) auto
  moreover have "split_on CHR ''/'' (hier @ CHR ''/'' # ''docker'' @ CHR ''/'' # i) = [hier, ''docker'', i]"
    using assms(2) split_on_append [of "CHR ''/''" hier "''docker'' @ CHR ''/'' # i"] split_on_append [of "CHR ''/''" "''docker''" i]
      split_on_nochar [of "CHR ''/''" i] by simp
  ultimately show ?thesis using assms(3) by (simp add: cgroup_id_def Let_def)
qed

lemma first_cgroup_id_split:
  assumes "\<forall>u \<in> set us. CHR 0x0A \<notin> set u \<and> cgroup_id u = None" "CHR 0x0A \<notin> set l" "cgroup_id l = Some i"
  shows "selfContainerID (Some (concat (map (\<lambda>u. u @ [CHR 0x0A]) us) @ l @ CHR 0x0A # rest)) = i"
  using assms by (induction us) (simp_all add: selfContainerID_def split_on_append)

end
