(* ===== verification/Json_Codec.thy ===== *)
theory Json_Codec
  imports Runtime_Server Gateway_Http
begin

text \<open>
  What encoding/json does on the way of an invocation, on top of the scanner of Wire_Text: reading
  the first value of a stream (\<open>Decoder.readValue\<close>), taking an object apart into its members
  (\<open>decodeState.object\<close>) and matching their names with the fields of a struct, and writing a
  \<open>RawMessage\<close> inside another value (\<open>appendCompact\<close> with HTML escaping). The last part shows that
  a compacted value can be read back as a member of an object.
\<close>

section \<open>The first value of a stream\<close>

text \<open>The states in which a number or a string at the top level may end; a byte that does not
  continue the value ends it, whatever it is.\<close>

definition json_ended :: "json_state \<Rightarrow> bool" where
  "json_ended st \<longleftrightarrow> st \<in> {NumInt, NumZero, NumFrac, NumExpDigits, EndValue}"

datatype first_scan = ValueDone string | ValueAtEnd string | ValueOpen | ValueBad

fun first_value :: "json_scanner \<Rightarrow> string \<Rightarrow> string \<Rightarrow> first_scan" where
  "first_value (st, stack) acc [] = (if stack = [] \<and> json_ended st then ValueAtEnd acc else ValueOpen)"
| "first_value (st, stack) acc (c # cs) =
     (let (st', stack') = json_step (st, stack) c in
      if stack = [] \<and> json_ended st \<and> st' \<in> {ScanError, EndTop} then ValueDone acc
      else if st' = ScanError then ValueBad
      else
        let acc = (if stack = [] \<and> st = BeginValue \<and> json_space c then acc else acc @ [c])
        in if st' = EndTop then ValueDone acc else first_value (st', stack') acc cs)"

text \<open>\<open>json.NewDecoder(r.Body).Decode\<close> into a \<open>RawMessage\<close> when the body is cut off by
  \<open>http.MaxBytesReader\<close>: the limit is an error only when the value is not complete before it.\<close>

definition decode_raw :: "int \<Rightarrow> string \<Rightarrow> body_read" where
  "decode_raw limit body =
     (let n = nat limit; over = length body > n in
      case first_value (BeginValue, []) [] (take n body) of
        ValueDone v \<Rightarrow> BodyJson v
      | ValueAtEnd v \<Rightarrow> if over then BodyTooLarge else BodyJson v
      | ValueOpen \<Rightarrow> if over then BodyTooLarge else BodyInvalid
      | ValueBad \<Rightarrow> BodyInvalid)"

section \<open>The members of an object\<close>

text \<open>The text after the opening brace: the raw name that was read, the raw text so far and the
  members so far. White space between names, values and separators is dropped, all other bytes
  are kept.\<close>

fun json_members ::
  "json_scanner \<Rightarrow> string \<Rightarrow> string \<Rightarrow> (string \<times> string) list \<Rightarrow> string \<Rightarrow> (string \<times> string) list option" where
  "json_members (st, stack) key cur ms [] = None"
| "json_members (st, stack) key cur ms (c # cs) =
     (let (st', stack') = json_step (st, stack) c in
      if st' = ScanError then None
      else if stack' = [] then Some (if key = [] then ms else ms @ [(key, cur)])
      else if stack = [InObjectKey] \<and> stack' = [InObjectValue] then json_members (st', stack') cur [] ms cs
      else if stack = [InObjectValue] \<and> stack' = [InObjectKey] then json_members (st', stack') [] [] (ms @ [(key, cur)]) cs
      else if tl stack = [] \<and> json_space c \<and> st \<noteq> InString then json_members (st', stack') key cur ms cs
      else json_members (st', stack') key (cur @ [c]) ms cs)"

section \<open>Names of members\<close>

text \<open>The bytes of a rune below \<open>0x10000\<close> in UTF-8. The halves of surrogate pairs are treated like
  other runes; what stands for them has bytes from 128 on, which no field name has.\<close>

definition utf8 :: "nat \<Rightarrow> string" where
  "utf8 r =
     (if r < 128 then [char_of r]
      else if r < 2048 then [char_of (192 + r div 64), char_of (128 + r mod 64)]
      else [char_of (224 + r div 4096), char_of (128 + r div 64 mod 64), char_of (128 + r mod 64)])"

definition hex_or_zero :: "char \<Rightarrow> nat" where
  "hex_or_zero c = (case hex_value c of None \<Rightarrow> 0 | Some n \<Rightarrow> n)"

definition simple_escape :: "char \<Rightarrow> char" where
  "simple_escape c =
     (if c = CHR ''b'' then CHR 0x08 else if c = CHR ''f'' then CHR 0x0C else if c = CHR ''n'' then CHR 0x0A
      else if c = CHR ''r'' then CHR 0x0D else if c = CHR ''t'' then CHR 0x09 else c)"

text \<open>The inside of a string that the scanner has accepted.\<close>

function json_unescape :: "string \<Rightarrow> string" where
  "json_unescape s =
     (case s of
        [] \<Rightarrow> []
      | c # cs \<Rightarrow>
          if c \<noteq> CHR 0x5C then c # json_unescape cs
          else case cs of
                 [] \<Rightarrow> []
               | e # rest \<Rightarrow>
                   if e \<noteq> CHR ''u'' then simple_escape e # json_unescape rest
                   else utf8 (foldl (\<lambda>n h. 16 * n + hex_or_zero h) 0 (take 4 rest)) @ json_unescape (drop 4 rest))"
  by pat_completeness auto
termination by (relation "measure length") auto

declare json_unescape.simps [simp del]

definition json_unquote :: "string \<Rightarrow> string" where
  "json_unquote raw = json_unescape (butlast (drop 1 raw))"

text \<open>\<open>foldName\<close>: upper case for ASCII; of the other runes only the long s (U+017F) and the Kelvin
  sign fold to a letter of ASCII.\<close>

definition upper_char :: "char \<Rightarrow> char" where
  "upper_char c = (if is_lower c then char_of (of_char c - (32::nat)) else c)"

function fold_name :: "string \<Rightarrow> string" where
  "fold_name [] = []"
| "fold_name (c # cs) =
     (if has_prefix (c # cs) kelvin_sign then CHR ''K'' # fold_name (drop 2 cs)
      else if has_prefix (c # cs) [CHR 0xC5, CHR 0xBF] then CHR ''S'' # fold_name (drop 1 cs)
      else upper_char c # fold_name cs)"
  by pat_completeness auto
termination by (relation "measure length") auto

section \<open>The answer of a container\<close>

text \<open>\<open>InvokeResponse\<close> in router.go, decoded: a member whose name is neither field's is skipped, a
  status that is no integer of 64 bits is an error that is reported when the object has been read,
  \<open>null\<close> leaves the status as it is, and the body is the member's raw text.\<close>

definition store_status :: "string \<Rightarrow> int \<times> string \<times> bool \<Rightarrow> int \<times> string \<times> bool" where
  "store_status raw = (\<lambda>(status, body, ok).
     if raw \<noteq> [] \<and> hd raw = CHR ''n'' then (status, body, ok)
     else if raw \<noteq> [] \<and> (hd raw = CHR ''-'' \<or> is_digit (hd raw)) then
       (case atoi raw of (n, None) \<Rightarrow> (n, body, ok) | (_, Some _) \<Rightarrow> (status, body, False))
     else (status, body, False))"

definition store_member :: "string \<times> string \<Rightarrow> int \<times> string \<times> bool \<Rightarrow> int \<times> string \<times> bool" where
  "store_member m = (\<lambda>(status, body, ok).
     let name = fold_name (json_unquote (fst m)) in
     if name = ''STATUSCODE'' then store_status (snd m) (status, body, ok)
     else if name = ''BODY'' then (status, snd m, ok)
     else (status, body, ok))"

definition decode_object :: "string \<Rightarrow> call_result" where
  "decode_object raw =
     (case json_members (BeginStringOrEmpty, [InObjectKey]) [] [] [] (drop 1 raw) of
        None \<Rightarrow> BadJson
      | Some ms \<Rightarrow>
          (case fold store_member ms (0, [], True) of (status, body, ok) \<Rightarrow> if ok then Answer status body else BadJson))"

definition decode_value :: "string \<Rightarrow> call_result" where
  "decode_value raw =
     (if raw \<noteq> [] \<and> hd raw = CHR ''{'' then decode_object raw
      else if raw = ''null'' then Answer 0 [] else BadJson)"

definition decode_InvokeResponse :: "string \<Rightarrow> call_result" where
  "decode_InvokeResponse body =
     (case first_value (BeginValue, []) [] body of
        ValueDone raw \<Rightarrow> decode_value raw
      | ValueAtEnd raw \<Rightarrow> decode_value raw
      | ValueOpen \<Rightarrow> BadJson
      | ValueBad \<Rightarrow> BadJson)"

section \<open>Writing a raw value\<close>

text \<open>\<open>appendCompact\<close> with HTML escaping: white space outside strings goes, \<open><\<close>, \<open>>\<close>, \<open>&\<close> and the
  separators U+2028 and U+2029 (E2 80 A8 and E2 80 A9) are escaped.\<close>

definition html_char :: "char \<Rightarrow> bool" where
  "html_char c \<longleftrightarrow> c = CHR ''<'' \<or> c = CHR ''>'' \<or> c = CHR ''&''"

definition html_escape :: "char \<Rightarrow> string" where
  "html_escape c = CHR 0x5C # ''u00'' @ [hex_low (of_char c div 16), hex_low (of_char c)]"

definition line_separator :: "string \<Rightarrow> bool" where
  "line_separator s \<longleftrightarrow> take 3 s \<in> {[CHR 0xE2, CHR 0x80, CHR 0xA8], [CHR 0xE2, CHR 0x80, CHR 0xA9]}"

function compact_from :: "json_scanner \<Rightarrow> string \<Rightarrow> string" where
  "compact_from sc [] = []"
| "compact_from sc (c # cs) =
     (if line_separator (c # cs)
      then CHR 0x5C # ''u202'' @ [hex_low (of_char (cs ! 1))] @ compact_from (json_run sc (take 3 (c # cs))) (drop 2 cs)
      else (if html_char c then html_escape c else if json_space c \<and> fst sc \<noteq> InString then [] else [c]) @
           compact_from (json_step sc c) cs)"
  by pat_completeness auto
termination by (relation "measure (length \<circ> snd)") auto

definition json_compact :: "string \<Rightarrow> string" where
  "json_compact s = compact_from (BeginValue, []) s"

text \<open>What \<open>handleInvocation\<close> writes for a result: a map with its names in order, and a line feed.\<close>

definition encode_result :: "invoke_result \<Rightarrow> string" where
  "encode_result r =
     ''{'' @ json_string ''body'' @ '':'' @ json_compact (ir_body r) @ '','' @ json_string ''statusCode'' @ '':'' @
     itoa (ir_status r) @ ''}'' @ [CHR 0x0A]"

definition encode_timeout :: string where
  "encode_timeout = ''{'' @ json_string ''error'' @ '':'' @ json_string ''function timeout'' @ ''}'' @ [CHR 0x0A]"

text \<open>The greatest number of open brackets in a text.\<close>

fun max_depth :: "json_scanner \<Rightarrow> string \<Rightarrow> nat" where
  "max_depth sc [] = length (snd sc)"
| "max_depth sc (c # cs) = max (length (snd sc)) (max_depth (json_step sc c) cs)"

definition json_depth :: "string \<Rightarrow> nat" where
  "json_depth s = max_depth (BeginValue, []) s"

section \<open>Compacting keeps the scanner's course\<close>

definition scan_ok :: "json_scanner \<Rightarrow> bool" where
  "scan_ok sc =
     (case fst sc of
        EndTop \<Rightarrow> snd sc = []
      | BeginStringOrEmpty \<Rightarrow> snd sc \<noteq> []
      | InLiteral ls \<Rightarrow> ls \<noteq> [] \<and> set ls \<subseteq> set ''aelrsu''
      | _ \<Rightarrow> True)"

lemmas json_step_defs = json_begin_value_def json_end_value_def json_begin_string_def json_push_def json_pop_def

lemma scan_ok_start: "scan_ok (BeginValue, [])"
  by (simp add: scan_ok_def)

lemma scan_ok_begin: "scan_ok (json_begin_value stack c)"
  by (simp add: json_begin_value_def json_push_def scan_ok_def)

lemma scan_ok_end: "scan_ok (json_end_value stack c)"
  by (cases stack; cases "hd stack") (simp_all add: json_end_value_def json_pop_def scan_ok_def)

lemma scan_ok_string: "scan_ok (json_begin_string stack c)"
  by (simp add: json_begin_string_def scan_ok_def)

lemma scan_ok_step: "scan_ok sc \<Longrightarrow> scan_ok (json_step sc c)"
  by (cases "(sc, c)" rule: json_step.cases; simp add: scan_ok_begin scan_ok_end scan_ok_string; simp add: scan_ok_def)

lemma scan_ok_run: "scan_ok sc \<Longrightarrow> scan_ok (json_run sc s)"
  by (induction s arbitrary: sc) (simp_all add: scan_ok_step)

lemma json_run_error: "json_run (ScanError, stack) s = (ScanError, stack)"
  by (induction s) simp_all

lemma json_run_ok_step: "fst (json_run sc (c # cs)) \<noteq> ScanError \<Longrightarrow> fst (json_step sc c) \<noteq> ScanError"
  by (cases "json_step sc c") (auto simp: json_run_error)

definition same_scan :: "json_scanner \<Rightarrow> json_scanner \<Rightarrow> bool" where
  "same_scan cs os \<longleftrightarrow> snd cs = snd os \<and>
     (fst cs = fst os \<or> json_ended (fst cs) \<and> (fst os = EndValue \<or> fst os = EndTop \<and> snd os = []))"

lemma same_scan_refl: "same_scan sc sc"
  by (simp add: same_scan_def)

lemma space_char:
  assumes "json_space c"
  shows "\<not> is_digit c" "\<not> hex_char c" "c \<notin> set ''{}[],:-+.eE0tfnuaelrs''" "c \<notin> set (CHR 0x22 # CHR 0x5C # ''bfnrt/'')"
  using assms by (auto simp: json_space_def is_digit_def hex_char_def hex_value_def)

lemma same_scan_space:
  assumes "same_scan cs os" "json_space c" "fst os \<noteq> InString" "fst (json_step os c) \<noteq> ScanError" "scan_ok os"
  shows "same_scan cs (json_step os c)"
proof -
  obtain ost stack where os: "os = (ost, stack)" by fastforce
  obtain cst where cs: "cs = (cst, stack)" using assms(1) os by (cases cs) (simp add: same_scan_def)
  have fin: "json_end_value stack c = (if stack = [] then EndTop else EndValue, stack)"
    "json_begin_value stack c = (BeginValue, stack)" "json_begin_string stack c = (BeginString, stack)"
    using assms(2) by (cases stack; simp add: json_end_value_def json_begin_value_def json_begin_string_def)+
  show ?thesis
    using assms(1,3-) space_char [OF assms(2)] unfolding os cs
    by (cases "((ost, stack), c)" rule: json_step.cases) (auto simp: assms(2) fin same_scan_def json_ended_def scan_ok_def)
qed

lemma ended_step:
  assumes "json_ended st" "fst (json_end_value stack c) \<noteq> ScanError" "\<not> json_space c"
  shows "json_step (st, stack) c = json_end_value stack c"
proof -
  have "c = CHR '':'' \<or> c = CHR '','' \<or> c = CHR ''}'' \<or> c = CHR '']''"
    using assms(2,3) by (auto simp: json_end_value_def split: list.splits json_ctx.splits if_splits)
  then show ?thesis using assms(1) by (auto simp: json_ended_def is_digit_def)
qed

lemma same_scan_step:
  assumes "same_scan cs os" "\<not> json_space c \<or> fst os = InString" "fst (json_step os c) \<noteq> ScanError"
  shows "same_scan (json_step cs c) (json_step os c)"
proof (cases "fst cs = fst os")
  case True
  then have "cs = os" using assms(1) by (simp add: same_scan_def prod_eq_iff)
  then show ?thesis by (simp add: same_scan_refl)
next
  case False
  then obtain cst stack ost where sc: "cs = (cst, stack)" "os = (ost, stack)" "json_ended cst" "ost = EndValue \<or> ost = EndTop"
    using assms(1) by (cases cs; cases os) (auto simp: same_scan_def)
  then have c: "\<not> json_space c" "ost = EndValue" using assms(2,3) by auto
  then show ?thesis using ended_step [OF sc(3) _ c(1), of stack] assms(3) sc by (simp add: same_scan_refl)
qed

fun json_tight :: "json_scanner \<Rightarrow> string \<Rightarrow> bool" where
  "json_tight sc [] = True"
| "json_tight sc (c # cs) = ((json_space c \<longrightarrow> fst sc = InString) \<and> json_tight (json_step sc c) cs)"

lemma json_tight_append: "json_tight sc (s @ t) \<longleftrightarrow> json_tight sc s \<and> json_tight (json_run sc s) t"
  by (induction s arbitrary: sc) auto

lemma max_depth_append: "max_depth sc (s @ t) = max (max_depth sc s) (max_depth (json_run sc s) t)"
proof (induction s arbitrary: sc)
  case Nil
  have "length (snd sc) \<le> max_depth sc t" by (cases t) auto
  then show ?case by simp
qed auto

text \<open>Only inside a string can a byte stand that is escaped.\<close>

lemma special_char:
  assumes "html_char c \<or> c = CHR 0xE2"
  shows "\<not> json_space c" "\<not> is_digit c" "\<not> hex_char c" "c \<noteq> CHR 0x22" "c \<notin> set (CHR 0x22 # CHR 0x5C # ''bfnrt/'')"
    "c \<notin> set ''{}[],:-+.eE0tfnuaelrs''"
  using assms by (auto simp: html_char_def json_space_def is_digit_def hex_char_def hex_value_def)

lemma special_end: "html_char c \<or> c = CHR 0xE2 \<Longrightarrow> fst (json_end_value stack c) = ScanError"
  using special_char [of c] by (auto simp: json_end_value_def split: list.split json_ctx.split)

lemma special_begin: "html_char c \<or> c = CHR 0xE2 \<Longrightarrow> fst (json_begin_value stack c) = ScanError"
  using special_char [of c] by (auto simp: json_begin_value_def)

lemma special_in_string:
  assumes "fst (json_step sc c) \<noteq> ScanError" "html_char c \<or> c = CHR 0xE2" "scan_ok sc"
  shows "fst sc = InString"
  using assms(1,3) special_char [OF assms(2)] special_end [OF assms(2)] special_begin [OF assms(2)]
  by (cases "(sc, c)" rule: json_step.cases) (auto simp: json_begin_string_def scan_ok_def)

lemma hex_escape_run:
  assumes "hex_char a" "hex_char b"
  shows "json_run (InString, stack) (CHR 0x5C # ''u00'' @ [a, b]) = (InString, stack)"
    "json_tight (InString, stack) (CHR 0x5C # ''u00'' @ [a, b])"
    "max_depth (InString, stack) (CHR 0x5C # ''u00'' @ [a, b]) = length stack"
proof -
  have "hex_char CHR ''0''" "\<not> json_space a" "\<not> json_space b"
    using assms by (auto simp: json_space_def hex_char_def hex_value_def is_digit_def)
  then show "json_run (InString, stack) (CHR 0x5C # ''u00'' @ [a, b]) = (InString, stack)"
    "json_tight (InString, stack) (CHR 0x5C # ''u00'' @ [a, b])"
    "max_depth (InString, stack) (CHR 0x5C # ''u00'' @ [a, b]) = length stack"
    using assms by (simp_all add: json_space_def)
qed

lemma separator_escape_run:
  assumes "hex_char a"
  shows "json_run (InString, stack) (CHR 0x5C # ''u202'' @ [a]) = (InString, stack)"
    "json_tight (InString, stack) (CHR 0x5C # ''u202'' @ [a])"
    "max_depth (InString, stack) (CHR 0x5C # ''u202'' @ [a]) = length stack"
proof -
  have "hex_char CHR ''2''" "hex_char CHR ''0''" "\<not> json_space a"
    using assms by (auto simp: json_space_def hex_char_def hex_value_def is_digit_def)
  then show "json_run (InString, stack) (CHR 0x5C # ''u202'' @ [a]) = (InString, stack)"
    "json_tight (InString, stack) (CHR 0x5C # ''u202'' @ [a])"
    "max_depth (InString, stack) (CHR 0x5C # ''u202'' @ [a]) = length stack"
    using assms by (simp_all add: json_space_def)
qed

lemma in_string_same: "same_scan cs os \<Longrightarrow> fst os = InString \<Longrightarrow> cs = os"
  by (auto simp: same_scan_def prod_eq_iff)

lemma max_depth_ge: "length (snd sc) \<le> max_depth sc s"
  by (cases s) auto

text \<open>The compacted text brings the scanner to the state that the text brings it to, up to white
  space after a value, has no white space outside strings, and opens no more brackets.\<close>

lemma compact_from_run:
  assumes "fst (json_run os s) \<noteq> ScanError" "same_scan cs os" "scan_ok os"
  shows "same_scan (json_run cs (compact_from os s)) (json_run os s) \<and> json_tight cs (compact_from os s) \<and>
    max_depth cs (compact_from os s) \<le> max_depth os s"
  using assms
proof (induction os s arbitrary: cs rule: compact_from.induct)
  case (1 os)
  then show ?case by (simp add: same_scan_def)
next
  case (2 os c rest)
  have ok: "fst (json_step os c) \<noteq> ScanError" by (rule json_run_ok_step [OF "2.prems"(1)])
  show ?case
  proof (cases "line_separator (c # rest)")
    case True
    define l where "l = rest ! 1"
    from True obtain rest' where s: "c = CHR 0xE2" "rest = CHR 0x80 # l # rest'" "l = CHR 0xA8 \<or> l = CHR 0xA9"
      unfolding line_separator_def l_def
      by (cases rest; cases "tl rest") auto
    have st: "fst os = InString" by (rule special_in_string [OF ok _ "2.prems"(3)]) (simp add: s(1))
    then obtain stack where os: "os = (InString, stack)" by (cases os) simp
    have cs: "cs = os" by (rule in_string_same [OF "2.prems"(2) st])
    have run3: "json_run os (take 3 (c # rest)) = os" using s by (auto simp: os)
    have "fst (json_run os rest') \<noteq> ScanError" using "2.prems"(1) s by (auto simp: os)
    then have IH: "same_scan (json_run os (compact_from os rest')) (json_run os rest')"
      "json_tight os (compact_from os rest')" "max_depth os (compact_from os rest') \<le> max_depth os rest'"
      using "2.IH"(1) [OF True, of os] "2.prems"(3) run3 s by (simp_all add: same_scan_refl)
    have h: "hex_char (hex_low (of_char (rest ! 1)))" by (rule hex_low_hex)
    have c: "compact_from os (c # rest) = (CHR 0x5C # ''u202'' @ [hex_low (of_char (rest ! 1))]) @ compact_from os rest'"
      using True run3 s by simp
    have "json_run os (c # rest) = json_run os rest'" "max_depth os (c # rest) = max_depth os rest'"
      using s max_depth_ge [of os rest'] by (auto simp: os max_def)
    then show ?thesis
      unfolding c cs using IH separator_escape_run [OF h, of stack] max_depth_ge [of os rest']
      by (simp only: json_run_append json_tight_append max_depth_append os) simp
  next
    case no: False
    show ?thesis
    proof (cases "html_char c")
      case True
      have st: "fst os = InString" by (rule special_in_string [OF ok _ "2.prems"(3)]) (simp add: True)
      then obtain stack where os: "os = (InString, stack)" by (cases os) simp
      have cs: "cs = os" by (rule in_string_same [OF "2.prems"(2) st])
      have step: "json_step os c = os" using special_char [of c] True by (auto simp: os html_char_def)
      have IH: "same_scan (json_run os (compact_from os rest)) (json_run os rest)"
        "json_tight os (compact_from os rest)" "max_depth os (compact_from os rest) \<le> max_depth os rest"
        using "2.IH"(2) [OF no, of os] "2.prems"(1,3) step by (simp_all add: same_scan_refl)
      have c: "compact_from os (c # rest) = html_escape c @ compact_from os rest"
        using no True step by simp
      show ?thesis
        unfolding c cs html_escape_def
        using IH hex_escape_run [OF hex_low_hex hex_low_hex, of stack] max_depth_ge [of os rest] step
        by (simp only: json_run_append json_tight_append max_depth_append os) simp
    next
      case plain: False
      have next_ok: "scan_ok (json_step os c)" by (rule scan_ok_step [OF "2.prems"(3)])
      show ?thesis
      proof (cases "json_space c \<and> fst os \<noteq> InString")
        case True
        have "same_scan cs (json_step os c)"
          using same_scan_space [OF "2.prems"(2) _ _ ok "2.prems"(3)] True by blast
        then show ?thesis
          using "2.IH"(2) [OF no, of cs] "2.prems"(1) next_ok no plain True by (auto simp: max_def)
      next
        case False
        have "same_scan (json_step cs c) (json_step os c)"
          using same_scan_step [OF "2.prems"(2) _ ok] False by blast
        moreover have "fst cs = InString" if "json_space c"
          using in_string_same [OF "2.prems"(2)] False that by blast
        moreover have "snd cs = snd os" using "2.prems"(2) by (simp add: same_scan_def)
        ultimately show ?thesis
          using "2.IH"(2) [OF no, of "json_step cs c"] "2.prems"(1) next_ok no plain False by (auto simp: max_def)
      qed
    qed
  qed
qed

section \<open>A value inside another\<close>

definition framed :: "json_ctx list \<Rightarrow> json_scanner \<Rightarrow> json_scanner" where
  "framed base sc = (if fst sc = EndTop then EndValue else fst sc, snd sc @ base)"

lemma framed_end:
  assumes "fst (json_end_value stack c) \<noteq> ScanError" "base \<noteq> []"
  shows "json_end_value (stack @ base) c = framed base (json_end_value stack c)"
  using assms
  by (cases stack; cases base; cases "hd stack") (auto simp: framed_def json_end_value_def json_pop_def)

lemma framed_begin:
  assumes "fst (json_begin_value stack c) \<noteq> ScanError"
    "length (snd (json_begin_value stack c)) + length base \<le> max_nesting"
  shows "json_begin_value (stack @ base) c = framed base (json_begin_value stack c)"
  using assms by (auto simp: framed_def json_begin_value_def json_push_def split: if_splits)

lemma framed_step:
  assumes "fst (json_step sc c) \<noteq> ScanError" "scan_ok sc" "base \<noteq> []"
    "length (snd (json_step sc c)) + length base \<le> max_nesting"
  shows "json_step (framed base sc) c = framed base (json_step sc c)"
proof -
  have sp: "json_end_value base c = (EndValue, base)" if "json_space c"
    using that assms(3) by (cases base) (simp_all add: json_end_value_def)
  show ?thesis
    using assms framed_end [of "snd sc" c base] framed_begin [of "snd sc" c base]
      framed_end [of "InObjectValue # tl (snd sc)" c base] sp
    by (cases "(sc, c)" rule: json_step.cases)
      (auto simp: framed_def json_begin_string_def scan_ok_def)
qed

lemma max_depth_step: "max_depth sc (c # s) + n \<le> m \<Longrightarrow> length (snd (json_step sc c)) + n \<le> m"
  using max_depth_ge [of "json_step sc c" s] by simp

lemma framed_snd: "base \<noteq> [] \<Longrightarrow> snd (framed base sc) \<noteq> []" "fst (framed base sc) \<noteq> EndTop"
  by (simp_all add: framed_def)

text \<open>The readers pass over a value that stands inside an object.\<close>

lemma first_value_framed:
  assumes "fst (json_run sc s) \<noteq> ScanError" "scan_ok sc" "base \<noteq> []" "max_depth sc s + length base \<le> max_nesting"
  shows "first_value (framed base sc) acc (s @ rest) =
    first_value (framed base (json_run sc s)) (acc @ s) rest"
  using assms
proof (induction s arbitrary: sc acc)
  case (Cons c s)
  have ok: "fst (json_step sc c) \<noteq> ScanError" by (rule json_run_ok_step [OF Cons.prems(1)])
  have st: "json_step (framed base sc) c = framed base (json_step sc c)"
    by (rule framed_step [OF ok Cons.prems(2,3) max_depth_step [OF Cons.prems(4)]])
  obtain st1 stk1 where f: "framed base sc = (st1, stk1)" "stk1 \<noteq> []"
    using framed_snd(1) [OF assms(3), of sc] by (cases "framed base sc") simp
  obtain st2 stk2 where f': "framed base (json_step sc c) = (st2, stk2)" "st2 \<noteq> EndTop" "st2 \<noteq> ScanError"
    using framed_snd(2) [of base "json_step sc c"] ok by (cases "framed base (json_step sc c)") (auto simp: framed_def)
  have "first_value (framed base sc) acc (c # s @ rest) = first_value (framed base (json_step sc c)) (acc @ [c]) (s @ rest)"
    using st f f' by simp
  then show ?case
    using Cons.IH [of "json_step sc c" "acc @ [c]"] Cons.prems scan_ok_step [OF Cons.prems(2)] by simp
qed simp

lemma json_members_framed:
  assumes "fst (json_run sc s) \<noteq> ScanError" "scan_ok sc" "json_tight sc s" "max_depth sc s + 1 \<le> max_nesting"
  shows "json_members (framed [InObjectValue] sc) key cur ms (s @ rest) =
    json_members (framed [InObjectValue] (json_run sc s)) key (cur @ s) ms rest"
  using assms
proof (induction s arbitrary: sc cur)
  case (Cons c s)
  have ok: "fst (json_step sc c) \<noteq> ScanError" by (rule json_run_ok_step [OF Cons.prems(1)])
  have st: "json_step (framed [InObjectValue] sc) c = framed [InObjectValue] (json_step sc c)"
    by (rule framed_step [OF ok Cons.prems(2)]) (use max_depth_step [of sc c s 1] Cons.prems(4) in simp_all)
  obtain st1 stk1 where f: "framed [InObjectValue] sc = (st1, stk1 @ [InObjectValue])" "json_space c \<longrightarrow> st1 = InString"
    using Cons.prems(3) by (auto simp: framed_def)
  obtain st2 stk2 where f': "framed [InObjectValue] (json_step sc c) = (st2, stk2 @ [InObjectValue])" "st2 \<noteq> ScanError"
    using ok by (auto simp: framed_def)
  have "json_members (framed [InObjectValue] sc) key cur ms (c # s @ rest) =
      json_members (framed [InObjectValue] (json_step sc c)) key (cur @ [c]) ms (s @ rest)"
    using st f f' by (cases stk1; cases stk2) auto
  then show ?case
    using Cons.IH [of "json_step sc c" "cur @ [c]"] Cons.prems scan_ok_step [OF Cons.prems(2)] by simp
qed simp

lemma valid_ended:
  assumes "json_valid b" "sc = json_run (BeginValue, []) b"
  shows "fst sc \<noteq> ScanError" "snd sc = []" "fst sc = EndTop \<or> json_ended (fst sc)"
proof -
  have ok: "scan_ok sc" unfolding assms(2) by (rule scan_ok_run [OF scan_ok_start])
  have e: "fst (json_step sc CHR '' '') = EndTop" using assms by (simp add: json_valid_def)
  have sp: "json_space CHR '' ''" by (simp add: json_space_def)
  have fin: "json_end_value stack CHR '' '' = (if stack = [] then EndTop else EndValue, stack)"
    "json_begin_value stack CHR '' '' = (BeginValue, stack)" "json_begin_string stack CHR '' '' = (BeginString, stack)" for stack
    using sp by (cases stack; simp add: json_end_value_def json_begin_value_def json_begin_string_def)+
  show "fst sc \<noteq> ScanError" using e by (cases sc) auto
  show "snd sc = []" "fst sc = EndTop \<or> json_ended (fst sc)"
    using e ok
    by (cases "(sc, CHR '' '')" rule: json_step.cases;
        auto simp: fin sp json_ended_def is_digit_def hex_char_def hex_value_def scan_ok_def split: if_splits)+
qed

text \<open>A compacted value in an object's member: the scanner runs over it and stands at its end.\<close>

lemma compact_run:
  assumes "json_valid b" "json_depth b < max_nesting"
  obtains sc where "json_run (BeginValue, []) (json_compact b) = sc" "json_ended (fst (framed base sc))" "snd sc = []"
    "fst sc \<noteq> ScanError" "json_tight (BeginValue, []) (json_compact b)"
    "max_depth (BeginValue, []) (json_compact b) + 1 \<le> max_nesting"
proof -
  define os where "os = json_run (BeginValue, []) b"
  note os = valid_ended [OF assms(1) os_def]
  define cs where "cs = json_run (BeginValue, []) (json_compact b)"
  have run: "same_scan cs os" "json_tight (BeginValue, []) (json_compact b)"
    "max_depth (BeginValue, []) (json_compact b) \<le> json_depth b"
    using compact_from_run [of "(BeginValue, [])" b "(BeginValue, [])"] os(1) scan_ok_start
    by (simp_all add: cs_def os_def json_compact_def json_depth_def same_scan_refl)
  show ?thesis
  proof (rule that [of cs])
    show "json_run (BeginValue, []) (json_compact b) = cs" by (simp add: cs_def)
    show "json_ended (fst (framed base cs))" "snd cs = []" "fst cs \<noteq> ScanError"
      using run(1) os by (auto simp: same_scan_def framed_def json_ended_def)
  qed (use run assms(2) in simp_all)
qed

lemma ended_separator:
  assumes "json_ended st" "c = CHR '','' \<or> c = CHR ''}''"
  shows "json_step (st, stack) c = json_end_value stack c"
  using assms by (auto simp: json_ended_def is_digit_def)

lemma status_text: "itoa 200 = ''200''" "itoa 500 = ''500''"
  by code_simp+

text \<open>What the runtime server writes for a result is read by the gateway's router as that status and
  the compacted body, unless the body is nested so deep that one level more is too much.\<close>

lemma decode_encode_result:
  assumes "json_valid (ir_body r)" "json_depth (ir_body r) < max_nesting" "ir_status r = 200 \<or> ir_status r = 500"
  shows "decode_InvokeResponse (encode_result r) = Answer (ir_status r) (json_compact (ir_body r))"
proof -
  define x where "x = json_compact (ir_body r)"
  obtain sc where sc: "json_run (BeginValue, []) x = sc" "json_ended (fst (framed [InObjectValue] sc))" "snd sc = []"
    "fst sc \<noteq> ScanError" "json_tight (BeginValue, []) x" "max_depth (BeginValue, []) x + 1 \<le> max_nesting"
    unfolding x_def by (rule compact_run [OF assms(1,2), of "[InObjectValue]"])
  define key1 where "key1 = json_string ''body'' @ '':''"
  define key2 where "key2 = '','' @ json_string ''statusCode'' @ '':'' @ itoa (ir_status r) @ ''}''"
  have enc: "encode_result r = CHR ''{'' # key1 @ x @ key2 @ [CHR 0x0A]"
    by (simp add: encode_result_def key1_def key2_def x_def)
  obtain est where e: "framed [InObjectValue] sc = (est, [InObjectValue])" "json_ended est"
    using sc(2,3) by (cases "framed [InObjectValue] sc") (simp add: framed_def)
  have n: "itoa (ir_status r) = ''200'' \<or> itoa (ir_status r) = ''500''"
    using assms(3) status_text by auto
  have one: "1 < max_nesting" by (simp add: max_nesting_def)
  have start: "framed [InObjectValue] (BeginValue, []) = (BeginValue, [InObjectValue])" by (simp add: framed_def)
  have a: "first_value (BeginValue, []) [] (CHR ''{'' # key1 @ z) = first_value (BeginValue, [InObjectValue]) (CHR ''{'' # key1) z" for z
    using one by (simp add: key1_def json_string_def json_escape_def json_step_defs json_space_def json_ended_def)
  have b: "first_value (BeginValue, [InObjectValue]) acc (x @ z) = first_value (est, [InObjectValue]) (acc @ x) z" for acc z
    using first_value_framed [of "(BeginValue, [])" x "[InObjectValue]" acc z] sc e scan_ok_start by (simp add: start)
  have c: "first_value (est, [InObjectValue]) acc (key2 @ z) = ValueDone (acc @ key2)" for acc z
    using n ended_separator [OF e(2), of "CHR '',''" "[InObjectValue]"]
    by (auto simp: key2_def json_string_def json_escape_def json_step_defs json_space_def is_digit_def)
  have first: "first_value (BeginValue, []) [] (encode_result r) = ValueDone (CHR ''{'' # key1 @ x @ key2)"
    by (simp only: enc a b c append_assoc append_Cons)
  have a': "json_members (BeginStringOrEmpty, [InObjectKey]) [] [] [] (key1 @ z) =
      json_members (BeginValue, [InObjectValue]) (json_string ''body'') [] [] z" for z
    by (simp add: key1_def json_string_def json_escape_def json_step_defs json_space_def)
  have b': "json_members (BeginValue, [InObjectValue]) key cur ms (x @ z) = json_members (est, [InObjectValue]) key (cur @ x) ms z" for key cur ms z
    using json_members_framed [of "(BeginValue, [])" x key cur ms z] sc e scan_ok_start by (simp add: start)
  have c': "json_members (est, [InObjectValue]) key cur ms key2 =
      Some (ms @ [(key, cur), (json_string ''statusCode'', itoa (ir_status r))])" for key cur ms
    using n ended_separator [OF e(2), of "CHR '',''" "[InObjectValue]"]
    by (auto simp: key2_def json_string_def json_escape_def json_step_defs json_space_def is_digit_def)
  have members: "json_members (BeginStringOrEmpty, [InObjectKey]) [] [] [] (key1 @ x @ key2) =
      Some [(json_string ''body'', x), (json_string ''statusCode'', itoa (ir_status r))]"
    by (simp add: a' b' c')
  have names: "fold_name (json_unquote (json_string ''body'')) = ''BODY''"
    "fold_name (json_unquote (json_string ''statusCode'')) = ''STATUSCODE''"
    by code_simp+
  have status: "store_status (itoa (ir_status r)) (0, x, True) = (ir_status r, x, True)"
    using n atoi_itoa [of "ir_status r"] assms(3) by (auto simp: store_status_def in_int64_def is_digit_def)
  have "decode_object (CHR ''{'' # key1 @ x @ key2) = Answer (ir_status r) x"
    unfolding decode_object_def by (simp add: members store_member_def names status)
  then show ?thesis
    unfolding decode_InvokeResponse_def first by (simp add: decode_value_def x_def [symmetric])
qed

lemma decode_timeout: "decode_InvokeResponse encode_timeout = Answer 0 []"
  by code_simp

text \<open>A value that was read from a stream is a valid text of its own.\<close>

lemma ended_valid: "json_run (BeginValue, []) v = (st, []) \<Longrightarrow> json_ended st \<Longrightarrow> json_valid v"
  by (auto simp: json_valid_def json_ended_def is_digit_def json_end_value_def json_space_def)

lemma first_value_valid:
  assumes "first_value sc acc s = ValueDone v \<or> first_value sc acc s = ValueAtEnd v"
    "json_run (BeginValue, []) acc = sc"
  shows "json_valid v"
  using assms
proof (induction sc acc s rule: first_value.induct)
  case (1 st stack acc)
  then show ?case using ended_valid by (auto split: if_splits)
next
  case (2 st stack acc c cs)
  obtain st' stack' where step: "json_step (st, stack) c = (st', stack')" by fastforce
  consider "stack = []" "json_ended st" "st' \<in> {ScanError, EndTop}"
    | "\<not> (stack = [] \<and> json_ended st \<and> st' \<in> {ScanError, EndTop})" "st' \<noteq> ScanError" "stack = []" "st = BeginValue" "json_space c"
    | "\<not> (stack = [] \<and> json_ended st \<and> st' \<in> {ScanError, EndTop})" "st' \<noteq> ScanError" "\<not> (stack = [] \<and> st = BeginValue \<and> json_space c)"
    using "2.prems"(1) step by (auto split: if_splits)
  then show ?case
  proof cases
    case 1
    then have "v = acc" using "2.prems"(1) step by auto
    then show ?thesis using ended_valid "2.prems"(2) 1 by simp
  next
    case 2
    then have st: "st' = BeginValue" "stack' = []" using step by (simp_all add: json_begin_value_def)
    then have "first_value (BeginValue, []) acc cs = ValueDone v \<or> first_value (BeginValue, []) acc cs = ValueAtEnd v"
      using "2.prems"(1) 2 step by (auto simp: json_ended_def Let_def)
    then show ?thesis using "2.IH" [OF step [symmetric] refl] 2 st "2.prems"(2) by auto
  next
    case 3
    have run: "json_run (BeginValue, []) (acc @ [c]) = (st', stack')" using "2.prems"(2) step by (simp add: json_run_append)
    show ?thesis
    proof (cases "st' = EndTop")
      case True
      then have "v = acc @ [c]" using "2.prems"(1) 3 step by (auto simp: Let_def split: if_splits)
      then show ?thesis using run True by (simp add: json_valid_def json_space_def)
    next
      case False
      then have "first_value (st', stack') (acc @ [c]) cs = ValueDone v \<or> first_value (st', stack') (acc @ [c]) cs = ValueAtEnd v"
        using "2.prems"(1) 3 step by (auto simp: Let_def split: if_splits)
      then show ?thesis using "2.IH" [OF step [symmetric] refl 3(1,2) refl, of] False 3 run by auto
    qed
  qed
qed

lemma decode_raw_valid: "decode_raw limit body = BodyJson v \<Longrightarrow> json_valid v"
  using first_value_valid [of "(BeginValue, [])" "[]" "take (nat limit) body" v]
  by (auto simp: decode_raw_def Let_def split: first_scan.splits if_splits)

lemma decode_raw_small: "length body \<le> nat limit \<Longrightarrow> decode_raw limit body \<noteq> BodyTooLarge"
  by (auto simp: decode_raw_def Let_def split: first_scan.split)

lemma decode_raw_within:
  "length body \<le> nat limit \<Longrightarrow> decode_raw limit body =
    (case first_value (BeginValue, []) [] body of
       ValueDone v \<Rightarrow> BodyJson v | ValueAtEnd v \<Rightarrow> BodyJson v | ValueOpen \<Rightarrow> BodyInvalid | ValueBad \<Rightarrow> BodyInvalid)"
  by (auto simp: decode_raw_def Let_def split: first_scan.split)

end
