(* ===== verification/Invocation_Flow.thy ===== *)
theory Invocation_Flow
  imports Gateway_Routes Agent Json_Codec
begin

text \<open>
  One invocation over HTTP from the gateway's router to the function and back: the request the router
  builds (Gateway_Http), the agent at the container's port (Agent), the runtime server behind it
  (Runtime_Server) and the JSON texts between them (Json_Codec). The bodies and headers that one program
  sends are the arguments of the next one's handler; what the runtime server answers is read off the
  state its machine has reached.
\<close>

section \<open>The way in\<close>

text \<open>What \<open>Router.Invoke\<close> sends to the container.\<close>

definition function_url :: "string \<Rightarrow> string" where
  "function_url addr = ''http://'' @ addr @ ''/invoke''"

definition function_headers :: "string \<Rightarrow> (string \<times> string) list" where
  "function_headers name = [(''Content-Type'', ''application/json''), (''X-Function-Name'', name)]"

definition header_get :: "(string \<times> string) list \<Rightarrow> string \<Rightarrow> string" where
  "header_get hs k = (case map_of hs k of None \<Rightarrow> [] | Some v \<Rightarrow> v)"

text \<open>The muxes of the agent and of the runtime server.\<close>

definition agent_patterns :: "string list" where
  "agent_patterns = [''/invoke'', ''/events'', ''/health'', ''/metrics'']"

definition runtime_patterns :: "string list" where
  "runtime_patterns = [''/health'', ''/invoke'', ''/events'', ''/runtime/invocation/next'', ''/runtime/invocation/'']"

text \<open>The body as the agent reads it, within the limit that it shares with the runtime server.\<close>

definition read_limited :: "int \<Rightarrow> string \<Rightarrow> string option" where
  "read_limited limit body = (if length body \<le> nat limit then Some body else None)"

text \<open>The request that reaches the runtime server: the agent forwards six of the headers.\<close>

definition runtime_request :: "env \<Rightarrow> (string \<times> string) list \<Rightarrow> string \<Rightarrow> string \<Rightarrow> rt_request" where
  "runtime_request env hs path body =
     \<lparr>rr_method = ''POST'', rr_path = path,
      rr_timeout = header_get (forwarded_headers (header_get hs)) ''X-Function-Timeout'',
      rr_body = decode_raw (maxRequestBytes env) body\<rparr>"

section \<open>The way out\<close>

definition json_headers :: headers where
  "json_headers = [(''Content-Type'', [''application/json''])]"

definition text_headers :: headers where
  "text_headers = [(''Content-Type'', [''text/plain; charset=utf-8'']), (''X-Content-Type-Options'', [''nosniff''])]"

text \<open>What \<open>handleInvocation\<close> writes for a request that has been answered.\<close>

definition runtime_answer :: "rt_req \<Rightarrow> upstream" where
  "runtime_answer r =
     (case rq_phase r of
        Answered code \<Rightarrow>
          (if code = 200 then
             (case rq_chan r of
                Some res \<Rightarrow> UpReply 200 json_headers (encode_result res)
              | None \<Rightarrow> UpFailed)
           else if code = 504 then UpReply 504 json_headers encode_timeout
           else UpReply code text_headers (''runtime queue full'' @ [CHR 0x0A]))
      | _ \<Rightarrow> UpFailed)"

text \<open>The bytes of the agent's answer.\<close>

definition agent_text :: "agent_reply \<Rightarrow> string" where
  "agent_text r = (case r of AgentError code msg \<Rightarrow> msg @ [CHR 0x0A] | AgentRelay code hs body \<Rightarrow> body)"

text \<open>The call of \<open>Router.Invoke\<close>, when it reaches the container: the router decodes the body of the
  answer and does not look at its status.\<close>

definition container_call :: "env \<Rightarrow> upstream \<Rightarrow> int \<Rightarrow> agent \<Rightarrow> string \<Rightarrow> call_result" where
  "container_call env answer us a body =
     decode_InvokeResponse
       (agent_text (fst (agent_handleInvoke ''POST'' (read_limited (maxRequestBytes env) body) (\<lambda>_ _. answer) us a)))"

section \<open>The routes meet\<close>

lemma invoke_routes:
  "mux_dispatch agent_patterns ''/invoke'' = Route ''/invoke''"
  "mux_dispatch agent_patterns ''/events'' = Route ''/events''"
  "mux_dispatch runtime_patterns ''/invoke'' = Route ''/invoke''"
  "mux_dispatch runtime_patterns ''/events'' = Route ''/events''"
  "mux_dispatch runtime_patterns ''/runtime/invocation/next'' = Route ''/runtime/invocation/next''"
  by code_simp+

lemma agent_error_texts:
  "decode_InvokeResponse (''method not allowed'' @ [CHR 0x0A]) = BadJson"
  "decode_InvokeResponse (''failed to read body'' @ [CHR 0x0A]) = BadJson"
  "decode_InvokeResponse (''failed to build upstream request'' @ [CHR 0x0A]) = BadJson"
  "decode_InvokeResponse (''upstream unavailable'' @ [CHR 0x0A]) = BadJson"
  "decode_InvokeResponse (''runtime queue full'' @ [CHR 0x0A]) = BadJson"
  by code_simp+

lemma container_call_small:
  "length body \<le> nat (maxRequestBytes env) \<Longrightarrow>
   container_call env answer us a body =
     (case answer of UpReply code hs text_out \<Rightarrow> decode_InvokeResponse text_out | _ \<Rightarrow> BadJson)"
  using agent_error_texts
  by (cases answer) (simp_all add: container_call_def read_limited_def agent_handleInvoke_def proxyInvocation_def agent_text_def)

text \<open>The router sends no \<open>X-Function-Timeout\<close>, so the runtime server gives every invocation 30 s.\<close>

lemma router_timeout:
  "request_timeout parse env (rr_timeout (runtime_request env (function_headers name) path body)) = 30 * second"
  by (simp add: runtime_request_def forwarded_headers_def header_get_def function_headers_def request_timeout_def)

section \<open>Properties\<close>

text \<open>The results that the runtime server has accepted came in through \<open>handleResponse\<close>.\<close>

definition posted :: "runtime \<Rightarrow> bool" where
  "posted s \<longleftrightarrow> (\<forall>k res. (k, res) \<in> set (rt_accepted s) \<longrightarrow>
     (\<exists>path b. read_response ''POST'' path (Some b) = Inr (k, res)))"

lemma read_response_result:
  "read_response ''POST'' path (Some b) = Inr (k, res) \<Longrightarrow>
   json_valid (ir_body res) \<and> (ir_status res = 200 \<or> ir_status res = 500)"
  by (auto simp: read_response_def split: option.splits if_splits)

lemma runtime_request_read:
  assumes "length body \<le> nat (maxRequestBytes env)"
  obtains v where "handleInvoke parse env uuid now (runtime_request env (function_headers name) ''/invoke'' body) = Inr (v, 30 * second)"
    "iv_id v = uuid" "iv_deadline v = now + 30 * second" "json_valid (iv_payload v)"
    "iv_payload v = (case decode_raw (maxRequestBytes env) body of BodyJson p \<Rightarrow> p | _ \<Rightarrow> ''{}'')"
proof (cases "decode_raw (maxRequestBytes env) body")
  case (BodyJson p)
  then show ?thesis
    using that [of "\<lparr>iv_id = uuid, iv_payload = p, iv_event_type = ''http'', iv_deadline = now + 30 * second\<rparr>"]
      decode_raw_valid [OF BodyJson] router_timeout [of parse env name "''/invoke''" body]
    by (simp add: handleInvoke_def read_invocation_def runtime_request_def Let_def)
next
  case BodyTooLarge
  then show ?thesis using decode_raw_small [OF assms] by simp
next
  case BodyInvalid
  then show ?thesis
    using that [of "\<lparr>iv_id = uuid, iv_payload = ''{}'', iv_event_type = ''http'', iv_deadline = now + 30 * second\<rparr>"]
      json_valid_examples(1) router_timeout [of parse env name "''/invoke''" body]
    by (simp add: handleInvoke_def read_invocation_def runtime_request_def Let_def)
qed

lemma router_relays:
  assumes "Get name g = Some cfg" "rq_body req = Some body"
    "Acquire (w_backend w) (w_t1 w) (w_t2 w) name g = (Inr r, h)"
  shows "fst (router_Invoke w req name g) =
    relay (w_call w (c_addr (deref h r)) name body (dur_seconds (fc_timeout cfg)))"
  using assms by (simp add: router_Invoke_def)

lemma invocation_within:
  assumes small: "length body \<le> nat (maxRequestBytes env)"
    and sent: "handleInvoke parse env uuid now (runtime_request env (function_headers name) ''/invoke'' body) = Inr (v, timeout)"
    and run: "rt_next\<^sup>*\<^sup>* (rt_init m) s" "posted s" "i < length (rt_reqs s)" "rq_inv (rt_reqs s ! i) = v"
      "rq_phase (rt_reqs s ! i) = Answered code"
    and gateway: "Get name g = Some cfg" "rq_body req = Some body"
      "Acquire (w_backend w) (w_t1 w) (w_t2 w) name g = (Inr r, h)"
      "w_call w (c_addr (deref h r)) name body (dur_seconds (fc_timeout cfg)) =
         container_call env (runtime_answer (rt_reqs s ! i)) us a body"
  shows "iv_id v = uuid \<and> timeout = 30 * second \<and> iv_deadline v = now + 30 * second \<and>
    iv_payload v = (case decode_raw (maxRequestBytes env) body of BodyJson p \<Rightarrow> p | _ \<Rightarrow> ''{}'') \<and>
    json_valid (iv_payload v) \<and>
    ((code = 200 \<and> (\<exists>res. (uuid, res) \<in> set (rt_accepted s) \<and> (\<forall>res'. (uuid, res') \<in> set (rt_accepted s) \<longrightarrow> res' = res) \<and>
        (json_depth (ir_body res) < max_nesting \<longrightarrow>
           fst (router_Invoke w req name g) =
             Some \<lparr>rs_status = ir_status res, rs_payload = RawJson (json_compact (ir_body res))\<rparr>))) \<or>
     (code = 503 \<and> fst (router_Invoke w req name g) = http_error (Plain ''invalid function response'') 502) \<or>
     (code = 504 \<and> fst (router_Invoke w req name g) = None))"
proof -
  obtain v' where v': "handleInvoke parse env uuid now (runtime_request env (function_headers name) ''/invoke'' body) = Inr (v', 30 * second)"
    "iv_id v' = uuid" "iv_deadline v' = now + 30 * second" "json_valid (iv_payload v')"
    "iv_payload v' = (case decode_raw (maxRequestBytes env) body of BodyJson p \<Rightarrow> p | _ \<Rightarrow> ''{}'')"
    by (rule runtime_request_read [OF small])
  have v: "v' = v" "timeout = 30 * second" using v'(1) sent by simp_all
  let ?q = "rt_reqs s ! i"
  have call: "fst (router_Invoke w req name g) =
      relay (case runtime_answer ?q of UpReply c hs t \<Rightarrow> decode_InvokeResponse t | _ \<Rightarrow> BadJson)"
    by (simp add: router_relays [OF gateway(1-3)] gateway(4) container_call_small [OF small])
  have ok: "rt_ok s" using rt.reachable_good [OF refl run(1)] by auto
  have q: "req_ok s ?q" "req_id ?q = uuid" using rt_okD(2) [OF ok] run(3,4) v' v(1) by (simp_all add: req_id_def)
  then consider "code = 200" | "code = 503" | "code = 504" using run(5) by (auto simp: req_ok_def answered_def)
  then have "(code = 200 \<and> (\<exists>res. (uuid, res) \<in> set (rt_accepted s) \<and> (\<forall>res'. (uuid, res') \<in> set (rt_accepted s) \<longrightarrow> res' = res) \<and>
        (json_depth (ir_body res) < max_nesting \<longrightarrow>
           fst (router_Invoke w req name g) =
             Some \<lparr>rs_status = ir_status res, rs_payload = RawJson (json_compact (ir_body res))\<rparr>))) \<or>
     (code = 503 \<and> fst (router_Invoke w req name g) = http_error (Plain ''invalid function response'') 502) \<or>
     (code = 504 \<and> fst (router_Invoke w req name g) = None)"
  proof cases
    case 1
    then obtain res where res: "rq_chan ?q = Some res" "(uuid, res) \<in> set (rt_accepted s)"
      using q run(5) map_of_SomeD that by (fastforce simp: req_ok_def)
    then have uniq: "\<forall>res'. (uuid, res') \<in> set (rt_accepted s) \<longrightarrow> res' = res"
      using rt_okD [OF ok] by (auto dest: eq_key_imp_eq_value)
    have "json_valid (ir_body res)" "ir_status res = 200 \<or> ir_status res = 500"
      using run(2) res(2) read_response_result unfolding posted_def by blast+
    moreover have "runtime_answer ?q = UpReply 200 json_headers (encode_result res)"
      using run(5) 1 res(1) by (simp add: runtime_answer_def)
    ultimately have "json_depth (ir_body res) < max_nesting \<longrightarrow> fst (router_Invoke w req name g) =
        Some \<lparr>rs_status = ir_status res, rs_payload = RawJson (json_compact (ir_body res))\<rparr>"
      using call by (auto simp: decode_encode_result relay_def write_header_def)
    then show ?thesis using 1 res(2) uniq by blast
  next
    case 2
    then have "runtime_answer ?q = UpReply 503 text_headers (''runtime queue full'' @ [CHR 0x0A])"
      using run(5) by (simp add: runtime_answer_def)
    then show ?thesis using call 2 agent_error_texts(5) by (simp add: relay_def)
  next
    case 3
    then have "runtime_answer ?q = UpReply 504 json_headers encode_timeout"
      using run(5) by (simp add: runtime_answer_def)
    then show ?thesis using call 3 by (simp add: decode_timeout relay_def write_header_def)
  qed
  then show ?thesis using v' v by simp
qed

text \<open>A body over the limit is refused by the agent, without a call to the runtime server.\<close>

lemma invocation_over_limit:
  assumes "\<not> length body \<le> nat (maxRequestBytes env)"
  shows "agent_handleInvoke ''POST'' (read_limited (maxRequestBytes env) body) up us a = (AgentError 400 ''failed to read body'', a)"
    "container_call env answer us a body = BadJson"
  using assms agent_error_texts(2)
  by (simp_all add: container_call_def read_limited_def agent_handleInvoke_def proxyInvocation_def agent_text_def)

text \<open>C3. An invocation keeps its content over the three programs. A body longer than the container's
  limit (\<open>MAX_REQUEST_BYTES\<close>, 1 MiB by default) is refused by the agent, which makes no call and counts
  none, and the client gets the status 502. For any other body the function gets the first JSON value of
  the client's body (an empty object when the body is no JSON), in an invocation with a fresh id and 30 s to run, whatever
  timeout the function is configured with. As long as the router's own call is not cut off, what the function posts comes back to the client of that
  invocation and of no other: its status (200, or 500 for an error) and its JSON, compacted, if that is nested less deep than the 10000
  levels the JSON reader takes. A refusal by the
  runtime server's full queue is answered 502. When the runtime server's timer has fired, the answer has no
  status code and the router panics: the client gets no response.\<close>

theorem invocation_end_to_end:
  assumes gateway: "Get name g = Some cfg" "rq_body req = Some body"
    "Acquire (w_backend w) (w_t1 w) (w_t2 w) name g = (Inr r, h)"
    "w_call w (c_addr (deref h r)) name body (dur_seconds (fc_timeout cfg)) = container_call env answer us a body"
  shows "if length body \<le> nat (maxRequestBytes env) then
      (\<forall>parse uuid now v timeout m s i code.
         handleInvoke parse env uuid now (runtime_request env (function_headers name) ''/invoke'' body) = Inr (v, timeout) \<and>
         rt_next\<^sup>*\<^sup>* (rt_init m) s \<and> posted s \<and> i < length (rt_reqs s) \<and> rq_inv (rt_reqs s ! i) = v \<and>
         rq_phase (rt_reqs s ! i) = Answered code \<and> answer = runtime_answer (rt_reqs s ! i) \<longrightarrow>
         iv_id v = uuid \<and> timeout = 30 * second \<and> iv_deadline v = now + 30 * second \<and>
         iv_payload v = (case decode_raw (maxRequestBytes env) body of BodyJson p \<Rightarrow> p | _ \<Rightarrow> ''{}'') \<and>
         json_valid (iv_payload v) \<and>
         ((code = 200 \<and> (\<exists>res. (uuid, res) \<in> set (rt_accepted s) \<and> (\<forall>res'. (uuid, res') \<in> set (rt_accepted s) \<longrightarrow> res' = res) \<and>
             (json_depth (ir_body res) < max_nesting \<longrightarrow>
                fst (router_Invoke w req name g) =
                  Some \<lparr>rs_status = ir_status res, rs_payload = RawJson (json_compact (ir_body res))\<rparr>))) \<or>
          (code = 503 \<and> fst (router_Invoke w req name g) = http_error (Plain ''invalid function response'') 502) \<or>
          (code = 504 \<and> fst (router_Invoke w req name g) = None)))
    else
      fst (router_Invoke w req name g) = http_error (Plain ''invalid function response'') 502 \<and>
      (\<forall>up. agent_handleInvoke ''POST'' (read_limited (maxRequestBytes env) body) up us a =
         (AgentError 400 ''failed to read body'', a))"
proof (cases "length body \<le> nat (maxRequestBytes env)")
  case True
  have "iv_id v = uuid \<and> timeout = 30 * second \<and> iv_deadline v = now + 30 * second \<and>
         iv_payload v = (case decode_raw (maxRequestBytes env) body of BodyJson p \<Rightarrow> p | _ \<Rightarrow> ''{}'') \<and>
         json_valid (iv_payload v) \<and>
         ((code = 200 \<and> (\<exists>res. (uuid, res) \<in> set (rt_accepted s) \<and> (\<forall>res'. (uuid, res') \<in> set (rt_accepted s) \<longrightarrow> res' = res) \<and>
             (json_depth (ir_body res) < max_nesting \<longrightarrow>
                fst (router_Invoke w req name g) =
                  Some \<lparr>rs_status = ir_status res, rs_payload = RawJson (json_compact (ir_body res))\<rparr>))) \<or>
          (code = 503 \<and> fst (router_Invoke w req name g) = http_error (Plain ''invalid function response'') 502) \<or>
          (code = 504 \<and> fst (router_Invoke w req name g) = None))"
    if "handleInvoke parse env uuid now (runtime_request env (function_headers name) ''/invoke'' body) = Inr (v, timeout) \<and>
         rt_next\<^sup>*\<^sup>* (rt_init m) s \<and> posted s \<and> i < length (rt_reqs s) \<and> rq_inv (rt_reqs s ! i) = v \<and>
         rq_phase (rt_reqs s ! i) = Answered code \<and> answer = runtime_answer (rt_reqs s ! i)"
    for parse uuid now v timeout m s i code
    using that gateway(4)
    by (intro invocation_within [OF True _ _ _ _ _ _ gateway(1-3)]) auto
  with True show ?thesis by presburger
next
  case False
  with gateway show ?thesis by (simp add: router_relays [OF gateway(1-3)] invocation_over_limit [OF False] relay_def)
qed

text \<open>A function that answers its invocation with a JSON text that has white space in it.\<close>

definition flow_body :: string where
  "flow_body = '' {} ''"

definition flow_invocation :: invocation where
  "flow_invocation = \<lparr>iv_id = ''a'', iv_payload = ''{}'', iv_event_type = ''http'', iv_deadline = 30 * second\<rparr>"

definition flow_result :: invoke_result where
  "flow_result = \<lparr>ir_status = 200, ir_body = ''[1, 2]''\<rparr>"

definition flow_run :: "rt_event list" where
  "flow_run = [PollArrives, Enqueue flow_invocation, Notify 0, PollTake 0 0, Respond ''a'' flow_result, TakeResult 0]"

lemma flow_run_state:
  obtains s where "rt_next\<^sup>*\<^sup>* (rt_init 1) s" "rt_accepted s = [(''a'', flow_result)]" "length (rt_reqs s) = 1"
    "rt_reqs s ! 0 = \<lparr>rq_inv = flow_invocation, rq_phase = Answered 200, rq_chan = Some flow_result\<rparr>"
proof -
  have "rt_run flow_run (rt_init 1) \<noteq> None \<and> rt_accepted (the (rt_run flow_run (rt_init 1))) = [(''a'', flow_result)] \<and>
      rt_reqs (the (rt_run flow_run (rt_init 1))) =
        [\<lparr>rq_inv = flow_invocation, rq_phase = Answered 200, rq_chan = Some flow_result\<rparr>]"
    by code_simp
  then show ?thesis using that rt_run_steps [of flow_run "rt_init 1"] by (cases "rt_run flow_run (rt_init 1)") auto
qed

lemma flow_limit: "length flow_body \<le> nat (maxRequestBytes (\<lambda>_. []))"
  by (simp add: flow_body_def maxRequestBytes_def env_int_def)

lemma flow_sent:
  "handleInvoke (\<lambda>_. None) (\<lambda>_. []) ''a'' 0 (runtime_request (\<lambda>_. []) (function_headers ''f'') ''/invoke'' flow_body) =
     Inr (flow_invocation, 30 * second)"
proof -
  have "first_value (BeginValue, []) [] flow_body = ValueDone ''{}''" by code_simp
  then have "decode_raw (maxRequestBytes (\<lambda>_. [])) flow_body = BodyJson ''{}''"
    by (simp add: decode_raw_within [OF flow_limit])
  then show ?thesis
    using router_timeout [of "\<lambda>_. None" "\<lambda>_. []" "''f''" "''/invoke''" flow_body]
    by (simp add: handleInvoke_def read_invocation_def runtime_request_def flow_invocation_def Let_def)
qed

lemma flow_posted: "read_response ''POST'' ''/runtime/invocation/a/response'' (Some ''[1, 2]'') = Inr (''a'', flow_result)"
  by code_simp

theorem invocation_end_to_end_witness:
  "\<exists>w. fst (router_Invoke w (sample_invoke\<lparr>rq_body := Some flow_body\<rparr>) ''f'' (y_sched sample_warm)) =
     Some \<lparr>rs_status = 200, rs_payload = RawJson ''[1,2]''\<rparr>"
proof -
  obtain s where s: "rt_next\<^sup>*\<^sup>* (rt_init 1) s" "rt_accepted s = [(''a'', flow_result)]" "length (rt_reqs s) = 1"
    "rt_reqs s ! 0 = \<lparr>rq_inv = flow_invocation, rq_phase = Answered 200, rq_chan = Some flow_result\<rparr>"
    by (rule flow_run_state)
  define w where "w = sample_world\<lparr>w_call := \<lambda>_ _ body _. container_call (\<lambda>_. []) (runtime_answer (rt_reqs s ! 0)) 5 newAgent body\<rparr>"
  have posted: "posted s" unfolding posted_def using s(2) flow_posted by auto
  have acq: "Acquire (w_backend w) (w_t1 w) (w_t2 w) ''f'' (y_sched sample_warm) = (Inr 0, y_sched sample_busy)"
    using sample_Acquire by (simp add: w_def)
  have facts: "json_depth (ir_body flow_result) < max_nesting" "json_compact (ir_body flow_result) = ''[1,2]''"
    "ir_status flow_result = 200"
    by (code_simp, code_simp, simp add: flow_result_def)
  have get: "Get ''f'' (y_sched sample_warm) = Some sample_config" using sample_get by simp
  have call: "w_call w (c_addr (deref (y_sched sample_busy) 0)) ''f'' flow_body (dur_seconds (fc_timeout sample_config)) =
      container_call (\<lambda>_. []) (runtime_answer (rt_reqs s ! 0)) 5 newAgent flow_body" by (simp add: w_def)
  have body: "rq_body (sample_invoke\<lparr>rq_body := Some flow_body\<rparr>) = Some flow_body" by simp
  note flow = invocation_end_to_end [OF get body acq call, unfolded if_P [OF flow_limit], rule_format,
      OF conjI [OF flow_sent conjI [OF s(1) conjI [OF posted]]], of 0 200]
  from flow have "fst (router_Invoke w (sample_invoke\<lparr>rq_body := Some flow_body\<rparr>) ''f'' (y_sched sample_warm)) =
      Some \<lparr>rs_status = 200, rs_payload = RawJson ''[1,2]''\<rparr>"
    using s acq sample_get facts by (simp add: w_def)
  then show ?thesis by blast
qed

end
