(* ===== verification/Query_Text.thy ===== *)
theory Query_Text
  imports Wire_Text
begin

text \<open>
  Two more parts of Go's standard library that the log service uses: the query of a URL
  (\<open>url.QueryUnescape\<close>, \<open>url.ParseQuery\<close>, \<open>Values.Get\<close>) with the path of a request as it is sent on
  (\<open>URL.EscapedPath\<close>), and the quoted form of a string that the verb \<open>%q\<close> writes
  (\<open>strconv.Quote\<close>).
\<close>

section \<open>Queries\<close>

function query_unescape :: "string \<Rightarrow> string option" where
  "query_unescape s =
     (case s of
        [] \<Rightarrow> Some []
      | c # cs \<Rightarrow>
          if c = CHR ''+'' then map_option ((#) CHR '' '') (query_unescape cs)
          else if c \<noteq> CHR ''%'' then map_option ((#) c) (query_unescape cs)
          else case cs of
                 a # b # rest \<Rightarrow>
                   (case (hex_value a, hex_value b) of
                      (Some h, Some l) \<Rightarrow> map_option ((#) (char_of (16 * h + l))) (query_unescape rest)
                    | _ \<Rightarrow> None)
               | _ \<Rightarrow> None)"
  by pat_completeness auto
termination by (relation "measure length") auto

declare query_unescape.simps [simp del]

text \<open>\<open>strings.Cut\<close> at a character.\<close>

definition cut :: "char \<Rightarrow> string \<Rightarrow> string \<times> string" where
  "cut c s = (case split_first c s of None \<Rightarrow> (s, []) | Some p \<Rightarrow> p)"

lemma cut_length: "s \<noteq> [] \<Longrightarrow> length (snd (cut c s)) < length s"
  by (auto simp: cut_def split: option.split dest!: split_first_Some)

definition query_pair :: "string \<Rightarrow> (string \<times> string) list" where
  "query_pair part =
     (if CHR '';'' \<in> set part \<or> part = [] then []
      else
        let (k, v) = cut CHR ''='' part in
        case (query_unescape k, query_unescape v) of (Some k, Some v) \<Rightarrow> [(k, v)] | _ \<Rightarrow> [])"

text \<open>The pairs that could be read, in order; the others are dropped, as \<open>URL.Query\<close> does.\<close>

function parse_query :: "string \<Rightarrow> (string \<times> string) list" where
  "parse_query q =
     (if q = [] then [] else query_pair (fst (cut CHR ''&'' q)) @ parse_query (snd (cut CHR ''&'' q)))"
  by pat_completeness auto
termination by (relation "measure length") (auto simp: cut_length)

declare parse_query.simps [simp del]

definition query_get :: "(string \<times> string) list \<Rightarrow> string \<Rightarrow> string" where
  "query_get vs k = (case map_of vs k of None \<Rightarrow> [] | Some v \<Rightarrow> v)"

lemma cut_at: "c \<notin> set a \<Longrightarrow> cut c (a @ c # b) = (a, b)"
  by (simp add: cut_def split_first_at)

lemma split_first_none: "c \<notin> set a \<Longrightarrow> split_first c a = None"
  by (induction a) auto

lemma cut_none: "c \<notin> set a \<Longrightarrow> cut c a = (a, [])"
  by (simp add: cut_def split_first_none)

lemma query_unescape_plain: "CHR ''%'' \<notin> set s \<Longrightarrow> CHR ''+'' \<notin> set s \<Longrightarrow> query_unescape s = Some s"
proof (induction s)
  case Nil
  show ?case by (simp add: query_unescape.simps)
next
  case (Cons c s)
  then show ?case by (auto simp: query_unescape.simps [of "c # s"])
qed

text \<open>A text that stands for itself in a query.\<close>

definition query_plain :: "string \<Rightarrow> bool" where
  "query_plain s \<longleftrightarrow> list_all (\<lambda>c. c \<notin> set ''%+&;='') s"

lemma query_pair_plain:
  assumes "query_plain k" "query_plain v"
  shows "query_pair (k @ CHR ''='' # v) = [(k, v)]"
proof -
  have c: "CHR ''='' \<notin> set k" "CHR '';'' \<notin> set (k @ CHR ''='' # v)" "CHR ''%'' \<notin> set k" "CHR ''+'' \<notin> set k"
    "CHR ''%'' \<notin> set v" "CHR ''+'' \<notin> set v"
    using assms by (auto simp: query_plain_def list_all_iff)
  then show ?thesis by (simp add: query_pair_def cut_at query_unescape_plain)
qed

lemma parse_query_last:
  assumes "query_plain k" "query_plain v"
  shows "parse_query (k @ CHR ''='' # v) = [(k, v)]"
proof -
  have "CHR ''&'' \<notin> set (k @ CHR ''='' # v)" using assms by (auto simp: query_plain_def list_all_iff)
  then have "cut CHR ''&'' (k @ CHR ''='' # v) = (k @ CHR ''='' # v, [])" by (rule cut_none)
  then show ?thesis
    by (subst parse_query.simps) (simp add: query_pair_plain [OF assms] parse_query.simps [of "[]"])
qed

lemma parse_query_pair:
  assumes "query_plain k" "query_plain v"
  shows "parse_query (k @ CHR ''='' # v @ CHR ''&'' # rest) = (k, v) # parse_query rest"
proof -
  have "CHR ''&'' \<notin> set (k @ CHR ''='' # v)" using assms by (auto simp: query_plain_def list_all_iff)
  from cut_at [OF this, of rest] show ?thesis
    by (subst parse_query.simps) (simp add: query_pair_plain [OF assms])
qed

section \<open>The path of a request that is passed on\<close>

fun escape_unless :: "(char \<Rightarrow> bool) \<Rightarrow> string \<Rightarrow> string" where
  "escape_unless safe [] = []"
| "escape_unless safe (c # cs) =
     (if safe c then c # escape_unless safe cs
      else CHR ''%'' # hex_digits ! (of_char c div 16) # hex_digits ! (of_char c mod 16) # escape_unless safe cs)"

text \<open>The bytes that \<open>escape\<close> leaves alone in mode \<open>encodePath\<close>, and those that \<open>validEncoded\<close> lets
  stand in a path that came escaped.\<close>

definition path_char :: "char \<Rightarrow> bool" where
  "path_char c \<longleftrightarrow> is_lower c \<or> is_upper c \<or> is_digit c \<or> c \<in> set ''-_.~$&+,/:;=@''"

definition encoded_char :: "char \<Rightarrow> bool" where
  "encoded_char c \<longleftrightarrow> path_char c \<or> c \<in> set ''!()*[]%'' \<or> c = CHR 0x27"

text \<open>\<open>EscapedPath\<close> of a path that was parsed from \<open>raw\<close>.\<close>

definition escaped_path :: "string \<Rightarrow> string option" where
  "escaped_path raw =
     (case path_unescape raw of
        None \<Rightarrow> None
      | Some p \<Rightarrow> Some (if list_all encoded_char raw then raw else escape_unless path_char p))"

lemma unescape_escape_unless:
  assumes "\<not> safe CHR ''%''"
  shows "path_unescape (escape_unless safe s) = Some s"
proof (induction s)
  case Nil
  show ?case by (simp add: path_unescape.simps)
next
  case (Cons c cs)
  have "(of_char c :: nat) < 256" by simp
  moreover have "char_of (16 * ((of_char c :: nat) div 16) + of_char c mod 16) = c"
    by simp
  ultimately show ?case
    using Cons assms
    by (auto simp: path_unescape.simps [of "_ # _"] hex_round less_mult_imp_div_less
      simp del: mult_div_mod_eq)
qed

lemma escaped_path_same: "escaped_path raw = Some p \<Longrightarrow> path_unescape p = path_unescape raw"
proof -
  have "\<not> path_char CHR ''%''" by code_simp
  then show "escaped_path raw = Some p \<Longrightarrow> path_unescape p = path_unescape raw"
    by (auto simp: escaped_path_def unescape_escape_unless split: option.splits if_splits)
qed

section \<open>Quoted strings\<close>

text \<open>A byte below 128 inside the quotes; how a run of other bytes is written depends on the tables of
  printable characters and is the argument \<open>wide\<close>.\<close>

definition quote_char :: "char \<Rightarrow> string" where
  "quote_char c =
     (if c = CHR 0x22 \<or> c = CHR 0x5C then [CHR 0x5C, c]
      else if (32::nat) \<le> of_char c \<and> of_char c < (127::nat) then [c]
      else if c = CHR 0x07 then [CHR 0x5C, CHR ''a'']
      else if c = CHR 0x08 then [CHR 0x5C, CHR ''b'']
      else if c = CHR 0x0C then [CHR 0x5C, CHR ''f'']
      else if c = CHR 0x0A then [CHR 0x5C, CHR ''n'']
      else if c = CHR 0x0D then [CHR 0x5C, CHR ''r'']
      else if c = CHR 0x09 then [CHR 0x5C, CHR ''t'']
      else if c = CHR 0x0B then [CHR 0x5C, CHR ''v'']
      else [CHR 0x5C, CHR ''x'', hex_low (of_char c div 16), hex_low (of_char c)])"

definition wide_byte :: "char \<Rightarrow> bool" where
  "wide_byte c \<longleftrightarrow> (128::nat) \<le> of_char c"

function quote_body :: "(string \<Rightarrow> string) \<Rightarrow> string \<Rightarrow> string" where
  "quote_body wide [] = []"
| "quote_body wide (c # cs) =
     (if wide_byte c then wide (c # takeWhile wide_byte cs) @ quote_body wide (dropWhile wide_byte cs)
      else quote_char c @ quote_body wide cs)"
  by pat_completeness auto
termination by (relation "measure (length \<circ> snd)") (auto simp: le_imp_less_Suc length_dropWhile_le)

definition go_quote :: "(string \<Rightarrow> string) \<Rightarrow> string \<Rightarrow> string" where
  "go_quote wide s = CHR 0x22 # quote_body wide s @ [CHR 0x22]"

text \<open>Where a string literal ends that was opened by a double quote: a backslash takes the next byte with
  it, a line feed leaves the literal open.\<close>

fun literal_rest :: "string \<Rightarrow> string option" where
  "literal_rest [] = None"
| "literal_rest (c # cs) =
     (if c = CHR 0x22 then Some cs
      else if c = CHR 0x0A then None
      else if c = CHR 0x5C then (case cs of [] \<Rightarrow> None | d # ds \<Rightarrow> literal_rest ds)
      else literal_rest cs)"

lemma hex_low_plain: "hex_low n \<noteq> CHR 0x22" "hex_low n \<noteq> CHR 0x0A" "hex_low n \<noteq> CHR 0x5C"
proof -
  have "\<forall>k < 16. (''0123456789abcdef'' ! k) \<noteq> CHR 0x22 \<and> (''0123456789abcdef'' ! k) \<noteq> CHR 0x0A \<and>
      (''0123456789abcdef'' ! k) \<noteq> CHR 0x5C"
    by code_simp
  then show "hex_low n \<noteq> CHR 0x22" "hex_low n \<noteq> CHR 0x0A" "hex_low n \<noteq> CHR 0x5C"
    by (simp_all add: hex_low_def)
qed

lemma literal_rest_char: "literal_rest (quote_char c @ z) = literal_rest z"
  by (auto simp: quote_char_def hex_low_plain)

text \<open>Whatever the string is, the quotes that \<open>%q\<close> puts around it close where the quoted text ends.\<close>

lemma literal_rest_quote:
  assumes "\<And>x z. literal_rest (wide x @ z) = literal_rest z"
  shows "literal_rest (quote_body wide s @ CHR 0x22 # z) = Some z"
  using assms by (induction wide s rule: quote_body.induct) (simp_all add: literal_rest_char)

lemma quote_plain:
  assumes "list_all (\<lambda>c. (32::nat) \<le> of_char c \<and> of_char c < (127::nat) \<and> c \<noteq> CHR 0x22 \<and> c \<noteq> CHR 0x5C) s"
  shows "go_quote wide s = CHR 0x22 # s @ [CHR 0x22]"
proof -
  have "quote_body wide s = s"
    using assms by (induction s) (auto simp: quote_char_def wide_byte_def)
  then show ?thesis by (simp add: go_quote_def)
qed

end
