(* ===== verification/Log_Flow.thy ===== *)
theory Log_Flow
  imports Gateway_Routes Log_Daemon Query_Text
begin

text \<open>
  A log query across the programs: the gateway passes it to the log daemon in proxy mode (\<open>proxyLogs\<close>
  in gateway/entrypoints/traffic.go), which asks the gateway's internal listener for the function's
  instances (\<open>instances\<close>), and then, through a Python process in the collector pod of each node
  (\<open>fetchCollectorLogs\<close>, \<open>execCollector\<close> in logdaemon/shared.go), the daemon that collects there. The
  Kubernetes client, the Python process and the JSON coders are arguments; the paths, queries and
  quoted texts in between are built and taken apart by the definitions.
\<close>

section \<open>The calls of the proxy\<close>

record proxy_client =
  pc_gateway_addr :: string
  pc_gateway_token :: string
  pc_namespace :: string

definition newProxyClient :: "env \<Rightarrow> proxy_client" where
  "newProxyClient env =
     \<lparr>pc_gateway_addr = (if env ''GATEWAY_INTERNAL_ADDR'' = [] then ''localhost:8081'' else env ''GATEWAY_INTERNAL_ADDR''),
      pc_gateway_token = env ''INTERNAL_API_TOKEN'',
      pc_namespace = (if env ''K8S_NAMESPACE'' = [] then ''default'' else env ''K8S_NAMESPACE'')\<rparr>"

text \<open>\<open>instances\<close>: \<open>get\<close> makes the request and yields the body of the response, whatever its status, \<open>dec\<close>
  decodes it.\<close>

definition proxy_instances ::
  "(string \<Rightarrow> (string \<times> string) list \<Rightarrow> string option) \<Rightarrow> (string \<Rightarrow> instance_info list option) \<Rightarrow> proxy_client \<Rightarrow>
     string \<Rightarrow> instance_info list option" where
  "proxy_instances get dec pc fn =
     (case get (''http://'' @ pc_gateway_addr pc @ ''/internal/instances/'' @ fn)
             (if pc_gateway_token pc \<noteq> [] then [(''Authorization'', ''Bearer '' @ pc_gateway_token pc)] else []) of
        None \<Rightarrow> None
      | Some body \<Rightarrow> dec body)"

definition listenAddr :: string where
  "listenAddr = '':9200''"

definition collector_url :: "string \<Rightarrow> int \<Rightarrow> string \<Rightarrow> string" where
  "collector_url fn n filter_stream =
     (let url = ''http://127.0.0.1'' @ listenAddr @ ''/local/logs/'' @ fn @ ''?tail='' @ itoa n
      in if filter_stream \<noteq> [] then url @ ''&stream='' @ filter_stream else url)"

definition program_head :: string where
  "program_head = ''import urllib.request,sys;print(urllib.request.urlopen(''"

definition program_tail :: string where
  "program_tail = '', timeout=10).read().decode())''"

definition collector_program :: "(string \<Rightarrow> string) \<Rightarrow> string \<Rightarrow> string" where
  "collector_program wide url = program_head @ go_quote wide url @ program_tail"

text \<open>\<open>execCollector\<close>: the options of the exec request; the call yields standard output, or an error.\<close>

record exec_request =
  ex_namespace :: string
  ex_pod :: string
  ex_container :: string
  ex_command :: "string list"

definition exec_collector :: "proxy_client \<Rightarrow> string \<Rightarrow> string list \<Rightarrow> exec_request" where
  "exec_collector pc pod command =
     \<lparr>ex_namespace = pc_namespace pc, ex_pod = pod, ex_container = ''collector'', ex_command = command\<rparr>"

definition fetchCollectorLogs ::
  "(string \<Rightarrow> string) \<Rightarrow> (exec_request \<Rightarrow> string option) \<Rightarrow> (string \<Rightarrow> log_entry list option) \<Rightarrow> proxy_client \<Rightarrow>
     string \<Rightarrow> string \<Rightarrow> int \<Rightarrow> string \<Rightarrow> log_entry list option" where
  "fetchCollectorLogs wide exec dec pc pod fn n filter_stream =
     (case exec (exec_collector pc pod [''python3'', ''-c'', collector_program wide (collector_url fn n filter_stream)]) of
        None \<Rightarrow> None
      | Some out \<Rightarrow> dec out)"

text \<open>The label that \<open>collectorsByNode\<close> selects the pods by.\<close>

definition collector_selector :: string where
  "collector_selector = ''app=faas-log-collector''"

text \<open>Whatever name and stream a client puts into its query, the text that ends up in the Python
  program is one string literal: nothing of it is run as code.\<close>

lemma collector_program_one_literal:
  assumes "\<And>x z. literal_rest (wide x @ z) = literal_rest z"
  shows "\<exists>body. collector_program wide (collector_url fn n s) = program_head @ CHR 0x22 # body @ CHR 0x22 # program_tail \<and>
    literal_rest (body @ CHR 0x22 # program_tail) = Some program_tail"
  using literal_rest_quote [of wide, OF assms]
  by (auto simp: collector_program_def go_quote_def intro!: exI [of _ "quote_body wide (collector_url fn n s)"])

section \<open>The request as the other side reads it\<close>

text \<open>A request target is cut at the first question mark; a path that cannot be decoded is refused.\<close>

definition target_query :: "string \<Rightarrow> log_query option" where
  "target_query target =
     (let (p, q) = cut CHR ''?'' target; vs = parse_query q in
      map_option (\<lambda>p. \<lparr>lq_path = p, lq_tail = query_get vs ''tail'', lq_stream = query_get vs ''stream''\<rparr>) (path_unescape p))"

text \<open>\<open>URL.RequestURI\<close> of the request that \<open>proxyLogs\<close> passes on.\<close>

definition request_uri :: "string \<Rightarrow> string option" where
  "request_uri target =
     (let (p, q) = cut CHR ''?'' target in
      map_option (\<lambda>e. if CHR ''?'' \<in> set target then e @ CHR ''?'' # q else e) (escaped_path p))"

definition logs_url :: "string \<Rightarrow> string \<Rightarrow> string" where
  "logs_url logdaemonAddr uri = ''http://'' @ logdaemonAddr @ uri"

text \<open>What a daemon writes for an answer; \<open>enc\<close> is the JSON text of a list of entries. Streams are not
  part of these queries.\<close>

definition plain_headers :: headers where
  "plain_headers = [(''Content-Type'', [''text/plain; charset=utf-8'']), (''X-Content-Type-Options'', [''nosniff''])]"

definition answer_reply :: "(log_entry list \<Rightarrow> string) \<Rightarrow> log_answer \<Rightarrow> log_reply" where
  "answer_reply enc a =
     (case a of
        LogEntries es \<Rightarrow> LogReply 200 [(''Content-Type'', [''application/json''])] [(enc es, True)]
      | LogFailed code msg \<Rightarrow> LogReply code plain_headers [(msg @ [CHR 0x0A], True)]
      | LogOk \<Rightarrow> LogReply 200 [] [(''ok'', True)]
      | _ \<Rightarrow> LogCallFailed)"

definition serve_target ::
  "(log_entry list \<Rightarrow> string) \<Rightarrow> (string \<Rightarrow> bool) \<Rightarrow> log_proxy option \<Rightarrow> string \<Rightarrow> daemon \<Rightarrow> string \<Rightarrow> log_reply" where
  "serve_target enc can_open px mode d target =
     (case target_query target of
        None \<Rightarrow> LogReply 400 [] [(''400 Bad Request'', True)]
      | Some q \<Rightarrow> answer_reply enc (fst (daemon_serve can_open px mode q d)))"

section \<open>Names in targets\<close>

lemma label_plain:
  assumes "label_ok n s"
  shows "query_plain s" "CHR ''?'' \<notin> set s"
    "list_all (\<lambda>c. (32::nat) \<le> of_char c \<and> of_char c < (127::nat) \<and> c \<noteq> CHR 0x22 \<and> c \<noteq> CHR 0x5C) s"
    "list_all encoded_char s"
  using assms
  by (auto simp: label_ok_def query_plain_def list_all_iff dns_char_def is_lower_def is_digit_def encoded_char_def path_char_def)

lemma itoa_chars: "c \<in> set (itoa n) \<Longrightarrow> is_digit c \<or> c = CHR ''-''"
  by (auto simp: itoa_def dest: nat_digits_digit split: if_splits)

lemma itoa_plain:
  "query_plain (itoa n)" "CHR ''?'' \<notin> set (itoa n)"
  "list_all (\<lambda>c. (32::nat) \<le> of_char c \<and> of_char c < (127::nat) \<and> c \<noteq> CHR 0x22 \<and> c \<noteq> CHR 0x5C) (itoa n)"
  using itoa_chars [of _ n]
  by (fastforce simp: query_plain_def list_all_iff is_digit_def)+

text \<open>The streams that a query can name.\<close>

definition stream_name :: "string \<Rightarrow> bool" where
  "stream_name s \<longleftrightarrow> s = [] \<or> s = ''stdout'' \<or> s = ''stderr''"

lemma stream_plain:
  assumes "stream_name s"
  shows "query_plain s" "CHR ''?'' \<notin> set s"
    "list_all (\<lambda>c. (32::nat) \<le> of_char c \<and> of_char c < (127::nat) \<and> c \<noteq> CHR 0x22 \<and> c \<noteq> CHR 0x5C) s"
  using assms by (auto simp: stream_name_def query_plain_def)

text \<open>The query as a client writes it.\<close>

definition log_target :: "string \<Rightarrow> string \<Rightarrow> int \<Rightarrow> string \<Rightarrow> string" where
  "log_target base fn n s = base @ fn @ ''?tail='' @ itoa n @ (if s = [] then [] else ''&stream='' @ s)"

lemma parse_log_query:
  assumes "stream_name s"
  shows "query_get (parse_query (''tail='' @ itoa n @ (if s = [] then [] else ''&stream='' @ s))) ''tail'' = itoa n"
    "query_get (parse_query (''tail='' @ itoa n @ (if s = [] then [] else ''&stream='' @ s))) ''stream'' = s"
proof -
  have p: "query_plain ''tail''" "query_plain ''stream''" by (simp_all add: query_plain_def)
  note t = parse_query_last [OF p(1) itoa_plain(1) [of n]] parse_query_pair [OF p(1) itoa_plain(1) [of n], of "''stream='' @ s"]
    parse_query_last [OF p(2) stream_plain(1) [OF assms]]
  show "query_get (parse_query (''tail='' @ itoa n @ (if s = [] then [] else ''&stream='' @ s))) ''tail'' = itoa n"
    "query_get (parse_query (''tail='' @ itoa n @ (if s = [] then [] else ''&stream='' @ s))) ''stream'' = s"
    using t by (cases "s = []"; simp add: query_get_def)+
qed

lemma target_query_label:
  assumes "label_ok m fn" "stream_name s" "CHR ''?'' \<notin> set base" "CHR ''%'' \<notin> set base"
  shows "target_query (log_target base fn n s) = Some \<lparr>lq_path = base @ fn, lq_tail = itoa n, lq_stream = s\<rparr>"
proof -
  have "CHR ''?'' \<notin> set (base @ fn)" using assms(3) label_plain(2) [OF assms(1)] by simp
  from cut_at [OF this, of "''tail='' @ itoa n @ (if s = [] then [] else ''&stream='' @ s)"]
  have c: "cut CHR ''?'' (log_target base fn n s) = (base @ fn, ''tail='' @ itoa n @ (if s = [] then [] else ''&stream='' @ s))"
    by (simp add: log_target_def)
  have u: "path_unescape (base @ fn) = Some (base @ fn)"
    using assms(4) label_chars(5) [OF assms(1)] by (intro path_unescape_plain) simp
  show ?thesis unfolding target_query_def c Let_def prod.case u parse_log_query [OF assms(2)] by simp
qed

section \<open>The collector answers\<close>

lemma route_logs:
  assumes "comp_ok name"
  shows "mux_dispatch [''/logs/'', ''/local/logs/'', ''/health''] (''/local/logs/'' @ name) = Route ''/local/logs/''"
    "mux_dispatch [''/logs/'', ''/local/logs/'', ''/health''] (''/logs/'' @ name) = Route ''/logs/''"
proof -
  have r: "''/local/logs/'' @ name = render [''local'', ''logs'', name]" "''/logs/'' @ name = render [''logs'', name]"
    by (simp_all add: render_def)
  have "clean_path (''/local/logs/'' @ name) = ''/local/logs/'' @ name" "clean_path (''/logs/'' @ name) = ''/logs/'' @ name"
    unfolding r using assms by (intro clean_path_render; simp add: comp_ok_def)+
  then show "mux_dispatch [''/logs/'', ''/local/logs/'', ''/health''] (''/local/logs/'' @ name) = Route ''/local/logs/''"
    "mux_dispatch [''/logs/'', ''/local/logs/'', ''/health''] (''/logs/'' @ name) = Route ''/logs/''"
    by (simp_all add: mux_dispatch_def pattern_matches_def Let_def suffix_to_prefix)
qed

lemma no_stream_suffix:
  assumes "label_ok m fn"
  shows "\<not> has_suffix fn ''/stream''"
  using label_chars(2) [OF assms] by (auto simp: suffix_def)

lemma collector_answers:
  assumes "label_ok m fn" "in_int64 n"
  shows "fst (daemon_serve can_open px mode \<lparr>lq_path = ''/local/logs/'' @ fn, lq_tail = itoa n, lq_stream = s\<rparr> d) =
    (case localEntries fn n s d of
       [] \<Rightarrow> LogFailed 404 (''no local logs for function '' @ fn)
     | e # es \<Rightarrow> LogEntries (e # es))"
proof -
  have "itoa n \<noteq> []" by (simp add: itoa_def nat_digits_nonempty)
  then have "parseTail (itoa n) 50 = n" using atoi_itoa [OF assms(2)] by (simp add: parseTail_def)
  then show ?thesis
    using route_logs(1) [OF label_chars(3) [OF assms(1)]] no_stream_suffix [OF assms(1)]
    by (simp add: daemon_serve_def local_route_def trim_prefix_append Let_def split: list.split del: append_Cons)
qed

text \<open>What the Kubernetes API and Python are relied on for: the process prints the body of a response with
  status 200 and a line feed, and fails otherwise, for a URL of printable characters; and the proxy
  decodes what a collector's daemon encoded. \<open>ds\<close> has the daemon in each pod, \<open>up\<close> the pods into which a
  command gets through; into the others it fails.\<close>

definition collectors_run ::
  "(exec_request \<Rightarrow> string option) \<Rightarrow> (string \<Rightarrow> log_entry list option) \<Rightarrow> (log_entry list \<Rightarrow> string) \<Rightarrow>
     string \<Rightarrow> (string \<Rightarrow> daemon) \<Rightarrow> string set \<Rightarrow> bool" where
  "collectors_run exec dec enc ns ds up \<longleftrightarrow>
     (\<forall>pod target. list_all (\<lambda>c. (32::nat) \<le> of_char c \<and> of_char c < (127::nat) \<and> c \<noteq> CHR 0x22 \<and> c \<noteq> CHR 0x5C) target \<longrightarrow>
        exec \<lparr>ex_namespace = ns, ex_pod = pod, ex_container = ''collector'',
              ex_command = [''python3'', ''-c'',
                program_head @ CHR 0x22 # (''http://127.0.0.1:9200'' @ target) @ CHR 0x22 # program_tail]\<rparr> =
          (if pod \<notin> up then None
           else
             case serve_target enc (\<lambda>_. True) None ''collector'' (ds pod) target of
               LogReply code hs chunks \<Rightarrow> if code = 200 then Some (concat (map fst chunks) @ [CHR 0x0A]) else None
             | _ \<Rightarrow> None)) \<and>
     (\<forall>pod fn n s. dec (enc (localEntries fn n s (ds pod)) @ [CHR 0x0A]) = Some (localEntries fn n s (ds pod)))"

lemma fetch_from_collector:
  assumes "collectors_run exec dec enc (pc_namespace pc) ds up" "label_ok m fn" "in_int64 n" "stream_name s"
  shows "fetchCollectorLogs wide exec dec pc pod fn n s =
    (if pod \<notin> up \<or> localEntries fn n s (ds pod) = [] then None else Some (localEntries fn n s (ds pod)))"
proof -
  let ?t = "log_target ''/local/logs/'' fn n s"
  have plain: "list_all (\<lambda>c. (32::nat) \<le> of_char c \<and> of_char c < (127::nat) \<and> c \<noteq> CHR 0x22 \<and> c \<noteq> CHR 0x5C) ?t"
    using label_plain(3) [OF assms(2)] itoa_plain(3) [of n] stream_plain(3) [OF assms(4)]
    by (cases "s = []") (simp_all add: log_target_def)
  have url: "collector_url fn n s = ''http://127.0.0.1:9200'' @ ?t"
    by (simp add: collector_url_def listenAddr_def log_target_def)
  have quoted: "go_quote wide (''http://127.0.0.1:9200'' @ ?t) = CHR 0x22 # (''http://127.0.0.1:9200'' @ ?t) @ [CHR 0x22]"
    by (rule quote_plain) (use plain in simp)
  have program: "collector_program wide (collector_url fn n s) =
      program_head @ CHR 0x22 # (''http://127.0.0.1:9200'' @ ?t) @ CHR 0x22 # program_tail"
    unfolding collector_program_def url quoted by simp
  have t: "target_query ?t = Some \<lparr>lq_path = ''/local/logs/'' @ fn, lq_tail = itoa n, lq_stream = s\<rparr>"
    by (rule target_query_label [OF assms(2,4)]) simp_all
  have answer: "serve_target enc (\<lambda>_. True) None ''collector'' (ds pod) ?t =
      answer_reply enc (case localEntries fn n s (ds pod) of
        [] \<Rightarrow> LogFailed 404 (''no local logs for function '' @ fn) | e # es \<Rightarrow> LogEntries (e # es))"
    unfolding serve_target_def t by (simp only: option.case collector_answers [OF assms(2,3)])
  have "exec (exec_collector pc pod [''python3'', ''-c'', collector_program wide (collector_url fn n s)]) =
      (if pod \<notin> up \<or> localEntries fn n s (ds pod) = [] then None else Some (enc (localEntries fn n s (ds pod)) @ [CHR 0x0A]))"
    unfolding exec_collector_def program
      assms(1) [unfolded collectors_run_def, THEN conjunct1, rule_format, OF plain, of pod] answer
    by (simp add: answer_reply_def split: list.split)
  then show ?thesis using assms(1) by (simp add: fetchCollectorLogs_def collectors_run_def)
qed

section \<open>The gateway answers\<close>

definition gateway_get ::
  "(payload \<Rightarrow> string) \<Rightarrow> string \<Rightarrow> string \<Rightarrow> world \<Rightarrow> string \<Rightarrow> gateway \<Rightarrow> string \<Rightarrow> (string \<times> string) list \<Rightarrow> string option" where
  "gateway_get json sa token w addr g url hs =
     (let base = ''http://'' @ addr in
      if \<not> has_prefix url base then None
      else
        case path_unescape (drop (length base) url) of
          None \<Rightarrow> None
        | Some p \<Rightarrow>
            map_option (\<lambda>rsp. json (rs_payload rsp))
              (fst (NewInternalMux sa token w
                 \<lparr>rq_method = ''GET'', rq_path = p,
                  rq_auth = (case map_of hs ''Authorization'' of None \<Rightarrow> [] | Some v \<Rightarrow> v), rq_body = Some []\<rparr> g)))"

lemma route_instances:
  assumes "comp_ok name"
  shows "clean_path (''/internal/instances/'' @ name) = ''/internal/instances/'' @ name"
    "mux_dispatch internal_patterns (''/internal/instances/'' @ name) = Route ''/internal/instances/''"
proof -
  have "''/internal/instances/'' @ name = render [''internal'', ''instances'', name]" by (simp add: render_def)
  then show c: "clean_path (''/internal/instances/'' @ name) = ''/internal/instances/'' @ name"
    using assms clean_path_render [of "[''internal'', ''instances'', name]"] by (simp add: comp_ok_def)
  show "mux_dispatch internal_patterns (''/internal/instances/'' @ name) = Route ''/internal/instances/''"
    using c by (simp add: mux_dispatch_def internal_patterns_def pattern_matches_def Let_def suffix_to_prefix)
qed

lemma instances_served:
  assumes "label_ok m fn" "pc_gateway_token pc = token"
    "dec (json (JsonInstances (Instances fn (gw_sched g)))) = Some (Instances fn (gw_sched g))"
  shows "proxy_instances (gateway_get json sa token w (pc_gateway_addr pc) g) dec pc fn = Some (Instances fn (gw_sched g))"
proof -
  have p: "path_unescape (''/internal/instances/'' @ fn) = Some (''/internal/instances/'' @ fn)"
    using label_chars(5) [OF assms(1)] by (intro path_unescape_plain) simp
  note r = route_instances [OF label_chars(3) [OF assms(1)]]
  have serve: "internal_serve sa w \<lparr>rq_method = ''GET'', rq_path = ''/internal/instances/'' @ fn, rq_auth = t, rq_body = Some []\<rparr> g =
      (Some \<lparr>rs_status = 200, rs_payload = JsonInstances (Instances fn (gw_sched g))\<rparr>, g)" for t
    using r(2) by (simp add: internal_serve_def instances_handler_def trim_prefix_append write_header_def del: append_Cons)
  have mux: "NewInternalMux sa token w \<lparr>rq_method = ''GET'', rq_path = ''/internal/instances/'' @ fn,
        rq_auth = (if token \<noteq> [] then ''Bearer '' @ token else []), rq_body = Some []\<rparr> g =
      (Some \<lparr>rs_status = 200, rs_payload = JsonInstances (Instances fn (gw_sched g))\<rparr>, g)"
    using r(1) serve by (simp add: NewInternalMux_def withInternalAuth_def route_root)
  have "gateway_get json sa token w (pc_gateway_addr pc) g
      (''http://'' @ pc_gateway_addr pc @ ''/internal/instances/'' @ fn)
      (if token \<noteq> [] then [(''Authorization'', ''Bearer '' @ token)] else []) =
      Some (json (JsonInstances (Instances fn (gw_sched g))))"
  proof -
    have d: "drop (length (''http://'' @ pc_gateway_addr pc)) (''http://'' @ pc_gateway_addr pc @ ''/internal/instances/'' @ fn) =
        ''/internal/instances/'' @ fn"
      by simp
    show ?thesis unfolding gateway_get_def Let_def d p using mux by (cases "token = []") simp_all
  qed
  then show ?thesis unfolding proxy_instances_def assms(2) by (simp only: option.case assms(3))
qed

section \<open>The whole query\<close>

text \<open>The daemon behind the address that the gateway has for it.\<close>

definition log_net ::
  "(log_entry list \<Rightarrow> string) \<Rightarrow> (string \<Rightarrow> bool) \<Rightarrow> log_proxy \<Rightarrow> string \<Rightarrow> daemon \<Rightarrow> string \<Rightarrow> log_reply" where
  "log_net enc can_open px addr d url =
     (let base = ''http://'' @ addr in
      if has_prefix url base then serve_target enc can_open (Some px) ''proxy'' d (drop (length base) url) else LogCallFailed)"

lemma request_uri_label:
  assumes "label_ok m fn" "stream_name s"
  shows "request_uri (log_target ''/logs/'' fn n s) = Some (log_target ''/logs/'' fn n s)"
proof -
  have "CHR ''?'' \<notin> set (''/logs/'' @ fn)" using label_plain(2) [OF assms(1)] by simp
  from cut_at [OF this, of "''tail='' @ itoa n @ (if s = [] then [] else ''&stream='' @ s)"]
  have c: "cut CHR ''?'' (log_target ''/logs/'' fn n s) = (''/logs/'' @ fn, ''tail='' @ itoa n @ (if s = [] then [] else ''&stream='' @ s))"
    by (simp add: log_target_def)
  have u: "path_unescape (''/logs/'' @ fn) = Some (''/logs/'' @ fn)"
    using label_chars(5) [OF assms(1)] by (intro path_unescape_plain) simp
  have "list_all encoded_char (''/logs/'' @ fn)"
    using label_plain(4) [OF assms(1)] by (simp add: encoded_char_def path_char_def is_lower_def)
  then have e: "escaped_path (''/logs/'' @ fn) = Some (''/logs/'' @ fn)" unfolding escaped_path_def u by simp
  have q: "CHR ''?'' \<in> set (log_target ''/logs/'' fn n s)" by (simp add: log_target_def)
  show ?thesis unfolding request_uri_def c Let_def prod.case e using q by (simp add: log_target_def)
qed

lemma kept_headers:
  "copyHeaders [] plain_headers = plain_headers"
  "copyHeaders [] [(''Content-Type'', [''application/json''])] = [(''Content-Type'', [''application/json''])]"
  by code_simp+

lemma proxy_answers:
  assumes "label_ok m fn" "in_int64 n" "stream_name s" "fetchLogs px fn n s = Some out"
  shows "serve_target enc can_open (Some px) ''proxy'' d (log_target ''/logs/'' fn n s) =
    answer_reply enc (if out = [] then LogFailed 404 (''no logs for function '' @ fn) else LogEntries out)"
proof -
  have t: "target_query (log_target ''/logs/'' fn n s) = Some \<lparr>lq_path = ''/logs/'' @ fn, lq_tail = itoa n, lq_stream = s\<rparr>"
    by (rule target_query_label [OF assms(1,3)]) simp_all
  have "itoa n \<noteq> []" by (simp add: itoa_def nat_digits_nonempty)
  then have "parseTail (itoa n) 50 = n" using atoi_itoa [OF assms(2)] by (simp add: parseTail_def)
  then show ?thesis
    using route_logs(2) [OF label_chars(3) [OF assms(1)]] no_stream_suffix [OF assms(1)] assms(4)
    by (cases out) (simp_all add: serve_target_def t daemon_serve_def logs_route_def trim_prefix_append Let_def entriesFor_def
      del: append_Cons)
qed

text \<open>What a collector's daemon holds for such a query: of the end of its ring, cut to the asked number, the
  lines of the asked stream.\<close>

lemma localEntries_ring:
  "localEntries fn n s d =
     filter (\<lambda>e. s = [] \<or> le_stream e = s) (case dm_rings d fn of None \<Rightarrow> [] | Some r \<Rightarrow> tail n r)"
  by (auto simp: localEntries_def Let_def split: option.split intro!: filter_True [symmetric])

text \<open>C12. A log query that a client makes to the gateway is answered from the rings of the collectors: those
  of exactly the nodes on which the gateway's own pool has a container of the function are asked, each once, and one into which
  the command fails is left out. Each of the others
  contributes, of the last lines that its ring has of the function, as many as the query asks for (all, where
  that is not a positive number), those of the asked stream: the cut comes before the choice of the stream, so an older line
  of the stream is left out though the answer has room for it. The answer has all that was contributed, in the
  order of the times, or, where that is more than the asked number, exactly this number of the latest.
  With nothing to return it is 404.\<close>

theorem log_query_end_to_end:
  assumes "label_ok m fn" "in_int64 n" "stream_name s"
    and net: "collectors_run exec dec enc (pc_namespace pc) ds up" "idec (json (JsonInstances (Instances fn (gw_sched g)))) = Some (Instances fn (gw_sched g))"
      "pc_gateway_token pc = token" "sorts_by_time srt"
    and req: "rq_method req = ''GET''" "rq_path req = ''/logs/'' @ fn" "request_uri (log_target ''/logs/'' fn n s) = Some uri"
    and px: "px = \<lparr>px_instances = proxy_instances (gateway_get json sa token w (pc_gateway_addr pc) g) idec pc,
      px_pods = Some pods, px_fetch = fetchCollectorLogs wide exec dec pc, px_sort = srt\<rparr>"
  shows "\<exists>out asked rest. distinct asked \<and>
    set asked = {pod. pod \<noteq> [] \<and> (\<exists>r \<in> set (pool_of (gw_sched g) fn). c_node_name (deref (gw_sched g) r) \<noteq> [] \<and>
      collectorsByNode pods (c_node_name (deref (gw_sched g) r)) = Some pod)} \<and>
    mset (rest @ out) = mset (concat (map (\<lambda>pod. filter (\<lambda>e. s = [] \<or> le_stream e = s)
        (case dm_rings (ds pod) fn of None \<Rightarrow> [] | Some r \<Rightarrow> tail n r)) (filter (\<lambda>pod. pod \<in> up) asked))) \<and>
    sorted (map le_time (rest @ out)) \<and> (rest = [] \<or> n > 0 \<and> int (length out) = n) \<and>
    logs_handler (\<lambda>uri. log_net enc can_open px addr d (logs_url addr uri)) uri [True] req =
      Some (if out = []
        then (\<lparr>rs_status = 404, rs_payload = NoBody\<rparr>, plain_headers, ''no logs for function '' @ fn @ [CHR 0x0A])
        else (\<lparr>rs_status = 200, rs_payload = NoBody\<rparr>, [(''Content-Type'', [''application/json''])], enc out))"
proof -
  have i: "px_instances px fn = Some (Instances fn (gw_sched g))"
    unfolding px
    using instances_served [OF assms(1) net(3), where dec = idec and json = json and g = g and sa = sa and w = w] net(2)
    by simp
  have p: "px_pods px = Some pods" "px_sort px = srt" by (simp_all add: px)
  have f: "(case px_fetch px pod fn n s of None \<Rightarrow> [] | Some es \<Rightarrow> es) = (if pod \<in> up then localEntries fn n s (ds pod) else [])" for pod
    by (simp add: px fetch_from_collector [OF net(1) assms(1-3)])
  obtain es asked where l: "fetch_loop (collectorsByNode pods) (\<lambda>pod. px_fetch px pod fn n s) (Instances fn (gw_sched g)) [] [] = (es, asked)"
    by fastforce
  define out where "out = (if es = [] then [] else cut_tail n (srt es))"
  have out: "fetchLogs px fn n s = Some out" using i p l by (simp add: fetchLogs_def out_def)
  obtain asked rest where spec: "distinct asked"
    "set asked = {pod. pod \<noteq> [] \<and> (\<exists>i \<in> set (Instances fn (gw_sched g)). ii_node_name i \<noteq> [] \<and> collectorsByNode pods (ii_node_name i) = Some pod)}"
    "mset (rest @ out) = mset (concat (map (\<lambda>pod. if pod \<in> up then localEntries fn n s (ds pod) else []) asked))"
    "sorted (map le_time (rest @ out))" "rest = [] \<or> n > 0 \<and> int (length out) = n"
    using merge_spec [OF _ out, unfolded p i f] net(4) by auto
  have "uri = log_target ''/logs/'' fn n s" using req(3) request_uri_label [OF assms(1,3)] by simp
  then have "log_net enc can_open px addr d (logs_url addr uri) =
      answer_reply enc (if out = [] then LogFailed 404 (''no logs for function '' @ fn) else LogEntries out)"
    using proxy_answers [OF assms(1-3) out] by (simp add: log_net_def logs_url_def Let_def)
  moreover have "fn \<noteq> []" "\<not> has_prefix fn ''/''"
    using label_chars [OF assms(1)] by (cases fn; simp)+
  ultimately have "logs_handler (\<lambda>uri. log_net enc can_open px addr d (logs_url addr uri)) uri [True] req =
      Some (if out = []
        then (\<lparr>rs_status = 404, rs_payload = NoBody\<rparr>, plain_headers, ''no logs for function '' @ fn @ [CHR 0x0A])
        else (\<lparr>rs_status = 200, rs_payload = NoBody\<rparr>, [(''Content-Type'', [''application/json''])], enc out))"
    using req(1,2)
    by (simp add: logs_handler_def trim_prefix_append answer_reply_def write_header_def kept_headers
      del: append_Cons copyHeaders.simps)
  moreover have "set asked = {pod. pod \<noteq> [] \<and> (\<exists>r \<in> set (pool_of (gw_sched g) fn). c_node_name (deref (gw_sched g) r) \<noteq> [] \<and>
      collectorsByNode pods (c_node_name (deref (gw_sched g) r)) = Some pod)}"
    unfolding spec(2) by (auto simp: Instances_def)
  moreover have m: "concat (map (\<lambda>pod. if pod \<in> up then localEntries fn n s (ds pod) else []) asked) =
      concat (map (\<lambda>pod. filter (\<lambda>e. s = [] \<or> le_stream e = s)
        (case dm_rings (ds pod) fn of None \<Rightarrow> [] | Some r \<Rightarrow> tail n r)) (filter (\<lambda>pod. pod \<in> up) asked))"
    by (induction asked) (simp_all add: localEntries_ring)
  ultimately show ?thesis using spec(1,4-) spec(3) [unfolded m] by blast
qed

text \<open>One collector on the node of the function's container, with one line.\<close>

definition flow_daemon :: daemon where
  "flow_daemon = daemon_write (\<lambda>_. True) (line_at 2 ''b'') newDaemon"

lemma flow_entries: "localEntries fn n s flow_daemon = (if fn = ''f'' \<and> (s = [] \<or> s = ''stdout'') then [line_at 2 ''b''] else [])"
proof -
  have r: "dm_rings flow_daemon fn = (if fn = ''f'' then Some (push (line_at 2 ''b'') new_ring) else None)"
    by (simp add: flow_daemon_def daemon_write_rings newDaemon_def line_at_def)
  have "tail n (push (line_at 2 ''b'') new_ring) = [line_at 2 ''b'']"
    using log_ring.last_n_history [of n "[line_at 2 ''b'']"] by (simp add: take_last_def ring_size_def)
  then show ?thesis using r by (simp add: localEntries_def line_at_def)
qed

definition flow_enc :: "log_entry list \<Rightarrow> string" where
  "flow_enc es = concat (map le_line es)"

definition flow_dec :: "string \<Rightarrow> log_entry list option" where
  "flow_dec b = Some (if b = [CHR 0x0A] then [] else [line_at 2 ''b''])"

definition flow_exec :: "exec_request \<Rightarrow> string option" where
  "flow_exec r =
     (let t = drop (length program_head + 22) (ex_command r ! 2)
      in if ex_pod r \<noteq> ''p1'' then None
         else case serve_target flow_enc (\<lambda>_. True) None ''collector'' flow_daemon (take (length t - Suc (length program_tail)) t) of
           LogReply code hs chunks \<Rightarrow> if code = 200 then Some (concat (map fst chunks) @ [CHR 0x0A]) else None
         | _ \<Rightarrow> None)"

lemma flow_collectors: "collectors_run flow_exec flow_dec flow_enc ''default'' (\<lambda>_. flow_daemon) {''p1''}"
  unfolding collectors_run_def
proof (intro conjI allI impI)
  show "flow_dec (flow_enc (localEntries fn n s flow_daemon) @ [CHR 0x0A]) = Some (localEntries fn n s flow_daemon)" for fn n s
    by (simp add: flow_entries flow_dec_def flow_enc_def line_at_def)
qed (simp add: flow_exec_def Let_def)

definition flow_gateway :: gateway where
  "flow_gateway = sample_gateway\<lparr>gw_sched := (gw_sched sample_gateway)
     \<lparr>s_heap := map (\<lambda>c. c\<lparr>c_node_name := ''n1''\<rparr>) (s_heap (gw_sched sample_gateway))\<rparr>\<rparr>"

definition flow_client :: proxy_client where
  "flow_client = newProxyClient (\<lambda>_. [])"

definition flow_proxy :: log_proxy where
  "flow_proxy = \<lparr>px_instances = proxy_instances (gateway_get (\<lambda>_. []) [] [] sample_world (pc_gateway_addr flow_client) flow_gateway)
        (\<lambda>_. Some (Instances ''f'' (gw_sched flow_gateway))) flow_client,
      px_pods = Some [\<lparr>pi_node = ''n1'', pi_name = ''p1''\<rparr>],
      px_fetch = fetchCollectorLogs (\<lambda>s. s) flow_exec flow_dec flow_client, px_sort = sort_key le_time\<rparr>"

theorem log_query_end_to_end_witness:
  "logs_handler (\<lambda>uri. log_net flow_enc (\<lambda>_. True) flow_proxy ''localhost:9200'' newDaemon (logs_url ''localhost:9200'' uri))
     (log_target ''/logs/'' ''f'' 5 []) [True] \<lparr>rq_method = ''GET'', rq_path = ''/logs/f'', rq_auth = [], rq_body = Some []\<rparr> =
   Some (\<lparr>rs_status = 200, rs_payload = NoBody\<rparr>, [(''Content-Type'', [''application/json''])], ''b'')"
proof -
  have pool: "pool_of (gw_sched flow_gateway) ''f'' = [0]" "c_node_name (deref (gw_sched flow_gateway) 0) = ''n1''"
    by (simp_all add: flow_gateway_def sample_gateway_def sample_warm_def new_scheduler_def)
  have net: "collectors_run flow_exec flow_dec flow_enc (pc_namespace flow_client) (\<lambda>_. flow_daemon) {''p1''}"
    using flow_collectors by (simp add: flow_client_def newProxyClient_def)
  have pre: "in_int64 5" "stream_name []" "pc_gateway_token flow_client = []" "sorts_by_time (sort_key le_time)"
    by (simp_all add: in_int64_def stream_name_def flow_client_def newProxyClient_def sorts_by_time_def)
  let ?req = "\<lparr>rq_method = ''GET'', rq_path = ''/logs/f'', rq_auth = [], rq_body = Some []\<rparr>"
  have req: "rq_method ?req = ''GET''" "rq_path ?req = ''/logs/'' @ ''f''" by simp_all
  have uri: "request_uri (log_target ''/logs/'' ''f'' 5 []) = Some (log_target ''/logs/'' ''f'' 5 [])"
    by (rule request_uri_label [OF sample_label pre(2)])
  obtain out asked rest where q: "distinct asked"
    "set asked = {pod. pod \<noteq> [] \<and> (\<exists>r \<in> set (pool_of (gw_sched flow_gateway) ''f''). c_node_name (deref (gw_sched flow_gateway) r) \<noteq> [] \<and>
      collectorsByNode [\<lparr>pi_node = ''n1'', pi_name = ''p1''\<rparr>] (c_node_name (deref (gw_sched flow_gateway) r)) = Some pod)}"
    "mset (rest @ out) = mset (concat (map (\<lambda>pod. filter (\<lambda>e. ([] :: string) = [] \<or> le_stream e = [])
        (case dm_rings flow_daemon ''f'' of None \<Rightarrow> [] | Some r \<Rightarrow> tail 5 r)) (filter (\<lambda>pod. pod \<in> {''p1''}) asked)))"
    "rest = [] \<or> (5::int) > 0 \<and> int (length out) = 5"
    "logs_handler (\<lambda>uri. log_net flow_enc (\<lambda>_. True) flow_proxy ''localhost:9200'' newDaemon (logs_url ''localhost:9200'' uri))
       (log_target ''/logs/'' ''f'' 5 []) [True] ?req =
      Some (if out = []
        then (\<lparr>rs_status = 404, rs_payload = NoBody\<rparr>, plain_headers, ''no logs for function '' @ ''f'' @ [CHR 0x0A])
        else (\<lparr>rs_status = 200, rs_payload = NoBody\<rparr>, [(''Content-Type'', [''application/json''])], flow_enc out))"
    using log_query_end_to_end [OF sample_label pre(1,2) net _ pre(3,4) req uri flow_proxy_def] by blast
  have "set asked = {''p1''}" using q(2) pool by (auto simp: collectorsByNode_def)
  then have "asked = [''p1'']" using q(1) by (cases asked; cases "tl asked") auto
  then have m: "mset (rest @ out) = {#line_at 2 ''b''#}" using q(3) [folded localEntries_ring] by (simp add: flow_entries)
  then have "length (rest @ out) = 1" by (metis size_mset size_single)
  then have "rest = []" using q(4) by auto
  then have "out = [line_at 2 ''b'']" using m by simp
  then show ?thesis using q(5) by (simp add: flow_enc_def line_at_def)
qed

end
