(* ===== verification/Backends.thy ===== *)
theory Backends
  imports Labels Scheduler Paths
begin

text \<open>
  The two backends that start and stop instances: Docker (gateway/scheduler/docker_backend.go,
  docker_client.go) and Kubernetes (gateway/scheduler/k8s_backend.go). What the Docker daemon, the
  Kubernetes API and the command line tools answer is given in the records \<open>docker_answers\<close> and
  \<open>k8s_answers\<close>; an operation yields its result and the calls it makes, in order. The locale
  \<open>runtime_backend\<close> is the contract of the interface \<open>RuntimeBackend\<close> (gateway/scheduler/backend.go):
  a start that fails asks to take back what it knows to have made. What a call really did is recorded with
  the call: a create whose reply is lost may have made something, and a removal may fail.
\<close>

section \<open>Names and readiness\<close>

definition instance_name :: "function_config \<Rightarrow> string" where
  "instance_name cfg = ''faas-'' @ dnsLabel (fc_name cfg) @ ''-'' @ itoa (fc_port cfg)"

definition local_addr :: "function_config \<Rightarrow> string" where
  "local_addr cfg = ''localhost:'' @ itoa (fc_port cfg)"

definition env_or :: "env \<Rightarrow> string \<Rightarrow> string \<Rightarrow> string" where
  "env_or env key fallback = (if env key = [] then fallback else env key)"

text \<open>\<open>waitReady\<close>: the replies to the probes made before the deadline; the body is read up to 64
  bytes.\<close>

fun waitReady :: "(int \<times> string) option list \<Rightarrow> bool" where
  "waitReady [] = False"
| "waitReady (None # rs) = waitReady rs"
| "waitReady (Some (code, body) # rs) = (if code = 200 \<and> trim_space (take 64 body) = ''ok'' then True else waitReady rs)"

section \<open>The contract\<close>

text \<open>A start for some answers of the outside world yields a result and calls. Known of a call are the
  resource that it made, the resource that it asks to remove, and whether that was confirmed. \<open>lost\<close> is what a create
  made whose reply did not say so. \<open>names k n\<close> says that the id \<open>k\<close> stands for the
  resource \<open>n\<close>: a prefix for Docker, the name itself for Kubernetes.\<close>

locale runtime_backend =
  fixes start_calls :: "'a \<Rightarrow> function_config \<Rightarrow> (string + runtime_instance) \<times> 'c list"
    and stop_calls :: "'a \<Rightarrow> string \<Rightarrow> 'c list"
    and stop_ok :: "'a \<Rightarrow> bool"
    and lost :: "'a \<Rightarrow> function_config \<Rightarrow> string option"
    and makes :: "'c \<Rightarrow> string option"
    and asks :: "'c \<Rightarrow> string option"
    and confirmed :: "'c \<Rightarrow> bool"
    and names :: "string \<Rightarrow> string \<Rightarrow> bool"
  assumes names_refl: "names n n"
    and failed_start: "start_calls a cfg = (Inl e, cs) \<Longrightarrow>
      (\<forall>c \<in> set cs. makes c = None) \<or>
      (\<exists>us c. cs = us @ [c] \<and> makes c = lost a cfg \<and> (\<forall>x \<in> set us. makes x = None) \<and> (\<forall>x \<in> set cs. asks x = None)) \<or>
      (\<exists>n us c vs d ws. cs = us @ c # vs @ d # ws \<and> makes c = Some n \<and> asks d = Some n \<and>
        (\<forall>x \<in> set (us @ vs @ d # ws). makes x = None))"
    and good_start: "start_calls a cfg = (Inr i, cs) \<Longrightarrow>
      \<exists>n us c vs. cs = us @ c # vs \<and> makes c = Some n \<and> (\<forall>x \<in> set (us @ vs). makes x = None) \<and>
        (\<forall>x \<in> set cs. asks x = None) \<and> names (ri_id i) n"
    and start_instance: "start_calls a cfg = (Inr i, cs) \<Longrightarrow> ri_addr i = local_addr cfg \<and> ri_func_name i = fc_name cfg"
    and stop_asks: "\<exists>c \<in> set (stop_calls a k). asks c = Some k"
    and stop_confirmed: "c \<in> set (stop_calls a k) \<Longrightarrow> asks c \<noteq> None \<Longrightarrow> confirmed c = stop_ok a"
    and stop_makes: "c \<in> set (stop_calls a k) \<Longrightarrow> makes c = None"
begin

definition removed :: "string \<Rightarrow> 'c list \<Rightarrow> bool" where
  "removed n cs \<longleftrightarrow> (\<exists>d \<in> set cs. confirmed d \<and> (\<exists>k. asks d = Some k \<and> names k n))"

text \<open>What the calls leave behind: what was made and not confirmed to be removed later.\<close>

fun left :: "'c list \<Rightarrow> string list" where
  "left [] = []"
| "left (c # cs) =
     (case makes c of None \<Rightarrow> left cs | Some n \<Rightarrow> if removed n cs then left cs else n # left cs)"

lemma left_no_makes: "\<forall>c \<in> set cs. makes c = None \<Longrightarrow> left cs = []"
  by (induction cs) simp_all

lemma left_skip: "\<forall>c \<in> set us. makes c = None \<Longrightarrow> left (us @ cs) = left cs"
  by (induction us) simp_all

text \<open>The resource of one create among calls that make nothing.\<close>

lemma left_one:
  assumes "\<forall>x \<in> set (us @ vs). makes x = None" "makes c = Some n"
  shows "left (us @ c # vs) = (if removed n vs then [] else [n])"
  using assms left_no_makes [of vs] by (simp add: left_skip)

lemma failed_start_leaves:
  assumes "start_calls a cfg = (Inl e, cs)"
  shows "left cs = [] \<or> (\<exists>n. left cs = [n] \<and>
    (lost a cfg = Some n \<and> (\<forall>c \<in> set cs. asks c = None) \<or> (\<exists>d \<in> set cs. asks d = Some n \<and> \<not> confirmed d)))"
  using failed_start [OF assms]
proof (elim disjE exE conjE)
  show ?thesis if "\<forall>c \<in> set cs. makes c = None" using left_no_makes [OF that] by blast
next
  fix us c
  assume "cs = us @ [c]" "makes c = lost a cfg" "\<forall>x \<in> set us. makes x = None" "\<forall>x \<in> set cs. asks x = None"
  then show ?thesis by (cases "lost a cfg") (simp_all add: left_skip removed_def)
next
  fix n us c vs d ws
  assume c: "cs = us @ c # vs @ d # ws" "makes c = Some n" "asks d = Some n" "\<forall>x \<in> set (us @ vs @ d # ws). makes x = None"
  then have "left cs = (if removed n (vs @ d # ws) then [] else [n])" using left_one [of us "vs @ d # ws" c n] by simp
  moreover have "confirmed d \<Longrightarrow> removed n (vs @ d # ws)" using c(3) names_refl by (auto simp: removed_def)
  ultimately show ?thesis using c(1,3) by auto
qed

lemma good_start_leaves_one:
  assumes "start_calls a cfg = (Inr i, cs)"
  shows "\<exists>n. left cs = [n] \<and> names (ri_id i) n \<and> left (cs @ stop_calls b (ri_id i)) = (if stop_ok b then [] else [n])"
proof -
  obtain n us c vs where g: "cs = us @ c # vs" "makes c = Some n" "\<forall>x \<in> set (us @ vs). makes x = None"
    "\<forall>x \<in> set cs. asks x = None" "names (ri_id i) n" using good_start [OF assms] by blast
  have "left cs = [n]" using left_one [OF g(3,2)] g(1,4) by (auto simp: removed_def)
  moreover have "removed n (vs @ stop_calls b (ri_id i)) \<longleftrightarrow> stop_ok b"
    using stop_asks [of b "ri_id i"] stop_confirmed g(1,4,5) by (force simp: removed_def)
  moreover have "left (us @ c # (vs @ stop_calls b (ri_id i))) = (if removed n (vs @ stop_calls b (ri_id i)) then [] else [n])"
    using g(2,3) stop_makes by (intro left_one) auto
  ultimately show ?thesis using g(1,5) by auto
qed

end

section \<open>Docker\<close>

record docker_body =
  db_image :: string
  db_env :: "(string \<times> string) list"
  db_function :: string
  db_memory :: int
  db_auto_remove :: bool
  db_port :: string   \<comment> \<open>exposed, and bound to the host's address and port\<close>
  db_host_ip :: string
  db_host_port :: string
  db_binds :: "string list"

text \<open>A create with the container that it made, and a stop with whether it was confirmed.\<close>

datatype docker_call = DockerCreate string docker_body "string option" | DockerStart string | DockerStop string bool

text \<open>\<open>do\<close>: \<open>None\<close> when the call failed, else the status and what the body decodes to.\<close>

definition docker_do :: "(int \<times> 'b option) option \<Rightarrow> string + 'b" where
  "docker_do reply =
     (case reply of
        None \<Rightarrow> Inl ''call failed''
      | Some (code, out) \<Rightarrow>
          if code < 200 \<or> code \<ge> 300 then Inl ''status''
          else (case out of None \<Rightarrow> Inl ''decode'' | Some v \<Rightarrow> Inr v))"

record docker_answers =
  da_create :: "(int \<times> string option) option"   \<comment> \<open>the id\<close>
  da_lost :: "string option"   \<comment> \<open>the container that a create made whose reply is lost or does not decode\<close>
  da_start :: "(int \<times> unit option) option"
  da_probes :: "(int \<times> string) option list"
  da_stop :: "(int \<times> unit option) option"

definition docker_container_body :: "env \<Rightarrow> function_config \<Rightarrow> docker_body" where
  "docker_container_body env cfg =
     \<lparr>db_image = fc_image cfg,
      db_env = [(''FUNCTION_HANDLER'', fc_handler cfg), (''FUNCTION_RUNTIME'', fc_runtime cfg),
        (''GATEWAY_ADDR'', env_or env ''GATEWAY_ADDR'' ''host.docker.internal:8080''),
        (''GATEWAY_INTERNAL_ADDR'', env_or env ''GATEWAY_INTERNAL_ADDR'' ''host.docker.internal:8081''),
        (''INTERNAL_API_TOKEN'', env ''INTERNAL_API_TOKEN'')],
      db_function = fc_name cfg, db_memory = wrap64 (fc_memory cfg * 1048576), db_auto_remove = True,
      db_port = ''9001/tcp'', db_host_ip = ''127.0.0.1'', db_host_port = itoa (fc_port cfg),
      db_binds = (if fc_code_dir cfg \<noteq> [] then [fc_code_dir cfg @ '':/function''] else [])\<rparr>"

definition docker_stopped :: "docker_answers \<Rightarrow> bool" where
  "docker_stopped ans = (case docker_do (da_stop ans) of Inl _ \<Rightarrow> False | Inr _ \<Rightarrow> True)"

definition docker_Stop :: "docker_answers \<Rightarrow> string \<Rightarrow> string option \<times> docker_call list" where
  "docker_Stop ans k =
     (case docker_do (da_stop ans) of
        Inl e \<Rightarrow> (Some e, [DockerStop k (docker_stopped ans)])
      | Inr _ \<Rightarrow> (None, [DockerStop k (docker_stopped ans)]))"

definition docker_lost :: "docker_answers \<Rightarrow> function_config \<Rightarrow> string option" where
  "docker_lost ans cfg = (case docker_do (da_create ans) of Inl _ \<Rightarrow> da_lost ans | Inr _ \<Rightarrow> None)"

text \<open>A create whose reply gives the id has made that container; of any other create the code knows only
  that it failed, whatever Docker has made, and it stops nothing.\<close>

definition docker_Start :: "env \<Rightarrow> docker_answers \<Rightarrow> function_config \<Rightarrow> (string + runtime_instance) \<times> docker_call list" where
  "docker_Start env ans cfg =
     (case docker_do (da_create ans) of
        Inl e \<Rightarrow> (Inl (''docker create: '' @ e), [DockerCreate (instance_name cfg) (docker_container_body env cfg) (da_lost ans)])
      | Inr full \<Rightarrow>
          (let create = DockerCreate (instance_name cfg) (docker_container_body env cfg) (Some full) in
           case docker_do (da_start ans) of
             Inl e \<Rightarrow> (Inl (''docker start: '' @ e), create # DockerStart full # snd (docker_Stop ans full))
           | Inr _ \<Rightarrow>
               if \<not> waitReady (da_probes ans)
               then (Inl ''container not ready: timeout waiting for runtime'', create # DockerStart full # snd (docker_Stop ans full))
               else (Inr \<lparr>ri_id = (if length full > 12 then take 12 full else full), ri_addr = local_addr cfg,
                          ri_func_name = fc_name cfg, ri_node_name = []\<rparr>, [create, DockerStart full])))"

fun docker_makes :: "docker_call \<Rightarrow> string option" where
  "docker_makes (DockerCreate n b made) = made"
| "docker_makes _ = None"

fun docker_asks :: "docker_call \<Rightarrow> string option" where
  "docker_asks (DockerStop k ok) = Some k"
| "docker_asks _ = None"

fun docker_confirmed :: "docker_call \<Rightarrow> bool" where
  "docker_confirmed (DockerStop k ok) = ok"
| "docker_confirmed _ = False"

lemma docker_Stop_calls [simp]: "snd (docker_Stop ans k) = [DockerStop k (docker_stopped ans)]"
  by (simp add: docker_Stop_def split: sum.split)

interpretation docker: runtime_backend "docker_Start env" "\<lambda>ans k. snd (docker_Stop ans k)" docker_stopped docker_lost
  docker_makes docker_asks docker_confirmed prefix for env
proof unfold_locales
  fix a cfg e cs
  assume f: "docker_Start env a cfg = (Inl e, cs)"
  then consider n b where "cs = [DockerCreate n b (docker_lost a cfg)]"
    | full b n where "cs = [] @ DockerCreate n b (Some full) # [DockerStart full] @ DockerStop full (docker_stopped a) # []"
    by (auto simp: docker_Start_def docker_lost_def Let_def split: sum.splits if_splits)
  then show "(\<forall>c \<in> set cs. docker_makes c = None) \<or>
      (\<exists>us c. cs = us @ [c] \<and> docker_makes c = docker_lost a cfg \<and> (\<forall>x \<in> set us. docker_makes x = None) \<and>
        (\<forall>x \<in> set cs. docker_asks x = None)) \<or>
      (\<exists>n us c vs d ws. cs = us @ c # vs @ d # ws \<and> docker_makes c = Some n \<and> docker_asks d = Some n \<and>
        (\<forall>x \<in> set (us @ vs @ d # ws). docker_makes x = None))"
  proof cases
    case 2
    then show ?thesis
      by (intro disjI2 exI [of _ full] exI [of _ "[]"] exI [of _ "DockerCreate n b (Some full)"] exI [of _ "[DockerStart full]"]
          exI [of _ "DockerStop full (docker_stopped a)"] exI [of _ "[]"]) simp
  qed simp
next
  fix a cfg i cs
  assume s: "docker_Start env a cfg = (Inr i, cs)"
  then obtain full n b where g: "cs = [DockerCreate n b (Some full), DockerStart full]"
    "ri_id i = (if length full > 12 then take 12 full else full)" "ri_addr i = local_addr cfg" "ri_func_name i = fc_name cfg"
    by (auto simp: docker_Start_def Let_def split: sum.splits if_splits)
  have "prefix (ri_id i) full" using g(2) by (simp add: take_is_prefix)
  then show "\<exists>n us c vs. cs = us @ c # vs \<and> docker_makes c = Some n \<and> (\<forall>x \<in> set (us @ vs). docker_makes x = None) \<and>
      (\<forall>x \<in> set cs. docker_asks x = None) \<and> prefix (ri_id i) n"
    using g(1) by (intro exI [of _ full] exI [of _ "[]"] exI [of _ "DockerCreate n b (Some full)"] exI [of _ "[DockerStart full]"]) simp
  show "ri_addr i = local_addr cfg \<and> ri_func_name i = fc_name cfg" using g by simp
qed simp_all

section \<open>Kubernetes\<close>

datatype code_volume = NoCode | CodeLoader string string | HostCode string   \<comment> \<open>the loader's image and URL; a host path\<close>

record k8s_pod =
  kp_name :: string
  kp_labels :: "(string \<times> string) list"
  kp_image :: string
  kp_pull_policy :: string
  kp_restart_policy :: string
  kp_port :: int
  kp_env :: "(string \<times> string) list"
  kp_memory :: string
  kp_code :: code_volume

definition podSpec :: "env \<Rightarrow> string \<Rightarrow> function_config \<Rightarrow> k8s_pod" where
  "podSpec env podName cfg =
     \<lparr>kp_name = podName,
      kp_labels = [(''faas.managed-by'', ''local-faas''), (''faas.function'', fc_name cfg), (''faas.instance'', podName)],
      kp_image = fc_image cfg, kp_pull_policy = ''IfNotPresent'', kp_restart_policy = ''Never'', kp_port = 9001,
      kp_env = [(''FUNCTION_HANDLER'', fc_handler cfg), (''FUNCTION_RUNTIME'', fc_runtime cfg),
        (''GATEWAY_ADDR'', env_or env ''GATEWAY_ADDR'' ''host.minikube.internal:8080''),
        (''GATEWAY_INTERNAL_ADDR'', env_or env ''GATEWAY_INTERNAL_ADDR'' ''host.minikube.internal:8081''),
        (''INTERNAL_API_TOKEN'', env ''INTERNAL_API_TOKEN''), (''CONTAINER_ID'', podName)],
      kp_memory = itoa (fc_memory cfg) @ ''Mi'',
      kp_code = (if fc_code_key cfg \<noteq> [] then CodeLoader (fc_image cfg) (fc_code_url cfg)
                 else if fc_code_dir cfg \<noteq> [] then HostCode (fc_code_dir cfg) else NoCode)\<rparr>"

datatype pod_reply = PodError | PodNotFound | PodIs "(string \<times> string) list" string string   \<comment> \<open>conditions, node, phase\<close>

text \<open>\<open>waitPodReady\<close>: the replies to the polls before the deadline.\<close>

fun waitPodReady :: "pod_reply list \<Rightarrow> string + string" where
  "waitPodReady [] = Inl ''timeout waiting for pod ready''"
| "waitPodReady (PodError # rs) = Inl ''get pod''"
| "waitPodReady (PodNotFound # rs) = waitPodReady rs"
| "waitPodReady (PodIs conds node phase # rs) =
     (if (''Ready'', ''True'') \<in> set conds then (if node = [] then Inl ''pod has no assigned node'' else Inr node)
      else if phase = ''Failed'' \<or> phase = ''Succeeded'' then Inl ''pod finished before becoming ready''
      else waitPodReady rs)"

datatype forward_result = ForwardSetupFailed | ForwardReady | ForwardExited | ForwardTimeout

datatype delete_result = Deleted | DeleteNotFound | DeleteFailed

record k8s_answers =
  ka_sync :: "string option"
  ka_create :: bool
  ka_lost :: bool   \<comment> \<open>a create that failed for the code has made the pod\<close>
  ka_polls :: "pod_reply list"
  ka_forward :: forward_result
  ka_probes :: "(int \<times> string) option list"
  ka_delete :: delete_result

text \<open>A create with whether the pod was made, and a delete with whether the pod is known to be gone.\<close>

datatype k8s_call = SyncCode string | CreatePod k8s_pod bool | DeletePod string bool | OpenForward string | CloseForward string

text \<open>\<open>startPortForward\<close>: on a timeout it closes its own stop channel.\<close>

definition startPortForward :: "k8s_answers \<Rightarrow> string \<Rightarrow> string option \<times> k8s_call list" where
  "startPortForward ans podName =
     (case ka_forward ans of
        ForwardSetupFailed \<Rightarrow> (Some ''port-forward setup'', [])
      | ForwardReady \<Rightarrow> (None, [OpenForward podName])
      | ForwardExited \<Rightarrow> (Some ''port-forward exited before ready'', [])
      | ForwardTimeout \<Rightarrow> (Some ''timeout starting port-forward'', [OpenForward podName, CloseForward podName]))"

definition deletePod :: "k8s_answers \<Rightarrow> string option" where
  "deletePod ans = (case ka_delete ans of DeleteFailed \<Rightarrow> Some ''delete'' | _ \<Rightarrow> None)"

definition k8s_deleted :: "k8s_answers \<Rightarrow> bool" where
  "k8s_deleted ans = (deletePod ans = None)"

text \<open>\<open>Stop\<close>; the state is the set of pods with a registered forward, as a list.\<close>

definition k8s_Stop :: "k8s_answers \<Rightarrow> string \<Rightarrow> string list \<Rightarrow> string option \<times> k8s_call list \<times> string list" where
  "k8s_Stop ans k fwds =
     (deletePod ans, (if k \<in> set fwds then [CloseForward k] else []) @ [DeletePod k (k8s_deleted ans)], removeAll k fwds)"

definition k8s_Start ::
  "env \<Rightarrow> k8s_answers \<Rightarrow> function_config \<Rightarrow> string list \<Rightarrow> (string + runtime_instance) \<times> k8s_call list \<times> string list" where
  "k8s_Start env ans cfg fwds =
     (let podName = instance_name cfg;
          sync = (if fc_code_dir cfg \<noteq> [] \<and> fc_code_key cfg = [] then [SyncCode (fc_code_dir cfg)] else []) in
      if sync \<noteq> [] \<and> ka_sync ans \<noteq> None then (Inl (the (ka_sync ans)), sync, fwds)
      else
        let calls = sync @ [CreatePod (podSpec env podName cfg) (ka_create ans \<or> ka_lost ans)] in
        if \<not> ka_create ans then (Inl ''create pod'', calls, fwds)
        else
          case waitPodReady (ka_polls ans) of
            Inl e \<Rightarrow> (case k8s_Stop ans podName fwds of (_, stops, fwds) \<Rightarrow> (Inl e, calls @ stops, fwds))
          | Inr node \<Rightarrow>
              (case startPortForward ans podName of
                 (Some e, opens) \<Rightarrow> (case k8s_Stop ans podName fwds of (_, stops, fwds) \<Rightarrow> (Inl e, calls @ opens @ stops, fwds))
               | (None, opens) \<Rightarrow>
                   (let fwds = List.insert podName fwds in
                    if \<not> waitReady (ka_probes ans)
                    then (case k8s_Stop ans podName fwds of
                            (_, stops, fwds) \<Rightarrow> (Inl ''pod not ready through port-forward'', calls @ opens @ stops, fwds))
                    else (Inr \<lparr>ri_id = podName, ri_addr = local_addr cfg, ri_func_name = fc_name cfg, ri_node_name = node\<rparr>,
                          calls @ opens, fwds))))"

fun k8s_makes :: "k8s_call \<Rightarrow> string option" where
  "k8s_makes (CreatePod p ok) = (if ok then Some (kp_name p) else None)"
| "k8s_makes _ = None"

fun k8s_asks :: "k8s_call \<Rightarrow> string option" where
  "k8s_asks (DeletePod k ok) = Some k"
| "k8s_asks _ = None"

fun k8s_confirmed :: "k8s_call \<Rightarrow> bool" where
  "k8s_confirmed (DeletePod k ok) = ok"
| "k8s_confirmed _ = False"

definition k8s_lost :: "k8s_answers \<times> string list \<Rightarrow> function_config \<Rightarrow> string option" where
  "k8s_lost a cfg = (if \<not> ka_create (fst a) \<and> ka_lost (fst a) then Some (instance_name cfg) else None)"

definition k8s_start_calls :: "env \<Rightarrow> k8s_answers \<times> string list \<Rightarrow> function_config \<Rightarrow> (string + runtime_instance) \<times> k8s_call list" where
  "k8s_start_calls env a cfg = (case k8s_Start env (fst a) cfg (snd a) of (r, cs, _) \<Rightarrow> (r, cs))"

definition k8s_stop_calls :: "k8s_answers \<times> string list \<Rightarrow> string \<Rightarrow> k8s_call list" where
  "k8s_stop_calls a k = (case k8s_Stop (fst a) k (snd a) of (_, cs, _) \<Rightarrow> cs)"

lemma podSpec_name [simp]: "kp_name (podSpec env n cfg) = n"
  by (simp add: podSpec_def)

lemma waitPodReady_node: "waitPodReady rs = Inr node \<Longrightarrow> node \<noteq> []"
  by (induction rs rule: waitPodReady.induct) (auto split: if_splits)

definition quiet :: "k8s_call list \<Rightarrow> bool" where
  "quiet cs \<longleftrightarrow> (\<forall>x \<in> set cs. k8s_makes x = None \<and> k8s_asks x = None)"

lemma quiet_simps [simp]:
  "quiet []" "quiet (SyncCode d # cs) = quiet cs" "quiet (OpenForward n # cs) = quiet cs"
  "quiet (CloseForward n # cs) = quiet cs" "quiet (CreatePod p False # cs) = quiet cs"
  "quiet (cs @ ds) \<longleftrightarrow> quiet cs \<and> quiet ds"
  by (auto simp: quiet_def)

text \<open>The calls of a start: a quiet part, and then nothing, or a create that the code takes to have failed,
  or a pod that is made and, unless the start succeeds, asked to be deleted at the end.\<close>

definition failed_calls :: "k8s_answers \<Rightarrow> k8s_pod \<Rightarrow> k8s_call list \<Rightarrow> bool" where
  "failed_calls ans p cs \<longleftrightarrow> quiet cs \<or> (\<not> ka_create ans \<and> (\<exists>us. cs = us @ [CreatePod p (ka_lost ans)] \<and> quiet us)) \<or>
     (\<exists>us vs. cs = us @ CreatePod p True # vs @ [DeletePod (kp_name p) (k8s_deleted ans)] \<and> quiet us \<and> quiet vs)"

definition good_calls :: "k8s_pod \<Rightarrow> k8s_call list \<Rightarrow> bool" where
  "good_calls p cs \<longleftrightarrow> (\<exists>us. cs = us @ [CreatePod p True, OpenForward (kp_name p)] \<and> quiet us)"

lemma failed_callsI:
  "quiet us \<Longrightarrow> quiet vs \<Longrightarrow> failed_calls ans p (us @ CreatePod p True # vs @ [DeletePod (kp_name p) (k8s_deleted ans)])"
  unfolding failed_calls_def by blast

lemma k8s_Start_cases:
  assumes st: "k8s_Start env ans cfg fwds = (r, cs, fwds')"
  defines "p \<equiv> podSpec env (instance_name cfg) cfg"
  shows "(\<exists>e. r = Inl e \<and> failed_calls ans p cs \<and> (instance_name cfg \<notin> set fwds \<longrightarrow> fwds' = fwds)) \<or>
    (\<exists>node. r = Inr \<lparr>ri_id = instance_name cfg, ri_addr = local_addr cfg, ri_func_name = fc_name cfg, ri_node_name = node\<rparr> \<and>
       node \<noteq> [] \<and> good_calls p cs \<and> fwds' = List.insert (instance_name cfg) fwds)"
proof -
  define n where "n = instance_name cfg"
  define sync where "sync = (if fc_code_dir cfg \<noteq> [] \<and> fc_code_key cfg = [] then [SyncCode (fc_code_dir cfg)] else [])"
  have q: "quiet sync" by (simp add: sync_def)
  have pn: "kp_name p = n" by (simp add: p_def n_def)
  note st' = st [unfolded k8s_Start_def Let_def, folded sync_def p_def n_def]
  have failed: "failed_calls ans p (sync @ CreatePod p True # vs @ (if b then [CloseForward n] else []) @ [DeletePod n (k8s_deleted ans)])"
    if "quiet vs" for vs b
    using failed_callsI [OF q, of "vs @ (if b then [CloseForward n] else [])" ans p] that pn by (cases b) simp_all
  consider "sync \<noteq> []" "ka_sync ans \<noteq> None" | "\<not> (sync \<noteq> [] \<and> ka_sync ans \<noteq> None)" "\<not> ka_create ans"
    | e where "\<not> (sync \<noteq> [] \<and> ka_sync ans \<noteq> None)" "ka_create ans" "waitPodReady (ka_polls ans) = Inl e"
    | node where "\<not> (sync \<noteq> [] \<and> ka_sync ans \<noteq> None)" "ka_create ans" "waitPodReady (ka_polls ans) = Inr node"
    by (cases "waitPodReady (ka_polls ans)") blast+
  then show ?thesis
  proof cases
    case 1
    then show ?thesis using st' q by (auto simp: failed_calls_def)
  next
    case 2
    then show ?thesis using st' q by (auto simp: failed_calls_def)
  next
    case 3
    then have "r = Inl e" "cs = sync @ CreatePod p True # [] @ (if n \<in> set fwds then [CloseForward n] else []) @ [DeletePod n (k8s_deleted ans)]"
      "fwds' = removeAll n fwds"
      using st' by (auto simp: k8s_Stop_def)
    then show ?thesis using failed [of "[]" "n \<in> set fwds"] by (simp add: n_def)
  next
    case 4
    obtain e opens where o: "startPortForward ans n = (e, opens)" by fastforce
    show ?thesis
    proof (cases e)
      case (Some err)
      have "quiet opens" using o Some by (auto simp: startPortForward_def split: forward_result.splits)
      moreover have "r = Inl err" "cs = sync @ CreatePod p True # opens @ (if n \<in> set fwds then [CloseForward n] else []) @ [DeletePod n (k8s_deleted ans)]"
        "fwds' = removeAll n fwds"
        using st' 4 o Some by (auto simp: k8s_Stop_def)
      ultimately show ?thesis using failed [of opens "n \<in> set fwds"] by (simp add: n_def)
    next
      case None
      have op: "opens = [OpenForward n]" using o None by (auto simp: startPortForward_def split: forward_result.splits)
      show ?thesis
      proof (cases "waitReady (ka_probes ans)")
        case True
        then have "r = Inr \<lparr>ri_id = n, ri_addr = local_addr cfg, ri_func_name = fc_name cfg, ri_node_name = node\<rparr>"
          "cs = sync @ [CreatePod p True, OpenForward n]" "fwds' = List.insert n fwds"
          using st' 4 o None op by auto
        then show ?thesis using waitPodReady_node [OF 4(3)] q pn by (auto simp: good_calls_def n_def)
      next
        case False
        then have "r = Inl ''pod not ready through port-forward''"
          "cs = sync @ CreatePod p True # opens @ (if True then [CloseForward n] else []) @ [DeletePod n (k8s_deleted ans)]"
          "fwds' = removeAll n (List.insert n fwds)"
          using st' 4 o None by (auto simp: k8s_Stop_def)
        then show ?thesis using failed [of opens True] op by (simp add: n_def)
      qed
    qed
  qed
qed

interpretation k8s: runtime_backend "k8s_start_calls env" k8s_stop_calls "\<lambda>a. k8s_deleted (fst a)" k8s_lost
  k8s_makes k8s_asks k8s_confirmed "(=)" for env
proof unfold_locales
  fix a cfg e cs
  let ?p = "podSpec env (instance_name cfg) cfg"
  assume "k8s_start_calls env a cfg = (Inl e, cs)"
  then obtain fwds' where "k8s_Start env (fst a) cfg (snd a) = (Inl e, cs, fwds')"
    by (auto simp: k8s_start_calls_def split: prod.splits)
  then have "failed_calls (fst a) ?p cs" using k8s_Start_cases by blast
  then consider "quiet cs" | us where "\<not> ka_create (fst a)" "cs = us @ [CreatePod ?p (ka_lost (fst a))]" "quiet us"
    | us vs where "cs = us @ CreatePod ?p True # vs @ DeletePod (instance_name cfg) (k8s_deleted (fst a)) # []" "quiet us" "quiet vs"
    by (auto simp: failed_calls_def)
  then show "(\<forall>c \<in> set cs. k8s_makes c = None) \<or>
      (\<exists>us c. cs = us @ [c] \<and> k8s_makes c = k8s_lost a cfg \<and> (\<forall>x \<in> set us. k8s_makes x = None) \<and>
        (\<forall>x \<in> set cs. k8s_asks x = None)) \<or>
      (\<exists>n us c vs d ws. cs = us @ c # vs @ d # ws \<and> k8s_makes c = Some n \<and> k8s_asks d = Some n \<and>
        (\<forall>x \<in> set (us @ vs @ d # ws). k8s_makes x = None))"
  proof cases
    case 2
    then show ?thesis
      by (intro disjI2 disjI1 exI [of _ us] exI [of _ "CreatePod ?p (ka_lost (fst a))"]) (auto simp: quiet_def k8s_lost_def)
  next
    case 3
    then show ?thesis
      by (intro disjI2 exI [of _ "instance_name cfg"] exI [of _ us] exI [of _ "CreatePod ?p True"]
          exI [of _ vs] exI [of _ "DeletePod (instance_name cfg) (k8s_deleted (fst a))"] exI [of _ "[]"]) (auto simp: quiet_def)
  qed (simp add: quiet_def)
next
  fix a cfg i cs
  assume "k8s_start_calls env a cfg = (Inr i, cs)"
  then obtain fwds' where "k8s_Start env (fst a) cfg (snd a) = (Inr i, cs, fwds')"
    by (auto simp: k8s_start_calls_def split: prod.splits)
  then have g: "good_calls (podSpec env (instance_name cfg) cfg) cs" "ri_id i = instance_name cfg" "ri_addr i = local_addr cfg"
    "ri_func_name i = fc_name cfg" using k8s_Start_cases by fastforce+
  then obtain us where "cs = us @ [CreatePod (podSpec env (instance_name cfg) cfg) True, OpenForward (instance_name cfg)]" "quiet us"
    by (auto simp: good_calls_def)
  then show "\<exists>n us c vs. cs = us @ c # vs \<and> k8s_makes c = Some n \<and> (\<forall>x \<in> set (us @ vs). k8s_makes x = None) \<and>
      (\<forall>x \<in> set cs. k8s_asks x = None) \<and> ri_id i = n"
    using g(2) by (intro exI [of _ "instance_name cfg"] exI [of _ us] exI [of _ "CreatePod (podSpec env (instance_name cfg) cfg) True"]
        exI [of _ "[OpenForward (instance_name cfg)]"]) (auto simp: quiet_def)
  show "ri_addr i = local_addr cfg \<and> ri_func_name i = fc_name cfg" using g by simp
qed (auto simp: k8s_stop_calls_def k8s_Stop_def)

section \<open>Properties\<close>

text \<open>C34. A Docker start that fails leaves no container that is not confirmed to be stopped but one in two cases: the stop that the
  backend asked for was not confirmed, or the container was made by a create whose reply was lost, for which
  the backend asks no stop at all. A start that succeeds
  leaves exactly one container, the one that the instance's short id stands for, reachable at
  the function's port, and the instance's stop, if it is confirmed, leaves none.\<close>

theorem docker_start_clean:
  assumes "docker_Start env ans cfg = (r, cs)"
  shows "case r of
      Inl e \<Rightarrow> docker.left cs = [] \<or> (\<exists>n. docker.left cs = [n] \<and>
        (da_lost ans = Some n \<and> (\<forall>full. docker_do (da_create ans) \<noteq> Inr full) \<and> (\<forall>k ok. DockerStop k ok \<notin> set cs) \<or>
         DockerStop n False \<in> set cs))
    | Inr i \<Rightarrow> ri_addr i = local_addr cfg \<and> ri_func_name i = fc_name cfg \<and>
        (\<exists>full. docker.left cs = [full] \<and> prefix (ri_id i) full \<and> length (ri_id i) \<le> 12 \<and>
           docker.left (cs @ snd (docker_Stop ans' (ri_id i))) = (if docker_stopped ans' then [] else [full]))"
proof (cases r)
  case (Inl e)
  have ask: "docker_asks d = Some n \<Longrightarrow> \<not> docker_confirmed d \<Longrightarrow> d = DockerStop n False" for d n by (cases d) auto
  have none: "\<forall>c \<in> set cs. docker_asks c = None \<Longrightarrow> DockerStop k ok \<notin> set cs" for k ok by fastforce
  have lost: "docker_lost ans cfg = Some n \<Longrightarrow> da_lost ans = Some n \<and> (\<forall>full. docker_do (da_create ans) \<noteq> Inr full)" for n
    by (simp add: docker_lost_def split: sum.splits)
  have "docker_Start env ans cfg = (Inl e, cs)" using assms Inl by simp
  from docker.failed_start_leaves [OF this] show ?thesis
    unfolding Inl sum.case using ask none lost by metis
next
  case (Inr i)
  have st: "docker_Start env ans cfg = (Inr i, cs)" using assms Inr by simp
  then have "length (ri_id i) \<le> 12" by (auto simp: docker_Start_def Let_def split: sum.splits if_splits)
  then show ?thesis
    using Inr docker.good_start_leaves_one [OF st, of ans'] docker.start_instance [OF st] by auto
qed

text \<open>C35. A Kubernetes start that fails leaves no pod that is not known to be deleted but one in two cases: the delete that
  the backend asked for failed, which the start does not report, or the pod was made by a create that failed for the backend, for which it
  asks no delete at all; and it registers no forward that
  was not there. A start that succeeds leaves exactly the pod named by the instance, on a known node and
  with its forward registered; stopping the instance closes the forward and, if the delete does not fail, leaves no pod.\<close>

theorem k8s_start_clean:
  assumes "k8s_Start env ans cfg fwds = (r, cs, fwds')" "instance_name cfg \<notin> set fwds"
  shows "case r of
      Inl e \<Rightarrow> fwds' = fwds \<and> (k8s.left cs = [] \<or> k8s.left cs = [instance_name cfg] \<and>
        (\<not> ka_create ans \<and> ka_lost ans \<and> (\<forall>k ok. DeletePod k ok \<notin> set cs) \<or>
         ka_delete ans = DeleteFailed \<and> DeletePod (instance_name cfg) False \<in> set cs))
    | Inr i \<Rightarrow> ri_id i = instance_name cfg \<and> ri_addr i = local_addr cfg \<and> ri_node_name i \<noteq> [] \<and>
        fwds' = instance_name cfg # fwds \<and> k8s.left cs = [instance_name cfg] \<and>
        (case k8s_Stop ans' (ri_id i) fwds' of (_, stops, fwds'') \<Rightarrow>
           CloseForward (ri_id i) \<in> set stops \<and> fwds'' = fwds \<and>
           k8s.left (cs @ stops) = (if ka_delete ans' = DeleteFailed then [instance_name cfg] else []))"
proof (cases r)
  case (Inl e)
  let ?n = "instance_name cfg"
  have del: "k8s_deleted ans \<longleftrightarrow> ka_delete ans \<noteq> DeleteFailed"
    by (simp add: k8s_deleted_def deletePod_def split: delete_result.split)
  have f: "failed_calls ans (podSpec env ?n cfg) cs" "fwds' = fwds"
    using k8s_Start_cases [OF assms(1)] assms(2) Inl by auto
  then consider "quiet cs" | us where "\<not> ka_create ans" "cs = us @ [CreatePod (podSpec env ?n cfg) (ka_lost ans)]" "quiet us"
    | us vs where "cs = us @ CreatePod (podSpec env ?n cfg) True # vs @ [DeletePod ?n (k8s_deleted ans)]" "quiet us" "quiet vs"
    by (auto simp: failed_calls_def)
  then have "k8s.left cs = [] \<or> k8s.left cs = [?n] \<and>
        (\<not> ka_create ans \<and> ka_lost ans \<and> (\<forall>k ok. DeletePod k ok \<notin> set cs) \<or>
         ka_delete ans = DeleteFailed \<and> DeletePod ?n False \<in> set cs)"
  proof cases
    case 1
    then show ?thesis using k8s.left_no_makes by (simp add: quiet_def)
  next
    case 2
    have "\<forall>k ok. DeletePod k ok \<notin> set us" using 2(3) by (auto simp: quiet_def)
    moreover have "k8s.left cs = (if ka_lost ans then [?n] else [])"
      using 2(2,3) k8s.left_skip [of us] by (simp add: quiet_def k8s.removed_def)
    ultimately show ?thesis using 2(1,2) by simp
  next
    case 3
    have "k8s.left cs = (if k8s.removed ?n (vs @ [DeletePod ?n (k8s_deleted ans)]) then [] else [?n])"
      using 3(2,3) k8s.left_one [of us "vs @ [DeletePod ?n (k8s_deleted ans)]" "CreatePod (podSpec env ?n cfg) True" ?n]
      by (simp add: 3(1) quiet_def ball_Un)
    then show ?thesis using 3(1) del by (auto simp: k8s.removed_def)
  qed
  then show ?thesis using Inl f(2) by simp
next
  case (Inr i)
  have st: "k8s_start_calls env (ans, fwds) cfg = (Inr i, cs)" using assms(1) Inr by (simp add: k8s_start_calls_def)
  have i: "ri_id i = instance_name cfg" "ri_addr i = local_addr cfg" "ri_node_name i \<noteq> []" "fwds' = instance_name cfg # fwds"
    using k8s_Start_cases [OF assms(1)] assms(2) Inr by auto
  have "k8s.left cs = [instance_name cfg] \<and>
      k8s.left (cs @ k8s_stop_calls (ans', fwds') (ri_id i)) = (if k8s_deleted ans' then [] else [instance_name cfg])"
    using k8s.good_start_leaves_one [OF st, of "(ans', fwds')"] i(1) by auto
  then show ?thesis using Inr i assms(2)
    by (auto simp: k8s_stop_calls_def k8s_Stop_def k8s_deleted_def deletePod_def split: delete_result.splits)
qed

section \<open>Shell commands\<close>

text \<open>\<open>shellQuote\<close>, and \<open>syncCodeToMinikube\<close> as the commands it runs; \<open>oks\<close> says which succeed. The
  archive in \<open>/tmp\<close> is removed at the end once it was made. The directory is an absolute path below
  the root.\<close>

fun replace_quote :: "string \<Rightarrow> string" where
  "replace_quote [] = []"
| "replace_quote (c # cs) = (if c = CHR 0x27 then [CHR 0x27, CHR 0x5C, CHR 0x27, CHR 0x27] else [c]) @ replace_quote cs"

definition shellQuote :: "string \<Rightarrow> string" where
  "shellQuote s = CHR 0x27 # replace_quote s @ [CHR 0x27]"

definition sync_commands :: "string \<Rightarrow> string \<Rightarrow> string list list" where
  "sync_commands tmp codeDir =
     (let cs = clean_comps [] (split_on CHR ''/'' codeDir); targetDir = render cs; parentDir = render (butlast cs);
          baseName = last cs; tarPath = abs_clean (tmp @ ''/'' @ baseName @ ''.tgz'');
          targetTar = abs_clean (parentDir @ ''/'' @ baseName @ ''.tgz'') in
      [[''tar'', ''-C'', parentDir, ''-czf'', tarPath, baseName],
       [''minikube'', ''ssh'', ''--'', ''sudo mkdir -p '' @ shellQuote parentDir],
       [''minikube'', ''cp'', tarPath, targetTar],
       [''minikube'', ''ssh'', ''--'',
        ''sudo rm -rf '' @ shellQuote targetDir @ '' && sudo tar -C '' @ shellQuote parentDir @ '' -xzf '' @ shellQuote targetTar],
       [''minikube'', ''ssh'', ''--'', ''sudo rm -f '' @ shellQuote targetTar]])"

fun run_until_failure :: "string list list \<Rightarrow> bool list \<Rightarrow> bool \<times> string list list" where
  "run_until_failure [] oks = (True, [])"
| "run_until_failure (c # cs) (True # oks) = (case run_until_failure cs oks of (ok, done) \<Rightarrow> (ok, c # done))"
| "run_until_failure (c # cs) oks = (False, [c])"

definition syncCodeToMinikube :: "string \<Rightarrow> string \<Rightarrow> bool list \<Rightarrow> bool \<times> string list list \<times> bool" where
  "syncCodeToMinikube tmp codeDir oks =
     (case run_until_failure (sync_commands tmp codeDir) oks of (ok, done) \<Rightarrow> (ok, done, take 1 oks = [True]))"

text \<open>How a POSIX shell reads the next word: outside quotes a blank, a separator or an operator ends
  it and a backslash keeps the next byte; inside single quotes every byte but the quote stands for
  itself. The result is the word and what follows it.\<close>

definition sh_delimiter :: "char \<Rightarrow> bool" where
  "sh_delimiter c \<longleftrightarrow> c \<in> set ('' ;&|<>()'' @ [CHR 0x09, CHR 0x0A])"

fun sh_word :: "bool \<Rightarrow> string \<Rightarrow> string \<times> string" where
  "sh_word q [] = ([], [])"
| "sh_word True (c # cs) =
     (if c = CHR 0x27 then sh_word False cs else (case sh_word True cs of (w, r) \<Rightarrow> (c # w, r)))"
| "sh_word False (c # cs) =
     (if c = CHR 0x27 then sh_word True cs
      else if sh_delimiter c then ([], c # cs)
      else if c = CHR 0x5C then (case cs of [] \<Rightarrow> ([], []) | d # ds \<Rightarrow> (case sh_word False ds of (w, r) \<Rightarrow> (d # w, r)))
      else (case sh_word False cs of (w, r) \<Rightarrow> (c # w, r)))"

lemma sh_word_quoted: "sh_word True (replace_quote s @ CHR 0x27 # rest) = (case sh_word False rest of (w, r) \<Rightarrow> (s @ w, r))"
  by (induction s) (auto simp: sh_delimiter_def split: prod.split)

text \<open>A quoted path is one word of the shell and that word is the path, whatever bytes it has: nothing
  in it is run as a command.\<close>

theorem shellQuote_word:
  "sh_word False (shellQuote s @ rest) = (s @ fst (sh_word False rest), snd (sh_word False rest)) \<and>
   sh_word False (shellQuote s @ '' && '' @ rest) = (s, '' && '' @ rest)"
  by (simp add: shellQuote_def sh_word_quoted sh_delimiter_def split: prod.split)

section \<open>Instance names\<close>

lemma last_dash_split:
  assumes "a @ CHR ''-'' # p = b @ CHR ''-'' # q" "CHR ''-'' \<notin> set p" "CHR ''-'' \<notin> set q"
  shows "a = b \<and> p = q"
proof -
  have "takeWhile (\<lambda>c. c \<noteq> CHR ''-'') (rev (xs @ CHR ''-'' # ys)) = rev ys" if "CHR ''-'' \<notin> set ys" for xs ys
  proof -
    have "takeWhile (\<lambda>c. c \<noteq> CHR ''-'') (rev ys @ CHR ''-'' # rev xs) = rev ys @ takeWhile (\<lambda>c. c \<noteq> CHR ''-'') (CHR ''-'' # rev xs)"
      by (rule takeWhile_append2) (use that in auto)
    then show ?thesis by simp
  qed
  then have "rev p = rev q" using assms by metis
  then show ?thesis using assms(1) by simp
qed

lemma itoa_pos: "0 \<le> n \<Longrightarrow> itoa n = nat_digits (nat n)"
  by (simp add: itoa_def)

lemma itoa_no_dash: "0 \<le> n \<Longrightarrow> CHR ''-'' \<notin> set (itoa n)"
  using nat_digits_digit [of "CHR ''-''" "nat n"] by (auto simp: itoa_pos is_digit_def)

lemma nat_digits_length: "n < 10 ^ Suc k \<Longrightarrow> length (nat_digits n) \<le> Suc k"
proof (induction k arbitrary: n)
  case 0
  then show ?case by (subst nat_digits.simps) simp
next
  case (Suc k)
  then have "n div 10 < 10 ^ Suc k" by (simp add: less_mult_imp_div_less)
  then have "length (nat_digits (n div 10)) \<le> Suc k" by (rule Suc.IH)
  then show ?case by (subst nat_digits.simps) simp
qed

lemma instance_name_label:
  assumes "0 \<le> fc_port cfg" "fc_port cfg \<le> 65535"
  shows "label_ok 63 (instance_name cfg)"
proof -
  have "nat (fc_port cfg) < 10 ^ Suc 4" using assms by simp
  then have l: "length (itoa (fc_port cfg)) \<le> 5" using nat_digits_length [of _ 4] assms by (simp add: itoa_pos)
  have d: "list_all dns_char (itoa (fc_port cfg))" "itoa (fc_port cfg) \<noteq> []"
    using nat_digits_digit nat_digits_nonempty assms(1) by (auto simp: itoa_pos dns_char_def list_all_iff)
  then have e: "last (itoa (fc_port cfg)) \<noteq> CHR ''-''" using itoa_no_dash [OF assms(1)] last_in_set by metis
  have o: "label_ok 40 (dnsLabel (fc_name cfg))" by (rule dnsLabel_ok)
  have "list_all dns_char ''faas-''" by code_simp
  then show ?thesis using l d e o by (simp add: label_ok_def instance_name_def)
qed

text \<open>C37. The name of an instance is a DNS label of at most 63 bytes for every port up to 65535, so the API
  server takes it as a pod name, and two starts get the same name only for the same function label
  and the same port.\<close>

theorem instance_name_ok:
  assumes "0 \<le> fc_port cfg" "fc_port cfg \<le> 65535" "0 \<le> fc_port cfg'" "fc_port cfg' \<le> 65535"
  shows "label_ok 63 (instance_name cfg) \<and>
    (instance_name cfg = instance_name cfg' \<longleftrightarrow> dnsLabel (fc_name cfg) = dnsLabel (fc_name cfg') \<and> fc_port cfg = fc_port cfg')"
proof
  show "label_ok 63 (instance_name cfg)" using assms(1,2) by (rule instance_name_label)
  have "instance_name cfg = instance_name cfg' \<longleftrightarrow>
      dnsLabel (fc_name cfg) @ CHR ''-'' # itoa (fc_port cfg) = dnsLabel (fc_name cfg') @ CHR ''-'' # itoa (fc_port cfg')"
    by (simp add: instance_name_def)
  also have "\<dots> \<longleftrightarrow> dnsLabel (fc_name cfg) = dnsLabel (fc_name cfg') \<and> fc_port cfg = fc_port cfg'"
  proof
    assume eq: "dnsLabel (fc_name cfg) @ CHR ''-'' # itoa (fc_port cfg) = dnsLabel (fc_name cfg') @ CHR ''-'' # itoa (fc_port cfg')"
    show "dnsLabel (fc_name cfg) = dnsLabel (fc_name cfg') \<and> fc_port cfg = fc_port cfg'"
      using last_dash_split [OF eq itoa_no_dash [OF assms(1)] itoa_no_dash [OF assms(3)]] itoa_inj by blast
  qed simp
  finally show "instance_name cfg = instance_name cfg' \<longleftrightarrow> dnsLabel (fc_name cfg) = dnsLabel (fc_name cfg') \<and> fc_port cfg = fc_port cfg'" .
qed

section \<open>Witnesses\<close>

definition hello :: function_config where
  "hello = \<lparr>fc_name = ''hello'', fc_image = ''img'', fc_runtime = ''python3'', fc_timeout = 30, fc_memory = 128,
     fc_handler = ''handler.handler'', fc_triggers = [], fc_code_dir = ''/tmp/faas/hello'', fc_code_key = ''k'',
     fc_code_url = ''u'', fc_port = 10000\<rparr>"

theorem instance_name_ok_witness: "label_ok 63 (instance_name hello)"
  using instance_name_ok [of hello hello] by (simp add: hello_def)

definition docker_ok :: docker_answers where
  "docker_ok = \<lparr>da_create = Some (201, Some ''0123456789abcdef''), da_lost = None, da_start = Some (204, Some ()),
     da_probes = [None, Some (200, ''ok'')], da_stop = Some (204, Some ())\<rparr>"

theorem docker_start_clean_witness:
  "\<exists>i cs. docker_Start (\<lambda>_. []) docker_ok hello = (Inr i, cs) \<and> ri_id i = ''0123456789ab'' \<and>
     docker.left (cs @ snd (docker_Stop docker_ok (ri_id i))) = []"
proof -
  obtain r cs where s: "docker_Start (\<lambda>_. []) docker_ok hello = (r, cs)" by fastforce
  have "docker_do (da_create docker_ok) = Inr ''0123456789abcdef''" "docker_do (da_start docker_ok) = Inr ()"
    "waitReady (da_probes docker_ok)"
    by (simp_all add: docker_ok_def docker_do_def trim_space_def is_space_def)
  then obtain i where "r = Inr i" "ri_id i = ''0123456789ab''" using s by (auto simp: docker_Start_def Let_def)
  moreover have "docker_stopped docker_ok" by (simp add: docker_stopped_def docker_do_def docker_ok_def)
  ultimately show ?thesis using docker_start_clean [OF s, of docker_ok] s by auto
qed

definition k8s_slow :: k8s_answers where
  "k8s_slow = \<lparr>ka_sync = None, ka_create = True, ka_lost = False, ka_polls = [PodNotFound, PodIs [] [] ''Pending'', PodIs [(''Ready'', ''True'')] ''n1'' ''Running''],
     ka_forward = ForwardReady, ka_probes = [None], ka_delete = Deleted\<rparr>"

theorem k8s_start_clean_witness:
  "\<exists>e cs. k8s_Start (\<lambda>_. []) k8s_slow hello [] = (Inl e, cs, []) \<and> k8s.left cs = []"
proof -
  obtain r cs fwds' where s: "k8s_Start (\<lambda>_. []) k8s_slow hello [] = (r, cs, fwds')" by (metis prod_cases3)
  then obtain e where "r = Inl e" by (auto simp: k8s_Start_def k8s_slow_def hello_def Let_def startPortForward_def k8s_Stop_def)
  moreover have "ka_delete k8s_slow \<noteq> DeleteFailed" "ka_create k8s_slow" by (simp_all add: k8s_slow_def)
  ultimately show ?thesis using k8s_start_clean [OF s, of k8s_slow] s by auto
qed

end
