(* ===== verification/Wiring.thy ===== *)
theory Wiring
  imports Gateway_Http MQ_Service Scaler Log_Flow Backends
begin

text \<open>
  How the processes start: what each \<open>main\<close> reads from its environment, which backend and Kubernetes
  configuration it picks, and the muxes that it serves (gateway/main.go, gateway/scheduler/scheduler.go,
  gateway/scheduler/k8s_backend.go, scalersvc/main.go, mqsvc/main.go, logdaemon/shared.go). The clients of
  the Kubernetes library are arguments.
\<close>

section \<open>The backend\<close>

datatype backend_kind = DockerBackend | K8sBackend

definition newRuntimeBackend :: "env \<Rightarrow> backend_kind" where
  "newRuntimeBackend env = (if env ''FAAS_BACKEND'' \<in> set [''k8s'', ''kubernetes''] then K8sBackend else DockerBackend)"

text \<open>\<open>newK8sRestConfig\<close>: \<open>from_file\<close> is \<open>BuildConfigFromFlags\<close>, \<open>in_cluster\<close> the result of
  \<open>InClusterConfig\<close>, and the home directory is absolute when there is one.\<close>

definition kubeconfig_path :: "env \<Rightarrow> string option \<Rightarrow> string" where
  "kubeconfig_path env home =
     (if env ''KUBECONFIG'' \<noteq> [] then env ''KUBECONFIG''
      else case home of None \<Rightarrow> [] | Some h \<Rightarrow> abs_clean (h @ ''/.kube/config''))"

definition newK8sRestConfig :: "(string \<Rightarrow> 'cfg option) \<Rightarrow> 'cfg option \<Rightarrow> env \<Rightarrow> string option \<Rightarrow> 'cfg option" where
  "newK8sRestConfig from_file in_cluster env home =
     (let path = kubeconfig_path env home in
      case (if path \<noteq> [] then from_file path else None) of
        Some cfg \<Rightarrow> Some cfg
      | None \<Rightarrow> in_cluster)"

definition newK8sClient ::
  "('cfg \<Rightarrow> 'cl option) \<Rightarrow> (string \<Rightarrow> 'cfg option) \<Rightarrow> 'cfg option \<Rightarrow> env \<Rightarrow> string option \<Rightarrow> ('cl \<times> 'cfg) option" where
  "newK8sClient new_client from_file in_cluster env home =
     (case newK8sRestConfig from_file in_cluster env home of
        None \<Rightarrow> None
      | Some cfg \<Rightarrow> map_option (\<lambda>c. (c, cfg)) (new_client cfg))"

text \<open>\<open>newK8sBackend\<close>: the namespace, the client and no forwards; without a client the process ends.\<close>

record ('cl, 'cfg) k8s_backend =
  kb_namespace :: string
  kb_client :: 'cl
  kb_config :: 'cfg
  kb_forwards :: "string list"

definition newK8sBackend ::
  "('cfg \<Rightarrow> 'cl option) \<Rightarrow> (string \<Rightarrow> 'cfg option) \<Rightarrow> 'cfg option \<Rightarrow> env \<Rightarrow> string option \<Rightarrow> ('cl, 'cfg) k8s_backend option" where
  "newK8sBackend new_client from_file in_cluster env home =
     map_option (\<lambda>(c, cfg). \<lparr>kb_namespace = (if env ''K8S_NAMESPACE'' = [] then ''default'' else env ''K8S_NAMESPACE''),
         kb_client = c, kb_config = cfg, kb_forwards = []\<rparr>)
       (newK8sClient new_client from_file in_cluster env home)"

text \<open>The log daemon has its own copy of both functions.\<close>

definition daemon_newK8sRestConfig :: "(string \<Rightarrow> 'cfg option) \<Rightarrow> 'cfg option \<Rightarrow> env \<Rightarrow> string option \<Rightarrow> 'cfg option" where
  "daemon_newK8sRestConfig from_file in_cluster env home =
     (let kubeconfig = (if env ''KUBECONFIG'' = [] then
                          (case home of Some h \<Rightarrow> abs_clean (h @ ''/.kube/config'') | None \<Rightarrow> [])
                        else env ''KUBECONFIG'')
      in if kubeconfig \<noteq> [] then (case from_file kubeconfig of Some cfg \<Rightarrow> Some cfg | None \<Rightarrow> in_cluster) else in_cluster)"

definition daemon_newK8sClient ::
  "('cfg \<Rightarrow> 'cl option) \<Rightarrow> (string \<Rightarrow> 'cfg option) \<Rightarrow> 'cfg option \<Rightarrow> env \<Rightarrow> string option \<Rightarrow> ('cl \<times> 'cfg) option" where
  "daemon_newK8sClient new_client from_file in_cluster env home =
     (case daemon_newK8sRestConfig from_file in_cluster env home of
        None \<Rightarrow> None
      | Some cfg \<Rightarrow> (case new_client cfg of None \<Rightarrow> None | Some c \<Rightarrow> Some (c, cfg)))"

section \<open>The gateway\<close>

record gateway_main =
  gm_scaler :: string
  gm_logdaemon :: string
  gm_token :: string
  gm_public :: string
  gm_internal :: string

definition gateway_settings :: "env \<Rightarrow> gateway_main" where
  "gateway_settings env =
     \<lparr>gm_scaler = env ''SCALER_ADDR'',
      gm_logdaemon = (if env ''LOGDAEMON_ADDR'' = [] then ''localhost:9200'' else env ''LOGDAEMON_ADDR''),
      gm_token = env ''INTERNAL_API_TOKEN'',
      gm_public = (if env ''GATEWAY_PUBLIC_LISTEN'' = [] then '':8080'' else env ''GATEWAY_PUBLIC_LISTEN''),
      gm_internal = (if env ''GATEWAY_INTERNAL_LISTEN'' = [] then ''127.0.0.1:8081'' else env ''GATEWAY_INTERNAL_LISTEN'')\<rparr>"

text \<open>The two listeners with the handler that each serves.\<close>

definition gateway_listeners ::
  "env \<Rightarrow> (string \<Rightarrow> log_reply) \<Rightarrow> world \<Rightarrow> (string \<times> (request \<Rightarrow> gateway \<Rightarrow> response option \<times> gateway)) list" where
  "gateway_listeners env fetch w =
     (let gm = gateway_settings env in
      [(gm_internal gm, NewInternalMux (gm_scaler gm) (gm_token gm) w),
       (gm_public gm, public_serve (\<lambda>uri. fetch (logs_url (gm_logdaemon gm) uri)) w)])"

section \<open>The scaler\<close>

definition scaler_gateway :: "env \<Rightarrow> string" where
  "scaler_gateway env = (if env ''GATEWAY_INTERNAL_ADDR'' = [] then ''localhost:8081'' else env ''GATEWAY_INTERNAL_ADDR'')"

definition scaler_listen :: "env \<Rightarrow> string" where
  "scaler_listen env = (if env ''SCALER_LISTEN'' = [] then '':9300'' else env ''SCALER_LISTEN'')"

datatype scaler_answer = ScalerCode int | ScalerStatus int "scale_status option" | ScalerRedirect string

definition scaler_serve ::
  "string \<Rightarrow> string \<Rightarrow> container_metrics option \<Rightarrow> gateway_view \<Rightarrow> scaler \<Rightarrow> scaler_answer \<times> scaler" where
  "scaler_serve meth path body gv s =
     (case mux_dispatch [''/metrics/'', ''/scale/'', ''/health''] path of
        Route p \<Rightarrow>
          (if p = ''/metrics/'' then (case handleMetrics meth path body s of (code, s) \<Rightarrow> (ScalerCode code, s))
           else if p = ''/scale/'' then (case handleStatus meth path gv s of (code, st) \<Rightarrow> (ScalerStatus code st, s))
           else (ScalerCode 200, s))
      | RedirectTo c \<Rightarrow> (ScalerRedirect c, s)
      | NoRoute \<Rightarrow> (ScalerCode 404, s))"

section \<open>mqsvc\<close>

text \<open>The configuration \<open>main\<close> starts with; \<open>read\<close> parses the file.\<close>

definition mq_settings :: "url_parser \<Rightarrow> (string \<Rightarrow> mq_config option) \<Rightarrow> env \<Rightarrow> (config_error option + mq_config)" where
  "mq_settings parse read env =
     (if env ''MQ_CONFIG_PATH'' = [] then Inr (defaultConfig env)
      else loadConfig parse env (read (env ''MQ_CONFIG_PATH'')))"

definition mq_listen :: "env \<Rightarrow> string" where
  "mq_listen env = envString env ''MQSVC_LISTEN'' '':9400''"

text \<open>\<open>main\<close> up to the listener: \<open>None\<close> when the process ends at once.\<close>

definition mq_main ::
  "url_parser \<Rightarrow> (string \<Rightarrow> mq_config option) \<Rightarrow> codec \<Rightarrow> 'w outside \<Rightarrow> 'w amqp \<Rightarrow> env \<Rightarrow> 'w \<Rightarrow> (string \<times> service \<times> 'w) option" where
  "mq_main parse read cd o' q env w =
     (case mq_settings parse read env of
        Inl _ \<Rightarrow> None
      | Inr cfg \<Rightarrow>
          (case Start cd o' q [] (NewService env cfg) w of
             (Some e, s, w) \<Rightarrow> None
           | (None, s, w) \<Rightarrow> Some (mq_listen env, s, w)))"

datatype mq_answer = MqOk | MqTriggers "trigger list" | MqMetrics metrics | MqRedirect string | MqNotFound

definition mq_serve :: "metrics \<Rightarrow> string \<Rightarrow> service \<Rightarrow> mq_answer" where
  "mq_serve m path s =
     (case mux_dispatch [''/health'', ''/triggers'', ''/metrics''] path of
        Route p \<Rightarrow>
          (if p = ''/health'' then MqOk else if p = ''/triggers'' then MqTriggers (Triggers s) else MqMetrics (Snapshot m))
      | RedirectTo c \<Rightarrow> MqRedirect c
      | NoRoute \<Rightarrow> MqNotFound)"

section \<open>The processes fit together\<close>

text \<open>The two copies of the configuration lookup agree.\<close>

lemma daemon_config_same: "daemon_newK8sRestConfig = newK8sRestConfig" "daemon_newK8sClient = newK8sClient"
proof -
  show r: "daemon_newK8sRestConfig = newK8sRestConfig"
    by (intro ext) (auto simp: daemon_newK8sRestConfig_def newK8sRestConfig_def kubeconfig_path_def Let_def split: option.splits)
  show "daemon_newK8sClient = newK8sClient"
    by (intro ext) (simp add: daemon_newK8sClient_def newK8sClient_def r split: option.split)
qed

text \<open>Gateway and log daemon read the same environment alike: without a mode of its own the daemon works as
  a proxy exactly when the gateway starts its instances on Kubernetes, and then both use the same
  configuration of the cluster and the same namespace; and the address at which the daemon, the scaler and
  mqsvc look for the gateway's internal listener is one and the same.\<close>

theorem processes_agree:
  "(env ''LOGDAEMON_MODE'' = [] \<longrightarrow> daemon_mode env = Some (if newRuntimeBackend env = K8sBackend then ''proxy'' else ''docker'')) \<and>
   daemon_newK8sClient new_client from_file in_cluster env home = newK8sClient new_client from_file in_cluster env home \<and>
   (\<forall>kb. newK8sBackend new_client from_file in_cluster env home = Some kb \<longrightarrow>
      kb_namespace kb = pc_namespace (newProxyClient env) \<and>
      daemon_newK8sClient new_client from_file in_cluster env home = Some (kb_client kb, kb_config kb)) \<and>
   pc_gateway_addr (newProxyClient env) = scaler_gateway env \<and>
   mq_gateway_addr (defaultConfig env) = scaler_gateway env \<and>
   pc_gateway_token (newProxyClient env) = gm_token (gateway_settings env)"
  by (auto simp: daemon_mode_def defaultLogdaemonMode_def newRuntimeBackend_def Let_def daemon_config_same newK8sBackend_def
    newProxyClient_def scaler_gateway_def defaultConfig_def envString_def gateway_settings_def)

end
