(* ===== verification/Metrics_Flow.thy ===== *)
theory Metrics_Flow
  imports Agent Scaling_Loop Wiring
begin

text \<open>
  A metrics report on its way from the agent in a container (runtime/cmd/agent/main.go) over the gateway's
  internal listener (gateway/entrypoints/autoscaling.go) to the scaler (scalersvc/main.go), and whether the
  next evaluation of the function takes it into account. The agent runs with the variables that the backend
  gave the container (gateway/scheduler/docker_backend.go, k8s_backend.go).
\<close>

section \<open>The way of a report\<close>

text \<open>The environment that a list of variables makes.\<close>

definition process_env :: "(string \<times> string) list \<Rightarrow> env" where
  "process_env vs k = (case map_of vs k of None \<Rightarrow> [] | Some v \<Rightarrow> v)"

text \<open>What the internal mux hands to \<open>forwardMetrics\<close> for a request.\<close>

definition mux_forwards :: "string \<Rightarrow> string \<Rightarrow> request \<Rightarrow> (string \<times> string) option" where
  "mux_forwards scaler_addr token req =
     (if token \<noteq> [] \<and> (mux_dispatch [''/''] (rq_path req) \<noteq> Route ''/'' \<or> rq_auth req \<noteq> ''Bearer '' @ token) then None
      else
        case mux_dispatch internal_patterns (rq_path req) of
          Route p \<Rightarrow> if p = ''/containers/'' then snd (metrics_handler scaler_addr req) else None
        | _ \<Rightarrow> None)"

text \<open>The path of a request for a URL at an address, as the server there reads it.\<close>

definition url_path :: "string \<Rightarrow> string \<Rightarrow> string option" where
  "url_path addr url =
     (let base = ''http://'' @ addr in if has_prefix url base then path_unescape (drop (length base) url) else None)"

definition scaler_post ::
  "(string \<Rightarrow> container_metrics option) \<Rightarrow> gateway_view \<Rightarrow> string \<Rightarrow> string \<Rightarrow> string \<Rightarrow> scaler \<Rightarrow> scaler" where
  "scaler_post dec gv addr url body s =
     (case url_path addr url of None \<Rightarrow> s | Some p \<Rightarrow> snd (scaler_serve ''POST'' p (dec body) gv s))"

definition deliver ::
  "(container_metrics \<Rightarrow> string) \<Rightarrow> (string \<Rightarrow> container_metrics option) \<Rightarrow> gateway_view \<Rightarrow> string \<Rightarrow> string \<Rightarrow> string \<Rightarrow>
     report \<Rightarrow> scaler \<Rightarrow> scaler" where
  "deliver enc dec gv gateway_addr token scaler_addr rp s =
     (case url_path gateway_addr (rp_url rp) of
        None \<Rightarrow> s
      | Some p \<Rightarrow>
          (case mux_forwards scaler_addr token
              \<lparr>rq_method = ''POST'', rq_path = p, rq_auth = process_env (rp_headers rp) ''Authorization'',
               rq_body = Some (enc (rp_metrics rp))\<rparr> of
             None \<Rightarrow> s
           | Some (path, body) \<Rightarrow> forwardMetrics (scaler_post dec gv scaler_addr) scaler_addr path body s))"

section \<open>It arrives\<close>

lemma route_containers:
  assumes "comp_ok k"
  shows "clean_path (''/containers/'' @ k @ ''/metrics'') = ''/containers/'' @ k @ ''/metrics''"
    "mux_dispatch internal_patterns (''/containers/'' @ k @ ''/metrics'') = Route ''/containers/''"
    "mux_dispatch [''/metrics/'', ''/scale/'', ''/health''] (''/metrics/'' @ k) = Route ''/metrics/''"
proof -
  have r: "''/containers/'' @ k @ ''/metrics'' = render [''containers'', k, ''metrics'']" "''/metrics/'' @ k = render [''metrics'', k]"
    by (simp_all add: render_def)
  show c: "clean_path (''/containers/'' @ k @ ''/metrics'') = ''/containers/'' @ k @ ''/metrics''"
    unfolding r using assms by (intro clean_path_render) (simp_all add: comp_ok_def)
  then show "mux_dispatch internal_patterns (''/containers/'' @ k @ ''/metrics'') = Route ''/containers/''"
    by (simp add: mux_dispatch_def internal_patterns_def pattern_matches_def Let_def suffix_to_prefix)
  have "clean_path (''/metrics/'' @ k) = ''/metrics/'' @ k"
    unfolding r using assms by (intro clean_path_render) (simp_all add: comp_ok_def)
  then show "mux_dispatch [''/metrics/'', ''/scale/'', ''/health''] (''/metrics/'' @ k) = Route ''/metrics/''"
    by (simp add: mux_dispatch_def pattern_matches_def Let_def suffix_to_prefix)
qed

lemma url_path_plain: "CHR ''%'' \<notin> set p \<Longrightarrow> url_path addr (''http://'' @ addr @ p) = Some p"
proof -
  assume p: "CHR ''%'' \<notin> set p"
  have "drop (length (''http://'' @ addr)) (''http://'' @ addr @ p) = p" by simp
  then show ?thesis
    unfolding url_path_def Let_def using path_unescape_plain [OF p] by (simp only: append_assoc [symmetric]) simp
qed

lemma metrics_suffix:
  "has_suffix (k @ ''/metrics'') ''/metrics''" "trim_suffix (k @ ''/metrics'') ''/metrics'' = k"
  by (simp_all add: trim_suffix_def suffix_def)

lemma report_delivered:
  assumes "label_ok n k" "length (enc (agent_snapshot k now mem cpu a)) \<le> 2 ^ 20"
    "dec (enc (agent_snapshot k now mem cpu a)) = Some (agent_snapshot k now mem cpu a)"
    "env ''INTERNAL_API_TOKEN'' = token" "sa \<noteq> []"
  shows "deliver enc dec gv addr token sa (report_at env addr k now mem cpu a) s =
    s\<lparr>sc_metrics := (sc_metrics s)(k \<mapsto> agent_snapshot k now mem cpu a)\<rparr>"
proof -
  let ?m = "agent_snapshot k now mem cpu a" and ?p = "''/containers/'' @ k @ ''/metrics''"
  note lab = label_chars [OF assms(1)] and rt = route_containers [OF label_chars(3) [OF assms(1)]]
  have "CHR ''%'' \<notin> set ?p" using lab(5) by simp
  from url_path_plain [OF this, of addr] have u: "url_path addr (rp_url (report_at env addr k now mem cpu a)) = Some ?p"
    by (simp only: report_at_def report.simps)
  have auth: "token \<noteq> [] \<Longrightarrow> process_env (rp_headers (report_at env addr k now mem cpu a)) ''Authorization'' = ''Bearer '' @ token"
    using assms(4) by (simp add: report_at_def process_env_def)
  have h: "metrics_handler sa \<lparr>rq_method = ''POST'', rq_path = ?p, rq_auth = t, rq_body = Some (enc ?m)\<rparr> =
      (write_header 204 NoBody, Some (k @ ''/metrics'', enc ?m))" for t
    using assms(2,5) metrics_suffix [of k] by (simp add: metrics_handler_def trim_prefix_append Let_def del: append_Cons)
  have f: "mux_forwards sa token \<lparr>rq_method = ''POST'', rq_path = ?p,
      rq_auth = process_env (rp_headers (report_at env addr k now mem cpu a)) ''Authorization'', rq_body = Some (enc ?m)\<rparr> =
      Some (k @ ''/metrics'', enc ?m)"
    using auth by (cases "token = []") (simp_all add: mux_forwards_def route_root rt(1,2) h del: append_Cons)
  have "CHR ''%'' \<notin> set (''/metrics/'' @ k)" using lab(5) by simp
  from url_path_plain [OF this, of sa]
  have v: "url_path sa (''http://'' @ sa @ ''/metrics/'' @ k) = Some (''/metrics/'' @ k)" by simp
  have i: "?m\<lparr>cm_id := k\<rparr> = ?m" "cm_id ?m = k" by (simp_all add: agent_snapshot_def Let_def)
  have serve: "scaler_serve ''POST'' (''/metrics/'' @ k) (Some ?m) gv s = (ScalerCode 204, s\<lparr>sc_metrics := (sc_metrics s)(k \<mapsto> ?m)\<rparr>)"
    using rt(3) lab(1) by (simp add: i scaler_serve_def handleMetrics_def Let_def del: append_Cons)
  have post: "scaler_post dec gv sa (''http://'' @ sa @ ''/metrics/'' @ k) (enc ?m) s = s\<lparr>sc_metrics := (sc_metrics s)(k \<mapsto> ?m)\<rparr>"
    unfolding scaler_post_def v option.case assms(3) serve by simp
  have met: "rp_metrics (report_at env addr k now mem cpu a) = ?m" by (simp add: report_at_def)
  show ?thesis
    unfolding deliver_def u option.case met f prod.case forwardMetrics_def metrics_suffix(2) by (rule post)
qed

section \<open>It counts\<close>

lemma report_counted:
  assumes "sc_metrics s k = Some m" "k \<in> set ids" "now - 30 * second \<le> cm_timestamp m"
  shows "m \<in> set (fresh s (now - 30 * second) ids) \<and> cm_p99 m \<le> fst (aggregateMetrics now ids s)"
proof
  show m: "m \<in> set (fresh s (now - 30 * second) ids)"
    using assms by (force simp: fresh_def List.map_filter_def)
  have "ids \<noteq> []" using assms(2) by auto
  then show "cm_p99 m \<le> fst (aggregateMetrics now ids s)"
    using m foldl_max_ge [of 0 "map cm_p99 (fresh s (now - 30 * second) ids)"]
    by (simp add: aggregateMetrics_def aggregate_loop_fresh)
qed

lemma report_not_counted:
  assumes "k \<notin> set ids"
  shows "aggregateMetrics now ids (s\<lparr>sc_metrics := (sc_metrics s)(k \<mapsto> m)\<rparr>) = aggregateMetrics now ids s"
proof -
  have "List.map_filter (sc_metrics (s\<lparr>sc_metrics := (sc_metrics s)(k \<mapsto> m)\<rparr>)) ids = List.map_filter (sc_metrics s) ids"
    using assms by (induction ids) (auto simp: map_filter_simps split: option.split)
  then have f: "fresh (s\<lparr>sc_metrics := (sc_metrics s)(k \<mapsto> m)\<rparr>) cutoff ids = fresh s cutoff ids" for cutoff
    unfolding fresh_def by (rule arg_cong)
  show ?thesis unfolding aggregateMetrics_def aggregate_loop_fresh f by (rule refl)
qed

lemma snapshot_time: "cm_timestamp (agent_snapshot k now mem cpu a) = now"
  by (simp add: agent_snapshot_def Let_def)

text \<open>The instance that the agent reports for, by backend.\<close>

lemma pod_agent:
  "agent_container (process_env (kp_env (podSpec env (instance_name cfg) cfg))) cgroup host = instance_name cfg"
  "process_env (kp_env (podSpec env name cfg)) ''INTERNAL_API_TOKEN'' = env ''INTERNAL_API_TOKEN''"
  by (simp_all add: agent_container_def process_env_def podSpec_def instance_name_def Let_def)

lemma docker_agent:
  "agent_container (process_env (db_env (docker_container_body env cfg))) cgroup host =
    (if selfContainerID cgroup = [] then host else selfContainerID cgroup)"
  "process_env (db_env (docker_container_body env cfg)) ''INTERNAL_API_TOKEN'' = env ''INTERNAL_API_TOKEN''"
  by (simp_all add: agent_container_def process_env_def docker_container_body_def Let_def)

text \<open>Docker's ids: 64 hexadecimal digits.\<close>

definition docker_id_ok :: "string \<Rightarrow> bool" where
  "docker_id_ok i \<longleftrightarrow> length i = 64 \<and> set i \<subseteq> set ''0123456789abcdef''"

lemma hex_label:
  assumes "set i \<subseteq> set ''0123456789abcdef''" "i \<noteq> []" "length i \<le> n"
  shows "label_ok n i"
proof -
  have "list_all dns_char ''0123456789abcdef''" by code_simp
  moreover have "CHR ''-'' \<notin> set i" using assms(1) by auto
  then have "hd i \<noteq> CHR ''-''" "last i \<noteq> CHR ''-''" using assms(2) hd_in_set last_in_set by metis+
  ultimately show ?thesis
    using assms hd_in_set [of i] last_in_set [of i] by (auto simp: label_ok_def list_all_iff)
qed

lemma docker_id_labels:
  assumes "docker_id_ok i"
  shows "label_ok 64 i" "label_ok 64 (take 12 i)" "length i = 64" "CHR ''-'' \<notin> set i" "CHR ''.'' \<notin> set i"
    "CHR ''/'' \<notin> set i" "CHR 0x0A \<notin> set i"
proof -
  have i: "set i \<subseteq> set ''0123456789abcdef''" "i \<noteq> []" "length i = 64" using assms by (auto simp: docker_id_ok_def)
  then show "label_ok 64 i" by (intro hex_label) simp_all
  have "set (take 12 i) \<subseteq> set ''0123456789abcdef''" using i(1) set_take_subset [of 12 i] by blast
  then show "label_ok 64 (take 12 i)" using i(2,3) by (intro hex_label) simp_all
qed (use assms in \<open>auto simp: docker_id_ok_def\<close>)

text \<open>A line that names the container \<open>i\<close>: its scope under systemd, or its group below \<open>/docker\<close>.\<close>

definition cgroup_line :: "string \<Rightarrow> string \<Rightarrow> bool" where
  "cgroup_line i l \<longleftrightarrow> (\<exists>pre. CHR ''-'' \<notin> set pre \<and> CHR 0x0A \<notin> set pre \<and> l = pre @ ''docker-'' @ i @ ''.scope'') \<or>
     (\<exists>hier. CHR ''-'' \<notin> set hier \<and> CHR ''/'' \<notin> set hier \<and> CHR 0x0A \<notin> set hier \<and> l = hier @ ''/docker/'' @ i)"

lemma cgroup_line_id:
  assumes "cgroup_line i l" "docker_id_ok i"
  shows "cgroup_id l = Some i \<and> CHR 0x0A \<notin> set l"
  using assms(1) docker_id_labels [OF assms(2)] cgroup_scope cgroup_docker unfolding cgroup_line_def by fastforce

section \<open>Properties\<close>

text \<open>The state of the scaler after the report of an agent that runs in the environment \<open>genv\<close>; \<open>cgroup\<close> and
  \<open>host\<close> are the container's control group file and host name.\<close>

definition reported ::
  "(container_metrics \<Rightarrow> string) \<Rightarrow> (string \<Rightarrow> container_metrics option) \<Rightarrow> gateway_view \<Rightarrow> string \<Rightarrow> string \<Rightarrow>
     env \<Rightarrow> string option \<Rightarrow> string \<Rightarrow> time \<Rightarrow> string option \<Rightarrow> string option \<Rightarrow> agent \<Rightarrow> scaler \<Rightarrow> scaler" where
  "reported enc dec gv token sa genv cgroup host now mem cpu a s =
     deliver enc dec gv (agent_gateway genv) token sa
       (report_at genv (agent_gateway genv) (agent_container genv cgroup host) now mem cpu a) s"

text \<open>The report is small and the scaler decodes what the agent encoded.\<close>

definition report_codec ::
  "(container_metrics \<Rightarrow> string) \<Rightarrow> (string \<Rightarrow> container_metrics option) \<Rightarrow> container_metrics \<Rightarrow> bool" where
  "report_codec enc dec m \<longleftrightarrow> length (enc m) \<le> 2 ^ 20 \<and> dec (enc m) = Some m"

text \<open>C13. On Kubernetes the loop of the metrics is closed: the agent in the pod that a start made reports, through
  the gateway, under the very id of the instance in the pool, the scaler stores the report, and while the
  report is not older than 30 s an evaluation that sees the instance takes it into account.\<close>

theorem k8s_reports_counted:
  assumes start: "k8s_Start env ans cfg fwds = (Inr i, cs, fwds')" "0 \<le> fc_port cfg" "fc_port cfg \<le> 65535"
    and codec: "report_codec enc dec (agent_snapshot (ri_id i) now mem cpu a)"
    and net: "env ''INTERNAL_API_TOKEN'' = token" "sa \<noteq> []"
    and seen: "ri_id i \<in> set ids" "t \<le> now + 30 * second"
  shows "\<exists>p s'. CreatePod p True \<in> set cs \<and>
    reported enc dec gv token sa (process_env (kp_env p)) cgroup host now mem cpu a s = s' \<and>
    s' = s\<lparr>sc_metrics := (sc_metrics s)(ri_id i \<mapsto> agent_snapshot (ri_id i) now mem cpu a)\<rparr> \<and>
    agent_snapshot (ri_id i) now mem cpu a \<in> set (fresh s' (t - 30 * second) ids) \<and>
    cm_p99 (agent_snapshot (ri_id i) now mem cpu a) \<le> fst (aggregateMetrics t ids s')"
proof -
  let ?p = "podSpec env (instance_name cfg) cfg" and ?m = "agent_snapshot (ri_id i) now mem cpu a"
  have st: "ri_id i = instance_name cfg" "CreatePod ?p True \<in> set cs"
    using k8s_Start_cases [OF start(1)] by (auto simp: good_calls_def)
  have l: "label_ok 63 (ri_id i)" using instance_name_label [OF start(2,3)] by (simp add: st(1))
  have r: "reported enc dec gv token sa (process_env (kp_env ?p)) cgroup host now mem cpu a s =
      s\<lparr>sc_metrics := (sc_metrics s)(ri_id i \<mapsto> ?m)\<rparr>"
    using report_delivered [OF l _ _ _ net(2), of enc now mem cpu a dec "process_env (kp_env ?p)" token] codec net(1)
    by (simp add: reported_def report_codec_def pod_agent st(1))
  have "t - 30 * second \<le> cm_timestamp ?m" using seen(2) by (simp add: snapshot_time)
  with report_counted [of "s\<lparr>sc_metrics := (sc_metrics s)(ri_id i \<mapsto> ?m)\<rparr>", OF _ seen(1)]
  have "?m \<in> set (fresh (s\<lparr>sc_metrics := (sc_metrics s)(ri_id i \<mapsto> ?m)\<rparr>) (t - 30 * second) ids) \<and>
      cm_p99 ?m \<le> fst (aggregateMetrics t ids (s\<lparr>sc_metrics := (sc_metrics s)(ri_id i \<mapsto> ?m)\<rparr>))"
    by simp
  then show ?thesis using st(2) r by blast
qed

text \<open>C24. With Docker it depends on what the container sees of its control group. Where the agent finds the
  container's id there, it reports under the id of 64 digits while the pool has the first 12, so that no
  evaluation ever changes because of the report; the first line that names the container gives this id, whether it is the
  scope under systemd or the group below \<open>/docker\<close>, whatever other lines are before and behind it. Where the agent finds no id (a control group namespace of
  its own), it falls back on the host name, which Docker sets to those 12 digits, and the report counts.\<close>

theorem docker_reports:
  assumes start: "docker_Start env ans cfg = (Inr i, cs)" "DockerCreate n b (Some full) \<in> set cs"
    and full: "docker_id_ok full"
    and codec: "\<forall>k \<in> {full, take 12 full}. report_codec enc dec (agent_snapshot k now mem cpu a)"
    and net: "env ''INTERNAL_API_TOKEN'' = token" "sa \<noteq> []"
    and seen: "ri_id i \<in> set ids" "\<forall>k \<in> set ids. length k \<le> 12" "t \<le> now + 30 * second"
  shows "(\<forall>cgroup host. selfContainerID cgroup = full \<longrightarrow>
      aggregateMetrics t ids (reported enc dec gv token sa (process_env (db_env b)) cgroup host now mem cpu a s) =
      aggregateMetrics t ids s) \<and>
    (\<forall>us l rest. (\<forall>u \<in> set us. CHR 0x0A \<notin> set u \<and> cgroup_id u = None) \<and> cgroup_line full l \<longrightarrow>
      selfContainerID (Some (concat (map (\<lambda>u. u @ [CHR 0x0A]) us) @ l @ CHR 0x0A # rest)) = full) \<and>
    (\<forall>cgroup. selfContainerID cgroup = [] \<longrightarrow>
      cm_p99 (agent_snapshot (ri_id i) now mem cpu a) \<le>
        fst (aggregateMetrics t ids (reported enc dec gv token sa (process_env (db_env b)) cgroup (take 12 full) now mem cpu a s)))"
proof (intro conjI allI impI)
  note len = docker_id_labels [OF full]
  have st: "ri_id i = take 12 full" "b = docker_container_body env cfg"
    using start len(3) by (auto simp: docker_Start_def Let_def split: sum.splits if_splits)
  have r: "reported enc dec gv token sa (process_env (db_env b)) cgroup host now mem cpu a s =
      s\<lparr>sc_metrics := (sc_metrics s)(k \<mapsto> agent_snapshot k now mem cpu a)\<rparr>"
    if "k = (if selfContainerID cgroup = [] then host else selfContainerID cgroup)" "k \<in> {full, take 12 full}" for cgroup host k
    using report_delivered [OF _ _ _ _ net(2), of 64 k enc now mem cpu a dec "process_env (db_env b)" token] codec net(1) that len(1,2)
    by (auto simp add: reported_def report_codec_def docker_agent st(2))
  fix cgroup host
  assume c: "selfContainerID cgroup = full"
  have "full \<notin> set ids" "full \<noteq> []" using seen(2) len(3) by auto
  then show "aggregateMetrics t ids (reported enc dec gv token sa (process_env (db_env b)) cgroup host now mem cpu a s) =
      aggregateMetrics t ids s"
    using r [of full cgroup host] c report_not_counted by simp
next
  fix us l rest
  assume u: "(\<forall>u \<in> set us. CHR 0x0A \<notin> set u \<and> cgroup_id u = None) \<and> cgroup_line full l"
  then show "selfContainerID (Some (concat (map (\<lambda>u. u @ [CHR 0x0A]) us) @ l @ CHR 0x0A # rest)) = full"
    using first_cgroup_id_split cgroup_line_id [OF _ full] by blast
next
  note len = docker_id_labels [OF full]
  have st: "ri_id i = take 12 full" "b = docker_container_body env cfg"
    using start len(3) by (auto simp: docker_Start_def Let_def split: sum.splits if_splits)
  fix cgroup
  assume "selfContainerID cgroup = []"
  then have e: "reported enc dec gv token sa (process_env (db_env b)) cgroup (take 12 full) now mem cpu a s =
      s\<lparr>sc_metrics := (sc_metrics s)(ri_id i \<mapsto> agent_snapshot (ri_id i) now mem cpu a)\<rparr>"
    using report_delivered [OF len(2) _ _ _ net(2), of enc now mem cpu a dec "process_env (db_env b)" token] codec net(1)
    by (simp add: reported_def report_codec_def docker_agent st)
  have "t - 30 * second \<le> cm_timestamp (agent_snapshot (ri_id i) now mem cpu a)" using seen(3) by (simp add: snapshot_time)
  with report_counted [of "s\<lparr>sc_metrics := (sc_metrics s)(ri_id i \<mapsto> agent_snapshot (ri_id i) now mem cpu a)\<rparr>", OF _ seen(1)]
  show "cm_p99 (agent_snapshot (ri_id i) now mem cpu a) \<le>
      fst (aggregateMetrics t ids (reported enc dec gv token sa (process_env (db_env b)) cgroup (take 12 full) now mem cpu a s))"
    unfolding e by simp
qed


section \<open>Witnesses\<close>




definition no_view :: gateway_view where
  "no_view = \<lparr>gv_stats = None, gv_queued = None, gv_ids = None, gv_ids_status = None\<rparr>"

definition k8s_fast :: k8s_answers where
  "k8s_fast = \<lparr>ka_sync = None, ka_create = True, ka_lost = False, ka_polls = [PodIs [(''Ready'', ''True'')] ''n1'' ''Running''],
     ka_forward = ForwardReady, ka_probes = [Some (200, ''ok'')], ka_delete = Deleted\<rparr>"

theorem k8s_reports_counted_witness:
  "\<exists>i cs fwds p. k8s_Start (\<lambda>_. []) k8s_fast hello [] = (Inr i, cs, fwds) \<and> CreatePod p True \<in> set cs \<and>
     agent_snapshot (ri_id i) 0 None None newAgent \<in>
       set (fresh (reported (\<lambda>_. []) (\<lambda>_. Some (agent_snapshot (ri_id i) 0 None None newAgent)) no_view [] ''localhost:9300''
         (process_env (kp_env p)) None [] 0 None None newAgent sample_scaler) (20 * second - 30 * second) [ri_id i])"
proof -
  obtain r cs fwds' where s: "k8s_Start (\<lambda>_. []) k8s_fast hello [] = (r, cs, fwds')" by (metis prod_cases3)
  then obtain i where r: "r = Inr i"
    by (auto simp: k8s_Start_def k8s_fast_def hello_def Let_def startPortForward_def trim_space_def is_space_def)
  have p: "0 \<le> fc_port hello" "fc_port hello \<le> 65535" by (simp_all add: hello_def)
  have c: "report_codec (\<lambda>_. []) (\<lambda>_. Some (agent_snapshot (ri_id i) 0 None None newAgent)) (agent_snapshot (ri_id i) 0 None None newAgent)"
    by (simp add: report_codec_def)
  show ?thesis
    using k8s_reports_counted [OF s [unfolded r] p c, of "[]" "''localhost:9300''" "[ri_id i]" "20 * second" no_view None "[]" sample_scaler] s r
    by (auto simp: second_def)
qed

definition docker_id :: string where
  "docker_id = replicate 64 CHR ''a''"

definition docker_up :: docker_answers where
  "docker_up = docker_ok\<lparr>da_create := Some (201, Some docker_id)\<rparr>"

text \<open>The codec of the witness: the text is the container's id.\<close>

definition sample_dec :: "string \<Rightarrow> container_metrics option" where
  "sample_dec b = Some (agent_snapshot b 0 None None newAgent)"

theorem docker_reports_witness:
  "\<exists>i cs n b. docker_Start (\<lambda>_. []) docker_up hello = (Inr i, cs) \<and> DockerCreate n b (Some docker_id) \<in> set cs \<and>
     aggregateMetrics (20 * second) [ri_id i] (reported (cm_id) sample_dec no_view [] ''localhost:9300'' (process_env (db_env b))
        (Some (''0::/system.slice/docker-'' @ docker_id @ ''.scope'' @ [CHR 0x0A])) [] 0 None None newAgent sample_scaler) =
     aggregateMetrics (20 * second) [ri_id i] sample_scaler"
proof -
  have ok: "docker_id_ok docker_id" by (simp add: docker_id_ok_def docker_id_def)
  note len = docker_id_labels [OF ok]
  have a: "docker_do (da_create docker_up) = Inr docker_id" "docker_do (da_start docker_up) = Inr ()" "waitReady (da_probes docker_up)"
    by (simp_all add: docker_up_def docker_ok_def docker_do_def trim_space_def is_space_def)
  obtain i cs where s: "docker_Start (\<lambda>_. []) docker_up hello = (Inr i, cs)" "ri_id i = take 12 docker_id"
    "DockerCreate (instance_name hello) (docker_container_body (\<lambda>_. []) hello) (Some docker_id) \<in> set cs"
    using a len(3) by (auto simp: docker_Start_def Let_def)
  have c: "\<forall>k \<in> {docker_id, take 12 docker_id}. report_codec cm_id sample_dec (agent_snapshot k 0 None None newAgent)"
    using len(3) by (auto simp: report_codec_def sample_dec_def agent_snapshot_def Let_def)
  have "cgroup_line docker_id (''0::/system.slice/'' @ ''docker-'' @ docker_id @ ''.scope'')"
    unfolding cgroup_line_def by (intro disjI1 exI [of _ "''0::/system.slice/''"]) simp
  then have l: "cgroup_line docker_id (''0::/system.slice/docker-'' @ docker_id @ ''.scope'')" by simp
  have side: "(\<lambda>_. []) ''INTERNAL_API_TOKEN'' = ([] :: string)" "''localhost:9300'' \<noteq> []" "ri_id i \<in> set [ri_id i]"
    "\<forall>k \<in> set [ri_id i]. length k \<le> 12" "20 * second \<le> 0 + 30 * second"
    using s(2) len(3) by (simp_all add: second_def)
  note reports = docker_reports [OF s(1,3) ok c side, of no_view sample_scaler]
  have "\<forall>u \<in> set []. CHR 0x0A \<notin> set u \<and> cgroup_id u = None" by simp
  then have "selfContainerID (Some (concat (map (\<lambda>u. u @ [CHR 0x0A]) []) @
      (''0::/system.slice/docker-'' @ docker_id @ ''.scope'') @ CHR 0x0A # [])) = docker_id"
    using reports [THEN conjunct2, THEN conjunct1] l by blast
  then have "selfContainerID (Some (''0::/system.slice/docker-'' @ docker_id @ ''.scope'' @ [CHR 0x0A])) = docker_id" by simp
  then show ?thesis using reports [THEN conjunct1] s by blast
qed

end
