(* ===== verification/Stores.thy ===== *)
theory Stores
  imports Code_Upload Scaler
begin

text \<open>
  What outlives a restart: the function store of the gateway (gateway/scheduler/store.go,
  gateway/scheduler/mongo_store.go) and the store of the scaler (scalersvc/store.go,
  scalersvc/mongo_store.go). The database is not part of the program: a collection is the record
  \<open>mongo\<close> of the three calls the program makes, and \<open>mongo_ok\<close> is what its documentation says
  of them, a failed call leaving open whether it took effect. The stores are the refinement
  of the maps in memory; where a call failed, the name is in doubt until the next call for it
  succeeds.
\<close>

section \<open>The database\<close>

text \<open>\<open>mo_update\<close> stands for \<open>UpdateByID\<close> and \<open>ReplaceOne\<close> with upsert: its second argument makes
  the new document from the one that is there. \<open>mo_find\<close> returns all documents.\<close>

record ('d, 'x) mongo =
  mo_update :: "string \<Rightarrow> ('x option \<Rightarrow> 'x) \<Rightarrow> 'd \<Rightarrow> bool \<times> 'd"
  mo_delete :: "string \<Rightarrow> 'd \<Rightarrow> bool \<times> 'd"
  mo_find :: "'d \<Rightarrow> 'x list option"

definition mongo_ok :: "('x \<Rightarrow> string) \<Rightarrow> ('d, 'x) mongo \<Rightarrow> ('d \<Rightarrow> string \<rightharpoonup> 'x) \<Rightarrow> bool" where
  "mongo_ok key mg view \<longleftrightarrow>
     (\<forall>k f d ok d'. key (f None) = k \<and> (\<forall>x. key x = k \<longrightarrow> key (f (Some x)) = k) \<and> mo_update mg k f d = (ok, d') \<longrightarrow>
        view d' = (view d)(k \<mapsto> f (view d k)) \<or> \<not> ok \<and> view d' = view d) \<and>
     (\<forall>k d ok d'. mo_delete mg k d = (ok, d') \<longrightarrow> view d' = (view d)(k := None) \<or> \<not> ok \<and> view d' = view d) \<and>
     (\<forall>d k x. view d k = Some x \<longrightarrow> key x = k) \<and>
     (\<forall>d xs. mo_find mg d = Some xs \<longrightarrow> distinct (map key xs) \<and> (\<forall>x. x \<in> set xs \<longleftrightarrow> view d (key x) = Some x))"

lemma mongo_update:
  assumes "mongo_ok key mg view" "mo_update mg k f d = (ok, d')"
    "key (f None) = k" "\<And>x. key x = k \<Longrightarrow> key (f (Some x)) = k"
  shows "view d' = (view d)(k \<mapsto> f (view d k)) \<or> \<not> ok \<and> view d' = view d"
  using assms unfolding mongo_ok_def by blast

lemma mongo_delete:
  assumes "mongo_ok key mg view" "mo_delete mg k d = (ok, d')"
  shows "view d' = (view d)(k := None) \<or> \<not> ok \<and> view d' = view d"
  using assms unfolding mongo_ok_def by blast

lemma mongo_find:
  assumes "mongo_ok key mg view" "mo_find mg d = Some xs"
  shows "distinct (map key xs)" "map_of (map (\<lambda>x. (key x, x)) xs) = view d"
proof -
  have xs: "distinct (map key xs)" "\<forall>x. x \<in> set xs \<longleftrightarrow> view d (key x) = Some x"
    "\<forall>k x. view d k = Some x \<longrightarrow> key x = k"
    using assms unfolding mongo_ok_def by blast+
  show "distinct (map key xs)" by (rule xs)
  show "map_of (map (\<lambda>x. (key x, x)) xs) = view d"
  proof
    fix k
    have d: "distinct (map fst (map (\<lambda>x. (key x, x)) xs))" using xs(1) by (simp add: comp_def)
    have "map_of (map (\<lambda>x. (key x, x)) xs) k = Some x \<longleftrightarrow> x \<in> set xs \<and> key x = k" for x
      unfolding map_of_eq_Some_iff [OF d] by auto
    then have "map_of (map (\<lambda>x. (key x, x)) xs) k = Some x \<longleftrightarrow> view d k = Some x" for x
      using xs(2,3) by metis
    then show "map_of (map (\<lambda>x. (key x, x)) xs) k = view d k" by (metis option.exhaust)
  qed
qed

text \<open>A collection that is a list of documents, and never fails.\<close>

definition list_view :: "('x \<Rightarrow> string) \<Rightarrow> 'x list \<Rightarrow> string \<rightharpoonup> 'x" where
  "list_view key xs = map_of (map (\<lambda>x. (key x, x)) xs)"

definition list_mongo :: "('x \<Rightarrow> string) \<Rightarrow> ('x list, 'x) mongo" where
  "list_mongo key =
     \<lparr>mo_update = \<lambda>k f xs. (True, case list_view key xs k of None \<Rightarrow> xs @ [f None]
        | Some x \<Rightarrow> map (\<lambda>y. if key y = k then f (Some x) else y) xs),
      mo_delete = \<lambda>k xs. (True, filter (\<lambda>x. key x \<noteq> k) xs),
      mo_find = \<lambda>xs. if distinct (map key xs) then Some xs else None\<rparr>"

lemma list_view_key: "list_view key xs k = Some x \<Longrightarrow> key x = k"
  by (auto simp: list_view_def dest: map_of_SomeD)

lemma list_view_append: "list_view key (xs @ ys) = list_view key ys ++ list_view key xs"
  by (simp add: list_view_def)

lemma list_view_map:
  assumes "key x = k"
  shows "list_view key (map (\<lambda>y. if key y = k then x else y) xs) =
    (if k \<in> key ` set xs then (list_view key xs)(k \<mapsto> x) else list_view key xs)"
proof (induction xs)
  case (Cons y xs)
  then show ?case using assms by (auto simp: list_view_def fun_eq_iff)
qed simp

lemma list_view_filter: "list_view key (filter (\<lambda>x. key x \<noteq> k) xs) = (list_view key xs)(k := None)"
  by (induction xs) (auto simp: list_view_def fun_eq_iff)

lemma list_view_dom: "list_view key xs k = None \<longleftrightarrow> k \<notin> key ` set xs"
  by (simp add: list_view_def map_of_eq_None_iff image_image)

lemma list_mongo_ok: "mongo_ok key (list_mongo key) (list_view key)"
  unfolding mongo_ok_def
proof (intro conjI allI impI)
  fix k f d ok d'
  assume f: "key (f None) = k \<and> (\<forall>x. key x = k \<longrightarrow> key (f (Some x)) = k) \<and> mo_update (list_mongo key) k f d = (ok, d')"
  show "list_view key d' = (list_view key d)(k \<mapsto> f (list_view key d k)) \<or> \<not> ok \<and> list_view key d' = list_view key d"
  proof (cases "list_view key d k")
    case None
    then have "d' = d @ [f None]" using f by (auto simp: list_mongo_def)
    moreover have "list_view key [f None] = [k \<mapsto> f None]" using f by (simp add: list_view_def)
    ultimately show ?thesis using None by (auto simp: list_view_append fun_eq_iff map_add_def split: option.split)
  next
    case (Some x)
    have "key (f (Some x)) = k" using f list_view_key [OF Some] by blast
    moreover have "k \<in> key ` set d" using list_view_dom [of key d k] Some by simp
    moreover have "d' = map (\<lambda>y. if key y = k then f (Some x) else y) d" using f Some by (auto simp: list_mongo_def)
    ultimately show ?thesis using Some by (simp add: list_view_map)
  qed
next
  fix k d ok d' assume "mo_delete (list_mongo key) k d = (ok, d')"
  then show "list_view key d' = (list_view key d)(k := None) \<or> \<not> ok \<and> list_view key d' = list_view key d"
    by (auto simp: list_mongo_def list_view_filter)
next
  fix d k x assume "list_view key d k = Some x" then show "key x = k" by (rule list_view_key)
next
  fix d xs assume "mo_find (list_mongo key) d = Some xs"
  then have xs: "xs = d" "distinct (map key xs)" by (auto simp: list_mongo_def split: if_splits)
  then show "distinct (map key xs)" by simp
  fix x show "x \<in> set xs \<longleftrightarrow> list_view key d (key x) = Some x"
    using xs by (auto simp: list_view_def comp_def dest: map_of_SomeD intro: map_of_is_SomeI)
qed

text \<open>A map in memory that a collection mirrors, apart from the keys \<open>D\<close> in doubt. A call to the
  collection beside the assignment it stands for keeps it so; a failed one puts its key in
  doubt, a later one that succeeds takes it out.\<close>

definition doubt_after :: "bool \<Rightarrow> string \<Rightarrow> string set \<Rightarrow> string set" where
  "doubt_after ok f D = (if ok then D - {f} else insert f D)"

definition mirrors :: "('x \<Rightarrow> 'v option) \<Rightarrow> (string \<rightharpoonup> 'x) \<Rightarrow> (string \<rightharpoonup> 'v) \<Rightarrow> string set \<Rightarrow> bool" where
  "mirrors dec v m D \<longleftrightarrow> (\<forall>k. k \<notin> D \<longrightarrow> Option.bind (v k) dec = m k)"

lemma mirrors_call:
  assumes "mirrors dec v m D" "v' = v(k := x) \<or> \<not> ok \<and> v' = v" "ok \<Longrightarrow> Option.bind x dec = r"
  shows "mirrors dec v' (m(k := r)) (doubt_after ok k D)"
  using assms by (cases ok) (auto simp: mirrors_def doubt_after_def)

lemma mirrors_some: "mirrors (\<lambda>x. Some (g x)) v m D \<longleftrightarrow> (\<forall>k. k \<notin> D \<longrightarrow> map_option g (v k) = m k)"
  by (simp add: mirrors_def map_option_case bind_split_asm Option.bind_eq_Some_conv) (auto split: option.splits bind_splits)

text \<open>Loading: the documents are entered one by one under the name they carry.\<close>

fun load_all :: "('x \<Rightarrow> string) \<Rightarrow> ('x \<Rightarrow> 'v option) \<Rightarrow> 'x list \<Rightarrow> (string \<rightharpoonup> 'v) \<Rightarrow> string \<rightharpoonup> 'v" where
  "load_all name dec [] m = m"
| "load_all name dec (x # xs) m = load_all name dec xs (case dec x of None \<Rightarrow> m | Some v \<Rightarrow> m(name x \<mapsto> v))"

lemma load_all_lookup:
  "distinct (map name xs) \<Longrightarrow>
   load_all name dec xs m k = (case Option.bind (map_of (map (\<lambda>x. (name x, x)) xs) k) dec of None \<Rightarrow> m k | Some v \<Rightarrow> Some v)"
proof (induction name dec xs m rule: load_all.induct)
  case (2 name dec x xs m)
  then have "map_of (map (\<lambda>x. (name x, x)) xs) (name x) = None"
    by (simp add: map_of_eq_None_iff image_image)
  moreover have "load_all name dec xs m' k =
      (case Option.bind (map_of (map (\<lambda>x. (name x, x)) xs) k) dec of None \<Rightarrow> m' k | Some v \<Rightarrow> Some v)"
    if "m' = (case dec x of None \<Rightarrow> m | Some v \<Rightarrow> m(name x \<mapsto> v))" for m'
    unfolding that using 2 by simp
  ultimately show ?case by (cases "k = name x"; cases "dec x") (simp_all split: option.split)
qed simp

lemma mongo_load:
  assumes "mongo_ok key mg view" "mo_find mg d = Some xs" "\<And>k x. view d k = Some x \<Longrightarrow> name x = k"
  shows "load_all name dec xs Map.empty k = Option.bind (view d k) dec"
proof -
  note found = mongo_find [OF assms(1,2)]
  have "name x = key x" if "x \<in> set xs" for x
  proof -
    have "map_of (map (\<lambda>x. (key x, x)) xs) (key x) = Some x"
      using found(1) that by (intro map_of_is_SomeI) (auto simp: comp_def)
    then show ?thesis using assms(3) found(2) by metis
  qed
  then have same: "map name xs = map key xs" "map (\<lambda>x. (name x, x)) xs = map (\<lambda>x. (key x, x)) xs" by auto
  have "load_all name dec xs Map.empty k = (case Option.bind (view d k) dec of None \<Rightarrow> None | Some v \<Rightarrow> Some v)"
    using load_all_lookup [of name xs dec Map.empty k, unfolded same found(2), OF found(1)] .
  then show ?thesis by (simp split: option.splits)
qed

text \<open>A time keeps its milliseconds in the database.\<close>

definition bson_time :: "time \<Rightarrow> time" where
  "bson_time t = t div 1000000 * 1000000"

definition mongoTimeout :: "env \<Rightarrow> duration option" where
  "mongoTimeout env =
     (let v = env ''MONGO_TIMEOUT_MS'' in
      if v \<noteq> [] then (case atoi v of (n, err) \<Rightarrow> if err \<noteq> None \<or> n \<le> 0 then None else Some (wrap64 (n * 1000000)))
      else Some (3000 * 1000000))"

section \<open>The functions of the gateway\<close>

record function_document =
  fd_id :: string
  fd_name :: string
  fd_image :: string
  fd_runtime :: string
  fd_timeout :: int
  fd_memory :: int
  fd_handler :: string
  fd_triggers :: "trigger_config list"
  fd_code_dir :: string
  fd_code_key :: string
  fd_code_url :: string
  fd_created_at :: time
  fd_updated_at :: time

text \<open>The \<open>$set\<close> and \<open>$setOnInsert\<close> of \<open>SaveFunction\<close>.\<close>

definition function_update :: "function_config \<Rightarrow> time \<Rightarrow> function_document option \<Rightarrow> function_document" where
  "function_update cfg now old =
     \<lparr>fd_id = fc_name cfg, fd_name = fc_name cfg, fd_image = fc_image cfg, fd_runtime = fc_runtime cfg,
      fd_timeout = fc_timeout cfg, fd_memory = fc_memory cfg, fd_handler = fc_handler cfg,
      fd_triggers = fc_triggers cfg, fd_code_dir = fc_code_dir cfg, fd_code_key = fc_code_key cfg,
      fd_code_url = fc_code_url cfg,
      fd_created_at = (case old of None \<Rightarrow> bson_time now | Some x \<Rightarrow> fd_created_at x),
      fd_updated_at = bson_time now\<rparr>"

definition document_config :: "function_document \<Rightarrow> function_config" where
  "document_config x =
     \<lparr>fc_name = fd_name x, fc_image = fd_image x, fc_runtime = fd_runtime x, fc_timeout = fd_timeout x,
      fc_memory = fd_memory x, fc_handler = fd_handler x, fc_triggers = fd_triggers x,
      fc_code_dir = fd_code_dir x, fc_code_key = fd_code_key x, fc_code_url = fd_code_url x, fc_port = 0\<rparr>"

type_synonym 'd function_mongo = "('d, function_document) mongo"

definition LoadFunctions :: "'d function_mongo \<Rightarrow> 'd \<Rightarrow> function_config list option" where
  "LoadFunctions mg d = map_option (map document_config) (mo_find mg d)"

definition SaveFunction :: "'d function_mongo \<Rightarrow> time \<Rightarrow> function_config \<Rightarrow> 'd \<Rightarrow> bool \<times> 'd" where
  "SaveFunction mg now cfg d = mo_update mg (fc_name cfg) (function_update cfg now) d"

definition DeleteFunction :: "'d function_mongo \<Rightarrow> string \<Rightarrow> 'd \<Rightarrow> bool \<times> 'd" where
  "DeleteFunction mg name d = mo_delete mg name d"

text \<open>The memory store saves nothing and has nothing to load.\<close>

definition memoryFunctionStore :: "unit function_mongo" where
  "memoryFunctionStore = \<lparr>mo_update = \<lambda>_ _ _. (True, ()), mo_delete = \<lambda>_ _. (True, ()), mo_find = \<lambda>_. Some []\<rparr>"

text \<open>Which store the environment selects. Connecting and the answer of a ping are the driver's; a
  timeout that is not a positive number is a panic.\<close>

datatype 'c store_choice = MemoryStore | MongoStore 'c string duration | StoreError | StorePanic

definition newFunctionStoreFromEnv :: "(string \<Rightarrow> 'c option) \<Rightarrow> ('c \<Rightarrow> bool) \<Rightarrow> env \<Rightarrow> 'c store_choice" where
  "newFunctionStoreFromEnv connect ping env =
     (let uri = env ''MONGO_URI'' in
      if uri = [] then MemoryStore
      else case mongoTimeout env of
        None \<Rightarrow> StorePanic
      | Some timeout \<Rightarrow>
          (case connect uri of
             None \<Rightarrow> StoreError
           | Some c \<Rightarrow>
               if \<not> ping c then StoreError
               else MongoStore c (if env ''MONGO_DB'' = [] then ''faas'' else env ''MONGO_DB'') timeout))"

text \<open>The scaler's choice differs in one point: the index on the decisions must be made too.\<close>

definition newScaleStoreFromEnv ::
  "(string \<Rightarrow> 'c option) \<Rightarrow> ('c \<Rightarrow> bool) \<Rightarrow> ('c \<Rightarrow> bool) \<Rightarrow> env \<Rightarrow> 'c store_choice" where
  "newScaleStoreFromEnv connect ping index env =
     (case newFunctionStoreFromEnv connect ping env of
        MongoStore c db timeout \<Rightarrow> if index c then MongoStore c db timeout else StoreError
      | r \<Rightarrow> r)"

section \<open>The gateway with its store\<close>

text \<open>A request changes the registry in a locked section and calls the store after it, without the lock. A
  \<open>SaveCall\<close> of \<open>Register\<close> has the flag set: if it fails, the function is taken out of the registry again
  in another section.\<close>

datatype store_call = SaveCall function_config bool | DeleteCall | UndoCall

text \<open>The calls under way, by the name of the function. Two sets are not in the program: \<open>gd_alone\<close> has the names with one call
  under way beside which no other was ever under way; \<open>gd_doubt\<close> has the names whose last call
  failed or overlapped with another one for the same name.\<close>

record 'd gateway_db =
  gd_sched :: scheduler
  gd_store :: 'd
  gd_uploads :: "(string \<times> function_config) list"
  gd_calls :: "string \<Rightarrow> store_call list"
  gd_alone :: "string set"
  gd_doubt :: "string set"

definition begin_call :: "string \<Rightarrow> store_call \<Rightarrow> scheduler \<Rightarrow> 'd gateway_db \<Rightarrow> 'd gateway_db" where
  "begin_call f c s y =
     y\<lparr>gd_sched := s, gd_calls := (gd_calls y)(f := gd_calls y f @ [c]),
       gd_alone := (if gd_calls y f = [] then insert f (gd_alone y) else gd_alone y - {f})\<rparr>"

definition end_call :: "string \<Rightarrow> nat \<Rightarrow> bool \<Rightarrow> 'd gateway_db \<Rightarrow> 'd gateway_db" where
  "end_call f i ok y =
     y\<lparr>gd_calls := (gd_calls y)(f := take i (gd_calls y f) @ drop (Suc i) (gd_calls y f)), gd_alone := gd_alone y - {f},
       gd_doubt := doubt_after (ok \<and> f \<in> gd_alone y) f (gd_doubt y)\<rparr>"

text \<open>The sections of \<open>Register\<close>, \<open>Deregister\<close> and \<open>UploadCode\<close>, the last with the configuration that it read at its
  beginning, and the return of the call number \<open>i\<close> for a name, with the effect of the call: where that comes earlier
  and another call for the name sees it, the two overlap, and the name is in doubt.\<close>

datatype store_event =
    RegisterSection function_config
  | DeregisterSection string
  | UploadRead string
  | UploadSection string function_config string string string   \<comment> \<open>read; key, URL and directory of the new code\<close>
  | CallReturns string nat time

definition register_section :: "function_config \<Rightarrow> 'd gateway_db \<Rightarrow> 'd gateway_db" where
  "register_section cfg y =
     (case register_prepare cfg of
        Inl e \<Rightarrow> y
      | Inr c \<Rightarrow>
          (case register_insert c (gd_sched y) of
             (Some e, s) \<Rightarrow> y
           | (None, s) \<Rightarrow> begin_call (fc_name c) (SaveCall c True) s y))"

definition deregister_section :: "string \<Rightarrow> 'd gateway_db \<Rightarrow> 'd gateway_db" where
  "deregister_section name y = begin_call name DeleteCall (snd (Deregister name (gd_sched y))) y"

definition upload_read :: "string \<Rightarrow> 'd gateway_db \<Rightarrow> 'd gateway_db" where
  "upload_read name y =
     (case Get name (gd_sched y) of None \<Rightarrow> y | Some cfg \<Rightarrow> y\<lparr>gd_uploads := (name, cfg) # gd_uploads y\<rparr>)"

definition upload_section ::
  "string \<Rightarrow> function_config \<Rightarrow> string \<Rightarrow> string \<Rightarrow> string \<Rightarrow> 'd gateway_db \<Rightarrow> 'd gateway_db" where
  "upload_section name cfg key url dir y =
     (if (name, cfg) \<notin> set (gd_uploads y) then y
      else
        let cfg' = cfg\<lparr>fc_code_key := key, fc_code_url := url\<rparr> in
        begin_call name (SaveCall (cfg'\<lparr>fc_code_dir := dir\<rparr>) False) (snd (upload_commit name cfg' dir (gd_sched y)))
          (y\<lparr>gd_uploads := remove1 (name, cfg) (gd_uploads y)\<rparr>))"

text \<open>After a failed save \<open>Register\<close> has the section that takes the function out still before it.\<close>

definition save_returns ::
  "'d function_mongo \<Rightarrow> time \<Rightarrow> string \<Rightarrow> nat \<Rightarrow> function_config \<Rightarrow> bool \<Rightarrow> 'd gateway_db \<Rightarrow> 'd gateway_db" where
  "save_returns mg now f i cfg undo y =
     (case SaveFunction mg now cfg (gd_store y) of (ok, d) \<Rightarrow>
        if ok \<or> \<not> undo then end_call f i ok (y\<lparr>gd_store := d\<rparr>)
        else y\<lparr>gd_store := d, gd_calls := (gd_calls y)(f := (gd_calls y f)[i := UndoCall]), gd_alone := gd_alone y - {f},
               gd_doubt := insert f (gd_doubt y)\<rparr>)"

definition delete_returns :: "'d function_mongo \<Rightarrow> string \<Rightarrow> nat \<Rightarrow> 'd gateway_db \<Rightarrow> 'd gateway_db" where
  "delete_returns mg f i y = (case DeleteFunction mg f (gd_store y) of (ok, d) \<Rightarrow> end_call f i ok (y\<lparr>gd_store := d\<rparr>))"

definition undo_section :: "string \<Rightarrow> nat \<Rightarrow> 'd gateway_db \<Rightarrow> 'd gateway_db" where
  "undo_section f i y = end_call f i False (y\<lparr>gd_sched := delete_function f (gd_sched y)\<rparr>)"

lemmas section_defs = register_section_def deregister_section_def upload_read_def upload_section_def save_returns_def
  delete_returns_def undo_section_def

declare section_defs [simp]

fun store_step :: "'d function_mongo \<Rightarrow> store_event \<Rightarrow> 'd gateway_db \<Rightarrow> 'd gateway_db" where
  "store_step mg (RegisterSection cfg) y = register_section cfg y"
| "store_step mg (DeregisterSection name) y = deregister_section name y"
| "store_step mg (UploadRead name) y = upload_read name y"
| "store_step mg (UploadSection name cfg key url dir) y = upload_section name cfg key url dir y"
| "store_step mg (CallReturns f i now) y =
     (if i \<ge> length (gd_calls y f) then y
      else
        case gd_calls y f ! i of
          SaveCall cfg undo \<Rightarrow> save_returns mg now f i cfg undo y
        | DeleteCall \<Rightarrow> delete_returns mg f i y
        | UndoCall \<Rightarrow> undo_section f i y)"

fun call_succeeds :: "'d function_mongo \<Rightarrow> time \<Rightarrow> string \<Rightarrow> store_call \<Rightarrow> 'd \<Rightarrow> bool" where
  "call_succeeds mg now f (SaveCall cfg undo) d \<longleftrightarrow> fst (SaveFunction mg now cfg d)"
| "call_succeeds mg now f DeleteCall d \<longleftrightarrow> fst (DeleteFunction mg f d)"
| "call_succeeds mg now f UndoCall d \<longleftrightarrow> False"

text \<open>The gateway starts with what it finds in the store.\<close>

definition start_gateway :: "'d function_mongo \<Rightarrow> 'd \<Rightarrow> 'd gateway_db option" where
  "start_gateway mg d =
     map_option (\<lambda>cfgs. \<lparr>gd_sched = new_scheduler cfgs, gd_store = d, gd_uploads = [], gd_calls = \<lambda>_. [], gd_alone = {}, gd_doubt = {}\<rparr>)
       (LoadFunctions mg d)"

text \<open>The requests that reach the registry carry no port: the field is not decoded.\<close>

fun event_ok :: "store_event \<Rightarrow> bool" where
  "event_ok (RegisterSection cfg) \<longleftrightarrow> fc_port cfg = 0"
| "event_ok _ \<longleftrightarrow> True"

definition named :: "string \<Rightarrow> function_config \<Rightarrow> bool" where
  "named f cfg \<longleftrightarrow> fc_name cfg = f \<and> fc_port cfg = 0"

text \<open>What the registry has under a name while its only call is under way.\<close>

fun call_entry :: "store_call \<Rightarrow> function_config option option" where
  "call_entry (SaveCall cfg undo) = Some (Some cfg)"
| "call_entry DeleteCall = Some None"
| "call_entry UndoCall = None"

definition name_ok :: "('d \<Rightarrow> string \<rightharpoonup> function_document) \<Rightarrow> 'd gateway_db \<Rightarrow> string \<Rightarrow> bool" where
  "name_ok view y f \<longleftrightarrow>
     (gd_calls y f = [] \<and> f \<notin> gd_doubt y \<longrightarrow> map_option document_config (view (gd_store y) f) = s_functions (gd_sched y) f) \<and>
     (f \<in> gd_alone y \<longrightarrow> (\<exists>c. gd_calls y f = [c] \<and> call_entry c = Some (s_functions (gd_sched y) f))) \<and>
     (\<forall>cfg undo. SaveCall cfg undo \<in> set (gd_calls y f) \<longrightarrow> named f cfg) \<and>
     (\<forall>cfg. s_functions (gd_sched y) f = Some cfg \<longrightarrow> named f cfg) \<and>
     (\<forall>cfg. (f, cfg) \<in> set (gd_uploads y) \<longrightarrow> named f cfg) \<and>
     (\<forall>x. view (gd_store y) f = Some x \<longrightarrow> fd_name x = f)"

definition stored_ok :: "('d \<Rightarrow> string \<rightharpoonup> function_document) \<Rightarrow> 'd gateway_db \<Rightarrow> bool" where
  "stored_ok view y \<longleftrightarrow> (\<forall>f. name_ok view y f)"

lemma document_round: "fc_port cfg = 0 \<Longrightarrow> document_config (function_update cfg now old) = cfg"
  by (simp add: document_config_def function_update_def)

lemma function_update_sel: "fd_id (function_update cfg now old) = fc_name cfg" "fd_name (function_update cfg now old) = fc_name cfg"
  by (simp_all add: function_update_def)

lemma register_prepare_port: "register_prepare cfg = Inr c \<Longrightarrow> fc_port c = fc_port cfg"
  by (auto simp: register_prepare_def Let_def split: if_splits option.splits)

text \<open>A step changes what belongs to one name.\<close>

lemma stored_ok_one:
  assumes "stored_ok view y" "name_ok view y' f"
    "\<And>h. h \<noteq> f \<Longrightarrow> gd_calls y' h = gd_calls y h \<and> (h \<in> gd_alone y' \<longleftrightarrow> h \<in> gd_alone y) \<and> (h \<in> gd_doubt y' \<longleftrightarrow> h \<in> gd_doubt y) \<and>
      view (gd_store y') h = view (gd_store y) h \<and> s_functions (gd_sched y') h = s_functions (gd_sched y) h"
    "set (gd_uploads y') \<subseteq> insert (f, cfg) (set (gd_uploads y))"
  shows "stored_ok view y'"
proof -
  have "name_ok view y' h" if "h \<noteq> f" for h
  proof -
    have "name_ok view y h" using assms(1) by (simp add: stored_ok_def)
    moreover have "(h, c) \<in> set (gd_uploads y') \<longrightarrow> (h, c) \<in> set (gd_uploads y)" for c using assms(4) that by auto
    ultimately show ?thesis using assms(3) [OF that] unfolding name_ok_def by simp
  qed
  then show ?thesis using assms(2) unfolding stored_ok_def by metis
qed

lemma stored_ok_begin:
  assumes "stored_ok view y" "s_functions s = (s_functions (gd_sched y))(f := r)" "call_entry c = Some r"
    "\<And>cfg. r = Some cfg \<Longrightarrow> named f cfg"
  shows "stored_ok view (begin_call f c s y)"
proof (rule stored_ok_one [OF assms(1), where f = f])
  have y: "name_ok view y f" using assms(1) by (simp add: stored_ok_def)
  have c: "c = SaveCall cfg undo \<Longrightarrow> named f cfg" for cfg undo using assms(3,4) by simp
  show "name_ok view (begin_call f c s y) f"
    using y assms(2-4) c unfolding name_ok_def begin_call_def by (auto split: if_splits)
qed (use assms(2) in \<open>auto simp: begin_call_def\<close>)

lemma stored_ok_end:
  assumes y: "stored_ok view y" and i: "i < length (gd_calls y f)"
    and d: "view d = (view (gd_store y))(f := v) \<or> \<not> ok \<and> view d = view (gd_store y)"
    and s: "s_functions s = (s_functions (gd_sched y))(f := r)" "\<And>cfg. r = Some cfg \<Longrightarrow> named f cfg"
    and v: "\<And>x. v = Some x \<Longrightarrow> fd_name x = f"
    and same: "ok \<Longrightarrow> f \<in> gd_alone y \<Longrightarrow> map_option document_config v = r"
  shows "stored_ok view (end_call f i ok (y\<lparr>gd_sched := s, gd_store := d\<rparr>))"
proof (rule stored_ok_one [OF y, where f = f])
  let ?y = "end_call f i ok (y\<lparr>gd_sched := s, gd_store := d\<rparr>)"
  have f: "name_ok view y f" using y by (simp add: stored_ok_def)
  have "map_option document_config (view d f) = r" if "f \<notin> gd_doubt ?y"
  proof -
    have "ok \<and> f \<in> gd_alone y" using that by (auto simp: end_call_def doubt_after_def split: if_splits)
    then show ?thesis using same d by auto
  qed
  moreover have "named f cfg" if "SaveCall cfg undo \<in> set (gd_calls ?y f)" for cfg undo
  proof -
    have "SaveCall cfg undo \<in> set (gd_calls y f)"
      using that by (auto simp: end_call_def dest: in_set_takeD in_set_dropD)
    then show ?thesis using f unfolding name_ok_def by blast
  qed
  moreover have "fd_name x = f" if "view d f = Some x" for x
    using that d v f unfolding name_ok_def by auto
  moreover have "gd_store ?y = d" "s_functions (gd_sched ?y) f = r" "f \<notin> gd_alone ?y" "gd_uploads ?y = gd_uploads y"
    using s by (simp_all add: end_call_def)
  ultimately show "name_ok view ?y f"
    using f s unfolding name_ok_def by metis
qed (use d s in \<open>auto simp: end_call_def doubt_after_def\<close>)

lemma stored_ok_step:
  assumes mg: "mongo_ok fd_id mg view" and y: "stored_ok view y" and "event_ok ev"
  shows "stored_ok view (store_step mg ev y)"
proof (cases ev)
  case (RegisterSection cfg)
  show ?thesis
  proof (cases "register_prepare cfg")
    case (Inr c)
    then have "named (fc_name c) c" using assms(3) RegisterSection register_prepare_port by (simp add: named_def)
    then show ?thesis
      using stored_ok_begin [OF y, of _ "fc_name c" "Some c" "SaveCall c True"] y
      by (cases "s_functions (gd_sched y) (fc_name c)") (simp_all add: RegisterSection Inr register_insert_def)
  qed (use y in \<open>simp add: RegisterSection\<close>)
next
  case (DeregisterSection name)
  show ?thesis
    using stored_ok_begin [OF y, of _ name None DeleteCall] by (simp add: DeregisterSection Deregister_def)
next
  case (UploadRead name)
  show ?thesis
  proof (cases "s_functions (gd_sched y) name")
    case (Some cfg)
    have "name_ok view y name" using y by (simp add: stored_ok_def)
    then have "name_ok view (y\<lparr>gd_uploads := (name, cfg) # gd_uploads y\<rparr>) name" using Some by (auto simp: name_ok_def)
    then show ?thesis
      using Some by (auto simp: UploadRead Get_def intro!: stored_ok_one [OF y, where f = name and cfg = cfg])
  qed (use y in \<open>simp add: UploadRead Get_def\<close>)
next
  case (UploadSection name cfg key url dir)
  show ?thesis
  proof (cases "(name, cfg) \<in> set (gd_uploads y)")
    case True
    let ?cfg = "cfg\<lparr>fc_code_key := key, fc_code_url := url, fc_code_dir := dir\<rparr>"
    let ?y = "y\<lparr>gd_uploads := remove1 (name, cfg) (gd_uploads y)\<rparr>"
    have f: "name_ok view y name" using y by (simp add: stored_ok_def)
    then have "named name cfg" using True by (simp add: name_ok_def)
    then have "named name ?cfg" by (simp add: named_def)
    moreover have sub: "set (remove1 (name, cfg) (gd_uploads y)) \<subseteq> set (gd_uploads y)" by (rule set_remove1_subset)
    then have "stored_ok view ?y"
      using f by (intro stored_ok_one [OF y, where f = name]) (auto simp: name_ok_def)
    ultimately show ?thesis
      using stored_ok_begin [of view ?y _ name "Some ?cfg" "SaveCall ?cfg False"] True
      by (simp add: UploadSection upload_commit_def Let_def)
  qed (use y in \<open>simp add: UploadSection\<close>)
next
  case (CallReturns f i now)
  show ?thesis
  proof (cases "i < length (gd_calls y f)")
    case i: True
    have f: "name_ok view y f" using y by (simp add: stored_ok_def)
    have now_named: "s_functions (gd_sched y) f = Some cfg \<Longrightarrow> named f cfg" for cfg using f by (simp add: name_ok_def)
    have alone: "f \<in> gd_alone y \<Longrightarrow> call_entry (gd_calls y f ! i) = Some (s_functions (gd_sched y) f)"
      using f i by (auto simp: name_ok_def)
    have keep: "s_functions (gd_sched y) = (s_functions (gd_sched y))(f := s_functions (gd_sched y) f)" by simp
    show ?thesis
    proof (cases "gd_calls y f ! i")
      case (SaveCall cfg undo)
      then have cfg: "named f cfg" using f i nth_mem unfolding name_ok_def by metis
      obtain ok d where save: "SaveFunction mg now cfg (gd_store y) = (ok, d)" by fastforce
      let ?x = "function_update cfg now (view (gd_store y) f)"
      have d: "view d = (view (gd_store y))(f \<mapsto> ?x) \<or> \<not> ok \<and> view d = view (gd_store y)"
        using mongo_update [OF mg save [unfolded SaveFunction_def]] cfg by (simp add: function_update_sel named_def)
      have x: "fd_name ?x = f" "document_config ?x = cfg"
        using cfg document_round by (simp_all add: function_update_sel named_def)
      show ?thesis
      proof (cases "ok \<or> \<not> undo")
        case True
        have "stored_ok view (end_call f i ok (y\<lparr>gd_sched := gd_sched y, gd_store := d\<rparr>))"
          using x alone SaveCall now_named by (intro stored_ok_end [OF y i d keep]) auto
        then show ?thesis using i True by (simp add: CallReturns SaveCall save)
      next
        case False
        have "name_ok view (y\<lparr>gd_store := d, gd_calls := (gd_calls y)(f := (gd_calls y f)[i := UndoCall]),
            gd_alone := gd_alone y - {f}, gd_doubt := insert f (gd_doubt y)\<rparr>) f"
          using f d x i by (auto simp: name_ok_def dest!: set_update_subset_insert [THEN subsetD])
        then show ?thesis
          using i False d by (auto simp: CallReturns SaveCall save intro!: stored_ok_one [OF y, where f = f])
      qed
    next
      case DeleteCall
      obtain ok d where del: "DeleteFunction mg f (gd_store y) = (ok, d)" by fastforce
      have "stored_ok view (end_call f i ok (y\<lparr>gd_sched := gd_sched y, gd_store := d\<rparr>))"
        using alone DeleteCall now_named
        by (intro stored_ok_end [OF y i mongo_delete [OF mg del [unfolded DeleteFunction_def]] keep]) auto
      then show ?thesis using i by (simp add: CallReturns DeleteCall del)
    next
      case UndoCall
      have "stored_ok view (end_call f i False (y\<lparr>gd_sched := delete_function f (gd_sched y), gd_store := gd_store y\<rparr>))"
        by (intro stored_ok_end [OF y i, of "gd_store y" None False _ None]) (auto simp: delete_function_def)
      then show ?thesis using i by (simp add: CallReturns UndoCall)
    qed
  qed (use y in \<open>simp add: CallReturns\<close>)
qed

lemma stored_ok_run: "mongo_ok fd_id mg view \<Longrightarrow> stored_ok view y \<Longrightarrow> list_all event_ok evs \<Longrightarrow> stored_ok view (fold (store_step mg) evs y)"
  by (induction evs arbitrary: y) (simp_all add: stored_ok_step)

lemma load_functions_all:
  "load_functions (map document_config xs) m = load_all fd_name (\<lambda>x. Some (document_config x)) xs m"
  by (induction xs arbitrary: m) (simp_all add: document_config_def)

lemma loaded_functions:
  assumes "mongo_ok fd_id mg view" "LoadFunctions mg d = Some cfgs" "\<And>f x. view d f = Some x \<Longrightarrow> fd_name x = f"
  shows "s_functions (new_scheduler cfgs) f = map_option document_config (view d f)"
proof -
  obtain xs where xs: "mo_find mg d = Some xs" "cfgs = map document_config xs"
    using assms(2) by (auto simp: LoadFunctions_def)
  show ?thesis
    using mongo_load [OF assms(1) xs(1) assms(3), where dec = "\<lambda>x. Some (document_config x)" and k = f]
    by (cases "view d f") (simp_all add: new_scheduler_def xs(2) load_functions_all)
qed

section \<open>Properties\<close>

text \<open>C11. The registry survives a restart. The gateway changes the registry in one step and calls the database in a
  later one, so requests interleave, and a failed registration is undone in a third. Whatever the interleaving of
  registrations, removals and uploads since the gateway started from its store, and whichever calls fail, a gateway started from the store
  afterwards has, for every name without a call under way, exactly the function of the old one, with the same configuration, or none if that had
  none, unless the last call for this name failed or overlapped with another call for the same name. Such
  a name is settled again by the next call for it that is alone from its section to its return and succeeds.\<close>

theorem gateway_restart:
  assumes "mongo_ok fd_id mg view" "\<forall>f x. view d f = Some x \<longrightarrow> fd_name x = f"
    "start_gateway mg d = Some y" "list_all event_ok evs" "y' = fold (store_step mg) evs y"
    "start_gateway mg (gd_store y') = Some z"
  shows "(gd_calls y' f = [] \<and> f \<notin> gd_doubt y' \<longrightarrow> s_functions (gd_sched z) f = s_functions (gd_sched y') f) \<and>
    (\<forall>c now. f \<in> gd_alone y' \<and> gd_calls y' f = [c] \<and> call_succeeds mg now f c (gd_store y') \<longrightarrow>
       f \<notin> gd_doubt (store_step mg (CallReturns f 0 now) y'))"
proof (intro conjI impI allI)
  obtain cfgs where y: "LoadFunctions mg d = Some cfgs"
    "y = \<lparr>gd_sched = new_scheduler cfgs, gd_store = d, gd_uploads = [], gd_calls = \<lambda>_. [], gd_alone = {}, gd_doubt = {}\<rparr>"
    using assms(3) by (auto simp: start_gateway_def)
  have start: "s_functions (gd_sched y) h = map_option document_config (view d h)" for h
    using loaded_functions [OF assms(1) y(1)] assms(2) by (simp add: y(2))
  have "named h (document_config x)" if "view d h = Some x" for h x
    using assms(2) that by (simp add: named_def document_config_def)
  then have "stored_ok view y"
    using assms(2) start by (auto simp: stored_ok_def name_ok_def) (simp_all add: y(2))
  then have ok: "stored_ok view y'"
    unfolding assms(5) by (rule stored_ok_run [OF assms(1) _ assms(4)])
  obtain cfgs' where z: "LoadFunctions mg (gd_store y') = Some cfgs'" "gd_sched z = new_scheduler cfgs'"
    using assms(6) by (auto simp: start_gateway_def)
  assume settled: "gd_calls y' f = [] \<and> f \<notin> gd_doubt y'"
  have "s_functions (gd_sched z) f = map_option document_config (view (gd_store y') f)"
    using ok by (simp add: z(2) loaded_functions [OF assms(1) z(1)] stored_ok_def name_ok_def)
  also have "\<dots> = s_functions (gd_sched y') f" using ok settled by (simp add: stored_ok_def name_ok_def)
  finally show "s_functions (gd_sched z) f = s_functions (gd_sched y') f" .
next
  fix c now
  assume c: "f \<in> gd_alone y' \<and> gd_calls y' f = [c] \<and> call_succeeds mg now f c (gd_store y')"
  then show "f \<notin> gd_doubt (store_step mg (CallReturns f 0 now) y')"
    by (cases c) (auto simp: end_call_def doubt_after_def split: prod.splits)
qed

lemma sample_prepared: "register_prepare sample_config = Inr sample_config"
proof -
  have "isValidFunctionName ''f''" by (simp add: valid_name_label label_ok_def dns_char_def is_lower_def)
  moreover have "validateTriggers [sample_trigger] = None" by code_simp
  ultimately show ?thesis
    by (simp add: register_prepare_def sample_config_def isSupportedRuntime_def str_default_def int_default_def Let_def)
qed

definition fresh_gateway :: "function_document list gateway_db" where
  "fresh_gateway = \<lparr>gd_sched = new_scheduler [], gd_store = [], gd_uploads = [], gd_calls = \<lambda>_. [], gd_alone = {}, gd_doubt = {}\<rparr>"

lemma fresh_gateway_start: "start_gateway (list_mongo fd_id) [] = Some fresh_gateway"
  by (simp add: start_gateway_def LoadFunctions_def list_mongo_def fresh_gateway_def)

lemma sample_registered:
  "fold (store_step (list_mongo fd_id)) [RegisterSection sample_config, CallReturns ''f'' 0 5] fresh_gateway =
     fresh_gateway\<lparr>gd_sched := (new_scheduler [])\<lparr>s_functions := [''f'' \<mapsto> sample_config]\<rparr>,
       gd_store := [function_update sample_config 5 None]\<rparr>"
proof -
  have "fc_name sample_config = ''f''" by (simp add: sample_config_def)
  then show ?thesis
    by (simp add: sample_prepared register_insert_def new_scheduler_def SaveFunction_def fresh_gateway_def begin_call_def
      end_call_def list_mongo_def list_view_def doubt_after_def fun_upd_idem)
qed

theorem gateway_restart_witness:
  "\<exists>z. start_gateway (list_mongo fd_id)
       (gd_store (fold (store_step (list_mongo fd_id))
          [RegisterSection sample_config, CallReturns ''f'' 0 5, DeregisterSection ''g'', CallReturns ''g'' 0 6] fresh_gateway)) = Some z \<and>
     s_functions (gd_sched z) ''f'' = Some sample_config"
proof -
  let ?mg = "list_mongo fd_id"
  let ?evs = "[RegisterSection sample_config, CallReturns ''f'' 0 5, DeregisterSection ''g'', CallReturns ''g'' 0 6]"
  let ?y = "fold (store_step ?mg) ?evs fresh_gateway"
  have n: "fc_name sample_config = ''f''" "fc_port sample_config = 0" by (simp_all add: sample_config_def)
  let ?r = "fresh_gateway\<lparr>gd_sched := (new_scheduler [])\<lparr>s_functions := [''f'' \<mapsto> sample_config]\<rparr>,
      gd_store := [function_update sample_config 5 None]\<rparr>"
  have y: "?y = fold (store_step ?mg) [DeregisterSection ''g'', CallReturns ''g'' 0 6] ?r"
    unfolding fold_simps sample_registered [unfolded fold_simps] ..
  have run: "gd_store ?y = [function_update sample_config 5 None] \<and> gd_doubt ?y = {} \<and> gd_calls ?y ''f'' = [] \<and>
      s_functions (gd_sched ?y) ''f'' = Some sample_config"
    unfolding y
    by (simp add: DeleteFunction_def Deregister_def list_mongo_def function_update_sel doubt_after_def begin_call_def
      end_call_def fresh_gateway_def n)
  have "\<exists>z. start_gateway ?mg [function_update sample_config 5 None] = Some z"
    by (simp add: start_gateway_def LoadFunctions_def list_mongo_def)
  then obtain z where z: "start_gateway ?mg (gd_store ?y) = Some z" using run by metis
  have "s_functions (gd_sched z) ''f'' = s_functions (gd_sched ?y) ''f''"
  proof (rule mp [OF conjunct1 [OF gateway_restart [OF list_mongo_ok _ fresh_gateway_start _ refl z]]])
    show "gd_calls ?y ''f'' = [] \<and> ''f'' \<notin> gd_doubt ?y" using run by blast
  qed (simp_all add: list_view_def n)
  then have "s_functions (gd_sched z) ''f'' = Some sample_config" using run by metis
  with z show ?thesis by blast
qed

text \<open>The other side of the exception: a registration that comes between the section of a removal and its call
  answers without an error, and is lost with the restart although no call failed.\<close>

theorem racing_Deregister_diverges:
  "\<exists>y z. y = fold (store_step (list_mongo fd_id))
       [RegisterSection sample_config, CallReturns ''f'' 0 5, DeregisterSection ''f'', RegisterSection sample_config,
        CallReturns ''f'' 1 6, CallReturns ''f'' 0 7] fresh_gateway \<and>
     gd_calls y = (\<lambda>_. []) \<and> s_functions (gd_sched y) ''f'' = Some sample_config \<and>
     start_gateway (list_mongo fd_id) (gd_store y) = Some z \<and> s_functions (gd_sched z) ''f'' = None"
proof -
  let ?mg = "list_mongo fd_id"
  let ?step = "store_step ?mg" and ?x = "function_update sample_config 5 None"
  let ?x' = "function_update sample_config 6 (Some ?x)"
  let ?y = "fold ?step [DeregisterSection ''f'', RegisterSection sample_config, CallReturns ''f'' 1 6, CallReturns ''f'' 0 7]
     (fold ?step [RegisterSection sample_config, CallReturns ''f'' 0 5] fresh_gateway)"
  have n: "fc_name sample_config = ''f''" by (simp add: sample_config_def)
  let ?s = "(new_scheduler [])\<lparr>s_pool := (s_pool (new_scheduler []))(''f'' := None)\<rparr>"
  let ?y1 = "fresh_gateway\<lparr>gd_sched := ?s, gd_store := [?x], gd_calls := (\<lambda>_. [])(''f'' := [DeleteCall]), gd_alone := {''f''}\<rparr>"
  let ?y2 = "?y1\<lparr>gd_sched := ?s\<lparr>s_functions := [''f'' \<mapsto> sample_config]\<rparr>,
      gd_calls := (\<lambda>_. [])(''f'' := [DeleteCall, SaveCall sample_config True]), gd_alone := {}\<rparr>"
  have 1: "?step (DeregisterSection ''f'') (fresh_gateway\<lparr>gd_sched := (new_scheduler [])\<lparr>s_functions := [''f'' \<mapsto> sample_config]\<rparr>,
       gd_store := [?x]\<rparr>) = ?y1"
    by (simp add: Deregister_def begin_call_def fresh_gateway_def new_scheduler_def)
  have 2: "?step (RegisterSection sample_config) ?y1 = ?y2"
    by (simp add: sample_prepared register_insert_def begin_call_def fresh_gateway_def new_scheduler_def n)
  have 3: "?step (CallReturns ''f'' 1 6) ?y2 =
      ?y2\<lparr>gd_store := [?x'], gd_calls := (\<lambda>_. [])(''f'' := [DeleteCall]), gd_doubt := {''f''}\<rparr>"
    by (simp add: SaveFunction_def list_mongo_def list_view_def function_update_sel n end_call_def doubt_after_def fresh_gateway_def)
  have 4: "?step (CallReturns ''f'' 0 7)
        (?y2\<lparr>gd_store := [?x'], gd_calls := (\<lambda>_. [])(''f'' := [DeleteCall]), gd_doubt := {''f''}\<rparr>) =
      ?y2\<lparr>gd_store := [], gd_calls := \<lambda>_. [], gd_doubt := {''f''}\<rparr>"
    by (simp add: DeleteFunction_def end_call_def doubt_after_def list_mongo_def function_update_sel n fresh_gateway_def fun_upd_idem)
  have y: "?y = ?y2\<lparr>gd_store := [], gd_calls := \<lambda>_. [], gd_doubt := {''f''}\<rparr>"
    unfolding fold_simps sample_registered [unfolded fold_simps] 1 2 3 4 ..
  have "gd_calls ?y = (\<lambda>_. []) \<and> s_functions (gd_sched ?y) ''f'' = Some sample_config \<and> gd_store ?y = []"
    unfolding y by simp
  moreover have "s_functions (gd_sched fresh_gateway) ''f'' = None"
    by (simp add: fresh_gateway_def new_scheduler_def)
  moreover have "?y = fold ?step [RegisterSection sample_config, CallReturns ''f'' 0 5, DeregisterSection ''f'',
      RegisterSection sample_config, CallReturns ''f'' 1 6, CallReturns ''f'' 0 7] fresh_gateway"
    unfolding fold_simps ..
  ultimately show ?thesis using fresh_gateway_start by metis
qed

section \<open>The maps of the scaler\<close>

definition bson_metrics :: "container_metrics \<Rightarrow> container_metrics" where
  "bson_metrics m = m\<lparr>cm_timestamp := bson_time (cm_timestamp m)\<rparr>"

definition bson_decision :: "scale_decision \<Rightarrow> scale_decision" where
  "bson_decision d = d\<lparr>sd_time := bson_time (sd_time d)\<rparr>"

definition bson_status :: "scale_status \<Rightarrow> scale_status" where
  "bson_status st = st\<lparr>ss_decision := map_option bson_decision (ss_decision st),
     ss_metrics := map_option bson_metrics \<circ> ss_metrics st\<rparr>"

record metric_document =
  md_metrics :: container_metrics
  md_id :: string
  md_updated_at :: time

record status_document =
  st_status :: scale_status
  st_id :: string
  st_updated_at :: time

definition SaveMetrics :: "('d, metric_document) mongo \<Rightarrow> time \<Rightarrow> container_metrics \<Rightarrow> 'd \<Rightarrow> bool \<times> 'd" where
  "SaveMetrics mg now m d =
     mo_update mg (cm_id m) (\<lambda>_. \<lparr>md_metrics = bson_metrics m, md_id = cm_id m, md_updated_at = bson_time now\<rparr>) d"

definition SaveStatus :: "('d, status_document) mongo \<Rightarrow> time \<Rightarrow> scale_status \<Rightarrow> 'd \<Rightarrow> bool \<times> 'd" where
  "SaveStatus mg now st d =
     mo_update mg (ss_func st) (\<lambda>_. \<lparr>st_status = bson_status st, st_id = ss_func st, st_updated_at = bson_time now\<rparr>) d"

fun latest_metrics :: "metric_document list \<Rightarrow> (string \<rightharpoonup> container_metrics) \<Rightarrow> string \<rightharpoonup> container_metrics" where
  "latest_metrics [] ms = ms"
| "latest_metrics (x # xs) ms = latest_metrics xs (ms(cm_id (md_metrics x) \<mapsto> md_metrics x))"

definition LoadLatestMetrics :: "('d, metric_document) mongo \<Rightarrow> 'd \<Rightarrow> (string \<rightharpoonup> container_metrics) option" where
  "LoadLatestMetrics mg d = map_option (\<lambda>xs. latest_metrics xs Map.empty) (mo_find mg d)"

fun latest_decisions :: "status_document list \<Rightarrow> (string \<rightharpoonup> scale_decision) \<Rightarrow> string \<rightharpoonup> scale_decision" where
  "latest_decisions [] ds = ds"
| "latest_decisions (x # xs) ds =
     latest_decisions xs
       (case ss_decision (st_status x) of None \<Rightarrow> ds | Some dec \<Rightarrow> ds(ss_func (st_status x) \<mapsto> dec))"

definition LoadLatestDecisions :: "('d, status_document) mongo \<Rightarrow> 'd \<Rightarrow> (string \<rightharpoonup> scale_decision) option" where
  "LoadLatestDecisions mg d = map_option (\<lambda>xs. latest_decisions xs Map.empty) (mo_find mg d)"

text \<open>The log of all decisions, which \<open>SaveDecision\<close> extends and nothing reads, is the subject of Scale_Store.\<close>

record ('d, 'e) scaler_db =
  db_scaler :: scaler
  db_metrics :: 'd
  db_statuses :: 'e
  db_metric_doubt :: "string set"
  db_status_doubt :: "string set"

datatype scaler_op =
    OpReport time string string "container_metrics option"
  | OpEvaluate time gateway_view string
  | OpStatus time string string gateway_view

definition save_status ::
  "('e, status_document) mongo \<Rightarrow> time \<Rightarrow> scale_status \<Rightarrow> ('d, 'e) scaler_db \<Rightarrow> ('d, 'e) scaler_db" where
  "save_status mg now st y =
     (let (ok, e) = SaveStatus mg now st (db_statuses y)
      in y\<lparr>db_statuses := e, db_status_doubt := doubt_after ok (ss_func st) (db_status_doubt y)\<rparr>)"

fun scaler_step ::
  "('d, metric_document) mongo \<Rightarrow> ('e, status_document) mongo \<Rightarrow> scaler_op \<Rightarrow> ('d, 'e) scaler_db \<Rightarrow> ('d, 'e) scaler_db" where
  "scaler_step mm ms (OpReport now meth path body) y =
     (case handleMetrics meth path body (db_scaler y) of (code, s) \<Rightarrow>
        if code \<noteq> 204 then y
        else let m = (case body of Some m \<Rightarrow> m\<lparr>cm_id := if cm_id m = [] then trim_prefix path ''/metrics/'' else cm_id m\<rparr>);
                 (ok, d) = SaveMetrics mm now m (db_metrics y)
             in y\<lparr>db_scaler := s, db_metrics := d, db_metric_doubt := doubt_after ok (cm_id m) (db_metric_doubt y)\<rparr>)"
| "scaler_step mm ms (OpEvaluate now gv f) y =
     (case evaluate now gv f (db_scaler y) of (st, call, s) \<Rightarrow> save_status ms now st (y\<lparr>db_scaler := s\<rparr>))"
| "scaler_step mm ms (OpStatus now meth path gv) y =
     (case handleStatus meth path gv (db_scaler y) of
        (code, None) \<Rightarrow> y
      | (code, Some st) \<Rightarrow> save_status ms now st y)"

definition start_scaler ::
  "(string \<Rightarrow> threshold option) \<Rightarrow> env \<Rightarrow> ('d, metric_document) mongo \<Rightarrow> ('e, status_document) mongo \<Rightarrow> 'd \<Rightarrow> 'e
   \<Rightarrow> ('d, 'e) scaler_db option" where
  "start_scaler parse env mm ms d e =
     (case (LoadLatestMetrics mm d, LoadLatestDecisions ms e) of
        (Some metrics, Some decisions) \<Rightarrow>
          Some \<lparr>db_scaler = newScaler parse env metrics decisions, db_metrics = d, db_statuses = e,
                db_metric_doubt = {}, db_status_doubt = {}\<rparr>
      | _ \<Rightarrow> None)"

lemma latest_metrics_all: "latest_metrics xs m = load_all (\<lambda>x. cm_id (md_metrics x)) (\<lambda>x. Some (md_metrics x)) xs m"
  by (induction xs arbitrary: m) simp_all

lemma latest_decisions_all:
  "latest_decisions xs m = load_all (\<lambda>x. ss_func (st_status x)) (\<lambda>x. ss_decision (st_status x)) xs m"
  by (induction xs arbitrary: m) simp_all

definition scaler_ok ::
  "('d \<Rightarrow> string \<rightharpoonup> metric_document) \<Rightarrow> ('e \<Rightarrow> string \<rightharpoonup> status_document) \<Rightarrow> ('d, 'e) scaler_db \<Rightarrow> bool" where
  "scaler_ok vm vs y \<longleftrightarrow>
     mirrors (\<lambda>x. Some (md_metrics x)) (vm (db_metrics y)) (map_option bson_metrics \<circ> sc_metrics (db_scaler y)) (db_metric_doubt y) \<and>
     mirrors (\<lambda>x. ss_decision (st_status x)) (vs (db_statuses y)) (map_option bson_decision \<circ> sc_decisions (db_scaler y))
       (db_status_doubt y) \<and>
     (\<forall>k x. vm (db_metrics y) k = Some x \<longrightarrow> cm_id (md_metrics x) = k) \<and>
     (\<forall>k x. vs (db_statuses y) k = Some x \<longrightarrow> ss_func (st_status x) = k)"

lemma bson_sel:
  "cm_id (bson_metrics m) = cm_id m" "ss_func (bson_status st) = ss_func st"
  "ss_decision (bson_status st) = map_option bson_decision (ss_decision st)"
  by (simp_all add: bson_metrics_def bson_status_def)

lemma map_option_upd: "map_option g \<circ> m(k := r) = (map_option g \<circ> m)(k := map_option g r)"
  by (simp add: fun_eq_iff)

lemma scaler_ok_status:
  assumes ms: "mongo_ok st_id ms vs" and y: "scaler_ok vm vs (y\<lparr>db_scaler := s\<rparr>)"
    and s': "sc_decisions s' = (sc_decisions s)(ss_func st := ss_decision st)" "sc_metrics s' = sc_metrics s"
  shows "scaler_ok vm vs (save_status ms now st (y\<lparr>db_scaler := s'\<rparr>))"
proof -
  obtain ok e where save: "SaveStatus ms now st (db_statuses y) = (ok, e)" by fastforce
  let ?x = "\<lparr>st_status = bson_status st, st_id = ss_func st, st_updated_at = bson_time now\<rparr>"
  have e: "vs e = (vs (db_statuses y))(ss_func st \<mapsto> ?x) \<or> \<not> ok \<and> vs e = vs (db_statuses y)"
    using mongo_update [OF ms save [unfolded SaveStatus_def]] by simp
  have "mirrors (\<lambda>x. ss_decision (st_status x)) (vs e) (map_option bson_decision \<circ> sc_decisions s')
      (doubt_after ok (ss_func st) (db_status_doubt y))"
    unfolding s'(1) map_option_upd using y
    by (intro mirrors_call [OF _ e]) (simp_all add: scaler_ok_def bson_sel)
  moreover have "ss_func (st_status x) = k" if "vs e k = Some x" for k x
    using that e y by (auto simp: scaler_ok_def bson_sel split: if_splits)
  ultimately show ?thesis
    using y by (simp add: scaler_ok_def save_status_def save s'(2))
qed

lemma scaler_ok_step:
  assumes mm: "mongo_ok md_id mm vm" and ms: "mongo_ok st_id ms vs" and y: "scaler_ok vm vs y"
  shows "scaler_ok vm vs (scaler_step mm ms op y)"
proof (cases op)
  case (OpReport now meth path body)
  show ?thesis
  proof (cases "meth = ''POST'' \<and> body \<noteq> None")
    case True
    then obtain m0 where body: "body = Some m0" by auto
    let ?m = "m0\<lparr>cm_id := if cm_id m0 = [] then trim_prefix path ''/metrics/'' else cm_id m0\<rparr>"
    obtain ok d where save: "SaveMetrics mm now ?m (db_metrics y) = (ok, d)" by fastforce
    let ?x = "\<lparr>md_metrics = bson_metrics ?m, md_id = cm_id ?m, md_updated_at = bson_time now\<rparr>"
    have d: "vm d = (vm (db_metrics y))(cm_id ?m \<mapsto> ?x) \<or> \<not> ok \<and> vm d = vm (db_metrics y)"
      using mongo_update [OF mm save [unfolded SaveMetrics_def]] by simp
    have s: "handleMetrics meth path body (db_scaler y) =
        (204, (db_scaler y)\<lparr>sc_metrics := (sc_metrics (db_scaler y))(cm_id ?m \<mapsto> ?m)\<rparr>)"
      using True by (simp add: handleMetrics_def body Let_def)
    have "mirrors (\<lambda>x. Some (md_metrics x)) (vm d) (map_option bson_metrics \<circ> (sc_metrics (db_scaler y))(cm_id ?m \<mapsto> ?m))
        (doubt_after ok (cm_id ?m) (db_metric_doubt y))"
      unfolding map_option_upd using y by (intro mirrors_call [OF _ d]) (simp_all add: scaler_ok_def)
    moreover have "cm_id (md_metrics x) = k" if "vm d k = Some x" for k x
      using that d y by (auto simp: scaler_ok_def bson_sel split: if_splits)
    ultimately show ?thesis
      using y save s by (simp add: scaler_ok_def OpReport body Let_def del: fun_upd_apply)
  qed (use y in \<open>auto simp: OpReport handleMetrics_def\<close>)
next
  case (OpEvaluate now gv f)
  obtain st call s where run: "evaluate now gv f (db_scaler y) = (st, call, s)" by (metis prod_cases3)
  then have "sc_decisions s = (sc_decisions (db_scaler y))(ss_func st := ss_decision st)" "sc_metrics s = sc_metrics (db_scaler y)"
    by (auto simp: evaluate_def scaler_status_def Let_def split: prod.splits)
  with scaler_ok_status [OF ms, where vm = vm and y = y and s = "db_scaler y" and s' = s and st = st] y run show ?thesis by (simp add: OpEvaluate)
next
  case (OpStatus now meth path gv)
  show ?thesis
  proof (cases "handleStatus meth path gv (db_scaler y)")
    case (Pair code r)
    show ?thesis
    proof (cases r)
      case (Some st)
      then have "ss_decision st = sc_decisions (db_scaler y) (ss_func st)"
        using Pair by (auto simp: handleStatus_def scaler_status_def Let_def split: if_splits prod.splits)
      then have "sc_decisions (db_scaler y) = (sc_decisions (db_scaler y))(ss_func st := ss_decision st)"
        by (simp add: fun_upd_idem)
      with scaler_ok_status [OF ms, where vm = vm and y = y and s = "db_scaler y" and s' = "db_scaler y" and st = st] y show ?thesis
        by (simp add: OpStatus Pair Some)
    qed (use y in \<open>simp add: OpStatus Pair\<close>)
  qed
qed

text \<open>The scaler remembers across a restart. A scaler started from its store after any reports,
  evaluations and status requests has the latest report of every container and the latest decision
  of every function that the old one had, their times cut to milliseconds, apart from names whose
  last call to the database failed.\<close>

theorem scaler_restart:
  assumes "mongo_ok md_id mm vm" "mongo_ok st_id ms vs"
    "\<forall>k x. vm d k = Some x \<longrightarrow> cm_id (md_metrics x) = k \<and> bson_metrics (md_metrics x) = md_metrics x"
    "\<forall>k x. vs e k = Some x \<longrightarrow> ss_func (st_status x) = k \<and>
       map_option bson_decision (ss_decision (st_status x)) = ss_decision (st_status x)"
    "start_scaler parse env mm ms d e = Some y" "y' = fold (scaler_step mm ms) ops y"
    "start_scaler parse' env' mm ms (db_metrics y') (db_statuses y') = Some z"
  shows "(k \<notin> db_metric_doubt y' \<longrightarrow>
      sc_metrics (db_scaler z) k = map_option bson_metrics (sc_metrics (db_scaler y') k)) \<and>
    (f \<notin> db_status_doubt y' \<longrightarrow>
      sc_decisions (db_scaler z) f = map_option bson_decision (sc_decisions (db_scaler y') f))"
proof -
  have loaded: "sc_metrics (db_scaler u) k = map_option md_metrics (vm a k) \<and>
      sc_decisions (db_scaler u) f = Option.bind (vs b f) (\<lambda>x. ss_decision (st_status x)) \<and>
      db_metrics u = a \<and> db_statuses u = b \<and> db_metric_doubt u = {} \<and> db_status_doubt u = {}"
    if "start_scaler p en mm ms a b = Some u" "\<And>k x. vm a k = Some x \<Longrightarrow> cm_id (md_metrics x) = k"
      "\<And>k x. vs b k = Some x \<Longrightarrow> ss_func (st_status x) = k" for p en a b u k f
  proof -
    note started = that(1)
    obtain xs ws where xs: "mo_find mm a = Some xs" "mo_find ms b = Some ws"
      by (cases "mo_find mm a"; cases "mo_find ms b")
        (use started in \<open>simp_all add: start_scaler_def LoadLatestMetrics_def LoadLatestDecisions_def\<close>)
    show ?thesis
      using that(1) mongo_load [OF assms(1) xs(1) that(2), where dec = "\<lambda>x. Some (md_metrics x)" and k = k]
        mongo_load [OF assms(2) xs(2) that(3), where dec = "\<lambda>x. ss_decision (st_status x)" and k = f]
      by (cases "vm a k") (auto simp: start_scaler_def LoadLatestMetrics_def LoadLatestDecisions_def xs newScaler_def
        latest_metrics_all latest_decisions_all)
  qed
  have y: "scaler_ok vm vs y"
    using loaded [OF assms(5)] assms(3,4)
    by (auto simp: scaler_ok_def mirrors_def option.map_comp split: option.splits bind_splits)
  have ok: "scaler_ok vm vs y'"
    unfolding assms(6) using y by (induction ops arbitrary: y) (simp_all add: scaler_ok_step [OF assms(1,2)])
  then have "mirrors (\<lambda>x. Some (md_metrics x)) (vm (db_metrics y')) (map_option bson_metrics \<circ> sc_metrics (db_scaler y')) (db_metric_doubt y')"
    "mirrors (\<lambda>x. ss_decision (st_status x)) (vs (db_statuses y')) (map_option bson_decision \<circ> sc_decisions (db_scaler y'))
       (db_status_doubt y')"
    by (simp_all add: scaler_ok_def)
  moreover have "sc_metrics (db_scaler z) k = map_option md_metrics (vm (db_metrics y') k)"
    "sc_decisions (db_scaler z) f = Option.bind (vs (db_statuses y') f) (\<lambda>x. ss_decision (st_status x))"
    using loaded [OF assms(7), of k f] ok by (auto simp: scaler_ok_def)
  ultimately show ?thesis by (simp add: mirrors_some) (simp add: mirrors_def)
qed

definition sample_report :: container_metrics where
  "sample_report = \<lparr>cm_id = [], cm_timestamp = 1234567890, cm_invocations = 3, cm_success = 3, cm_errors = 0,
     cm_p50 = 1, cm_p95 = 2, cm_p99 = 2, cm_memory = 0, cm_cpu = 0\<rparr>"

theorem scaler_restart_witness:
  "\<exists>y z. start_scaler (\<lambda>_. None) (\<lambda>_. []) (list_mongo md_id) (list_mongo st_id) [] [] = Some y \<and>
     start_scaler (\<lambda>_. None) (\<lambda>_. []) (list_mongo md_id) (list_mongo st_id)
       (db_metrics (fold (scaler_step (list_mongo md_id) (list_mongo st_id))
          [OpReport 0 ''POST'' ''/metrics/c1'' (Some sample_report)] y)) [] = Some z \<and>
     map_option cm_timestamp (sc_metrics (db_scaler z) ''c1'') = Some 1234000000"
proof -
  let ?mm = "list_mongo md_id" and ?ms = "list_mongo st_id"
  let ?ops = "[OpReport 0 ''POST'' ''/metrics/c1'' (Some sample_report)]"
  obtain y where y: "start_scaler (\<lambda>_. None) (\<lambda>_. []) ?mm ?ms [] [] = Some y"
    by (simp add: start_scaler_def LoadLatestMetrics_def LoadLatestDecisions_def list_mongo_def)
  let ?m = "sample_report\<lparr>cm_id := ''c1''\<rparr>" and ?z = "fold (scaler_step ?mm ?ms) ?ops y"
  have init: "db_metrics y = []" "db_statuses y = []" "db_metric_doubt y = {}"
    using y by (auto simp: start_scaler_def LoadLatestMetrics_def LoadLatestDecisions_def list_mongo_def)
  have "trim_prefix ''/metrics/c1'' ''/metrics/'' = ''c1''" by (simp add: trim_prefix_def)
  then have "handleMetrics ''POST'' ''/metrics/c1'' (Some sample_report) (db_scaler y) =
      (204, (db_scaler y)\<lparr>sc_metrics := (sc_metrics (db_scaler y))(''c1'' \<mapsto> ?m)\<rparr>)"
    by (simp add: handleMetrics_def sample_report_def Let_def)
  then have run: "db_metrics ?z = [\<lparr>md_metrics = bson_metrics ?m, md_id = ''c1'', md_updated_at = 0\<rparr>]"
    "db_statuses ?z = []" "db_metric_doubt ?z = {}" "sc_metrics (db_scaler ?z) ''c1'' = Some ?m"
    using init by (simp_all add: SaveMetrics_def list_mongo_def list_view_def Let_def sample_report_def trim_prefix_def
      bson_time_def doubt_after_def)
  obtain z where z: "start_scaler (\<lambda>_. None) (\<lambda>_. []) ?mm ?ms (db_metrics ?z) (db_statuses ?z) = Some z"
    using run by (simp add: start_scaler_def LoadLatestMetrics_def LoadLatestDecisions_def list_mongo_def)
  have e: "\<forall>k x. list_view md_id ([] :: metric_document list) k = Some x \<longrightarrow> cm_id (md_metrics x) = k \<and> bson_metrics (md_metrics x) = md_metrics x"
    "\<forall>k x. list_view st_id ([] :: status_document list) k = Some x \<longrightarrow> ss_func (st_status x) = k \<and>
       map_option bson_decision (ss_decision (st_status x)) = ss_decision (st_status x)"
    by (simp_all add: list_view_def)
  have "sc_metrics (db_scaler z) ''c1'' = Some (bson_metrics ?m)"
    using scaler_restart [OF list_mongo_ok list_mongo_ok e y refl z, of "''c1''"] run by simp
  with y z run(2) show ?thesis by (auto simp: bson_metrics_def bson_time_def sample_report_def)
qed

end
