(* ===== verification/Object_Store.thy ===== *)
theory Object_Store
  imports Stores Backends Query_Text
begin

text \<open>
  The object store for uploaded code (gateway/scheduler/code_store.go) and its use by the Kubernetes
  backend, whose pods fetch the archive from the URL kept in the function's configuration. MinIO is
  not part of the program: the record \<open>minio\<close> has the calls that the program makes, and \<open>minio_ok\<close> is
  what its documentation says of them.
\<close>

section \<open>The client\<close>

record ('c, 'd) minio =
  mn_new :: "string \<Rightarrow> string \<Rightarrow> string \<Rightarrow> bool \<Rightarrow> string \<Rightarrow> 'c option"   \<comment> \<open>endpoint, keys, TLS, region\<close>
  mn_exists :: "'c \<Rightarrow> string \<Rightarrow> 'd \<Rightarrow> bool option"
  mn_make :: "'c \<Rightarrow> string \<Rightarrow> 'd \<Rightarrow> bool \<times> 'd"
  mn_policy :: "'c \<Rightarrow> string \<Rightarrow> string \<Rightarrow> 'd \<Rightarrow> bool \<times> 'd"
  mn_put :: "'c \<Rightarrow> string \<Rightarrow> string \<Rightarrow> string \<Rightarrow> string \<Rightarrow> 'd \<Rightarrow> bool \<times> 'd"   \<comment> \<open>bucket, key, data, content type\<close>
  mn_presign :: "'c \<Rightarrow> string \<Rightarrow> string \<Rightarrow> duration \<Rightarrow> time \<Rightarrow> string option"

record code_object =
  co_bucket :: string
  co_key :: string
  co_url :: string

record 'c code_store =
  cs_client :: 'c
  cs_download :: 'c
  cs_bucket :: string

definition parse_bool :: "string \<Rightarrow> bool" where
  "parse_bool s \<longleftrightarrow> s \<in> set [''1'', ''t'', ''T'', ''TRUE'', ''true'', ''True'']"

definition policy_text :: "string \<Rightarrow> string" where
  "policy_text bucket =
     (let q = (\<lambda>s. CHR 0x22 # s @ [CHR 0x22]); nl = [CHR 0x0A] in
      ''{'' @ nl @ ''  '' @ q ''Version'' @ '': '' @ q ''2012-10-17'' @ '','' @ nl @
      ''  '' @ q ''Statement'' @ '': ['' @ nl @ ''    {'' @ nl @
      ''      '' @ q ''Effect'' @ '': '' @ q ''Allow'' @ '','' @ nl @
      ''      '' @ q ''Principal'' @ '': {'' @ q ''AWS'' @ '': ['' @ q ''*'' @ '']},'' @ nl @
      ''      '' @ q ''Action'' @ '': ['' @ q ''s3:GetObject'' @ ''],'' @ nl @
      ''      '' @ q ''Resource'' @ '': ['' @ q (''arn:aws:s3:::'' @ bucket @ ''/*'') @ '']'' @ nl @
      ''    }'' @ nl @ ''  ]'' @ nl @ ''}'')"

definition ensureBucket :: "('c, 'd) minio \<Rightarrow> 'c code_store \<Rightarrow> bool \<Rightarrow> 'd \<Rightarrow> bool \<times> 'd" where
  "ensureBucket mn st public_read d =
     (case mn_exists mn (cs_client st) (cs_bucket st) d of
        None \<Rightarrow> (False, d)
      | Some there \<Rightarrow>
          (case (if there then (True, d) else mn_make mn (cs_client st) (cs_bucket st) d) of
             (False, d) \<Rightarrow> (False, d)
           | (True, d) \<Rightarrow>
               if \<not> public_read then (True, d)
               else mn_policy mn (cs_client st) (cs_bucket st) (policy_text (cs_bucket st)) d))"

text \<open>No store without an endpoint; otherwise the store, or an error.\<close>

datatype 'c code_store_choice = NoCodeStore | CodeStoreError | CodeStoreMade "'c code_store"

definition newMinioCodeStoreFromEnv :: "('c, 'd) minio \<Rightarrow> env \<Rightarrow> 'd \<Rightarrow> 'c code_store_choice \<times> 'd" where
  "newMinioCodeStoreFromEnv mn env d =
     (let endpoint = env ''MINIO_ENDPOINT'' in
      if endpoint = [] then (NoCodeStore, d)
      else
        let make = (\<lambda>e. mn_new mn e (env_or env ''MINIO_ACCESS_KEY'' ''minioadmin'') (env_or env ''MINIO_SECRET_KEY'' ''minioadmin'')
                          (parse_bool (env ''MINIO_USE_SSL'')) ''us-east-1'')
        in case make endpoint of
             None \<Rightarrow> (CodeStoreError, d)
           | Some c \<Rightarrow>
               (case (if env ''MINIO_POD_ENDPOINT'' = [] then Some c else make (env ''MINIO_POD_ENDPOINT'')) of
                  None \<Rightarrow> (CodeStoreError, d)
                | Some dl \<Rightarrow>
                    (let st = \<lparr>cs_client = c, cs_download = dl, cs_bucket = env_or env ''MINIO_BUCKET'' ''faas-code''\<rparr> in
                     case ensureBucket mn st (env ''MINIO_PUBLIC_READ'' = ''true'') d of
                       (ok, d) \<Rightarrow> (if ok then CodeStoreMade st else CodeStoreError, d))))"

definition url_lifetime :: duration where
  "url_lifetime = 24 * 60 * minute"

definition code_key :: "string \<Rightarrow> time \<Rightarrow> string" where
  "code_key name now = ''functions/'' @ dnsLabel name @ ''/'' @ itoa now @ ''.zip''"

text \<open>The key has the time of the call, the URL is signed a little later.\<close>

definition SaveCode :: "('c, 'd) minio \<Rightarrow> 'c code_store \<Rightarrow> time \<Rightarrow> time \<Rightarrow> string \<Rightarrow> string \<Rightarrow> 'd \<Rightarrow> code_object option \<times> 'd" where
  "SaveCode mn st now signed name zipData d =
     (let key = code_key name now in
      case mn_put mn (cs_client st) (cs_bucket st) key zipData ''application/zip'' d of
        (False, d) \<Rightarrow> (None, d)
      | (True, d) \<Rightarrow>
          (map_option (\<lambda>url. \<lparr>co_bucket = cs_bucket st, co_key = key, co_url = url\<rparr>)
             (mn_presign mn (cs_download st) (cs_bucket st) key url_lifetime signed), d))"

section \<open>The pod that loads the code\<close>

text \<open>The command of the container \<open>code-loader\<close>: a Python program with the URL in it as a quoted text.\<close>

definition text_lines :: "string list \<Rightarrow> string" where
  "text_lines ls = concat (map (\<lambda>l. l @ [CHR 0x0A]) ls)"

definition apos :: "string \<Rightarrow> string" where
  "apos s = CHR 0x27 # s @ [CHR 0x27]"

definition loader_head :: string where
  "loader_head =
     text_lines ['''', ''import os'', ''import urllib.request'', ''import zipfile'', '''', ''root = '' @ apos ''/function'',
       ''zip_path = '' @ apos ''/tmp/function.zip''] @ ''urllib.request.urlretrieve(''"

definition loader_tail :: string where
  "loader_tail =
     text_lines ['', zip_path)'', '''', ''root_real = os.path.realpath(root)'', ''with zipfile.ZipFile(zip_path) as archive:'',
       ''    for info in archive.infolist():'', ''        target = os.path.realpath(os.path.join(root, info.filename))'',
       ''        if target != root_real and not target.startswith(root_real + os.sep):'',
       ''            raise Exception('' @ apos ''zip entry escapes function directory: '' @ '' + info.filename)'',
       ''        if info.is_dir():'', ''            os.makedirs(target, exist_ok=True)'', ''            continue'',
       ''        os.makedirs(os.path.dirname(target), exist_ok=True)'',
       ''        with archive.open(info) as src, open(target, '' @ apos ''wb'' @ '') as dst:'',
       ''            dst.write(src.read())'', ''        os.chmod(target, info.external_attr >> 16 or 0o644)'']"

definition loader_command :: "(string \<Rightarrow> string) \<Rightarrow> string \<Rightarrow> string list" where
  "loader_command wide url = [''python3'', ''-c'', loader_head @ go_quote wide url @ loader_tail]"

text \<open>Whatever the URL is, it ends up as one string literal in the program.\<close>

lemma loader_one_literal:
  assumes "\<And>x z. literal_rest (wide x @ z) = literal_rest z"
  shows "\<exists>body. loader_command wide url = [''python3'', ''-c'', loader_head @ CHR 0x22 # body @ CHR 0x22 # loader_tail] \<and>
    literal_rest (body @ CHR 0x22 # loader_tail) = Some loader_tail"
  using literal_rest_quote [of wide, OF assms]
  by (auto simp: loader_command_def go_quote_def intro!: exI [of _ "quote_body wide url"])

section \<open>What is relied on\<close>

text \<open>\<open>objs\<close> has the objects by bucket and key; \<open>fetch\<close> is a \<open>GET\<close> of a URL at a time. A failed put may
  have touched its own key. A URL that was signed at \<open>t0\<close> carries that time in whole seconds, so it may end up
  to a second early.\<close>

definition minio_ok ::
  "('c, 'd) minio \<Rightarrow> ('d \<Rightarrow> string \<times> string \<rightharpoonup> string) \<Rightarrow> (string \<Rightarrow> time \<Rightarrow> 'd \<Rightarrow> string option) \<Rightarrow> bool" where
  "minio_ok mn objs fetch \<longleftrightarrow>
     (\<forall>c b k data ty d d'. mn_put mn c b k data ty d = (True, d') \<longrightarrow> objs d' = (objs d)((b, k) \<mapsto> data)) \<and>
     (\<forall>c b k data ty d d'. mn_put mn c b k data ty d = (False, d') \<longrightarrow> (\<forall>x. x \<noteq> (b, k) \<longrightarrow> objs d' x = objs d x)) \<and>
     (\<forall>c b k dur t0 url. mn_presign mn c b k dur t0 = Some url \<longrightarrow>
        (\<forall>t d. (t0 \<le> t \<and> t \<le> t0 + dur - second \<longrightarrow> fetch url t d = objs d (b, k)) \<and> (t0 + dur < t \<longrightarrow> fetch url t d = None)))"

lemma minio_put:
  assumes "minio_ok mn objs fetch" "mn_put mn c b k data ty d = (ok, d')"
  shows "ok \<Longrightarrow> objs d' = (objs d)((b, k) \<mapsto> data)" "x \<noteq> (b, k) \<Longrightarrow> objs d' x = objs d x"
proof -
  have put: "mn_put mn c b k data ty d = (True, d') \<Longrightarrow> objs d' = (objs d)((b, k) \<mapsto> data)"
    by (rule assms(1) [unfolded minio_ok_def, THEN conjunct1, rule_format])
  have failed: "mn_put mn c b k data ty d = (False, d') \<Longrightarrow> x \<noteq> (b, k) \<Longrightarrow> objs d' x = objs d x"
    by (rule assms(1) [unfolded minio_ok_def, THEN conjunct2, THEN conjunct1, rule_format])
  show "ok \<Longrightarrow> objs d' = (objs d)((b, k) \<mapsto> data)" using put assms(2) by simp
  show "x \<noteq> (b, k) \<Longrightarrow> objs d' x = objs d x"
    using put failed assms(2) by (cases ok) simp_all
qed

lemma minio_presign:
  assumes "minio_ok mn objs fetch" "mn_presign mn c b k dur t0 = Some url"
  shows "t0 \<le> t \<Longrightarrow> t \<le> t0 + dur - second \<Longrightarrow> fetch url t d = objs d (b, k)" "t0 + dur < t \<Longrightarrow> fetch url t d = None"
  using assms unfolding minio_ok_def by blast+

section \<open>Keys\<close>

lemma code_key_inj:
  assumes "code_key f t = code_key g u"
  shows "dnsLabel f = dnsLabel g \<and> t = u"
proof -
  have sl: "CHR ''/'' \<notin> set (dnsLabel h)" for h by (rule gw_label.image_no_char) simp
  have "dnsLabel f @ CHR ''/'' # (itoa t @ ''.zip'') = dnsLabel g @ CHR ''/'' # (itoa u @ ''.zip'')"
    using assms by (simp add: code_key_def)
  then have "split_first CHR ''/'' (dnsLabel f @ CHR ''/'' # (itoa t @ ''.zip'')) =
      split_first CHR ''/'' (dnsLabel g @ CHR ''/'' # (itoa u @ ''.zip''))"
    by (rule arg_cong)
  then have "dnsLabel f = dnsLabel g" "itoa t @ ''.zip'' = itoa u @ ''.zip''"
    by (simp_all add: split_first_at sl)
  then show ?thesis using itoa_inj by simp
qed


section \<open>Properties\<close>

text \<open>A sequence of saves: function, times and archive of each.\<close>

fun save_all ::
  "('c, 'd) minio \<Rightarrow> 'c code_store \<Rightarrow> (string \<times> time \<times> time \<times> string) list \<Rightarrow> 'd \<Rightarrow> code_object option list \<times> 'd" where
  "save_all mn st [] d = ([], d)"
| "save_all mn st ((name, now, signed, data) # saves) d =
     (let (r, d) = SaveCode mn st now signed name data d; (rs, d) = save_all mn st saves d in (r # rs, d))"

lemma SaveCode_effect:
  assumes "minio_ok mn objs fetch" "SaveCode mn st now signed name data d = (r, d')"
  shows "(\<forall>x. x \<noteq> (cs_bucket st, code_key name now) \<longrightarrow> objs d' x = objs d x) \<and>
    (\<forall>obj. r = Some obj \<longrightarrow> co_bucket obj = cs_bucket st \<and> co_key obj = code_key name now \<and>
       objs d' (cs_bucket st, code_key name now) = Some data \<and>
       (\<forall>t e. (signed \<le> t \<and> t \<le> signed + url_lifetime - second \<longrightarrow> fetch (co_url obj) t e = objs e (cs_bucket st, code_key name now)) \<and>
         (signed + url_lifetime < t \<longrightarrow> fetch (co_url obj) t e = None)))"
proof -
  obtain ok d1 where put: "mn_put mn (cs_client st) (cs_bucket st) (code_key name now) data ''application/zip'' d = (ok, d1)"
    by fastforce
  show ?thesis
    using assms(2) put minio_put [OF assms(1) put] minio_presign [OF assms(1)]
    by (cases ok) (auto simp: SaveCode_def Let_def)
qed

lemma save_all_frame:
  assumes "minio_ok mn objs fetch" "save_all mn st saves d = (rs, d')"
    "\<forall>(name, now, signed, data) \<in> set saves. x \<noteq> (cs_bucket st, code_key name now)"
  shows "objs d' x = objs d x"
  using assms(2,3)
proof (induction saves arbitrary: d rs)
  case (Cons s saves)
  obtain name now signed data where s: "s = (name, now, signed, data)" by (cases s)
  obtain r d1 where one: "SaveCode mn st now signed name data d = (r, d1)" by fastforce
  obtain rs' d2 where rest: "save_all mn st saves d1 = (rs', d2)" by fastforce
  have "d' = d2" using Cons.prems(1) one rest by (simp add: s)
  then show ?case
    using Cons.IH [OF rest [folded \<open>d' = d2\<close>]] Cons.prems(2) SaveCode_effect [OF assms(1) one, THEN conjunct1, rule_format, of x] by (simp add: s)
qed simp

text \<open>C23. Archives are kept apart: after any sequence of saves for distinct functions or at distinct times, the
  object that each successful one returned still holds its own archive, and its URL yields that archive for
  24 hours from its signature (less the second that the signature does not count) and nothing afterwards.\<close>

theorem code_objects_kept:
  assumes "minio_ok mn objs fetch" "save_all mn st saves d = (rs, d')"
    "distinct (map (\<lambda>(name, now, rest). (dnsLabel name, now)) saves)"
    "i < length saves" "saves ! i = (name, now, signed, data)" "rs ! i = Some obj"
  shows "objs d' (co_bucket obj, co_key obj) = Some data \<and>
    (signed \<le> t \<and> t \<le> signed + 24 * 60 * minute - second \<longrightarrow> fetch (co_url obj) t d' = Some data) \<and>
    (signed + 24 * 60 * minute < t \<longrightarrow> fetch (co_url obj) t d' = None)"
  using assms(2-)
proof (induction saves arbitrary: d rs i)
  case (Cons s saves)
  obtain f u v z where s: "s = (f, u, v, z)" by (cases s)
  obtain r d1 where one: "SaveCode mn st u v f z d = (r, d1)" by fastforce
  obtain rs' d2 where rest: "save_all mn st saves d1 = (rs', d2)" by fastforce
  have run: "rs = r # rs'" "d' = d2" using Cons.prems(1) one rest by (simp_all add: s)
  show ?case
  proof (cases i)
    case 0
    then have it: "f = name" "u = now" "v = signed" "z = data" "r = Some obj" using Cons.prems(4,5) run(1) by (simp_all add: s)
    have eff: "co_bucket obj = cs_bucket st" "co_key obj = code_key name now"
      "objs d1 (cs_bucket st, code_key name now) = Some data"
      "signed \<le> t \<and> t \<le> signed + url_lifetime - second \<longrightarrow> fetch (co_url obj) t d' = objs d' (cs_bucket st, code_key name now)"
      "signed + url_lifetime < t \<longrightarrow> fetch (co_url obj) t d' = None"
      using SaveCode_effect [OF assms(1) one] it by blast+
    have "\<forall>(g, v, x, y) \<in> set saves. (cs_bucket st, code_key name now) \<noteq> (cs_bucket st, code_key g v)"
    proof (intro ballI, clarify)
      fix g v x y
      assume m: "(g, v, x, y) \<in> set saves" and k: "code_key name now = code_key g v"
      have "(dnsLabel g, v) \<in> (\<lambda>(name, now, rest). (dnsLabel name, now)) ` set saves" using m by force
      then show False using code_key_inj [OF k] Cons.prems(2) it(1,2) by (simp add: s)
    qed
    then have "objs d' (cs_bucket st, code_key name now) = Some data"
      using save_all_frame [OF assms(1) rest] eff(3) run(2) by simp
    then show ?thesis using eff by (simp add: url_lifetime_def)
  next
    case (Suc j)
    then show ?thesis
      using Cons.IH [OF rest [folded run(2)], of j] Cons.prems(2-) run(1) by (simp add: s)
  qed
qed simp


text \<open>A function that was uploaded can be started on Kubernetes for a day only: its pod fetches the archive from
  the URL in the configuration, which the upload put there and nothing renews.\<close>

theorem code_url_expires:
  assumes "minio_ok mn objs fetch" "SaveCode mn st now signed name zipData d = (Some obj, d')"
    "UploadCode io archive tmp t0 (Some (Some (co_key obj, co_url obj))) True name (dirs, s) = (None, stops, dirs', s')"
  shows "\<exists>cfg url. Get name s' = Some cfg \<and> kp_code (podSpec env podName cfg) = CodeLoader (fc_image cfg) url \<and>
    fetch url signed d' = Some zipData \<and> (\<forall>t e. t > signed + 24 * 60 * minute \<longrightarrow> fetch url t e = None)"
proof -
  have obj: "co_key obj = code_key name now" "objs d' (cs_bucket st, code_key name now) = Some zipData"
    "signed \<le> t \<and> t \<le> signed + url_lifetime - second \<longrightarrow> fetch (co_url obj) t e = objs e (cs_bucket st, code_key name now)"
    "signed + url_lifetime < t \<longrightarrow> fetch (co_url obj) t e = None" for t e
    using SaveCode_effect [OF assms(1,2)] by auto
  obtain cfg where "Get name s' = Some cfg" "fc_code_key cfg = co_key obj" "fc_code_url cfg = co_url obj"
    using assms(3) by (auto simp: UploadCode_def Get_def upload_commit_def Let_def split: option.splits prod.splits)
  moreover have "co_key obj \<noteq> []" by (simp add: obj(1) code_key_def)
  moreover have "second \<le> url_lifetime" by (simp add: url_lifetime_def minute_def second_def)
  ultimately show ?thesis
    using obj(2-) by (intro exI [of _ cfg] exI [of _ "co_url obj"]) (simp add: podSpec_def url_lifetime_def)
qed

section \<open>Witnesses\<close>

text \<open>A store whose state is the list of objects; a URL has the bucket, the key and the time of its end.\<close>

definition sample_minio :: "(unit, (string \<times> string \<rightharpoonup> string)) minio" where
  "sample_minio = \<lparr>mn_new = \<lambda>_ _ _ _ _. Some (), mn_exists = \<lambda>_ _ _. Some True, mn_make = \<lambda>_ _ d. (True, d),
     mn_policy = \<lambda>_ _ _ d. (True, d), mn_put = \<lambda>_ b k data _ d. (True, d((b, k) \<mapsto> data)),
     mn_presign = \<lambda>_ b k dur t0. if b = ''faas-code'' \<and> k = code_key ''f'' 5 \<and> dur = url_lifetime \<and> t0 = 5 then Some ''u'' else None\<rparr>"

definition sample_fetch_url :: "string \<Rightarrow> time \<Rightarrow> (string \<times> string \<rightharpoonup> string) \<Rightarrow> string option" where
  "sample_fetch_url url t d = (if url = ''u'' \<and> t \<le> 5 + url_lifetime then d (''faas-code'', code_key ''f'' 5) else None)"

lemma sample_minio_ok: "minio_ok sample_minio (\<lambda>d. d) sample_fetch_url"
  by (auto simp: minio_ok_def sample_minio_def sample_fetch_url_def second_def split: if_splits)

definition sample_code_store :: "unit code_store" where
  "sample_code_store = \<lparr>cs_client = (), cs_download = (), cs_bucket = ''faas-code''\<rparr>"

lemma sample_save:
  "SaveCode sample_minio sample_code_store 5 5 ''f'' ''zip'' Map.empty =
    (Some \<lparr>co_bucket = ''faas-code'', co_key = code_key ''f'' 5, co_url = ''u''\<rparr>, [(''faas-code'', code_key ''f'' 5) \<mapsto> ''zip''])"
  by (simp add: SaveCode_def sample_minio_def sample_code_store_def Let_def)

theorem code_objects_kept_witness:
  "\<exists>obj d'. SaveCode sample_minio sample_code_store 5 5 ''f'' ''zip'' Map.empty = (Some obj, d') \<and>
     (let d'' = snd (SaveCode sample_minio sample_code_store 6 6 ''f'' ''new'' d') in
      sample_fetch_url (co_url obj) 7 d'' = Some ''zip'' \<and> sample_fetch_url (co_url obj) (6 + url_lifetime) d'' = None)"
proof -
  let ?saves = "[(''f'', 5, 5, ''zip''), (''f'', 6, 6, ''new'')]"
  obtain obj d' where one: "SaveCode sample_minio sample_code_store 5 5 ''f'' ''zip'' Map.empty = (Some obj, d')"
    using sample_save by blast
  obtain r d'' where two: "SaveCode sample_minio sample_code_store 6 6 ''f'' ''new'' d' = (r, d'')" by fastforce
  have run: "save_all sample_minio sample_code_store ?saves Map.empty = ([Some obj, r], d'')" using one two by simp
  have "distinct (map (\<lambda>(name, now, rest). (dnsLabel name, now)) (?saves :: (string \<times> time \<times> time \<times> string) list))" by simp
  from code_objects_kept [OF sample_minio_ok run this, of 0 "''f''" 5 5 "''zip''" obj]
  have "5 \<le> t \<and> t \<le> 5 + 24 * 60 * minute - second \<longrightarrow> sample_fetch_url (co_url obj) t d'' = Some ''zip''"
    "5 + 24 * 60 * minute < t \<longrightarrow> sample_fetch_url (co_url obj) t d'' = None" for t by simp_all
  then show ?thesis using one two by (simp add: url_lifetime_def minute_def second_def)
qed

definition all_io :: upload_io where
  "all_io = \<lparr>io_mkdir_temp = True, io_remove_old = True, io_stat_fails = False, io_rename_old = True,
     io_rename_new = True, io_restore = True, io_remove_backup = True\<rparr>"

theorem code_url_expires_witness:
  "\<exists>cfg s'. Get ''f'' s' = Some cfg \<and> kp_code (podSpec (\<lambda>_. []) ''p'' cfg) = CodeLoader (fc_image cfg) ''u'' \<and>
     sample_fetch_url ''u'' (5 + 25 * 60 * minute) [(''faas-code'', code_key ''f'' 5) \<mapsto> ''zip''] = None"
proof -
  let ?obj = "\<lparr>co_bucket = ''faas-code'', co_key = code_key ''f'' 5, co_url = ''u''\<rparr>"
  let ?d = "\<lparr>cd_live = None, cd_backup = None, cd_temp = None\<rparr>"
  have "fst (replace_dirs all_io (None, t) ?d) = None" for t :: tree
    by (simp add: replace_dirs_def all_io_def stat_live_def swap_in_def Let_def)
  moreover have "fst (extractZip (Some []) ''/tmp/faas/.f-1'' sample_tree) = None" by code_simp
  ultimately obtain d1 where rd: "replace_dirs all_io (extractZip (Some []) ''/tmp/faas/.f-1'' sample_tree) ?d = (None, d1)"
    by (metis prod.collapse)
  have "fst (UploadCode all_io (Some []) ''/tmp/faas/.f-1'' sample_tree (Some (Some (co_key ?obj, co_url ?obj))) True ''f''
      (?d, y_sched sample_warm)) = None"
    using rd by (simp add: UploadCode_def Get_def sample_warm_def sample_functions Let_def split: prod.split)
  then obtain stops dirs' s' where up: "UploadCode all_io (Some []) ''/tmp/faas/.f-1'' sample_tree (Some (Some (co_key ?obj, co_url ?obj))) True ''f''
      (?d, y_sched sample_warm) = (None, stops, dirs', s')"
    by (metis prod_cases3 fst_conv)
  obtain cfg url where c: "Get ''f'' s' = Some cfg" "kp_code (podSpec (\<lambda>_. []) ''p'' cfg) = CodeLoader (fc_image cfg) url"
    "\<forall>t e. t > 5 + 24 * 60 * minute \<longrightarrow> sample_fetch_url url t e = None"
    "sample_fetch_url url 5 [(''faas-code'', code_key ''f'' 5) \<mapsto> ''zip''] = Some ''zip''"
    using code_url_expires [OF sample_minio_ok sample_save up, of "\<lambda>_. []" "''p''"] by blast
  have "url = ''u''" using c(4) by (auto simp: sample_fetch_url_def split: if_splits)
  then show ?thesis using c(1-3) by (auto simp: minute_def second_def)
qed

end
