(* ===== verification/Scale_Store.thy ===== *)
theory Scale_Store
  imports Stores
begin

text \<open>
  The interface \<open>ScaleStore\<close> of the scaler (scalersvc/store.go) with its two implementations, the one that
  keeps nothing and the one on MongoDB (scalersvc/mongo_store.go), and the scaler as its client
  (scalersvc/main.go): every operation with the calls it makes to the store. Here the log of all decisions,
  which Stores leaves out, is part of the state.
\<close>

section \<open>The interface\<close>

record 'd scale_store =
  sr_load_metrics :: "'d \<Rightarrow> (string \<rightharpoonup> container_metrics) option"
  sr_load_decisions :: "'d \<Rightarrow> (string \<rightharpoonup> scale_decision) option"
  sr_save_metrics :: "time \<Rightarrow> container_metrics \<Rightarrow> 'd \<Rightarrow> bool \<times> 'd"
  sr_save_decision :: "scale_decision \<Rightarrow> 'd \<Rightarrow> bool \<times> 'd"
  sr_save_status :: "time \<Rightarrow> scale_status \<Rightarrow> 'd \<Rightarrow> bool \<times> 'd"

text \<open>The memory store returns \<open>nil\<close> maps, which \<open>newScaler\<close> replaces by empty ones.\<close>

definition memoryScaleStore :: "unit scale_store" where
  "memoryScaleStore =
     \<lparr>sr_load_metrics = \<lambda>_. Some Map.empty, sr_load_decisions = \<lambda>_. Some Map.empty,
      sr_save_metrics = \<lambda>_ _ _. (True, ()), sr_save_decision = \<lambda>_ _. (True, ()), sr_save_status = \<lambda>_ _ _. (True, ())\<rparr>"

text \<open>The three collections; \<open>ins\<close> is \<open>InsertOne\<close> into that of the decisions.\<close>

definition SaveDecision :: "(scale_decision \<Rightarrow> 'l \<Rightarrow> bool \<times> 'l) \<Rightarrow> scale_decision \<Rightarrow> 'l \<Rightarrow> bool \<times> 'l" where
  "SaveDecision ins d l = ins (bson_decision d) l"

definition mongoScaleStore ::
  "('d, metric_document) mongo \<Rightarrow> (scale_decision \<Rightarrow> 'l \<Rightarrow> bool \<times> 'l) \<Rightarrow> ('e, status_document) mongo \<Rightarrow>
     ('d \<times> 'l \<times> 'e) scale_store" where
  "mongoScaleStore mm ins ms =
     \<lparr>sr_load_metrics = \<lambda>(d, l, e). LoadLatestMetrics mm d,
      sr_load_decisions = \<lambda>(d, l, e). LoadLatestDecisions ms e,
      sr_save_metrics = \<lambda>now m (d, l, e). (case SaveMetrics mm now m d of (ok, d) \<Rightarrow> (ok, (d, l, e))),
      sr_save_decision = \<lambda>dec (d, l, e). (case SaveDecision ins dec l of (ok, l) \<Rightarrow> (ok, (d, l, e))),
      sr_save_status = \<lambda>now st (d, l, e). (case SaveStatus ms now st e of (ok, e) \<Rightarrow> (ok, (d, l, e)))\<rparr>"

section \<open>The scaler with its store\<close>

definition store_newScaler ::
  "(string \<Rightarrow> threshold option) \<Rightarrow> env \<Rightarrow> 'd scale_store \<Rightarrow> 'd \<Rightarrow> (scaler \<times> 'd) option" where
  "store_newScaler parse env sr d =
     (case sr_load_metrics sr d of
        None \<Rightarrow> None
      | Some metrics \<Rightarrow>
          (case sr_load_decisions sr d of
             None \<Rightarrow> None
           | Some decisions \<Rightarrow> Some (newScaler parse env metrics decisions, d)))"

text \<open>An error of the store is logged and otherwise without effect. The result has the status code or the
  call to the gateway.\<close>

datatype scaler_result = Code int | Called "(string \<times> string) option"

definition store_evaluate ::
  "'d scale_store \<Rightarrow> time \<Rightarrow> gateway_view \<Rightarrow> string \<Rightarrow> scaler \<times> 'd \<Rightarrow> scaler_result \<times> scaler \<times> 'd" where
  "store_evaluate sr now gv f y =
     (let (s, d) = y; (status, call, s) = evaluate now gv f s;
          (_, d) = (case ss_decision status of None \<Rightarrow> (True, d) | Some dec \<Rightarrow> sr_save_decision sr dec d);
          (_, d) = sr_save_status sr now status d
      in (Called call, s, d))"

definition store_handleMetrics ::
  "'d scale_store \<Rightarrow> time \<Rightarrow> string \<Rightarrow> string \<Rightarrow> container_metrics option \<Rightarrow> scaler \<times> 'd \<Rightarrow> scaler_result \<times> scaler \<times> 'd" where
  "store_handleMetrics sr now meth path body y =
     (let (s, d) = y; (code, s) = handleMetrics meth path body s in
      if code \<noteq> 204 then (Code code, s, d)
      else
        (case body of
           None \<Rightarrow> (Code code, s, d)
         | Some m \<Rightarrow>
             (let (_, d) = sr_save_metrics sr now (m\<lparr>cm_id := if cm_id m = [] then trim_prefix path ''/metrics/'' else cm_id m\<rparr>) d
              in (Code code, s, d))))"

definition store_handleStatus ::
  "'d scale_store \<Rightarrow> time \<Rightarrow> string \<Rightarrow> string \<Rightarrow> gateway_view \<Rightarrow> scaler \<times> 'd \<Rightarrow> scaler_result \<times> scaler \<times> 'd" where
  "store_handleStatus sr now meth path gv y =
     (let (s, d) = y in
      case handleStatus meth path gv s of
        (code, None) \<Rightarrow> (Code code, s, d)
      | (code, Some status) \<Rightarrow> (let (_, d) = sr_save_status sr now status d in (Code code, s, d)))"

fun scale_op :: "'d scale_store \<Rightarrow> scaler_op \<Rightarrow> scaler \<times> 'd \<Rightarrow> scaler_result \<times> scaler \<times> 'd" where
  "scale_op sr (OpReport now meth path body) y = store_handleMetrics sr now meth path body y"
| "scale_op sr (OpEvaluate now gv f) y = store_evaluate sr now gv f y"
| "scale_op sr (OpStatus now meth path gv) y = store_handleStatus sr now meth path gv y"

fun store_run :: "'d scale_store \<Rightarrow> scaler_op list \<Rightarrow> scaler \<times> 'd \<Rightarrow> scaler_result list \<times> scaler \<times> 'd" where
  "store_run sr [] y = ([], y)"
| "store_run sr (op # ops) y = (case scale_op sr op y of (r, y) \<Rightarrow> case store_run sr ops y of (rs, y) \<Rightarrow> (r # rs, y))"

text \<open>The decisions that the evaluations of a run make, in order.\<close>

fun decisions_made :: "scaler_op list \<Rightarrow> scaler \<Rightarrow> scale_decision list" where
  "decisions_made [] s = []"
| "decisions_made (op # ops) s =
     (case op of
        OpReport now meth path body \<Rightarrow> decisions_made ops (snd (handleMetrics meth path body s))
      | OpEvaluate now gv f \<Rightarrow>
          (case evaluate now gv f s of (status, call, s) \<Rightarrow>
             (case ss_decision status of None \<Rightarrow> [] | Some dec \<Rightarrow> [dec]) @ decisions_made ops s)
      | OpStatus now meth path gv \<Rightarrow> decisions_made ops s)"

section \<open>The contract\<close>

text \<open>What a store has of the decisions: each save of one adds at most that one, in the form in which it is
  kept, and nothing else touches them. A save that reports success has added it, if the store keeps
  decisions at all.\<close>

locale decision_log =
  fixes sr :: "'d scale_store"
    and kept :: "'d \<Rightarrow> scale_decision list"
    and norm :: "scale_decision \<Rightarrow> scale_decision"
    and keeps :: bool
  assumes save_decision: "sr_save_decision sr dec d = (ok, d') \<Longrightarrow>
      kept d' = kept d @ [norm dec] \<or> (ok \<longrightarrow> \<not> keeps) \<and> kept d' = kept d"
    and save_metrics: "sr_save_metrics sr now m d = (ok, d') \<Longrightarrow> kept d' = kept d"
    and save_status: "sr_save_status sr now st d = (ok, d') \<Longrightarrow> kept d' = kept d"
begin

lemma op_keeps:
  assumes "scale_op sr op (s, d) = (r, s', d')"
  obtains xs where "kept d' = kept d @ xs" "subseq xs (map norm (decisions_made [op] s))"
proof (cases op)
  case (OpReport now meth path body)
  have "kept d' = kept d"
    using assms OpReport save_metrics [of now]
    by (auto simp: store_handleMetrics_def Let_def split: prod.splits if_splits option.splits)
  then show ?thesis using that [of "[]"] by simp
next
  case (OpEvaluate now gv f)
  obtain status call s1 where e: "evaluate now gv f s = (status, call, s1)" by (metis prod_cases3)
  obtain dec where dec: "ss_decision status = Some dec"
    using e by (auto simp: evaluate_def scaler_status_def Let_def split: prod.splits)
  obtain ok d1 where d1: "sr_save_decision sr dec d = (ok, d1)" by fastforce
  have "kept d' = kept d1"
    using assms OpEvaluate e dec d1 save_status [of now status d1] by (auto simp: store_evaluate_def Let_def split: prod.splits)
  then show ?thesis
    using that [of "[]"] that [of "[norm dec]"] save_decision [OF d1] OpEvaluate e dec by auto
next
  case (OpStatus now meth path gv)
  have "kept d' = kept d"
    using assms OpStatus save_status [of now]
    by (auto simp: store_handleStatus_def Let_def split: prod.splits option.splits)
  then show ?thesis using that [of "[]"] by simp
qed

lemma op_scaler: "scale_op sr op (s, d) = (r, s', d') \<Longrightarrow> decisions_made (op # ops) s = decisions_made [op] s @ decisions_made ops s'"
  by (cases op) (auto simp: store_handleMetrics_def store_evaluate_def store_handleStatus_def Let_def split: prod.splits option.splits if_splits)

lemma run_keeps:
  assumes "store_run sr ops (s, d) = (rs, s', d')"
  shows "\<exists>xs. kept d' = kept d @ xs \<and> subseq xs (map norm (decisions_made ops s))"
  using assms
proof (induction ops arbitrary: s d rs)
  case (Cons op ops)
  obtain r s1 d1 where one: "scale_op sr op (s, d) = (r, s1, d1)" by (metis prod_cases3)
  obtain rs' where rest: "store_run sr ops (s1, d1) = (rs', s', d')"
    using Cons.prems one by (auto split: prod.splits)
  obtain xs where xs: "kept d1 = kept d @ xs" "subseq xs (map norm (decisions_made [op] s))" by (rule op_keeps [OF one])
  obtain ys where ys: "kept d' = kept d1 @ ys" "subseq ys (map norm (decisions_made ops s1))" using Cons.IH [OF rest] by blast
  have "subseq (xs @ ys) (map norm (decisions_made (op # ops) s))"
    using list_emb_append_mono [OF xs(2) ys(2)] op_scaler [OF one, of ops] by (simp del: decisions_made.simps)
  then show ?case using xs(1) ys(1) by auto
qed auto

lemma op_keeps_all:
  assumes "scale_op sr op (s, d) = (r, s', d')" "keeps" "\<And>dec d. fst (sr_save_decision sr dec d)"
  shows "kept d' = kept d @ map norm (decisions_made [op] s)"
proof (cases op)
  case (OpReport now meth path body)
  then show ?thesis
    using assms(1) save_metrics [of now]
    by (auto simp: store_handleMetrics_def Let_def split: prod.splits if_splits option.splits)
next
  case (OpEvaluate now gv f)
  obtain status call s1 where e: "evaluate now gv f s = (status, call, s1)" by (metis prod_cases3)
  obtain dec where dec: "ss_decision status = Some dec"
    using e by (auto simp: evaluate_def scaler_status_def Let_def split: prod.splits)
  obtain ok d1 where d1: "sr_save_decision sr dec d = (ok, d1)" by fastforce
  have "kept d' = kept d1"
    using assms OpEvaluate e dec d1 save_status [of now status d1] by (auto simp: store_evaluate_def Let_def split: prod.splits)
  moreover have ok using assms(3) [of dec d] d1 by simp
  ultimately show ?thesis using save_decision [OF d1] assms(2) OpEvaluate e dec by auto
next
  case (OpStatus now meth path gv)
  then show ?thesis
    using assms(1) save_status [of now] by (auto simp: store_handleStatus_def Let_def split: prod.splits option.splits)
qed

lemma run_keeps_all:
  assumes "store_run sr ops (s, d) = (rs, s', d')" "keeps" "\<And>dec d. fst (sr_save_decision sr dec d)"
  shows "kept d' = kept d @ map norm (decisions_made ops s)"
  using assms(1)
proof (induction ops arbitrary: s d rs)
  case (Cons op ops)
  obtain r s1 d1 where one: "scale_op sr op (s, d) = (r, s1, d1)" by (metis prod_cases3)
  obtain rs' where rest: "store_run sr ops (s1, d1) = (rs', s', d')"
    using Cons.prems one by (auto split: prod.splits)
  show ?case
    using Cons.IH [OF rest] op_keeps_all [OF one assms(2,3)] op_scaler [OF one, of ops] by (simp del: decisions_made.simps)
qed simp

end

section \<open>The two providers\<close>

interpretation memory_log: decision_log memoryScaleStore "\<lambda>_. []" bson_decision False
  by unfold_locales simp_all

text \<open>What is relied on for \<open>InsertOne\<close>: \<open>entries\<close> has the documents of the collection, oldest first.\<close>

definition insert_ok :: "(scale_decision \<Rightarrow> 'l \<Rightarrow> bool \<times> 'l) \<Rightarrow> ('l \<Rightarrow> scale_decision list) \<Rightarrow> bool" where
  "insert_ok ins entries \<longleftrightarrow>
     (\<forall>dec l ok l'. ins dec l = (ok, l') \<longrightarrow> entries l' = entries l @ [dec] \<or> \<not> ok \<and> entries l' = entries l)"

lemma mongo_decision_log:
  assumes "insert_ok ins entries"
  shows "decision_log (mongoScaleStore mm ins ms) (\<lambda>(d, l, e). entries l) bson_decision True"
proof unfold_locales
  have ins: "ins dec l = (ok, l') \<Longrightarrow> entries l' = entries l @ [dec] \<or> \<not> ok \<and> entries l' = entries l" for dec l ok l'
    using assms unfolding insert_ok_def by blast
  fix dec x ok x'
  assume "sr_save_decision (mongoScaleStore mm ins ms) dec x = (ok, x')"
  then show "(\<lambda>(d, l, e). entries l) x' = (\<lambda>(d, l, e). entries l) x @ [bson_decision dec] \<or>
      (ok \<longrightarrow> \<not> True) \<and> (\<lambda>(d, l, e). entries l) x' = (\<lambda>(d, l, e). entries l) x"
    using ins by (cases x) (fastforce simp: mongoScaleStore_def SaveDecision_def split: prod.splits)
qed (auto simp: mongoScaleStore_def split: prod.splits)

text \<open>A collection that is a list.\<close>

definition list_insert :: "scale_decision \<Rightarrow> scale_decision list \<Rightarrow> bool \<times> scale_decision list" where
  "list_insert dec l = (True, l @ [dec])"

lemma list_insert_ok: "insert_ok list_insert (\<lambda>l. l)"
  by (simp add: insert_ok_def list_insert_def)

interpretation list_log: decision_log "mongoScaleStore mm list_insert ms" "\<lambda>(d, l, e). l" bson_decision True for mm ms
  by (rule mongo_decision_log [OF list_insert_ok])

section \<open>Properties\<close>

text \<open>The start and the operations on the database are those of Stores.\<close>

lemma store_start:
  "store_newScaler parse env (mongoScaleStore mm ins ms) (d, l, e) =
     map_option (\<lambda>y. (db_scaler y, db_metrics y, l, db_statuses y)) (start_scaler parse env mm ms d e)"
  by (simp add: store_newScaler_def start_scaler_def mongoScaleStore_def split: option.split)

lemma store_op_step:
  assumes "scale_op (mongoScaleStore mm ins ms) op (db_scaler y, db_metrics y, l, db_statuses y) = (r, s, d, l', e)"
  shows "db_scaler (scaler_step mm ms op y) = s \<and> db_metrics (scaler_step mm ms op y) = d \<and>
    db_statuses (scaler_step mm ms op y) = e"
  using assms
  by (cases op) (auto simp: store_handleMetrics_def store_evaluate_def store_handleStatus_def save_status_def mongoScaleStore_def handleMetrics_def
    Let_def split: prod.splits option.splits if_splits)

lemma store_run_step:
  assumes "store_run (mongoScaleStore mm ins ms) ops (db_scaler y, db_metrics y, l, db_statuses y) = (rs, s, d, l', e)"
  shows "db_scaler (fold (scaler_step mm ms) ops y) = s \<and> db_metrics (fold (scaler_step mm ms) ops y) = d \<and>
    db_statuses (fold (scaler_step mm ms) ops y) = e"
  using assms
proof (induction ops arbitrary: y l rs)
  case (Cons op ops)
  obtain r s1 d1 l1 e1 where one: "scale_op (mongoScaleStore mm ins ms) op (db_scaler y, db_metrics y, l, db_statuses y) = (r, s1, d1, l1, e1)"
    by (metis prod_cases5)
  let ?y = "scaler_step mm ms op y"
  have y: "db_scaler ?y = s1" "db_metrics ?y = d1" "db_statuses ?y = e1" using store_op_step [OF one] by simp_all
  obtain rs' where "store_run (mongoScaleStore mm ins ms) ops (s1, d1, l1, e1) = (rs', s, d, l', e)"
    using Cons.prems one by (auto split: prod.splits)
  then show ?case using Cons.IH [of ?y l1 rs'] by (simp add: y)
qed simp

lemma store_op_same:
  assumes "scale_op sr op (s, d) = (r, s', d')" "scale_op sr2 op (s, e) = (r2, s2, e')"
  shows "r2 = r \<and> s2 = s'"
  using assms
  by (cases op) (auto simp: store_handleMetrics_def store_evaluate_def store_handleStatus_def Let_def split: prod.splits option.splits if_splits)

lemma store_run_same:
  assumes "store_run sr ops (s, d) = (rs, s', d')" "store_run sr2 ops (s, e) = (rs2, s2, e')"
  shows "rs2 = rs \<and> s2 = s'"
  using assms
proof (induction ops arbitrary: s d e rs rs2)
  case (Cons op ops)
  obtain r s1 d1 where one: "scale_op sr op (s, d) = (r, s1, d1)" by (metis prod_cases3)
  obtain r' s1' e1 where two: "scale_op sr2 op (s, e) = (r', s1', e1)" by (metis prod_cases3)
  have same: "r' = r" "s1' = s1" using store_op_same [OF one two] by simp_all
  obtain ts where a: "store_run sr ops (s1, d1) = (ts, s', d')" "rs = r # ts" using Cons.prems(1) one by (auto split: prod.splits)
  obtain us where b: "store_run sr2 ops (s1, e1) = (us, s2, e')" "rs2 = r # us"
    using Cons.prems(2) two same by (auto split: prod.splits)
  show ?case using Cons.IH [OF a(1) b(1)] a(2) b(2) by simp
qed simp

text \<open>C28. The store never influences the scaler: with the database, whatever calls to it fail, every operation has
  the same result, the same call to the gateway and the same state as with the memory store. The database
  holds what Stores says, and the log of decisions grows by decisions that the evaluations made, each
  at most once and in their order; by all of them when no insertion fails.\<close>

theorem scaler_store_transparent:
  assumes "insert_ok ins entries"
    "store_run (mongoScaleStore mm ins ms) ops (db_scaler y, db_metrics y, l, db_statuses y) = (rs, s, d, l', e)"
    "store_run memoryScaleStore ops (db_scaler y, ()) = (rs', s', u)"
  shows "rs' = rs \<and> s' = s \<and>
    (let z = fold (scaler_step mm ms) ops y in db_scaler z = s \<and> db_metrics z = d \<and> db_statuses z = e) \<and>
    (\<exists>xs. entries l' = entries l @ xs \<and> subseq xs (map bson_decision (decisions_made ops (db_scaler y))) \<and>
       ((\<forall>dec l. fst (ins dec l)) \<longrightarrow> xs = map bson_decision (decisions_made ops (db_scaler y))))"
proof -
  note log = mongo_decision_log [OF assms(1), of mm ms]
  have "fst (sr_save_decision (mongoScaleStore mm ins ms) dec x)" if "\<forall>dec l. fst (ins dec l)" for dec x
    using that by (cases x) (simp add: mongoScaleStore_def SaveDecision_def case_prod_unfold)
  then have all: "(\<forall>dec l. fst (ins dec l)) \<longrightarrow> entries l' = entries l @ map bson_decision (decisions_made ops (db_scaler y))"
    using decision_log.run_keeps_all [OF log assms(2)] by simp
  show ?thesis
    using store_run_same [OF assms(2,3)] store_run_step [OF assms(2)] decision_log.run_keeps [OF log assms(2)] all
    by (auto simp: Let_def)
qed

theorem scaler_store_transparent_witness:
  "\<exists>rs s d l e. store_run (mongoScaleStore (list_mongo md_id) list_insert (list_mongo st_id))
       [OpEvaluate 7 \<lparr>gv_stats = Some (0, 0), gv_queued = Some 2, gv_ids = Some [], gv_ids_status = Some []\<rparr> ''f'']
       (sample_scaler, [], [], []) = (rs, s, d, l, e) \<and> map sd_func l = [''f'']"
proof -
  let ?gv = "\<lparr>gv_stats = Some (0, 0), gv_queued = Some 2, gv_ids = Some [], gv_ids_status = Some []\<rparr>"
  let ?ops = "[OpEvaluate 7 ?gv ''f'']"
  let ?y = "\<lparr>db_scaler = sample_scaler, db_metrics = [], db_statuses = [], db_metric_doubt = {}, db_status_doubt = {}\<rparr>
      :: (metric_document list, status_document list) scaler_db"
  obtain rs s d l e where r: "store_run (mongoScaleStore (list_mongo md_id) list_insert (list_mongo st_id)) ?ops
      (db_scaler ?y, db_metrics ?y, [], db_statuses ?y) = (rs, s, d, l, e)"
    by (metis prod_cases5)
  obtain rs' s' where m: "store_run memoryScaleStore ?ops (db_scaler ?y, ()) = (rs', s', ())" by (metis prod_cases3 old.unit.exhaust)
  have "l = map bson_decision (decisions_made ?ops sample_scaler)"
    using scaler_store_transparent [OF list_insert_ok r m] by (simp add: list_insert_def)
  moreover have "map sd_func (map bson_decision (decisions_made ?ops sample_scaler)) = [''f'']"
    by (simp add: evaluate_def scaler_status_def bson_decision_def Let_def split: prod.split)
  ultimately show ?thesis using r by auto
qed

end
